(* ===== verification/Prelude.thy ===== *)
theory Prelude
  imports Main "HOL-Library.Word" "HOL-Library.AList"
begin

text \<open>
  The shared vocabulary of the development: how a Go call is represented (a call that may
  panic, a call that may not return), the parts of the Go standard library that the sources
  use on strings, decimal numbers and error values, Go maps as association lists, and the
  generic lemmas and named theorem collections the component theories build on.
\<close>

named_theorems go_str \<open>rewrite rules for the Go string functions\<close>
named_theorems go_map \<open>rewrite rules for Go maps kept as association lists\<close>

section \<open>Outcomes of Go calls\<close>

text \<open>
  A call that can panic (index out of range, nil dereference) returns a \<open>go\<close> value. A call
  that may also run forever returns an \<open>option\<close> of it, \<open>None\<close> being "does not return".
\<close>

datatype 'a go = Ret 'a | Panic

fun go_bind :: "'a go \<Rightarrow> ('a \<Rightarrow> 'b go) \<Rightarrow> 'b go" where
  "go_bind (Ret a) f = f a"
| "go_bind Panic f = Panic"

lemma go_bind_Ret_iff: "go_bind x f = Ret r \<longleftrightarrow> (\<exists>a. x = Ret a \<and> f a = Ret r)"
  by (cases x) simp_all

text \<open>
  An \<open>error\<close> value, as far as the sources look at one: its message and the two
  classifications of the Kubernetes API they test, \<open>errors.IsNotFound\<close> and
  \<open>errors.IsInvalid\<close>.
\<close>

record go_error =
  Error :: string
  IsNotFound :: bool
  IsInvalid :: bool

text \<open>\<open>fmt.Errorf\<close>: an error with a message and no API classification.\<close>

definition Errorf :: "string \<Rightarrow> go_error" where
  "Errorf msg = \<lparr>Error = msg, IsNotFound = False, IsInvalid = False\<rparr>"

text \<open>\<open>client.IgnoreNotFound\<close>, used as a function of the error value.\<close>

definition IgnoreNotFound :: "go_error option \<Rightarrow> go_error option" where
  "IgnoreNotFound e = (case e of None \<Rightarrow> None | Some x \<Rightarrow> if IsNotFound x then None else Some x)"

text \<open>
  A string pointer that the code dereferences with a default, \<open>nil\<close> being \<open>None\<close>.
\<close>

type_synonym str_ptr = "string option"

section \<open>Strings\<close>

definition has_prefix :: "string \<Rightarrow> string \<Rightarrow> bool" where
  "has_prefix s p \<longleftrightarrow> length p \<le> length s \<and> take (length p) s = p"

definition has_suffix :: "string \<Rightarrow> string \<Rightarrow> bool" where
  "has_suffix s p \<longleftrightarrow> length p \<le> length s \<and> drop (length s - length p) s = p"

definition trim_prefix :: "string \<Rightarrow> string \<Rightarrow> string" where
  "trim_prefix s p = (if has_prefix s p then drop (length p) s else s)"

fun str_contains :: "string \<Rightarrow> string \<Rightarrow> bool" where
  "str_contains [] p = (p = [])"
| "str_contains (c # s) p = (has_prefix (c # s) p \<or> str_contains s p)"

text \<open>\<open>strings.Join\<close> and \<open>strings.Split\<close> with a separator of one character.\<close>

fun str_join :: "string \<Rightarrow> string list \<Rightarrow> string" where
  "str_join sep [] = []"
| "str_join sep [x] = x"
| "str_join sep (x # y # ys) = x @ sep @ str_join sep (y # ys)"

fun str_split :: "char \<Rightarrow> string \<Rightarrow> string list" where
  "str_split c [] = [[]]"
| "str_split c (x # xs) =
     (if x = c then [] # str_split c xs
      else case str_split c xs of [] \<Rightarrow> [[x]] | w # ws \<Rightarrow> (x # w) # ws)"

lemma has_suffix_single [go_str]:
  "has_suffix s [c] \<longleftrightarrow> s \<noteq> [] \<and> last s = c"
proof (cases s rule: rev_cases)
  case Nil
  then show ?thesis by (simp add: has_suffix_def)
next
  case (snoc ys y)
  then show ?thesis by (simp add: has_suffix_def)
qed

lemma has_prefix_append [simp, go_str]: "has_prefix (p @ s) p"
  by (simp add: has_prefix_def)

lemma trim_prefix_append [simp, go_str]: "trim_prefix (p @ s) p = s"
  by (simp add: trim_prefix_def)

lemma has_prefixE: "has_prefix s p \<Longrightarrow> (\<And>t. s = p @ t \<Longrightarrow> P) \<Longrightarrow> P"
  unfolding has_prefix_def by (metis append_take_drop_id)

lemma str_split_nonempty [simp]: "str_split c s \<noteq> []"
  by (induction s) (auto split: list.splits)

lemma str_join_split [go_str]: "str_join [c] (str_split c s) = s"
proof (induction s)
  case (Cons x s)
  obtain w ws where split: "str_split c s = w # ws"
    by (cases "str_split c s") auto
  show ?case
    using Cons.IH split by (cases ws) auto
qed simp

lemma str_split_no_sep: "w \<in> set (str_split c s) \<Longrightarrow> c \<notin> set w"
  by (induction s arbitrary: w) (auto split: list.splits if_splits)

lemma str_split_simple: "c \<notin> set s \<Longrightarrow> str_split c s = [s]"
  by (induction s) auto

lemma str_split_append: "c \<notin> set s \<Longrightarrow> str_split c (s @ c # t) = s # str_split c t"
  by (induction s) auto

text \<open>Splitting what was joined from separator-free parts gives the parts back.\<close>

lemma str_split_join [go_str]:
  "xs \<noteq> [] \<Longrightarrow> \<forall>x \<in> set xs. c \<notin> set x \<Longrightarrow> str_split c (str_join [c] xs) = xs"
  by (induction xs rule: induct_list012) (auto simp: str_split_simple str_split_append)

text \<open>Two strings with a separator each, split at the first one.\<close>

lemma append_sep_inject:
  assumes "c \<notin> set a" and "c \<notin> set b"
  shows "a @ c # x = b @ c # y \<longleftrightarrow> a = b \<and> x = y"
  using assms
proof (induction a arbitrary: b)
  case Nil
  then show ?case by (cases b) auto
next
  case (Cons z a)
  then show ?case by (cases b) auto
qed

section \<open>Decimal numbers\<close>

definition digit_of :: "nat \<Rightarrow> char" where
  "digit_of n = char_of (48 + n)"

fun show_nat :: "nat \<Rightarrow> string" where
  "show_nat n = (if n < 10 then [digit_of n] else show_nat (n div 10) @ [digit_of (n mod 10)])"

declare show_nat.simps [simp del]

abbreviation int_of_char :: "char \<Rightarrow> int" where "int_of_char c \<equiv> of_char c"

definition is_digit :: "char \<Rightarrow> bool" where
  "is_digit c \<longleftrightarrow> 48 \<le> int_of_char c \<and> int_of_char c \<le> 57"

definition digit_val :: "char \<Rightarrow> int" where
  "digit_val c = of_char c - 48"

fun digits_val :: "int \<Rightarrow> string \<Rightarrow> int option" where
  "digits_val acc [] = Some acc"
| "digits_val acc (c # cs) =
     (if is_digit c then digits_val (acc * 10 + digit_val c) cs else None)"

text \<open>
  \<open>strconv.ParseUint(s, 10, 64)\<close>: digits only, at least one of them, and a value below
  \<open>2 ^ 64\<close>; every other string is an error (\<open>None\<close>).
\<close>

definition parse_uint64 :: "string \<Rightarrow> int option" where
  "parse_uint64 s =
     (if s = [] then None
      else case digits_val 0 s of
             None \<Rightarrow> None | Some n \<Rightarrow> if n < 18446744073709551616 then Some n else None)"

lemma parse_uint64_bound: "parse_uint64 s = Some n \<Longrightarrow> n < 2 ^ 64"
  by (auto simp: parse_uint64_def split: option.splits if_splits)

text \<open>
  \<open>fmt\<close>'s \<open>%q\<close>: the string between double quotes, with the quote, the backslash and the
  control characters escaped. Bytes above 127 are kept, as they are in printable UTF-8 text.
\<close>

definition hex_digit :: "nat \<Rightarrow> char" where
  "hex_digit n = (if n < 10 then char_of (48 + n) else char_of (87 + n))"

definition quote_char :: "char \<Rightarrow> string" where
  "quote_char c =
     (let n = (of_char c :: nat)
      in if n = 34 \<or> n = 92 then [CHR 0x5C, c]
         else if n = 7 then [CHR 0x5C, CHR ''a''] else if n = 8 then [CHR 0x5C, CHR ''b'']
         else if n = 9 then [CHR 0x5C, CHR ''t''] else if n = 10 then [CHR 0x5C, CHR ''n'']
         else if n = 11 then [CHR 0x5C, CHR ''v''] else if n = 12 then [CHR 0x5C, CHR ''f'']
         else if n = 13 then [CHR 0x5C, CHR ''r'']
         else if n < 32 \<or> n = 127 then [CHR 0x5C, CHR ''x'', hex_digit (n div 16), hex_digit (n mod 16)]
         else [c])"

definition quote :: "string \<Rightarrow> string" where
  "quote s = [CHR 0x22] @ concat (map quote_char s) @ [CHR 0x22]"

section \<open>Error values joined\<close>

text \<open>
  \<open>errors.Join\<close> discards nil errors, is nil when nothing is left, and otherwise has the
  messages joined by newlines. Validation errors are only ever looked at through their
  message, so they are kept as \<open>string option\<close>.
\<close>

definition errors_Join :: "string option list \<Rightarrow> string option" where
  "errors_Join es =
     (case List.map_filter id es of [] \<Rightarrow> None | ms \<Rightarrow> Some (str_join [CHR 0x0A] ms))"

lemma errors_Join_None_iff [simp]: "errors_Join es = None \<longleftrightarrow> (\<forall>e \<in> set es. e = None)"
  by (induction es) (auto simp: errors_Join_def map_filter_simps split: option.splits list.splits)

section \<open>Go maps\<close>

text \<open>
  A Go map is an association list without duplicate keys: \<open>map_of\<close> reads it, \<open>update\<close> stores
  and \<open>delete\<close> removes a key. Go fixes no order for \<open>range\<close> over a map; a function that
  ranges over one takes an iteration order \<open>ord\<close>, of which only \<open>iteration_order\<close> is known.
\<close>

type_synonym ('k, 'v) go_map = "('k \<times> 'v) list"

definition iteration_order :: "('a list \<Rightarrow> 'a list) \<Rightarrow> bool" where
  "iteration_order ord \<longleftrightarrow> (\<forall>xs. set (ord xs) = set xs \<and> length (ord xs) = length xs)"

lemma iteration_order_set [simp]: "iteration_order ord \<Longrightarrow> set (ord xs) = set xs"
  by (simp add: iteration_order_def)

lemma iteration_order_id: "iteration_order (\<lambda>xs. xs)"
  by (simp add: iteration_order_def)

lemma iteration_order_rev: "iteration_order rev"
  by (simp add: iteration_order_def)

lemma map_of_update [go_map]: "map_of (AList.update k v m) = (map_of m)(k \<mapsto> v)"
  by (rule update_conv')

lemma map_of_delete [go_map]: "map_of (AList.delete k m) = (map_of m)(k := None)"
  by (rule delete_conv')

lemma distinct_keys_update [go_map]:
  "distinct (map fst m) \<Longrightarrow> distinct (map fst (AList.update k v m))"
  by (rule distinct_update)

lemma distinct_keys_delete [go_map]:
  "distinct (map fst m) \<Longrightarrow> distinct (map fst (AList.delete k m))"
  by (rule distinct_delete)

lemma set_update_subset: "set (AList.update k v m) \<subseteq> insert (k, v) (set m)"
  by (induction m) auto

lemma set_delete_subset: "set (AList.delete k m) \<subseteq> set m"
  by (auto simp: AList.delete_eq)

section \<open>Lists\<close>

lemma find_SomeD: "find P xs = Some x \<Longrightarrow> x \<in> set xs \<and> P x"
  by (induction xs) (auto split: if_splits)

lemma find_None_all: "find P xs = None \<Longrightarrow> x \<in> set xs \<Longrightarrow> \<not> P x"
  by (simp add: find_None_iff)

lemma foldl_invariant:
  "P a \<Longrightarrow> (\<And>a x. x \<in> set xs \<Longrightarrow> P a \<Longrightarrow> P (f a x)) \<Longrightarrow> P (foldl f a xs)"
  by (induction xs arbitrary: a) auto

text \<open>A loop that appends to a list.\<close>

lemma foldl_snoc: "foldl (\<lambda>q c. q @ [f c]) q xs = q @ map f xs"
  by (induction xs arbitrary: q) simp_all

end
