(* ===== verification/API_Types.thy ===== *)
theory API_Types
  imports Prelude
begin

text \<open>
  The objects of the two APIs: the custom resources \<open>HostedZone\<close> and \<open>CoreDNSEntry\<close> of
  api/coredns/v1alpha1 with their spec and status, and the answer documents of the REST
  server of api/server/v1. Every struct is a record with the fields of the Go struct, every
  optional pointer an \<open>option\<close>. Of the Kubernetes object metadata the fields that the
  sources read or write are kept; a deletion timestamp is an option, \<open>None\<close> being the zero
  time. The timestamp fields of a condition, which no source file reads, are left out.
\<close>

section \<open>Kubernetes metadata and conditions\<close>

type_synonym object_key = "string \<times> string" \<comment> \<open>namespace and name\<close>

abbreviation ok_Namespace :: "object_key \<Rightarrow> string" where "ok_Namespace \<equiv> fst"
abbreviation ok_Name :: "object_key \<Rightarrow> string" where "ok_Name \<equiv> snd"

record object_meta =
  om_Name :: string
  om_Namespace :: string
  om_ResourceVersion :: string
  om_Generation :: int
  om_DeletionTimestamp :: "nat option"
  om_Finalizers :: "string list"
  om_Annotations :: "(string, string) go_map"

datatype condition_status = ConditionTrue | ConditionFalse | ConditionUnknown

record condition =
  c_Type :: string
  c_Status :: condition_status
  c_Reason :: string
  c_Message :: string
  c_ObservedGeneration :: int

section \<open>CoreDNSEntry\<close>

record srv_record =
  srv_Protocol :: string
  srv_Priority :: int
  srv_Weight :: int
  srv_Port :: int
  srv_Host :: string

record service_spec =
  svc_Service :: string
  svc_Records :: "srv_record list"

record coredns_spec =
  es_ZoneRef :: string
  es_DNSNames :: "string list"
  es_TTL :: int
  es_A :: "string list"
  es_AAAA :: "string list"
  es_TXT :: "string list"
  es_SRV :: "service_spec option"
  es_CNAME :: string
  es_NS :: "string list"

record coredns_status =
  et_Conditions :: "condition list"
  et_State :: string
  et_Message :: string
  et_RootZone :: string
  et_EffectiveDomainNames :: "string list"

record coredns_entry =
  e_Meta :: object_meta
  e_Spec :: coredns_spec
  e_Status :: coredns_status

definition PROTO_TCP :: string where "PROTO_TCP = ''TCP''"
definition PROTO_UDP :: string where "PROTO_UDP = ''UPD''"
definition STATE_READY :: string where "STATE_READY = ''Ready''"
definition STATE_OK :: string where "STATE_OK = ''Ok''"

section \<open>HostedZone\<close>

record hosted_zone_spec =
  zs_Class :: str_ptr
  zs_Runtime :: str_ptr
  zs_DomainNames :: "string list"
  zs_EMail :: string
  zs_Refresh :: int
  zs_Retry :: int
  zs_Expire :: int
  zs_MinimumTTL :: int
  zs_ParentRef :: string

record observed =
  ob_Class :: string
  ob_Runtime :: string

record hosted_zone_status =
  zt_Conditions :: "condition list"
  zt_State :: string
  zt_Message :: string
  zt_NameServers :: "string list"
  zt_Observed :: "observed option"

record hosted_zone =
  z_Meta :: object_meta
  z_Spec :: hosted_zone_spec
  z_Status :: hosted_zone_status

text \<open>
  \<open>(*Observed).Equals\<close>: a nil receiver equals a nil argument only, otherwise
  \<open>reflect.DeepEqual\<close> of the two pointers, which for a nil argument is false and otherwise
  compares the fields.
\<close>

fun Observed_Equals :: "observed option \<Rightarrow> observed option \<Rightarrow> bool" where
  "Observed_Equals None other = (other = None)"
| "Observed_Equals (Some a) None = False"
| "Observed_Equals (Some a) (Some b) = (ob_Class a = ob_Class b \<and> ob_Runtime a = ob_Runtime b)"

lemma Observed_Equals_eq [simp]: "Observed_Equals a b \<longleftrightarrow> a = b"
  by (cases a; cases b) auto

abbreviation zone_name :: "hosted_zone \<Rightarrow> string" where
  "zone_name z \<equiv> om_Name (z_Meta z)"

abbreviation zone_namespace :: "hosted_zone \<Rightarrow> string" where
  "zone_namespace z \<equiv> om_Namespace (z_Meta z)"

abbreviation zone_parent :: "hosted_zone \<Rightarrow> string" where
  "zone_parent z \<equiv> zs_ParentRef (z_Spec z)"

abbreviation entry_name :: "coredns_entry \<Rightarrow> string" where
  "entry_name e \<equiv> om_Name (e_Meta e)"

abbreviation entry_namespace :: "coredns_entry \<Rightarrow> string" where
  "entry_namespace e \<equiv> om_Namespace (e_Meta e)"

section \<open>Zero values\<close>

text \<open>The zero values of the Go structs, and objects that set a few of the fields.\<close>

definition zero_meta :: object_meta where
  "zero_meta = \<lparr>om_Name = [], om_Namespace = [], om_ResourceVersion = [], om_Generation = 0,
     om_DeletionTimestamp = None, om_Finalizers = [], om_Annotations = []\<rparr>"

definition zero_entry_spec :: coredns_spec where
  "zero_entry_spec = \<lparr>es_ZoneRef = [], es_DNSNames = [], es_TTL = 0, es_A = [], es_AAAA = [],
     es_TXT = [], es_SRV = None, es_CNAME = [], es_NS = []\<rparr>"

definition zero_entry_status :: coredns_status where
  "zero_entry_status = \<lparr>et_Conditions = [], et_State = [], et_Message = [], et_RootZone = [],
     et_EffectiveDomainNames = []\<rparr>"

definition zero_zone_spec :: hosted_zone_spec where
  "zero_zone_spec = \<lparr>zs_Class = None, zs_Runtime = None, zs_DomainNames = [], zs_EMail = [],
     zs_Refresh = 0, zs_Retry = 0, zs_Expire = 0, zs_MinimumTTL = 0, zs_ParentRef = []\<rparr>"

definition zero_zone_status :: hosted_zone_status where
  "zero_zone_status = \<lparr>zt_Conditions = [], zt_State = [], zt_Message = [], zt_NameServers = [],
     zt_Observed = None\<rparr>"

definition zero_zone :: hosted_zone where
  "zero_zone = \<lparr>z_Meta = zero_meta, z_Spec = zero_zone_spec, z_Status = zero_zone_status\<rparr>"

definition zero_entry :: coredns_entry where
  "zero_entry = \<lparr>e_Meta = zero_meta, e_Spec = zero_entry_spec, e_Status = zero_entry_status\<rparr>"

lemmas zero_defs = zero_meta_def zero_entry_spec_def zero_entry_status_def zero_zone_spec_def
  zero_zone_status_def zero_zone_def zero_entry_def

definition named :: "string \<Rightarrow> string \<Rightarrow> object_meta" where
  "named namespace name = zero_meta\<lparr>om_Namespace := namespace, om_Name := name\<rparr>"

text \<open>The annotations of an object; a missing one reads as the empty string.\<close>

definition get_annotation :: "string \<Rightarrow> object_meta \<Rightarrow> string" where
  "get_annotation k m = (case map_of (om_Annotations m) k of None \<Rightarrow> [] | Some v \<Rightarrow> v)"

definition set_annotation :: "string \<Rightarrow> string \<Rightarrow> object_meta \<Rightarrow> object_meta" where
  "set_annotation k v m = m\<lparr>om_Annotations := AList.update k v (om_Annotations m)\<rparr>"

section \<open>Condition types and reasons\<close>

definition ValidationConditionType :: string where "ValidationConditionType = ''Validation''"
definition ReasonConfigurarationValid :: string where "ReasonConfigurarationValid = ''ConfigurationValid''"
definition ReasonConfigurarationInvalid :: string where "ReasonConfigurarationInvalid = ''ConfigurationInvalid''"
definition ReasonDomainNameMissing :: string where "ReasonDomainNameMissing = ''DomainNameMissing''"
definition ReasonEMailMissing :: string where "ReasonEMailMissing = ''EMailMissing''"
definition ReasonEMailInvalid :: string where "ReasonEMailInvalid = ''EMailInvalid''"
definition ReasonExpireMissing :: string where "ReasonExpireMissing = ''ExpireMissing''"
definition ReasonTTLMissing :: string where "ReasonTTLMissing = ''TTLMissing''"
definition ReasonInvalidParent :: string where "ReasonInvalidParent = ''InvalidParent''"
definition ReasonInvalidNesting :: string where "ReasonInvalidNesting = ''InvalidNesting''"
definition RuntimeConditionType :: string where "RuntimeConditionType = ''Runtime''"
definition ReasonUpdateFailed :: string where "ReasonUpdateFailed = ''UpdateFailed''"
definition ReasonRuntimeUnavailable :: string where "ReasonRuntimeUnavailable = ''RuntimeUnavailable''"
definition ReasonRuntimeInternalError :: string where "ReasonRuntimeInternalError = ''InternalProblem''"
definition ReasonRuntimeDeploying :: string where "ReasonRuntimeDeploying = ''RuntimeDeploying''"
definition ReasonRuntimeAvailable :: string where "ReasonRuntimeAvailable = ''RuntimeAvailable''"
definition ServerConditionType :: string where "ServerConditionType = ''DNSServer''"
definition ReasonServerActive :: string where "ReasonServerActive = ''HostedZoneActive''"
definition ReasonServerValidationFailure :: string where "ReasonServerValidationFailure = ''ValidationFailed''"
definition NameserverConditionType :: string where "NameserverConditionType = ''Nameserver''"
definition ReasonNameserverAvailable :: string where "ReasonNameserverAvailable = ''NameserverAvailable''"
definition ReasonNameserverPending :: string where "ReasonNameserverPending = ''NameserverPending''"

lemmas condition_type_defs =
  ValidationConditionType_def RuntimeConditionType_def ServerConditionType_def
  NameserverConditionType_def

section \<open>Answer documents of the REST server\<close>

record api_zone =
  az_SerialId :: "32 word"
  az_NameServers :: "string list"
  az_Names :: "string list"
  az_EMail :: string
  az_MinimumTTL :: int
  az_Expire :: int
  az_Refresh :: int
  az_Retry :: int

record api_records =
  ar_TTL :: int
  ar_A :: "string list"
  ar_AAAA :: "string list"
  ar_TXT :: "string list"
  ar_SRV :: "service_spec list"
  ar_CNAME :: string
  ar_NS :: "string list"

record api_info =
  ai_Zone :: api_zone
  ai_Names :: "string list"
  ai_Records :: api_records

text \<open>An answer is the error document or the list of infos.\<close>

record api_answer =
  an_Error :: string
  an_Infos :: "api_info list"

end
