(* ===== verification/Externals.thy ===== *)
theory Externals
  imports API_Types
begin

text \<open>
  The code outside the repository that the sources call, as parameters of the model: the
  package miekg/dns (\<open>dns_lib\<close>), and the Kubernetes and kubecrtutils packages (\<open>ext\<close>) with the
  status condition helpers, the finalizer helpers, the reconcile problems and the name
  generators. A reconcile problem is an abstract value of the type parameter \<open>'p\<close>; only the
  constructors and observers the sources call are known of it. What a theorem relies on is
  one of the named hypotheses below, which state documented behaviour. The instances
  \<open>ref_dns\<close> and \<open>ref_ext\<close> show that the hypotheses can hold together and are what the
  witnesses evaluate; the model itself never uses them.
\<close>

section \<open>miekg/dns\<close>

record dns_lib =
  dns_Fqdn :: "string \<Rightarrow> string"
  dns_IsSubDomain :: "string \<Rightarrow> string \<Rightarrow> bool"
  dns_SplitDomainName :: "string \<Rightarrow> string list"
  dns_IsDomainName :: "string \<Rightarrow> bool"

definition to_lower :: "char \<Rightarrow> char" where
  "to_lower c = (if 65 \<le> int_of_char c \<and> int_of_char c \<le> 90 then char_of (int_of_char c + 32) else c)"

definition lower :: "string \<Rightarrow> string" where
  "lower s = map to_lower s"

lemma length_lower [simp]: "length (lower s) = length s"
  by (simp add: lower_def)

lemma lower_eq_Nil [simp]: "lower s = [] \<longleftrightarrow> s = []"
  by (simp add: lower_def)

text \<open>A name without the escape character of the presentation format.\<close>

definition plain :: "string \<Rightarrow> bool" where
  "plain s \<longleftrightarrow> CHR 0x5C \<notin> set s"

definition ends_dot :: "string \<Rightarrow> bool" where
  "ends_dot s \<longleftrightarrow> s \<noteq> [] \<and> last s = CHR ''.''"

text \<open>\<open>Fqdn\<close> appends the root dot unless the name has one already.\<close>

definition fqdn_law :: "dns_lib \<Rightarrow> bool" where
  "fqdn_law D \<longleftrightarrow> (\<forall>s. plain s \<longrightarrow> dns_Fqdn D s = (if ends_dot s then s else s @ ''.''))"

lemma fqdn_lawD: "fqdn_law D \<Longrightarrow> plain s \<Longrightarrow> dns_Fqdn D s = (if ends_dot s then s else s @ ''.'')"
  by (simp add: fqdn_law_def)

lemma Fqdn_nonempty: "fqdn_law D \<Longrightarrow> plain s \<Longrightarrow> dns_Fqdn D s \<noteq> []"
  by (auto simp: fqdn_lawD ends_dot_def)

lemma Fqdn_ends_dot: "fqdn_law D \<Longrightarrow> plain s \<Longrightarrow> ends_dot (dns_Fqdn D s)"
  by (auto simp: fqdn_lawD ends_dot_def)

lemma plain_append [simp]: "plain (s @ t) \<longleftrightarrow> plain s \<and> plain t"
  by (auto simp: plain_def)

lemma plain_Cons [simp]: "plain (c # t) \<longleftrightarrow> c \<noteq> CHR 0x5C \<and> plain t"
  by (auto simp: plain_def)

lemma plain_Nil [simp]: "plain []"
  by (simp add: plain_def)

lemma plain_Fqdn: "fqdn_law D \<Longrightarrow> plain s \<Longrightarrow> plain (dns_Fqdn D s)"
  by (auto simp: fqdn_lawD)

definition dotted :: "string \<Rightarrow> string" where
  "dotted s = (if ends_dot s then s else s @ ''.'')"

lemma dotted_ends_dot [simp]: "ends_dot (dotted s)"
  by (simp add: dotted_def ends_dot_def)

lemma Fqdn_dotted: "fqdn_law D \<Longrightarrow> plain s \<Longrightarrow> dns_Fqdn D s = dotted s"
  by (simp add: fqdn_lawD dotted_def)

text \<open>
  \<open>IsSubDomain parent child\<close> compares both names in their fully qualified form: it holds only
  if the parent is, up to the case of letters, the end of the child at a label boundary (the
  root, which is a parent of every name, is left out).
\<close>

definition subdomain_law :: "dns_lib \<Rightarrow> bool" where
  "subdomain_law D \<longleftrightarrow>
     (\<forall>p c. plain p \<longrightarrow> plain c \<longrightarrow> p \<noteq> ''.'' \<longrightarrow> dns_IsSubDomain D p c \<longrightarrow>
        (\<exists>q. lower (dotted c) = q @ lower (dotted p) \<and> (q = [] \<or> last q = CHR ''.'')))"

text \<open>
  \<open>SplitDomainName\<close> gives the labels between the dots of a relative name, none for the empty
  name.
\<close>

definition split_law :: "dns_lib \<Rightarrow> bool" where
  "split_law D \<longleftrightarrow>
     dns_SplitDomainName D [] = [] \<and>
     (\<forall>s. plain s \<longrightarrow> s \<noteq> [] \<longrightarrow> \<not> ends_dot s \<longrightarrow>
        dns_SplitDomainName D s = str_split (CHR ''.'') s)"

definition dns_laws :: "dns_lib \<Rightarrow> bool" where
  "dns_laws D \<longleftrightarrow> fqdn_law D \<and> subdomain_law D \<and> split_law D"

definition ends_with_labels :: "string \<Rightarrow> string \<Rightarrow> bool" where
  "ends_with_labels c p \<longleftrightarrow>
     length p \<le> length c \<and> drop (length c - length p) c = p \<and>
     (length p = length c \<or> c ! (length c - length p - 1) = CHR ''.'')"

lemma ends_with_labelsD:
  assumes "ends_with_labels c p"
  shows "\<exists>q. c = q @ p \<and> (q = [] \<or> last q = CHR ''.'')"
proof -
  let ?q = "take (length c - length p) c"
  from assms have len: "length p \<le> length c" and drop: "drop (length c - length p) c = p"
    and dot: "length p = length c \<or> c ! (length c - length p - 1) = CHR ''.''"
    by (auto simp: ends_with_labels_def)
  have "c = ?q @ p"
    using append_take_drop_id [of "length c - length p" c] drop by simp
  moreover have "?q = [] \<or> last ?q = CHR ''.''"
  proof (cases "length p = length c")
    case False
    with len have pos: "0 < length c - length p" and "?q \<noteq> []"
      and "length ?q = length c - length p" by auto
    then have "last ?q = ?q ! (length c - length p - 1)"
      by (metis last_conv_nth)
    also have "\<dots> = c ! (length c - length p - 1)"
      using pos by (intro nth_take) simp
    finally show ?thesis using False dot by simp
  qed simp
  ultimately show ?thesis by blast
qed

definition ref_dns :: dns_lib where
  "ref_dns =
     \<lparr>dns_Fqdn = (\<lambda>s. if ends_dot s then s else s @ ''.''),
      dns_IsSubDomain = (\<lambda>p c. p = ''.'' \<or> p \<noteq> [] \<and> ends_with_labels (lower (dotted c)) (lower (dotted p))),
      dns_SplitDomainName = (\<lambda>s. if s = [] then [] else str_split (CHR ''.'') s),
      dns_IsDomainName = (\<lambda>s. s \<noteq> [] \<and> length s \<le> 255)\<rparr>"

lemma ref_dns_laws: "dns_laws ref_dns"
  by (auto simp: dns_laws_def fqdn_law_def subdomain_law_def split_law_def ref_dns_def
        dest: ends_with_labelsD)

section \<open>Kubernetes and kubecrtutils\<close>

record 'p ext =
  x_Failed :: "go_error \<Rightarrow> 'p"
  x_Failedf :: "string \<Rightarrow> 'p"
  x_TemporaryProblem :: "go_error option \<Rightarrow> 'p option"
  x_TemporaryProblemf :: "string \<Rightarrow> 'p"
  x_Requeuef :: "string \<Rightarrow> 'p"
  x_WatchBackedProblem :: "go_error \<Rightarrow> 'p"
  x_WatchBackedProblemf :: "string \<Rightarrow> 'p"
  x_Succeeded :: "'p option"
  x_AggregateProblem :: "'p option \<Rightarrow> 'p option \<Rightarrow> 'p option"
  x_Message :: "'p \<Rightarrow> string"
  x_ErrorOf :: "'p \<Rightarrow> go_error option"
  x_Requeue :: "'p \<Rightarrow> bool"
  x_FindStatusCondition :: "condition list \<Rightarrow> string \<Rightarrow> condition option"
  x_SetStatusCondition :: "condition list \<Rightarrow> condition \<Rightarrow> condition list \<times> bool"
  x_RemoveStatusCondition :: "condition list \<Rightarrow> string \<Rightarrow> condition list"
  x_ContainsFinalizer :: "object_meta \<Rightarrow> string \<Rightarrow> bool"
  x_AddFinalizer :: "object_meta \<Rightarrow> string \<Rightarrow> object_meta \<times> bool"
  x_RemoveFinalizer :: "object_meta \<Rightarrow> string \<Rightarrow> object_meta \<times> bool"
  x_RefObjectKeyFor :: "string \<Rightarrow> string \<Rightarrow> object_key"
  x_GenerateUniqueName :: "string \<Rightarrow> string \<Rightarrow> string \<Rightarrow> string \<Rightarrow> nat \<Rightarrow> string"
  x_MAX_NAMELEN :: nat
  x_MAX_NAMESPACELEN :: nat
  x_ParseAddress :: "string \<Rightarrow> go_error option"

text \<open>The condition of a type in a list, as the documentation of \<open>FindStatusCondition\<close> has it.\<close>

abbreviation cond_of :: "condition list \<Rightarrow> string \<Rightarrow> condition option" where
  "cond_of cs t \<equiv> find (\<lambda>c. c_Type c = t) cs"

text \<open>
  The status condition helpers: finding by type, storing (the stored condition is found
  under its type, the others are kept, the flag tells whether anything changed), and
  removing by type; storing a condition that is there already changes nothing.
\<close>

definition condition_laws :: "'p ext \<Rightarrow> bool" where
  "condition_laws E \<longleftrightarrow>
     (\<forall>cs t. x_FindStatusCondition E cs t = cond_of cs t) \<and>
     (\<forall>cs c t. cond_of (fst (x_SetStatusCondition E cs c)) t =
        (if t = c_Type c then Some c else cond_of cs t)) \<and>
     (\<forall>cs c. snd (x_SetStatusCondition E cs c) \<longleftrightarrow> cond_of cs (c_Type c) \<noteq> Some c) \<and>
     (\<forall>cs c. cond_of cs (c_Type c) = Some c \<longrightarrow> fst (x_SetStatusCondition E cs c) = cs) \<and>
     (\<forall>cs t u. cond_of (x_RemoveStatusCondition E cs t) u =
        (if u = t then None else cond_of cs u))"

lemma condition_lawsD:
  assumes "condition_laws E"
  shows Find_eq: "x_FindStatusCondition E cs t = cond_of cs t"
    and Set_eq: "cond_of (fst (x_SetStatusCondition E cs c)) t =
      (if t = c_Type c then Some c else cond_of cs t)"
    and Set_changed: "snd (x_SetStatusCondition E cs c) \<longleftrightarrow> cond_of cs (c_Type c) \<noteq> Some c"
    and Set_same: "cond_of cs (c_Type c) = Some c \<Longrightarrow> fst (x_SetStatusCondition E cs c) = cs"
    and Remove_eq: "cond_of (x_RemoveStatusCondition E cs t) u = (if u = t then None else cond_of cs u)"
  using assms by (simp_all add: condition_laws_def)

text \<open>The finalizer helpers work on the finalizer list of the metadata and nothing else.\<close>

definition finalizer_laws :: "'p ext \<Rightarrow> bool" where
  "finalizer_laws E \<longleftrightarrow>
     (\<forall>m f. x_ContainsFinalizer E m f \<longleftrightarrow> f \<in> set (om_Finalizers m)) \<and>
     (\<forall>m f. x_AddFinalizer E m f =
        (if f \<in> set (om_Finalizers m) then (m, False)
         else (m\<lparr>om_Finalizers := om_Finalizers m @ [f]\<rparr>, True))) \<and>
     (\<forall>m f. x_RemoveFinalizer E m f =
        (if f \<in> set (om_Finalizers m)
         then (m\<lparr>om_Finalizers := filter (\<lambda>g. g \<noteq> f) (om_Finalizers m)\<rparr>, True)
         else (m, False)))"

lemma finalizer_lawsD:
  assumes "finalizer_laws E"
  shows Contains_eq: "x_ContainsFinalizer E m f \<longleftrightarrow> f \<in> set (om_Finalizers m)"
    and Add_eq: "x_AddFinalizer E m f =
        (if f \<in> set (om_Finalizers m) then (m, False)
         else (m\<lparr>om_Finalizers := om_Finalizers m @ [f]\<rparr>, True))"
    and RemoveFin_eq: "x_RemoveFinalizer E m f =
        (if f \<in> set (om_Finalizers m)
         then (m\<lparr>om_Finalizers := filter (\<lambda>g. g \<noteq> f) (om_Finalizers m)\<rparr>, True)
         else (m, False))"
  using assms by (simp_all add: finalizer_laws_def)

text \<open>
  The problems: no problem for no error, a problem for an error, and an aggregation that is
  empty only if both parts are. A permanent failure carries its message and its error.
\<close>

definition problem_laws :: "'p ext \<Rightarrow> bool" where
  "problem_laws E \<longleftrightarrow>
     x_TemporaryProblem E None = None \<and>
     (\<forall>e. x_TemporaryProblem E (Some e) \<noteq> None) \<and>
     x_Succeeded E = None \<and>
     (\<forall>p q. x_AggregateProblem E p q = None \<longleftrightarrow> p = None \<and> q = None) \<and>
     (\<forall>m. x_Message E (x_Failedf E m) = m) \<and>
     (\<forall>m. map_option Error (x_ErrorOf E (x_Failedf E m)) = Some m) \<and>
     (\<forall>m. \<not> x_Requeue E (x_Failedf E m))"

lemma problem_lawsD:
  assumes "problem_laws E"
  shows Temp_None: "x_TemporaryProblem E None = None"
    and Temp_Some: "x_TemporaryProblem E (Some e) \<noteq> None"
    and Succ_None: "x_Succeeded E = None"
    and Aggr_None: "x_AggregateProblem E p q = None \<longleftrightarrow> p = None \<and> q = None"
    and Failedf_Message: "x_Message E (x_Failedf E m) = m"
    and Failedf_Error: "map_option Error (x_ErrorOf E (x_Failedf E m)) = Some m"
    and Failedf_Requeue: "\<not> x_Requeue E (x_Failedf E m)"
  using assms by (simp_all add: problem_laws_def)

text \<open>The key of an object referenced by name: the namespace of the referrer and the name.\<close>

definition refkey_law :: "'p ext \<Rightarrow> bool" where
  "refkey_law E \<longleftrightarrow> (\<forall>ns n. x_RefObjectKeyFor E ns n = (ns, n))"

lemma refkey_lawD: "refkey_law E \<Longrightarrow> x_RefObjectKeyFor E ns n = (ns, n)"
  by (simp add: refkey_law_def)

section \<open>An instance of the hypotheses\<close>

fun ref_set_cond :: "condition list \<Rightarrow> condition \<Rightarrow> condition list" where
  "ref_set_cond [] c = [c]"
| "ref_set_cond (d # ds) c = (if c_Type d = c_Type c then c # ds else d # ref_set_cond ds c)"

lemma cond_of_ref_set: "cond_of (ref_set_cond cs c) t = (if t = c_Type c then Some c else cond_of cs t)"
  by (induction cs) auto

lemma ref_set_same: "cond_of cs (c_Type c) = Some c \<Longrightarrow> ref_set_cond cs c = cs"
  by (induction cs) (auto split: if_splits)

lemma cond_of_filter: "cond_of (filter (\<lambda>c. c_Type c \<noteq> t) cs) u = (if u = t then None else cond_of cs u)"
  by (induction cs) auto

text \<open>A problem of the instance is a kind, a message and an error.\<close>

type_synonym ref_problem = "nat \<times> string"

definition ref_ext :: "ref_problem ext" where
  "ref_ext =
     \<lparr>x_Failed = (\<lambda>e. (0, Error e)),
      x_Failedf = (\<lambda>m. (0, m)),
      x_TemporaryProblem = map_option (\<lambda>e. (1, Error e)),
      x_TemporaryProblemf = (\<lambda>m. (1, m)),
      x_Requeuef = (\<lambda>m. (2, m)),
      x_WatchBackedProblem = (\<lambda>e. (3, Error e)),
      x_WatchBackedProblemf = (\<lambda>m. (3, m)),
      x_Succeeded = None,
      x_AggregateProblem = (\<lambda>p q. case p of None \<Rightarrow> q | Some _ \<Rightarrow> p),
      x_Message = snd,
      x_ErrorOf = (\<lambda>p. if fst p = 0 \<or> fst p = 1 then Some (Errorf (snd p)) else None),
      x_Requeue = (\<lambda>p. fst p = 1 \<or> fst p = 2),
      x_FindStatusCondition = cond_of,
      x_SetStatusCondition = (\<lambda>cs c. (ref_set_cond cs c, cond_of cs (c_Type c) \<noteq> Some c)),
      x_RemoveStatusCondition = (\<lambda>cs t. filter (\<lambda>c. c_Type c \<noteq> t) cs),
      x_ContainsFinalizer = (\<lambda>m f. f \<in> set (om_Finalizers m)),
      x_AddFinalizer = (\<lambda>m f. if f \<in> set (om_Finalizers m) then (m, False)
         else (m\<lparr>om_Finalizers := om_Finalizers m @ [f]\<rparr>, True)),
      x_RemoveFinalizer = (\<lambda>m f. if f \<in> set (om_Finalizers m)
         then (m\<lparr>om_Finalizers := filter (\<lambda>g. g \<noteq> f) (om_Finalizers m)\<rparr>, True) else (m, False)),
      x_RefObjectKeyFor = (\<lambda>ns n. (ns, n)),
      x_GenerateUniqueName = (\<lambda>b c n k l. str_join ''-'' [b, c, n, k]),
      x_MAX_NAMELEN = 253,
      x_MAX_NAMESPACELEN = 63,
      x_ParseAddress = (\<lambda>s. if CHR ''@'' \<in> set s then None else Some (Errorf ''mail: missing @''))\<rparr>"

lemma ref_condition_laws: "condition_laws ref_ext"
  unfolding condition_laws_def ref_ext_def
  by (simp add: cond_of_ref_set ref_set_same cond_of_filter del: find_None_iff find_Some_iff)

lemma ref_finalizer_laws: "finalizer_laws ref_ext"
  by (simp add: finalizer_laws_def ref_ext_def)

lemma ref_problem_laws: "problem_laws ref_ext"
  by (auto simp: problem_laws_def ref_ext_def Errorf_def split: option.splits)

lemma ref_refkey_law: "refkey_law ref_ext"
  by (simp add: refkey_law_def ref_ext_def)

lemmas ref_laws = ref_condition_laws ref_finalizer_laws ref_problem_laws ref_refkey_law ref_dns_laws

end
