(* ===== verification/Zone_Names.thy ===== *)
theory Zone_Names
  imports Externals
begin

text \<open>
  Domain names and zone keys of the server's zone model
  (internal/controller/server/zonemodel/util.go and the key part of model.go): \<open>Rdn\<close> and
  \<open>Join\<close>, the zone keys, the index key of a relative name, and \<open>expand\<close>, the cartesian
  product of names and suffixes.
\<close>

section \<open>Rdn and Join\<close>

function Rdn :: "string \<Rightarrow> string" where
  "Rdn name = (if has_suffix name ''.'' then Rdn (take (length name - 1) name) else name)"
  by pat_completeness auto
termination
  by (relation "measure length") (auto simp: has_suffix_single)

declare Rdn.simps [simp del]

text \<open>
  \<open>Join\<close> drops the empty labels at the end; with no label left, the test of the last label
  reads index \<open>-1\<close> and panics.
\<close>

function drop_empty_end :: "string list \<Rightarrow> string list" where
  "drop_empty_end labels =
     (if labels \<noteq> [] \<and> last labels = [] then drop_empty_end (take (length labels - 1) labels)
      else labels)"
  by pat_completeness auto
termination
  by (relation "measure length") auto

declare drop_empty_end.simps [simp del]

definition Join :: "dns_lib \<Rightarrow> string list \<Rightarrow> string go" where
  "Join D labels =
     (let ls = drop_empty_end labels
      in if ls = [] then Panic
         else if last ls = ''.'' then Ret (str_join ''.'' (take (length ls - 1) ls) @ ''.'')
         else Ret (dns_Fqdn D (str_join ''.'' ls)))"

lemma Rdn_Nil [simp]: "Rdn [] = []"
  by (subst Rdn.simps) (simp add: has_suffix_single)

lemma Rdn_snoc_dot [simp]: "Rdn (s @ ''.'') = Rdn s"
  by (subst Rdn.simps) (simp add: has_suffix_single)

lemma Rdn_id: "\<not> ends_dot s \<Longrightarrow> Rdn s = s"
  by (subst Rdn.simps) (auto simp: has_suffix_single ends_dot_def)

lemma Rdn_decompose: "\<exists>n. s = Rdn s @ replicate n (CHR ''.'') \<and> \<not> ends_dot (Rdn s)"
proof (induction s rule: rev_induct)
  case Nil
  then show ?case by (simp add: ends_dot_def)
next
  case (snoc x s)
  show ?case
  proof (cases "x = CHR ''.''")
    case True
    from snoc obtain n where n: "s = Rdn s @ replicate n (CHR ''.'')" and e: "\<not> ends_dot (Rdn s)"
      by blast
    have "s @ [x] = Rdn (s @ [x]) @ replicate (Suc n) (CHR ''.'')"
      using True n by (simp add: replicate_append_same [symmetric])
    with e True show ?thesis by (metis Rdn_snoc_dot)
  next
    case False
    then have "\<not> ends_dot (s @ [x])" by (simp add: ends_dot_def)
    then show ?thesis by (intro exI [of _ 0]) (simp add: Rdn_id)
  qed
qed

lemma Rdn_no_dot [simp]: "\<not> ends_dot (Rdn s)"
  using Rdn_decompose by blast

lemma Rdn_idem [simp]: "Rdn (Rdn s) = Rdn s"
  by (simp add: Rdn_id)

lemma length_Rdn_le: "length (Rdn s) \<le> length s"
  using Rdn_decompose [of s] by (metis le_add1 length_append)

lemma set_Rdn_subset: "set (Rdn s) \<subseteq> set s"
  using Rdn_decompose [of s] by (metis set_append Un_upper1)

lemma plain_Rdn: "plain s \<Longrightarrow> plain (Rdn s)"
  using set_Rdn_subset by (auto simp: plain_def)

lemma drop_empty_end_Nil [simp]: "drop_empty_end [] = []"
  by (simp add: drop_empty_end.simps)

lemma drop_empty_end_snoc [simp]:
  "drop_empty_end (ls @ [l]) = (if l = [] then drop_empty_end ls else ls @ [l])"
  by (simp add: drop_empty_end.simps [of "ls @ [l]"])

lemma drop_empty_end_one [simp]: "drop_empty_end [l] = (if l = [] then [] else [l])"
  using drop_empty_end_snoc [of "[]" l] by simp

lemma drop_empty_end_two [simp]:
  "drop_empty_end [l, k] = (if k = [] then if l = [] then [] else [l] else [l, k])"
  using drop_empty_end_snoc [of "[l]" k] by simp

lemma drop_empty_end_eq_Nil: "drop_empty_end ls = [] \<longleftrightarrow> (\<forall>l \<in> set ls. l = [])"
  by (induction ls rule: rev_induct) auto

text \<open>\<open>Join\<close> panics exactly when every label is empty.\<close>

lemma Join_Panic_iff: "Join D ls = Panic \<longleftrightarrow> (\<forall>l \<in> set ls. l = [])"
  by (simp add: Join_def Let_def drop_empty_end_eq_Nil [symmetric])

text \<open>The two shapes in which the zone model calls it.\<close>

lemma Join_root: "Join D [z, []] = (if z = [] then Panic else if z = ''.'' then Ret ''.'' else Ret (dns_Fqdn D z))"
  by (simp add: Join_def Let_def)

lemma Join_cons: "k \<noteq> [] \<Longrightarrow> k \<noteq> ''.'' \<Longrightarrow> Join D [l, k] = Ret (dns_Fqdn D (l @ ''.'' @ k))"
  by (simp add: Join_def Let_def)

lemma Join_cons_dot: "Join D [l, ''.''] = Ret (l @ ''.'')"
  by (simp add: Join_def Let_def)

lemma Join_pair_Ret:
  "Join D [l, k] = Ret r \<Longrightarrow>
   (k = ''.'' \<and> r = l @ ''.'') \<or> (k = [] \<and> l = ''.'' \<and> r = ''.'') \<or>
   (k = [] \<and> l \<noteq> [] \<and> r = dns_Fqdn D l) \<or> (k \<noteq> [] \<and> r = dns_Fqdn D (l @ ''.'' @ k))"
  by (auto simp: Join_def Let_def split: if_splits)

lemma Join_pair_props:
  assumes law: "fqdn_law D" and "plain l" "plain k" and join: "Join D [l, k] = Ret r"
  shows "r \<noteq> [] \<and> plain r \<and> ends_dot r"
  using Join_pair_Ret [OF join] assms Fqdn_nonempty [OF law] plain_Fqdn [OF law] Fqdn_ends_dot [OF law]
  by (auto simp: ends_dot_def)

section \<open>Zone keys\<close>

record zone_key =
  zk_ClusterName :: string
  zk_Namespace :: string
  zk_Name :: string

definition NewZoneKey :: "string \<Rightarrow> string \<Rightarrow> string \<Rightarrow> zone_key" where
  "NewZoneKey clusterName namespace name =
     \<lparr>zk_ClusterName = clusterName, zk_Namespace = namespace, zk_Name = name\<rparr>"

definition ZoneKeyFromObject :: "string \<Rightarrow> object_meta \<Rightarrow> zone_key" where
  "ZoneKeyFromObject c obj =
     \<lparr>zk_ClusterName = c, zk_Namespace = om_Namespace obj, zk_Name = om_Name obj\<rparr>"

definition ZoneRefKeyFromObject :: "string \<Rightarrow> object_meta \<Rightarrow> string \<Rightarrow> zone_key" where
  "ZoneRefKeyFromObject c obj ref =
     \<lparr>zk_ClusterName = c, zk_Namespace = om_Namespace obj, zk_Name = ref\<rparr>"

text \<open>\<open>fmt.Sprint\<close> of the cluster name, a slash and the request, which prints as namespace/name.\<close>

definition zk_String :: "zone_key \<Rightarrow> string" where
  "zk_String k = zk_ClusterName k @ ''/'' @ zk_Namespace k @ ''/'' @ zk_Name k"

definition zk_For :: "zone_key \<Rightarrow> string \<Rightarrow> zone_key" where
  "zk_For k name = k\<lparr>zk_Name := name\<rparr>"

lemma zk_For_simps [simp]:
  "zk_Name (zk_For k n) = n" "zk_Namespace (zk_For k n) = zk_Namespace k"
  "zk_ClusterName (zk_For k n) = zk_ClusterName k" "zk_For (zk_For k n) m = zk_For k m"
  by (simp_all add: zk_For_def)

lemma zone_key_eqI:
  "zk_ClusterName a = zk_ClusterName b \<Longrightarrow> zk_Namespace a = zk_Namespace b \<Longrightarrow>
   zk_Name a = zk_Name b \<Longrightarrow> a = (b :: zone_key)"
  by simp

section \<open>expand\<close>

definition expand :: "dns_lib \<Rightarrow> string list \<Rightarrow> string list \<Rightarrow> string list \<Rightarrow> string list" where
  "expand D names fqdns list =
     foldl (\<lambda>list n. foldl (\<lambda>list f. list @ [dns_Fqdn D n @ f]) list fqdns) list names"

lemma expand_inner: "foldl (\<lambda>list f. list @ [g f]) list fs = list @ map g fs"
  by (induction fs arbitrary: list) auto

lemma expand_eq: "expand D ns fs l = l @ concat (map (\<lambda>n. map (\<lambda>f. dns_Fqdn D n @ f) fs) ns)"
  unfolding expand_def by (induction ns arbitrary: l) (simp_all add: expand_inner)

lemma set_expand: "set (expand D ns fs l) = set l \<union> {dns_Fqdn D n @ f | n f. n \<in> set ns \<and> f \<in> set fs}"
  by (auto simp: expand_eq)

lemma length_expand: "length (expand D ns fs l) = length l + length ns * length fs"
  by (induction ns) (auto simp: expand_eq)

section \<open>Relative names and labels\<close>

text \<open>A relative name put before a fully qualified one, and names without empty labels.\<close>

definition jn :: "string \<Rightarrow> string \<Rightarrow> string" where
  "jn rel cur = (if rel = [] then cur else if cur = ''.'' then rel @ ''.'' else rel @ ''.'' @ cur)"

definition clean :: "string \<Rightarrow> bool" where
  "clean s \<longleftrightarrow> s = [] \<or> [] \<notin> set (str_split (CHR ''.'') s)"

lemma str_split_app: "str_split c (s @ c # t) = str_split c s @ str_split c t"
  by (induction s) (auto split: list.splits)

lemma ends_dotE: "ends_dot s \<Longrightarrow> (\<And>t. s = t @ ''.'' \<Longrightarrow> P) \<Longrightarrow> P"
  by (cases s rule: rev_cases) (auto simp: ends_dot_def)

lemma no_dot_end: "CHR ''.'' \<notin> set s \<Longrightarrow> \<not> ends_dot s"
  by (metis ends_dot_def last_in_set)

lemma clean_prefix:
  assumes "clean (s @ CHR ''.'' # t)"
  shows "s \<noteq> [] \<and> \<not> ends_dot s \<and> clean s"
proof -
  from assms have ne: "[] \<notin> set (str_split (CHR ''.'') s)"
    by (simp add: clean_def str_split_app)
  then have "s \<noteq> []" by auto
  moreover have "\<not> ends_dot s"
  proof
    assume "ends_dot s"
    then obtain u where "s = u @ CHR ''.'' # []"
      by (cases s rule: rev_cases) (auto simp: ends_dot_def)
    with ne show False by (simp add: str_split_app)
  qed
  ultimately show ?thesis using ne by (simp add: clean_def)
qed

lemma lower_append [simp]: "lower (s @ t) = lower s @ lower t"
  by (simp add: lower_def)

lemma lower_Nil [simp]: "lower [] = []"
  by (simp add: lower_def)

lemma to_lower_dot: "to_lower c = CHR ''.'' \<longleftrightarrow> c = CHR ''.''"
proof -
  have "char_of (int_of_char c + 32) \<noteq> CHR ''.''" if "65 \<le> int_of_char c" "int_of_char c \<le> 90"
  proof
    assume "char_of (int_of_char c + 32) = CHR ''.''"
    then have "int_of_char (char_of (int_of_char c + 32)) = int_of_char (CHR ''.'')" by simp
    with that show False by (simp add: of_char_of)
  qed
  then show ?thesis by (auto simp: to_lower_def)
qed

lemma lower_Cons [simp]: "lower (c # s) = to_lower c # lower s"
  by (simp add: lower_def)

lemma to_lower_the_dot [simp]: "to_lower (CHR ''.'') = CHR ''.''"
  by (simp add: to_lower_dot)

lemma lower_ends_dot [simp]: "ends_dot (lower s) \<longleftrightarrow> ends_dot s"
  by (cases s rule: rev_cases) (auto simp: ends_dot_def to_lower_dot)

text \<open>Cutting a domain off the end of a name.\<close>

lemma cut_lower:
  assumes "lower s = q @ lower t"
  shows "length t \<le> length s" and "lower (take (length s - length t) s) = q"
    and "lower (drop (length s - length t) s) = lower t"
proof -
  have len: "length s = length q + length t"
    using arg_cong [OF assms, of length] by simp
  let ?n = "length s - length t"
  have "lower (take ?n s) @ lower (drop ?n s) = q @ lower t"
    using assms by (metis append_take_drop_id lower_append)
  moreover have "length (lower (take ?n s)) = length q" using len by simp
  ultimately show "lower (take ?n s) = q" "lower (drop ?n s) = lower t"
    using append_eq_append_conv by blast+
  show "length t \<le> length s" using len by simp
qed

text \<open>
  The part before a matched domain: with the dot in front of the domain removed it is a
  relative name again, and put before the domain it gives the name back.
\<close>

lemma cut_relative:
  assumes low: "lower s = q @ lower t" and q: "q = [] \<or> last q = CHR ''.''"
  shows "length t \<le> length s"
    and "length (Rdn (take (length s - length t) s)) \<le> length s - length t"
    and "clean s \<Longrightarrow> clean (Rdn (take (length s - length t) s))"
    and "clean s \<Longrightarrow> t \<noteq> [] \<Longrightarrow> lower s = lower (if Rdn (take (length s - length t) s) = [] then t
           else Rdn (take (length s - length t) s) @ ''.'' @ t)"
proof -
  let ?p = "take (length s - length t) s"
  define u where "u = drop (length s - length t) s"
  note cut = cut_lower [OF low]
  have len: "length t \<le> length s" and p: "lower ?p = q" and u: "lower u = lower t"
    using cut by (simp_all add: u_def)
  have s: "s = ?p @ u" by (simp add: u_def)
  show "length t \<le> length s" by (rule len)
  show "length (Rdn ?p) \<le> length s - length t"
    using length_Rdn_le [of ?p] by simp
  have cases: "?p = [] \<or> (\<exists>p'. ?p = p' @ ''.'' \<and> (clean s \<longrightarrow> clean p' \<and> Rdn ?p = p' \<and> p' \<noteq> []))"
  proof (cases "?p = []")
    case False
    then have "q \<noteq> []" using p lower_eq_Nil by metis
    with q have "ends_dot q" by (simp add: ends_dot_def)
    then have "ends_dot ?p" using p lower_ends_dot by metis
    then obtain p' where p': "?p = p' @ ''.''" by (rule ends_dotE)
    have "clean p' \<and> Rdn ?p = p' \<and> p' \<noteq> []" if "clean s"
    proof -
      from s p' have "s = p' @ CHR ''.'' # u" by (metis append.assoc append_Cons append_Nil)
      with that clean_prefix have "p' \<noteq> [] \<and> \<not> ends_dot p' \<and> clean p'" by metis
      then show ?thesis using p' by (simp add: Rdn_id)
    qed
    with p' show ?thesis by blast
  qed simp
  show "clean (Rdn ?p)" if "clean s"
    using cases that by (auto simp: clean_def)
  show "lower s = lower (if Rdn ?p = [] then t else Rdn ?p @ ''.'' @ t)" if "clean s" "t \<noteq> []"
    using cases
  proof
    assume e: "?p = []"
    have "s = [] @ u" using s unfolding e .
    then have "s = u" by simp
    then have "lower s = lower t" using u by simp
    then show ?thesis unfolding e by simp
  next
    assume "\<exists>p'. ?p = p' @ ''.'' \<and> (clean s \<longrightarrow> clean p' \<and> Rdn ?p = p' \<and> p' \<noteq> [])"
    then obtain p' where p0: "?p = p' @ ''.'' \<and> (clean s \<longrightarrow> clean p' \<and> Rdn ?p = p' \<and> p' \<noteq> [])" ..
    from p0 that(1) have p': "?p = p' @ ''.''" "Rdn ?p = p'" "p' \<noteq> []" by metis+
    have "lower s = lower ?p @ lower u" by (subst s) (rule lower_append)
    then show ?thesis unfolding p'(2) unfolding p'(1) using u p'(3) by simp
  qed
qed

lemma plain_str_join: "plain (str_join ''.'' ls) \<longleftrightarrow> (\<forall>l \<in> set ls. plain l)"
  by (induction ls rule: induct_list012) auto

end
