(* ===== verification/Zone_Model.thy ===== *)
theory Zone_Model
  imports Zone_Names
begin

text \<open>
  The zone model of the REST server (internal/controller/server/zonemodel/model.go). Zones
  are heap objects that point to their parent and, by name, to their children, so the model
  keeps an explicit heap: a zone pointer is an address, the heap a list that only grows, and
  the \<open>zones\<close> map of the model a Go map from zone keys to addresses. A \<open>Source\<close> is
  identified by its \<open>GetName()\<close>. The lock of the model makes its operations atomic; each is
  one function here. Operations that can run forever return an option.
\<close>

section \<open>State\<close>

type_synonym addr = nat

record zone =
  zn_serialId :: "32 word"
  zn_key :: zone_key
  zn_source :: string
  zn_parent :: "addr option"
  zn_parentName :: string
  zn_children :: "(string, addr) go_map"
  zn_names :: "string list"

type_synonym zone_heap = "zone list"

record model =
  m_heap :: zone_heap
  m_zones :: "(zone_key, addr) go_map"

abbreviation upd :: "zone_heap \<Rightarrow> addr \<Rightarrow> (zone \<Rightarrow> zone) \<Rightarrow> zone_heap" where
  "upd h a f \<equiv> h[a := f (h ! a)]"

type_synonym child_order = "(string \<times> addr) list \<Rightarrow> (string \<times> addr) list"
type_synonym zones_order = "(zone_key \<times> addr) list \<Rightarrow> (zone_key \<times> addr) list"

section \<open>The map of zones\<close>

definition New :: model where
  "New = \<lparr>m_heap = [], m_zones = []\<rparr>"

definition NewZone :: "string \<Rightarrow> zone_key \<Rightarrow> zone" where
  "NewZone s key =
     \<lparr>zn_serialId = 0, zn_key = key, zn_source = s, zn_parent = None, zn_parentName = [],
      zn_children = [], zn_names = []\<rparr>"

definition GetZone :: "model \<Rightarrow> zone_key \<Rightarrow> addr option" where
  "GetZone m key = map_of (m_zones m) key"

definition RemoveZone :: "model \<Rightarrow> zone_key \<Rightarrow> model" where
  "RemoveZone m zk = m\<lparr>m_zones := AList.delete zk (m_zones m)\<rparr>"

definition GetSerialId :: "model \<Rightarrow> addr \<Rightarrow> 32 word" where
  "GetSerialId m a = zn_serialId (m_heap m ! a)"

section \<open>AddZone\<close>

text \<open>The loop that links a new zone with the zones that name it as their parent.\<close>

definition link_child :: "zone_key \<Rightarrow> addr \<Rightarrow> zone_heap \<Rightarrow> zone_key \<times> addr \<Rightarrow> zone_heap" where
  "link_child key old h = (\<lambda>(k, z).
     if zn_parentName (h ! z) \<noteq> [] \<and> key = zk_For k (zn_parentName (h ! z))
     then upd (upd h z (\<lambda>y. y\<lparr>zn_parent := Some old\<rparr>)) old
            (\<lambda>y. y\<lparr>zn_children := AList.update (zk_Name k) z (zn_children y)\<rparr>)
     else h)"

definition intern :: "zones_order \<Rightarrow> string \<Rightarrow> zone_key \<Rightarrow> model \<Rightarrow> model \<times> addr" where
  "intern ord s key m =
     (case map_of (m_zones m) key of
        Some old \<Rightarrow> (m, old)
      | None \<Rightarrow>
          (let old = length (m_heap m);
               zones = AList.update key old (m_zones m);
               h = m_heap m @ [NewZone s key]
           in (m\<lparr>m_heap := foldl (link_child key old) h (ord zones), m_zones := zones\<rparr>, old)))"

text \<open>The serial id: the resource version as a number, truncated to 32 bits.\<close>

definition serial_of :: "hosted_zone \<Rightarrow> 32 word" where
  "serial_of zone =
     (case parse_uint64 (om_ResourceVersion (z_Meta zone)) of
        None \<Rightarrow> of_int 653432456 | Some n \<Rightarrow> of_int n)"

definition unlink_parent :: "addr \<Rightarrow> hosted_zone \<Rightarrow> zone_heap \<Rightarrow> zone_heap" where
  "unlink_parent old zone h =
     (case zn_parent (h ! old) of
        None \<Rightarrow> h
      | Some p \<Rightarrow>
          if zk_Name (zn_key (h ! p)) \<noteq> zone_parent zone
          then upd h p (\<lambda>y. y\<lparr>zn_children := AList.delete (zone_name zone) (zn_children y)\<rparr>)
          else h)"

definition parent_key :: "'p ext \<Rightarrow> string \<Rightarrow> hosted_zone \<Rightarrow> zone_key" where
  "parent_key E s zone =
     (let k = x_RefObjectKeyFor E (zone_namespace zone) (zone_parent zone)
      in \<lparr>zk_ClusterName = s, zk_Namespace = ok_Namespace k, zk_Name = ok_Name k\<rparr>)"

definition link_parent ::
    "'p ext \<Rightarrow> string \<Rightarrow> addr \<Rightarrow> hosted_zone \<Rightarrow> (zone_key, addr) go_map \<Rightarrow> zone_heap
     \<Rightarrow> zone_heap \<times> addr option" where
  "link_parent E s old zone zones h =
     (if zone_parent zone = [] then (h, None)
      else let pkey = parent_key E s zone; parent = map_of zones pkey
           in case parent of
                None \<Rightarrow> (h, None)
              | Some p \<Rightarrow>
                  (upd h p (\<lambda>y. y\<lparr>zn_children := AList.update (zk_Name pkey) old (zn_children y)\<rparr>),
                   Some p))"

definition set_zone :: "dns_lib \<Rightarrow> addr \<Rightarrow> hosted_zone \<Rightarrow> addr option \<Rightarrow> zone_heap \<Rightarrow> zone_heap" where
  "set_zone D old zone parent h =
     upd h old (\<lambda>y. y\<lparr>zn_parent := parent, zn_parentName := zone_parent zone,
       zn_names := map (if zone_parent zone = [] then dns_Fqdn D else Rdn) (zs_DomainNames (z_Spec zone))\<rparr>)"

text \<open>The loop that hands the serial id to the ancestors; it runs forever on a cyclic chain.\<close>

partial_function (option) propagate :: "addr \<Rightarrow> addr option \<Rightarrow> zone_heap \<Rightarrow> zone_heap option" where
  "propagate old parent h =
     (case parent of
        None \<Rightarrow> Some h
      | Some p \<Rightarrow> propagate old (zn_parent (h ! p))
          (upd h p (\<lambda>y. y\<lparr>zn_serialId := zn_serialId (h ! old)\<rparr>)))"

declare propagate.simps [code]

text \<open>
  \<open>AddZone\<close> in two parts: the placement of the zone in the heap and its links, and the
  propagation of its serial id.
\<close>

definition place_zone ::
    "dns_lib \<Rightarrow> 'p ext \<Rightarrow> zones_order \<Rightarrow> string \<Rightarrow> zone_key \<Rightarrow> hosted_zone \<Rightarrow> model
     \<Rightarrow> model \<times> addr \<times> addr option \<times> zone_heap" where
  "place_zone D E ord s key zone m =
     (let (m1, old) = intern ord s key m;
          h2 = upd (m_heap m1) old (\<lambda>y. y\<lparr>zn_serialId := serial_of zone\<rparr>);
          h3 = unlink_parent old zone h2;
          (h4, parent) = link_parent E s old zone (m_zones m1) h3
      in (m1, old, parent, set_zone D old zone parent h4))"

definition AddZone ::
    "dns_lib \<Rightarrow> 'p ext \<Rightarrow> zones_order \<Rightarrow> string \<Rightarrow> zone_key \<Rightarrow> hosted_zone \<Rightarrow> model
     \<Rightarrow> (model \<times> addr) option" where
  "AddZone D E ord s key zone m =
     (case place_zone D E ord s key zone m of
        (m1, old, parent, h) \<Rightarrow>
          (case propagate old parent h of
             None \<Rightarrow> None
           | Some h' \<Rightarrow> Some (m1\<lparr>m_heap := h'\<rparr>, old)))"

section \<open>Resolving names\<close>

definition Matches :: "dns_lib \<Rightarrow> zone \<Rightarrow> string \<Rightarrow> string" where
  "Matches D z qname =
     foldl (\<lambda>zone zname. if dns_IsSubDomain D zname qname \<and> length zname > length zone
                          then zname else zone) [] (zn_names z)"

text \<open>The \<open>Index\<close> interface through which the model looks entries up.\<close>

record zindex =
  LookupRelativeDomainName :: "string \<Rightarrow> zone_key \<Rightarrow> string \<Rightarrow> go_error + coredns_entry list"
  LookupIP :: "string \<Rightarrow> zone_key \<Rightarrow> string \<Rightarrow> go_error + coredns_entry list"

record info =
  i_Zone :: "addr option"
  i_ZoneNames :: "string list"
  i_Entries :: "coredns_entry list"
  i_EntryNames :: "string list"

text \<open>The first child, in iteration order, with a domain the relative name lies in.\<close>

definition nested_match ::
    "dns_lib \<Rightarrow> child_order \<Rightarrow> zone_heap \<Rightarrow> addr \<Rightarrow> string \<Rightarrow> (string \<times> addr) option" where
  "nested_match D ord h zone sub =
     (case find (\<lambda>(k, a). Matches D (h ! a) sub \<noteq> []) (ord (zn_children (h ! zone))) of
        None \<Rightarrow> None
      | Some (k, a) \<Rightarrow> Some (Matches D (h ! a) sub, a))"

text \<open>
  The descent to the responsible zone: strip the matched domain, extend the current name,
  and continue with the first nested zone that matches the rest. The result is the relative
  name, the responsible zone and the current name.
\<close>

partial_function (option) forward ::
    "dns_lib \<Rightarrow> child_order \<Rightarrow> zone_heap \<Rightarrow> string \<Rightarrow> string \<Rightarrow> addr \<Rightarrow> string
     \<Rightarrow> (string \<times> addr \<times> string) go option" where
  "forward D ord h zn sub zone cur =
     (if length sub < length zn then Some Panic
      else case Join D [zn, cur] of
             Panic \<Rightarrow> Some Panic
           | Ret cur' \<Rightarrow>
               (case nested_match D ord h zone (Rdn (take (length sub - length zn) sub)) of
                  None \<Rightarrow> Some (Ret (Rdn (take (length sub - length zn) sub), zone, cur'))
                | Some ra \<Rightarrow>
                    forward D ord h (fst ra) (Rdn (take (length sub - length zn) sub)) (snd ra) cur'))"

declare forward.simps [code]

text \<open>
  The loop over the labels of the relative name, from the right: an entry with NS records at
  some suffix delegates, and ends the lookup there; otherwise the entries of the whole
  relative name are the answer.
\<close>

datatype lookup_result = Delegated coredns_entry string | Entries "coredns_entry list" string

fun ns_loop ::
    "dns_lib \<Rightarrow> zindex \<Rightarrow> string \<Rightarrow> zone_key \<Rightarrow> string list \<Rightarrow> string \<Rightarrow> string \<Rightarrow> coredns_entry list
     \<Rightarrow> (go_error + lookup_result) go" where
  "ns_loop D I src key [] cur rel list = Ret (Inr (Entries list cur))"
| "ns_loop D I src key (l # ls) cur rel list =
     go_bind (Join D [l, cur]) (\<lambda>cur'.
       go_bind (Join D [l, rel]) (\<lambda>jr.
         case LookupRelativeDomainName I src key (Rdn jr) of
           Inl err \<Rightarrow> Ret (Inl err)
         | Inr es \<Rightarrow>
             (case find (\<lambda>e. es_NS (e_Spec e) \<noteq> []) es of
                Some e \<Rightarrow> Ret (Inr (Delegated e cur'))
              | None \<Rightarrow> ns_loop D I src key ls cur' (Rdn jr) es)))"

definition answer_info :: "addr \<Rightarrow> string \<Rightarrow> lookup_result \<Rightarrow> info" where
  "answer_info zone curz r =
     (case r of
        Delegated e cur \<Rightarrow>
          \<lparr>i_Zone = None, i_ZoneNames = [cur], i_Entries = [e], i_EntryNames = [cur]\<rparr>
      | Entries es cur \<Rightarrow>
          \<lparr>i_Zone = Some zone, i_ZoneNames = [curz], i_Entries = es, i_EntryNames = [cur]\<rparr>)"

definition ResolveFQDN ::
    "dns_lib \<Rightarrow> child_order \<Rightarrow> zindex \<Rightarrow> model \<Rightarrow> addr \<Rightarrow> string
     \<Rightarrow> (go_error + info option) go option" where
  "ResolveFQDN D ord I m z qname0 =
     (let h = m_heap m; qname = dns_Fqdn D qname0; zn = Matches D (h ! z) qname
      in if zn = [] then Some (Ret (Inr None))
         else case forward D ord h zn qname z [] of
                None \<Rightarrow> None
              | Some Panic \<Rightarrow> Some Panic
              | Some (Ret (sub, zone, cur)) \<Rightarrow>
                  Some (go_bind
                    (ns_loop D I (zn_source (h ! zone)) (zn_key (h ! zone))
                       (rev (dns_SplitDomainName D sub)) cur [] [])
                    (\<lambda>r. Ret (case r of
                        Inl err \<Rightarrow> Inl err
                      | Inr lr \<Rightarrow> Inr (Some (answer_info zone cur lr))))))"

section \<open>Resolving addresses\<close>

text \<open>
  The recursion over the nested zones, with fuel for the depth of the recursion: \<open>None\<close> is a
  recursion deeper than the fuel.
\<close>

fun resolve_children ::
    "(addr \<Rightarrow> (go_error + info list) option) \<Rightarrow> addr list \<Rightarrow> info list
     \<Rightarrow> (go_error + info list) option" where
  "resolve_children f [] result = Some (Inr result)"
| "resolve_children f (s # ss) result =
     (case f s of
        None \<Rightarrow> None
      | Some (Inl err) \<Rightarrow> Some (Inl err)
      | Some (Inr list) \<Rightarrow> resolve_children f ss (result @ list))"

definition own_infos :: "dns_lib \<Rightarrow> addr \<Rightarrow> string list \<Rightarrow> coredns_entry list \<Rightarrow> info list" where
  "own_infos D z fqdns list =
     (if list = [] then []
      else [\<lparr>i_Zone = Some z, i_ZoneNames = fqdns, i_Entries = list,
             i_EntryNames = foldl (\<lambda>names e. expand D (es_DNSNames (e_Spec e)) fqdns names) [] list\<rparr>])"

fun resolveIP ::
    "nat \<Rightarrow> dns_lib \<Rightarrow> child_order \<Rightarrow> zindex \<Rightarrow> zone_heap \<Rightarrow> string \<Rightarrow> string list \<Rightarrow> addr
     \<Rightarrow> (go_error + info list) option" where
  "resolveIP 0 D ord I h ip fqdns z = None"
| "resolveIP (Suc n) D ord I h ip fqdns z =
     (case LookupIP I (zn_source (h ! z)) (zn_key (h ! z)) ip of
        Inl err \<Rightarrow> Some (Inl err)
      | Inr list \<Rightarrow>
          (let fqdns' = expand D (zn_names (h ! z)) fqdns []
           in resolve_children (resolveIP n D ord I h ip fqdns')
                (map snd (ord (zn_children (h ! z)))) (own_infos D z fqdns' list)))"

definition ResolveIP ::
    "nat \<Rightarrow> dns_lib \<Rightarrow> child_order \<Rightarrow> zindex \<Rightarrow> model \<Rightarrow> addr \<Rightarrow> string
     \<Rightarrow> (go_error + info list) option" where
  "ResolveIP n D ord I m z ip = resolveIP n D ord I (m_heap m) ip [[]] z"

end
