(* ===== verification/Zone_Fixture.thy ===== *)
theory Zone_Fixture
  imports Zone_Model
begin

text \<open>
  The objects of the repository's own test of the zone model
  (internal/controller/server/zonemodel/model_test.go): the two zones, the entries, the
  index of the test with its three operations, and the model after the test's set-up. They
  are the concrete inputs of the witnesses.
\<close>

section \<open>The index of the test\<close>

type_synonym mem_index = "(zone_key, (string, coredns_entry list) go_map) go_map"

definition mem_LookupRelativeDomainName ::
    "mem_index \<Rightarrow> string \<Rightarrow> zone_key \<Rightarrow> string \<Rightarrow> go_error + coredns_entry list" where
  "mem_LookupRelativeDomainName i src zone rel =
     (case map_of i zone of
        None \<Rightarrow> Inr []
      | Some zoneentries \<Rightarrow> Inr (case map_of zoneentries rel of None \<Rightarrow> [] | Some es \<Rightarrow> es))"

definition mem_LookupIP ::
    "mem_index \<Rightarrow> string \<Rightarrow> zone_key \<Rightarrow> string \<Rightarrow> go_error + coredns_entry list" where
  "mem_LookupIP i src zone ip =
     (case map_of i zone of
        None \<Rightarrow> Inr []
      | Some zoneentries \<Rightarrow>
          Inr (concat (map (\<lambda>(_, list). filter (\<lambda>e. ip \<in> set (es_A (e_Spec e))) list) zoneentries)))"

definition mem_AddEntry :: "string \<Rightarrow> coredns_entry \<Rightarrow> mem_index \<Rightarrow> mem_index" where
  "mem_AddEntry s entry i =
     (let zonekey = ZoneRefKeyFromObject s (e_Meta entry) (es_ZoneRef (e_Spec entry));
          zoneentries = (case map_of i zonekey of None \<Rightarrow> [] | Some m \<Rightarrow> m);
          add = (\<lambda>m n. AList.update (Rdn n)
            ((case map_of m (Rdn n) of None \<Rightarrow> [] | Some es \<Rightarrow> es) @ [entry]) m)
      in AList.update zonekey (foldl add zoneentries (es_DNSNames (e_Spec entry))) i)"

definition mem_zindex :: "mem_index \<Rightarrow> zindex" where
  "mem_zindex i =
     \<lparr>LookupRelativeDomainName = mem_LookupRelativeDomainName i, LookupIP = mem_LookupIP i\<rparr>"

section \<open>The objects of the test\<close>

definition test_Source :: string where "test_Source = ''cluster''"

definition ZoneA :: hosted_zone where
  "ZoneA = zero_zone\<lparr>z_Meta := named ''default'' ''a'',
     z_Spec := zero_zone_spec\<lparr>zs_DomainNames := [''mandelsoft.de'', ''mandelsoft.org'']\<rparr>\<rparr>"

definition ZoneAA :: hosted_zone where
  "ZoneAA = zero_zone\<lparr>z_Meta := named ''default'' ''aa'',
     z_Spec := zero_zone_spec\<lparr>zs_DomainNames := [''demo'', ''test''], zs_ParentRef := ''a''\<rparr>\<rparr>"

definition EntryA_demo :: coredns_entry where
  "EntryA_demo = zero_entry\<lparr>e_Meta := named ''default'' ''demo'',
     e_Spec := zero_entry_spec\<lparr>es_DNSNames := [''demo.test'', ''demo.test2''], es_ZoneRef := ''a'',
       es_A := [''8.8.8.8'']\<rparr>\<rparr>"

definition EntryA_test :: coredns_entry where
  "EntryA_test = zero_entry\<lparr>e_Meta := named ''default'' ''test'',
     e_Spec := zero_entry_spec\<lparr>es_DNSNames := [''test''], es_ZoneRef := ''a'',
       es_A := [''8.8.8.9'']\<rparr>\<rparr>"

definition EntryA_NS :: coredns_entry where
  "EntryA_NS = zero_entry\<lparr>e_Meta := named ''default'' ''a_ns'',
     e_Spec := zero_entry_spec\<lparr>es_DNSNames := [''nested.test''], es_ZoneRef := ''a'',
       es_NS := [''nested.test.com'']\<rparr>\<rparr>"

definition EntryAA_demo :: coredns_entry where
  "EntryAA_demo = zero_entry\<lparr>e_Meta := named ''default'' ''aa-demo'',
     e_Spec := zero_entry_spec\<lparr>es_DNSNames := [''demo''], es_ZoneRef := ''aa'',
       es_A := [''9.9.9.9'']\<rparr>\<rparr>"

definition test_key :: "hosted_zone \<Rightarrow> zone_key" where
  "test_key z = ZoneKeyFromObject test_Source (z_Meta z)"

definition test_add :: "hosted_zone \<Rightarrow> model \<Rightarrow> model option" where
  "test_add z m = map_option fst (AddZone ref_dns ref_ext (\<lambda>xs. xs) test_Source (test_key z) z m)"

text \<open>The model after the set-up, and after adding the nested zone.\<close>

definition model_A :: model where
  "model_A = (case test_add ZoneA New of None \<Rightarrow> New | Some m \<Rightarrow> m)"

definition model_AA :: model where
  "model_AA = (case test_add ZoneAA model_A of None \<Rightarrow> New | Some m \<Rightarrow> m)"

end
