(* ===== verification/Zone_Store.thy ===== *)
theory Zone_Store
  imports Zone_Fixture
begin

text \<open>
  Correctness of the map of zones: the well-formedness of the zone heap and its preservation
  by every operation, the abstract view of the model as a map from keys to zone
  declarations, when \<open>AddZone\<close> returns, what it does to serial ids and to the children map.
\<close>

section \<open>Heap updates\<close>

lemma map_upd [simp]: "(\<And>y. p (f y) = p y) \<Longrightarrow> map p (upd h a f) = map p h"
  by (metis list_update_beyond list_update_id map_update not_le nth_map)

lemma nth_upd_same: "(\<And>y. p (f y) = p y) \<Longrightarrow> p (upd h a f ! i) = p (h ! i)"
  by (metis list_update_beyond not_le nth_list_update_eq nth_list_update_neq)

lemma map_link_child:
  assumes "\<And>y v. p (y\<lparr>zn_parent := v\<rparr>) = p y" and "\<And>y v. p (y\<lparr>zn_children := v\<rparr>) = p y"
  shows "map p (link_child key old h kz) = map p h"
  using assms by (simp add: link_child_def split: prod.splits)

lemma map_link_children:
  assumes "\<And>y v. p (y\<lparr>zn_parent := v\<rparr>) = p y" and "\<And>y v. p (y\<lparr>zn_children := v\<rparr>) = p y"
  shows "map p (foldl (link_child key old) h kzs) = map p h"
  by (induction kzs arbitrary: h) (simp_all add: map_link_child assms)

lemma map_unlink_parent:
  assumes "\<And>y v. p (y\<lparr>zn_children := v\<rparr>) = p y"
  shows "map p (unlink_parent old zone h) = map p h"
  using assms by (simp add: unlink_parent_def split: option.splits)

lemma map_link_parent:
  assumes "\<And>y v. p (y\<lparr>zn_children := v\<rparr>) = p y"
  shows "map p (fst (link_parent E s old zone zones h)) = map p h"
  using assms by (simp add: link_parent_def Let_def split: option.splits)

lemma length_steps [simp]:
  "length (link_child key old h kz) = length h"
  "length (foldl (link_child key old) h kzs) = length h"
  "length (unlink_parent old zone h) = length h"
  "length (fst (link_parent E s old zone zones h)) = length h"
  "length (set_zone D old zone parent h) = length h"
proof -
  show 1: "length (link_child key old h kz) = length h" for h kz
    by (simp add: link_child_def split: prod.splits)
  show "length (foldl (link_child key old) h kzs) = length h"
    by (induction kzs arbitrary: h) (simp_all add: 1)
qed (simp_all add: unlink_parent_def link_parent_def set_zone_def Let_def split: option.splits)

text \<open>The parent a zone object gets: the zone of the model its reference names.\<close>

definition new_parent :: "'p ext \<Rightarrow> string \<Rightarrow> hosted_zone \<Rightarrow> model \<Rightarrow> addr option" where
  "new_parent E s zone m =
     (if zone_parent zone = [] then None else map_of (m_zones m) (parent_key E s zone))"

lemma snd_link_parent:
  "snd (link_parent E s old zone (m_zones m) h) = new_parent E s zone m"
  by (simp add: link_parent_def new_parent_def Let_def split: option.splits)

section \<open>The serial id loop\<close>

text \<open>A finite chain of parents, given by the parent function.\<close>

primrec root_path :: "(addr \<Rightarrow> addr option) \<Rightarrow> addr option \<Rightarrow> addr list \<Rightarrow> bool" where
  "root_path par x [] \<longleftrightarrow> x = None"
| "root_path par x (a # as) \<longleftrightarrow> x = Some a \<and> root_path par (par a) as"

abbreviation parents :: "zone_heap \<Rightarrow> addr \<Rightarrow> addr option" where
  "parents h a \<equiv> zn_parent (h ! a)"

definition hand_serial :: "addr \<Rightarrow> zone_heap \<Rightarrow> addr \<Rightarrow> zone_heap" where
  "hand_serial old h p = upd h p (\<lambda>y. y\<lparr>zn_serialId := zn_serialId (h ! old)\<rparr>)"

lemma map_hand_serial:
  "(\<And>y v. p (y\<lparr>zn_serialId := v\<rparr>) = p y) \<Longrightarrow> map p (hand_serial old h a) = map p h"
  by (simp add: hand_serial_def)

lemma map_hand_serials:
  "(\<And>y v. p (y\<lparr>zn_serialId := v\<rparr>) = p y) \<Longrightarrow> map p (foldl (hand_serial old) h as) = map p h"
  by (induction as arbitrary: h) (simp_all add: map_hand_serial)

lemma parents_hand_serial [simp]: "parents (hand_serial old h a) = parents h"
proof
  show "parents (hand_serial old h a) b = parents h b" for b
    unfolding hand_serial_def by (rule nth_upd_same) simp
qed

lemma propagate_None [simp]: "propagate old None h = Some h"
  by (simp add: propagate.simps)

lemma propagate_Some [simp]:
  "propagate old (Some p) h = propagate old (parents h p) (hand_serial old h p)"
  by (simp add: propagate.simps hand_serial_def)

lemma propagate_path:
  "root_path (parents h) x as \<Longrightarrow> propagate old x h = Some (foldl (hand_serial old) h as)"
  by (induction as arbitrary: x h) simp_all

lemma propagate_returns:
  assumes "propagate old x h = Some h'"
  shows "\<exists>as. root_path (parents h) x as"
proof (rule propagate.raw_induct [where P = "\<lambda>old x h h'. \<exists>as. root_path (parents h) x as", OF _ assms])
  fix f old x h h'
  assume IH: "\<And>old x h h'. f old x h = Some h' \<Longrightarrow> \<exists>as. root_path (parents h) x as"
    and eq: "(case x of None \<Rightarrow> Some h
      | Some p \<Rightarrow> f old (zn_parent (h ! p)) (upd h p (\<lambda>y. y\<lparr>zn_serialId := zn_serialId (h ! old)\<rparr>)))
      = Some h'"
  show "\<exists>as. root_path (parents h) x as"
  proof (cases x)
    case None
    then have "root_path (parents h) x []" by simp
    then show ?thesis ..
  next
    case (Some p)
    with eq have "f old (parents h p) (hand_serial old h p) = Some h'"
      by (simp add: hand_serial_def)
    from IH [OF this] obtain as where "root_path (parents h) (parents h p) as" by auto
    with Some have "root_path (parents h) x (p # as)" by simp
    then show ?thesis ..
  qed
qed

lemma propagate_returns_iff:
  "(\<exists>h'. propagate old x h = Some h') \<longleftrightarrow> (\<exists>as. root_path (parents h) x as)"
  using propagate_path propagate_returns by blast

lemma serial_hand_serial:
  "zn_serialId (hand_serial old h p ! i) =
     (if i = p \<and> p < length h then zn_serialId (h ! old) else zn_serialId (h ! i))"
  by (auto simp: hand_serial_def nth_list_update list_update_beyond)

lemma serial_hand_serials:
  "(\<And>a. a \<in> set as \<Longrightarrow> a < length h) \<Longrightarrow>
   zn_serialId (foldl (hand_serial old) h as ! i) =
     (if i \<in> set as then zn_serialId (h ! old) else zn_serialId (h ! i))"
proof (induction as arbitrary: h)
  case (Cons a as)
  have "length (hand_serial old h a) = length h"
    by (simp add: hand_serial_def)
  with Cons.IH [of "hand_serial old h a"] Cons.prems show ?case
    by (auto simp: serial_hand_serial)
qed simp

text \<open>A chain is determined by where it starts, and does not meet an address twice.\<close>

lemma root_path_unique: "root_path par x as \<Longrightarrow> root_path par x bs \<Longrightarrow> as = bs"
  by (induction as arbitrary: x bs) (auto, (case_tac bs; auto)+)

lemma root_path_suffix:
  "root_path par x (as @ a # bs) \<Longrightarrow> root_path par (Some a) (a # bs)"
  by (induction as arbitrary: x) auto

lemma root_path_distinct: "root_path par x as \<Longrightarrow> distinct as"
proof (induction as arbitrary: x)
  case (Cons a as)
  have "a \<notin> set as"
  proof
    assume "a \<in> set as"
    then obtain us vs where as: "as = us @ a # vs" by (auto dest: split_list)
    from Cons.prems have "root_path par (Some a) (a # as)" by simp
    moreover from Cons.prems have "root_path par (Some a) (a # vs)"
      unfolding as by (auto dest: root_path_suffix)
    ultimately have "as = vs" by (auto dest: root_path_unique)
    with as show False by simp
  qed
  with Cons show ?case by auto
qed simp

text \<open>Following the parents \<open>n\<close> times.\<close>

primrec ancestor :: "(addr \<Rightarrow> addr option) \<Rightarrow> nat \<Rightarrow> addr option \<Rightarrow> addr option" where
  "ancestor par 0 x = x"
| "ancestor par (Suc n) x = (case x of None \<Rightarrow> None | Some a \<Rightarrow> ancestor par n (par a))"

lemma ancestor_root_path: "root_path par x as \<Longrightarrow> ancestor par n x = (if n < length as then Some (as ! n) else None)"
proof (induction n arbitrary: x as)
  case 0
  then show ?case by (cases as) auto
next
  case (Suc n)
  then show ?case by (cases as) auto
qed

lemma no_root_path_cycle:
  assumes "ancestor par n (par a) = Some a"
  shows "\<not> root_path par (Some a) as"
proof
  assume path: "root_path par (Some a) as"
  then obtain bs where as: "as = a # bs" and bs: "root_path par (par a) bs"
    by (cases as) auto
  from assms ancestor_root_path [OF bs, of n] have "n < length bs" "bs ! n = a"
    by (auto split: if_splits)
  then have "a \<in> set bs" by (metis nth_mem)
  with root_path_distinct [OF path] as show False by simp
qed

section \<open>Well-formed models\<close>

text \<open>
  A zone is well-formed in a heap if its parent pointer is valid, points to the zone its
  parent name names, and its children map has unique keys and valid addresses.
\<close>

definition wf_zone :: "zone_heap \<Rightarrow> zone \<Rightarrow> bool" where
  "wf_zone h z \<longleftrightarrow>
     (case zn_parent z of
        None \<Rightarrow> True
      | Some p \<Rightarrow> p < length h \<and> zn_parentName z \<noteq> [] \<and>
          zn_key (h ! p) = zk_For (zn_key z) (zn_parentName z)) \<and>
     (\<forall>(n, c) \<in> set (zn_children z). c < length h) \<and>
     distinct (map fst (zn_children z))"

lemma wf_zone_alt:
  "wf_zone h z \<longleftrightarrow>
     (\<forall>p. zn_parent z = Some p \<longrightarrow> p < length h \<and> zn_parentName z \<noteq> [] \<and>
        zn_key (h ! p) = zk_For (zn_key z) (zn_parentName z)) \<and>
     (\<forall>(n, c) \<in> set (zn_children z). c < length h) \<and>
     distinct (map fst (zn_children z))"
  by (auto simp: wf_zone_def split: option.splits)

definition wf_heap :: "zone_heap \<Rightarrow> bool" where
  "wf_heap h \<longleftrightarrow> (\<forall>z \<in> set h. wf_zone h z)"

definition wf_zones :: "zone_heap \<Rightarrow> (zone_key, addr) go_map \<Rightarrow> bool" where
  "wf_zones h zs \<longleftrightarrow> distinct (map fst zs) \<and> (\<forall>(k, a) \<in> set zs. a < length h \<and> zn_key (h ! a) = k)"

definition wf_model :: "model \<Rightarrow> bool" where
  "wf_model m \<longleftrightarrow> wf_heap (m_heap m) \<and> wf_zones (m_heap m) (m_zones m)"

lemma wf_zones_lookup: "wf_zones h zs \<Longrightarrow> map_of zs k = Some a \<Longrightarrow> a < length h \<and> zn_key (h ! a) = k"
  by (auto simp: wf_zones_def dest: map_of_SomeD)

lemma wf_zones_cong:
  assumes "map zn_key h' = map zn_key h"
  shows "wf_zones h' zs \<longleftrightarrow> wf_zones h zs"
proof -
  from assms have "length h' = length h" and "\<And>i. i < length h \<Longrightarrow> zn_key (h' ! i) = zn_key (h ! i)"
    by (metis length_map, metis length_map nth_map)
  then show ?thesis by (auto simp: wf_zones_def)
qed

lemma wf_zone_cong:
  assumes "map zn_key h' = map zn_key h"
  shows "wf_zone h' z \<longleftrightarrow> wf_zone h z"
proof -
  from assms have "length h' = length h" and "\<And>i. i < length h \<Longrightarrow> zn_key (h' ! i) = zn_key (h ! i)"
    by (metis length_map, metis length_map nth_map)
  then show ?thesis by (auto simp: wf_zone_alt split: option.splits)
qed

lemma wf_heap_upd:
  assumes "wf_heap h" and "\<And>y. zn_key (f y) = zn_key y" and "a < length h \<Longrightarrow> wf_zone h (f (h ! a))"
  shows "wf_heap (upd h a f)"
proof -
  have keys: "map zn_key (upd h a f) = map zn_key h" using assms(2) by simp
  have "wf_zone h z" if "z \<in> set (upd h a f)" for z
    using that assms(1,3) set_update_subset_insert [of h a "f (h ! a)"]
    by (cases "a < length h") (auto simp: wf_heap_def list_update_beyond)
  then show ?thesis
    unfolding wf_heap_def using wf_zone_cong [OF keys] by blast
qed

lemma wf_heapD: "wf_heap h \<Longrightarrow> a < length h \<Longrightarrow> wf_zone h (h ! a)"
  by (simp add: wf_heap_def)

lemma wf_zone_snoc:
  assumes "wf_zone h z"
  shows "wf_zone (h @ [n]) z"
  using assms by (fastforce simp: wf_zone_alt nth_append split: option.splits)

lemma wf_heap_snoc: "wf_heap h \<Longrightarrow> wf_zone (h @ [n]) n \<Longrightarrow> wf_heap (h @ [n])"
  by (auto simp: wf_heap_def intro: wf_zone_snoc)

lemma wf_NewZone: "wf_zone h (NewZone s key)"
  by (simp add: wf_zone_alt NewZone_def)

lemma wf_zone_serial [simp]: "wf_zone h (z\<lparr>zn_serialId := v\<rparr>) \<longleftrightarrow> wf_zone h z"
  by (simp add: wf_zone_alt)

lemma wf_zone_children_update:
  assumes "wf_zone h z" "a < length h"
  shows "wf_zone h (z\<lparr>zn_children := AList.update n a (zn_children z)\<rparr>)"
proof -
  have "c < length h" if "(k, c) \<in> set (AList.update n a (zn_children z))" for k c
    using that Prelude.set_update_subset [of n a "zn_children z"] assms by (auto simp: wf_zone_alt)
  then show ?thesis using assms by (auto simp: wf_zone_alt go_map)
qed

lemma wf_zone_children_delete:
  assumes "wf_zone h z"
  shows "wf_zone h (z\<lparr>zn_children := AList.delete n (zn_children z)\<rparr>)"
  using assms set_delete_subset [of n "zn_children z"]
  by (fastforce simp: wf_zone_alt go_map simp del: AList.delete_eq)

lemma wf_link_child:
  assumes "wf_heap h" "old < length h" "zn_key (h ! old) = key" "z < length h" "zn_key (h ! z) = k"
  shows "wf_heap (link_child key old h (k, z))"
proof (cases "zn_parentName (h ! z) \<noteq> [] \<and> key = zk_For k (zn_parentName (h ! z))")
  case True
  let ?h1 = "upd h z (\<lambda>y. y\<lparr>zn_parent := Some old\<rparr>)"
  have keys: "map zn_key ?h1 = map zn_key h" by simp
  have "wf_zone h ((h ! z)\<lparr>zn_parent := Some old\<rparr>)"
    using wf_heapD [OF assms(1,4)] True assms by (simp add: wf_zone_alt)
  then have wf1: "wf_heap ?h1" using assms(1) by (intro wf_heap_upd) simp_all
  then have "wf_zone ?h1 (?h1 ! old)" using assms(2) by (intro wf_heapD) simp_all
  then have "wf_zone ?h1 ((?h1 ! old)\<lparr>zn_children := AList.update (zk_Name k) z (zn_children (?h1 ! old))\<rparr>)"
    using assms(4) by (intro wf_zone_children_update) simp_all
  with wf1 True show ?thesis
    by (simp add: link_child_def wf_heap_upd)
qed (use assms in \<open>auto simp: link_child_def\<close>)

lemma key_link_child: "zn_key (link_child key old h kz ! i) = zn_key (h ! i)"
  by (auto simp: link_child_def nth_upd_same split: prod.splits)

lemma wf_link_children:
  assumes "wf_heap h" "old < length h" "zn_key (h ! old) = key"
    and "\<And>k z. (k, z) \<in> set kzs \<Longrightarrow> z < length h \<and> zn_key (h ! z) = k"
  shows "wf_heap (foldl (link_child key old) h kzs)"
  using assms
proof (induction kzs arbitrary: h)
  case (Cons kz kzs)
  obtain k z where kz: "kz = (k, z)" by force
  have "wf_heap (link_child key old h kz)"
    unfolding kz using Cons.prems kz by (intro wf_link_child) auto
  then show ?case
    unfolding foldl.simps
    by (rule Cons.IH) (use Cons.prems in \<open>auto simp: key_link_child\<close>)
qed simp

lemma wf_intern:
  assumes wf: "wf_model m" and ord: "iteration_order ord" and i: "intern ord s key m = (m1, old)"
  shows "wf_model m1 \<and> map_of (m_zones m1) key = Some old"
proof (cases "map_of (m_zones m) key")
  case None
  let ?old = "length (m_heap m)" and ?h = "m_heap m @ [NewZone s key]"
  let ?zs = "AList.update key ?old (m_zones m)"
  from i None have m1: "m_heap m1 = foldl (link_child key ?old) ?h (ord ?zs)" "m_zones m1 = ?zs" "old = ?old"
    by (auto simp: intern_def Let_def)
  have zs: "wf_zones ?h ?zs"
    using wf Prelude.set_update_subset [of key ?old "m_zones m"]
    by (fastforce simp: wf_model_def wf_zones_def go_map nth_append NewZone_def)
  have "wf_heap ?h"
    using wf by (auto simp: wf_model_def intro: wf_heap_snoc wf_NewZone)
  then have "wf_heap (m_heap m1)"
    unfolding m1 using zs ord by (intro wf_link_children) (auto simp: wf_zones_def NewZone_def)
  moreover have "wf_zones (m_heap m1) (m_zones m1)"
  proof -
    have "map zn_key (foldl (link_child key ?old) ?h (ord ?zs)) = map zn_key ?h"
      by (intro map_link_children) simp_all
    with zs show ?thesis unfolding m1 using wf_zones_cong by blast
  qed
  ultimately show ?thesis by (simp add: wf_model_def m1 go_map)
next
  case (Some a)
  with i wf show ?thesis by (auto simp: intern_def)
qed

lemma wf_unlink_parent:
  assumes "wf_heap h" shows "wf_heap (unlink_parent old zone h)"
  using assms
  by (auto simp: unlink_parent_def split: option.splits
        intro!: wf_heap_upd intro: wf_zone_children_delete wf_heapD)

lemma wf_link_parent:
  assumes "wf_heap h" "old < length h"
  shows "wf_heap (fst (link_parent E s old zone zones h))"
  using assms
  by (auto simp: link_parent_def Let_def split: option.splits
        intro!: wf_heap_upd intro: wf_zone_children_update wf_heapD)

lemma wf_hand_serials: "wf_heap h \<Longrightarrow> wf_heap (foldl (hand_serial old) h as)"
proof (induction as arbitrary: h)
  case (Cons a as)
  have "wf_heap (hand_serial old h a)"
    unfolding hand_serial_def using Cons.prems by (intro wf_heap_upd) (auto intro: wf_heapD)
  then show ?case using Cons.IH by simp
qed simp

section \<open>The placement of a zone\<close>

lemma place_zone_eqs:
  assumes "place_zone D E ord s key zone m = (m1, old, parent, h)"
  obtains h3 where "intern ord s key m = (m1, old)"
    and "h3 = unlink_parent old zone (upd (m_heap m1) old (\<lambda>y. y\<lparr>zn_serialId := serial_of zone\<rparr>))"
    and "parent = new_parent E s zone m1"
    and "h = set_zone D old zone parent (fst (link_parent E s old zone (m_zones m1) h3))"
proof (rule that)
  show i: "intern ord s key m = (m1, old)"
    using assms by (auto simp: place_zone_def Let_def split: prod.splits)
  let ?h3 = "unlink_parent old zone (upd (m_heap m1) old (\<lambda>y. y\<lparr>zn_serialId := serial_of zone\<rparr>))"
  show "?h3 = ?h3" ..
  obtain h4 q where l: "link_parent E s old zone (m_zones m1) ?h3 = (h4, q)" by force
  with assms i have "q = parent" "h = set_zone D old zone parent h4"
    by (auto simp: place_zone_def)
  with l show "parent = new_parent E s zone m1"
    and "h = set_zone D old zone parent (fst (link_parent E s old zone (m_zones m1) ?h3))"
    using snd_link_parent [of E s old zone m1 ?h3] by auto
qed

lemma place_zone_map:
  assumes "place_zone D E ord s key zone m = (m1, old, parent, h)"
    and "\<And>y v. p (y\<lparr>zn_children := v\<rparr>) = p y" and "\<And>y v. p (y\<lparr>zn_serialId := v\<rparr>) = p y"
  shows "map p (fst (link_parent E s old zone (m_zones m1)
      (unlink_parent old zone (upd (m_heap m1) old (\<lambda>y. y\<lparr>zn_serialId := serial_of zone\<rparr>)))))
    = map p (m_heap m1)"
  using assms(2,3) by (simp add: map_link_parent map_unlink_parent)

lemma parents_link_parent: "parents (fst (link_parent E s old zone zones h)) = parents h"
  by (auto simp: link_parent_def Let_def nth_upd_same fun_eq_iff split: option.splits)

lemma parents_unlink_parent: "parents (unlink_parent old zone h) = parents h"
  by (auto simp: unlink_parent_def nth_upd_same fun_eq_iff split: option.splits)

lemma parents_set_zone:
  "old < length h \<Longrightarrow> parents (set_zone D old zone parent h) = (parents h)(old := parent)"
  by (auto simp: set_zone_def nth_list_update fun_eq_iff)

lemma place_zone_parents:
  assumes "place_zone D E ord s key zone m = (m1, old, parent, h)" and "old < length (m_heap m1)"
  shows "parents h = (parents (m_heap m1))(old := parent)"
proof -
  from assms(1) obtain h3 where
    "h3 = unlink_parent old zone (upd (m_heap m1) old (\<lambda>y. y\<lparr>zn_serialId := serial_of zone\<rparr>))"
    and h: "h = set_zone D old zone parent (fst (link_parent E s old zone (m_zones m1) h3))"
    by (rule place_zone_eqs)
  then have "parents h3 = parents (m_heap m1)" and "length h3 = length (m_heap m1)"
    by (auto simp: parents_unlink_parent nth_upd_same fun_eq_iff)
  with assms(2) show ?thesis
    unfolding h by (simp add: parents_set_zone parents_link_parent)
qed

lemma serial_link_parent: "zn_serialId (fst (link_parent E s old zone zones h) ! i) = zn_serialId (h ! i)"
  by (auto simp: link_parent_def Let_def nth_upd_same split: option.splits)

lemma serial_unlink_parent: "zn_serialId (unlink_parent old zone h ! i) = zn_serialId (h ! i)"
  by (auto simp: unlink_parent_def nth_upd_same split: option.splits)

lemma map_set_zone:
  "(\<And>y. p (y\<lparr>zn_parent := parent, zn_parentName := zone_parent zone,
       zn_names := map (if zone_parent zone = [] then dns_Fqdn D else Rdn) (zs_DomainNames (z_Spec zone))\<rparr>) = p y)
   \<Longrightarrow> map p (set_zone D old zone parent h) = map p h"
  unfolding set_zone_def by (rule map_upd)

lemma serial_set_zone: "zn_serialId (set_zone D old zone parent h ! i) = zn_serialId (h ! i)"
  unfolding set_zone_def by (rule nth_upd_same) simp

lemma children_set_zone: "zn_children (set_zone D old zone parent h ! i) = zn_children (h ! i)"
  unfolding set_zone_def by (rule nth_upd_same) simp

lemma place_zone_serial:
  assumes "place_zone D E ord s key zone m = (m1, old, parent, h)" and "old < length (m_heap m1)"
  shows "zn_serialId (h ! i) = (if i = old then serial_of zone else zn_serialId (m_heap m1 ! i))"
  using assms(2)
  by (rule_tac place_zone_eqs [OF assms(1)])
     (auto simp: serial_set_zone serial_link_parent serial_unlink_parent nth_list_update)

definition zone_call :: "string \<Rightarrow> zone_key \<Rightarrow> hosted_zone \<Rightarrow> bool" where
  "zone_call s key zone \<longleftrightarrow> key = ZoneKeyFromObject s (z_Meta zone)"

lemma parent_key_For:
  "refkey_law E \<Longrightarrow> zone_call s key zone \<Longrightarrow> parent_key E s zone = zk_For key (zone_parent zone)"
  by (simp add: parent_key_def zone_call_def ZoneKeyFromObject_def zk_For_def refkey_lawD Let_def)

lemma place_zone_wf:
  assumes wf: "wf_model m" and ord: "iteration_order ord" and E: "refkey_law E"
    and call: "zone_call s key zone"
    and place: "place_zone D E ord s key zone m = (m1, old, parent, h)"
  shows "wf_model (m1\<lparr>m_heap := h\<rparr>) \<and> wf_model m1 \<and> map_of (m_zones m1) key = Some old
    \<and> length h = length (m_heap m1) \<and> old < length (m_heap m1)"
proof -
  from place obtain h3 where i: "intern ord s key m = (m1, old)"
    and h3: "h3 = unlink_parent old zone (upd (m_heap m1) old (\<lambda>y. y\<lparr>zn_serialId := serial_of zone\<rparr>))"
    and parent: "parent = new_parent E s zone m1"
    and h: "h = set_zone D old zone parent (fst (link_parent E s old zone (m_zones m1) h3))"
    by (rule place_zone_eqs)
  from wf_intern [OF wf ord i] have wf1: "wf_model m1" and old: "map_of (m_zones m1) key = Some old"
    by auto
  then have in1: "old < length (m_heap m1)" "zn_key (m_heap m1 ! old) = key"
    by (auto simp: wf_model_def dest: wf_zones_lookup)
  let ?h4 = "fst (link_parent E s old zone (m_zones m1) h3)"
  have "wf_heap h3"
    unfolding h3 using wf1
    by (intro wf_unlink_parent wf_heap_upd) (auto simp: wf_model_def intro: wf_heapD)
  moreover have len: "length h3 = length (m_heap m1)" by (simp add: h3)
  ultimately have wf4: "wf_heap ?h4" using in1 by (intro wf_link_parent) simp_all
  have keys4: "map zn_key ?h4 = map zn_key (m_heap m1)"
    unfolding h3 using place by (rule place_zone_map) simp_all
  have key4: "zn_key (?h4 ! i) = zn_key (m_heap m1 ! i)" if "i < length (m_heap m1)" for i
    using keys4 that len by (metis length_steps(4) nth_map)
  have "wf_zone ?h4 ((?h4 ! old)\<lparr>zn_parent := parent, zn_parentName := zone_parent zone, zn_names := ns\<rparr>)" for ns
  proof -
    have "p < length ?h4 \<and> zone_parent zone \<noteq> [] \<and> zn_key (?h4 ! p) = zk_For key (zone_parent zone)"
      if "parent = Some p" for p
      using that wf1 key4 len parent_key_For [OF E call]
      by (auto simp: parent new_parent_def wf_model_def dest: wf_zones_lookup split: if_splits)
    moreover have "wf_zone ?h4 (?h4 ! old)" using wf4 in1 len by (intro wf_heapD) simp_all
    ultimately show ?thesis
      using key4 [OF in1(1)] in1 by (simp add: wf_zone_alt split: option.splits)
  qed
  then have "wf_heap h"
    unfolding h set_zone_def using wf4 by (intro wf_heap_upd) simp_all
  moreover have "map zn_key h = map zn_key (m_heap m1)"
    using keys4 by (simp add: h map_set_zone)
  ultimately have "wf_model (m1\<lparr>m_heap := h\<rparr>)"
    using wf1 wf_zones_cong [of h "m_heap m1" "m_zones m1"] by (simp add: wf_model_def)
  with wf1 old in1 len show ?thesis by (simp add: h)
qed

section \<open>The result of AddZone\<close>

lemma AddZone_SomeE:
  assumes wf: "wf_model m" "iteration_order ord" "refkey_law E" "zone_call s key zone"
    and add: "AddZone D E ord s key zone m = Some (m', a)"
  obtains m1 parent h as where "place_zone D E ord s key zone m = (m1, a, parent, h)"
    and "root_path (parents h) parent as"
    and "m' = m1\<lparr>m_heap := foldl (hand_serial a) h as\<rparr>"
proof -
  from add obtain m1 parent h h' where place: "place_zone D E ord s key zone m = (m1, a, parent, h)"
    and p: "propagate a parent h = Some h'" and m': "m' = m1\<lparr>m_heap := h'\<rparr>"
    by (auto simp: AddZone_def split: prod.splits option.splits)
  from propagate_returns [OF p] obtain as where as: "root_path (parents h) parent as" by blast
  from propagate_path [OF as] p have "h' = foldl (hand_serial a) h as" by simp
  with place as m' show ?thesis using that by blast
qed

lemma AddZone_None_iff:
  assumes wf: "wf_model m" "iteration_order ord" "refkey_law E" "zone_call s key zone"
    and place: "place_zone D E ord s key zone m = (m1, a, parent, h)"
  shows "AddZone D E ord s key zone m = None \<longleftrightarrow> \<not> (\<exists>as. root_path (parents h) parent as)"
  using propagate_returns_iff [of a parent h] place
  by (auto simp: AddZone_def split: option.splits)

lemma AddZone_wf_aux:
  assumes "wf_model m" "iteration_order ord" "refkey_law E" "zone_call s key zone"
    and "AddZone D E ord s key zone m = Some (m', a)"
  shows "wf_model m' \<and> GetZone m' key = Some a"
proof -
  from AddZone_SomeE [OF assms] obtain m1 parent h as where
    place: "place_zone D E ord s key zone m = (m1, a, parent, h)"
    and m': "m' = m1\<lparr>m_heap := foldl (hand_serial a) h as\<rparr>" by metis
  from place_zone_wf [OF assms(1-4) place] have "wf_model (m1\<lparr>m_heap := h\<rparr>)"
    and "map_of (m_zones m1) key = Some a" by auto
  moreover have "map zn_key (foldl (hand_serial a) h as) = map zn_key h"
    by (intro map_hand_serials) simp
  ultimately show ?thesis
    using wf_zones_cong [of "foldl (hand_serial a) h as" h "m_zones m1"]
    by (simp add: m' wf_model_def wf_hand_serials GetZone_def)
qed

lemma RemoveZone_wf:
  assumes "wf_model m" shows "wf_model (RemoveZone m k)"
proof -
  have "wf_zones h (AList.delete k zs)" if "wf_zones h zs" for h zs
    unfolding wf_zones_def
  proof
    show "distinct (map fst (AList.delete k zs))"
      using that by (intro distinct_keys_delete) (simp add: wf_zones_def)
    show "\<forall>(k, a) \<in> set (AList.delete k zs). a < length h \<and> zn_key (h ! a) = k"
      using that set_delete_subset [of k zs] by (auto simp: wf_zones_def)
  qed
  with assms show ?thesis by (simp add: wf_model_def RemoveZone_def)
qed

lemma New_wf: "wf_model New"
  by (simp add: New_def wf_model_def wf_heap_def wf_zones_def)

section \<open>What an AddZone changes\<close>

lemma intern_map:
  assumes i: "intern ord s key m = (m1, old)"
    and "\<And>y v. p (y\<lparr>zn_parent := v\<rparr>) = p y" and "\<And>y v. p (y\<lparr>zn_children := v\<rparr>) = p y"
  shows "map p (m_heap m1) =
    map p (m_heap m) @ (if map_of (m_zones m) key = None then [p (NewZone s key)] else [])"
  using i by (auto simp: intern_def Let_def map_link_children assms(2,3) split: option.splits)

lemma intern_zones:
  "intern ord s key m = (m1, old) \<Longrightarrow> k \<noteq> key \<Longrightarrow> map_of (m_zones m1) k = map_of (m_zones m) k"
  by (auto simp: intern_def Let_def go_map split: option.splits)

lemma nth_map_prefix: "map p h' = map p h @ r \<Longrightarrow> i < length h \<Longrightarrow> p (h' ! i) = p (h ! i)"
  by (metis length_append length_map nth_append nth_map trans_less_add1)

lemma nth_map_eq: "map p h' = map p h \<Longrightarrow> i < length h \<Longrightarrow> p (h' ! i) = p (h ! i)"
  using nth_map_prefix [of p h' h "[]" i] by simp

text \<open>A zone other than the one added keeps its declaration: parent name and domain names.\<close>

definition zone_decl :: "zone \<Rightarrow> string \<times> string list" where
  "zone_decl z = (zn_parentName z, zn_names z)"

definition object_decl :: "dns_lib \<Rightarrow> hosted_zone \<Rightarrow> string \<times> string list" where
  "object_decl D zone =
     (zone_parent zone,
      map (if zone_parent zone = [] then dns_Fqdn D else Rdn) (zs_DomainNames (z_Spec zone)))"

lemma place_zone_decl:
  assumes place: "place_zone D E ord s key zone m = (m1, old, parent, h)"
    and old: "old < length (m_heap m1)"
  shows "zone_decl (h ! old) = object_decl D zone"
    and "i < length (m_heap m) \<Longrightarrow> i \<noteq> old \<Longrightarrow> zone_decl (h ! i) = zone_decl (m_heap m ! i)"
proof -
  from place obtain h3 where i: "intern ord s key m = (m1, old)"
    and h3: "h3 = unlink_parent old zone (upd (m_heap m1) old (\<lambda>y. y\<lparr>zn_serialId := serial_of zone\<rparr>))"
    and h: "h = set_zone D old zone parent (fst (link_parent E s old zone (m_zones m1) h3))"
    by (rule place_zone_eqs)
  let ?h4 = "fst (link_parent E s old zone (m_zones m1) h3)"
  have len: "length ?h4 = length (m_heap m1)" by (simp add: h3)
  with old show "zone_decl (h ! old) = object_decl D zone"
    by (simp add: h set_zone_def zone_decl_def object_decl_def)
  show "zone_decl (h ! i) = zone_decl (m_heap m ! i)" if "i < length (m_heap m)" "i \<noteq> old"
  proof -
    have "map zone_decl ?h4 = map zone_decl (m_heap m1)"
      unfolding h3 using place by (rule place_zone_map) (simp_all add: zone_decl_def)
    also have "\<dots> = map zone_decl (m_heap m) @
        (if map_of (m_zones m) key = None then [zone_decl (NewZone s key)] else [])"
      using i by (rule intern_map) (simp_all add: zone_decl_def)
    finally have "zone_decl (?h4 ! i) = zone_decl (m_heap m ! i)"
      using that(1) by (rule nth_map_prefix)
    with that(2) show ?thesis by (simp add: h set_zone_def)
  qed
qed

lemma decl_hand_serials: "i < length h \<Longrightarrow> zone_decl (foldl (hand_serial a) h as ! i) = zone_decl (h ! i)"
  by (rule nth_map_eq, rule map_hand_serials) (simp_all add: zone_decl_def)

text \<open>The abstract view of a model: the declaration kept for each key.\<close>

definition abs_model :: "model \<Rightarrow> zone_key \<Rightarrow> (string \<times> string list) option" where
  "abs_model m k = map_option (\<lambda>a. zone_decl (m_heap m ! a)) (GetZone m k)"

lemma AddZone_abs:
  assumes wf: "wf_model m" "iteration_order ord" "refkey_law E" "zone_call s key zone"
    and add: "AddZone D E ord s key zone m = Some (m', a)"
  shows "abs_model m' = (abs_model m)(key \<mapsto> object_decl D zone)"
proof
  fix k
  from AddZone_SomeE [OF assms] obtain m1 parent h as where
    place: "place_zone D E ord s key zone m = (m1, a, parent, h)"
    and m': "m' = m1\<lparr>m_heap := foldl (hand_serial a) h as\<rparr>" by metis
  from place_zone_wf [OF wf place] have wf1: "wf_model m1" and a: "map_of (m_zones m1) key = Some a"
    and len: "length h = length (m_heap m1)" "a < length (m_heap m1)" by auto
  show "abs_model m' k = ((abs_model m)(key \<mapsto> object_decl D zone)) k"
  proof (cases "k = key")
    case True
    with a len show ?thesis
      by (simp add: abs_model_def GetZone_def m' decl_hand_serials place_zone_decl(1) [OF place])
  next
    case False
    have i: "intern ord s key m = (m1, a)" using place by (rule place_zone_eqs)
    from False have same: "map_of (m_zones m1) k = map_of (m_zones m) k"
      by (rule intern_zones [OF i])
    show ?thesis
    proof (cases "map_of (m_zones m) k")
      case None
      with False same show ?thesis by (simp add: abs_model_def GetZone_def m')
    next
      case (Some b)
      with wf(1) have "b < length (m_heap m)" and kb: "zn_key (m_heap m ! b) = k"
        by (auto simp: wf_model_def dest: wf_zones_lookup)
      moreover have "b \<noteq> a"
        using False same Some a wf1 by (auto simp: wf_model_def dest: wf_zones_lookup)
      moreover have "b < length h"
        using same Some wf1 len by (auto simp: wf_model_def dest: wf_zones_lookup)
      ultimately show ?thesis
        using False same Some place_zone_decl(2) [OF place len(2)]
        by (simp add: abs_model_def GetZone_def m' decl_hand_serials)
    qed
  qed
qed

lemma RemoveZone_abs: "abs_model (RemoveZone m k) = (abs_model m)(k := None)"
  by (auto simp: abs_model_def RemoveZone_def GetZone_def go_map fun_eq_iff simp del: AList.delete_eq)

text \<open>The children maps after adding a zone the model did not have.\<close>

lemma link_child_old_only:
  "zn_children (link_child key old h kz ! i) = (if i = old then zn_children (link_child key old h kz ! old) else zn_children (h ! i))"
proof (cases kz)
  case (Pair k z)
  have "zn_children (upd (upd h z (\<lambda>y. y\<lparr>zn_parent := Some old\<rparr>)) old f ! i) = zn_children (h ! i)"
    if "i \<noteq> old" for f
    using that nth_upd_same [of zn_children "\<lambda>y. y\<lparr>zn_parent := Some old\<rparr>" h z i] by simp
  then show ?thesis by (auto simp: link_child_def Pair)
qed

lemma link_children_old_only:
  "i \<noteq> old \<Longrightarrow> zn_children (foldl (link_child key old) h kzs ! i) = zn_children (h ! i)"
proof (induction kzs arbitrary: h)
  case (Cons kz kzs)
  then show ?case using link_child_old_only [of key old h kz i] by simp
qed simp

lemma parentName_link_child:
  "zn_parentName (link_child key old h kz ! i) = zn_parentName (h ! i)"
  by (auto simp: link_child_def nth_upd_same split: prod.splits)

lemma parent_link_child_root:
  "zn_parentName (h ! i) = [] \<Longrightarrow> zn_parent (link_child key old h kz ! i) = zn_parent (h ! i)"
proof (cases kz)
  case (Pair k z)
  assume i: "zn_parentName (h ! i) = []"
  have "zn_parent (upd (upd h z (\<lambda>y. y\<lparr>zn_parent := Some old\<rparr>)) old (\<lambda>y. y\<lparr>zn_children := g y\<rparr>) ! i) = zn_parent (h ! i)"
    if "zn_parentName (h ! z) \<noteq> []" for g
  proof -
    have "zn_parent (upd h z (\<lambda>y. y\<lparr>zn_parent := Some old\<rparr>) ! i) = zn_parent (h ! i)"
      using i that by (cases "i = z") auto
    then show ?thesis
      using nth_upd_same [of zn_parent "\<lambda>y. y\<lparr>zn_children := g y\<rparr>"] by simp
  qed
  then show ?thesis by (auto simp: link_child_def Pair)
qed

lemma parent_link_children_root:
  "zn_parentName (h ! i) = [] \<Longrightarrow> zn_parent (foldl (link_child key old) h kzs ! i) = zn_parent (h ! i)"
  by (induction kzs arbitrary: h) (simp_all add: parent_link_child_root parentName_link_child)

lemma intern_fresh:
  assumes i: "intern ord s key m = (m1, old)" and fresh: "map_of (m_zones m) key = None"
  shows "old = length (m_heap m)" and "zn_parent (m_heap m1 ! old) = None"
    and "b < length (m_heap m) \<Longrightarrow> zn_children (m_heap m1 ! b) = zn_children (m_heap m ! b)"
proof -
  from i fresh have m1: "m_heap m1 = foldl (link_child key old) (m_heap m @ [NewZone s key])
      (ord (AList.update key old (m_zones m)))" and old: "old = length (m_heap m)"
    by (auto simp: intern_def Let_def)
  show "old = length (m_heap m)" by (rule old)
  show "zn_parent (m_heap m1 ! old) = None"
    unfolding m1 by (subst parent_link_children_root) (simp_all add: old NewZone_def)
  show "zn_children (m_heap m1 ! b) = zn_children (m_heap m ! b)" if "b < length (m_heap m)"
    unfolding m1 using that by (subst link_children_old_only) (simp_all add: old nth_append)
qed

lemma AddZone_fresh_children:
  assumes wf: "wf_model m" "iteration_order ord" "refkey_law E" "zone_call s key zone"
    and fresh: "GetZone m key = None"
    and add: "AddZone D E ord s key zone m = Some (m', a)"
    and b: "b < length (m_heap m)"
  shows "zn_children (m_heap m' ! b) =
    (if new_parent E s zone m = Some b
     then AList.update (zone_parent zone) a (zn_children (m_heap m ! b)) else zn_children (m_heap m ! b))"
proof -
  from AddZone_SomeE [OF wf add] obtain m1 parent h as where
    place: "place_zone D E ord s key zone m = (m1, a, parent, h)"
    and path: "root_path (parents h) parent as"
    and m': "m' = m1\<lparr>m_heap := foldl (hand_serial a) h as\<rparr>" by metis
  from place_zone_wf [OF wf place] have wf1: "wf_model (m1\<lparr>m_heap := h\<rparr>)"
    and len: "length h = length (m_heap m1)" "a < length (m_heap m1)" by auto
  from place obtain h3 where i: "intern ord s key m = (m1, a)"
    and h3: "h3 = unlink_parent a zone (upd (m_heap m1) a (\<lambda>y. y\<lparr>zn_serialId := serial_of zone\<rparr>))"
    and parent: "parent = new_parent E s zone m1"
    and h: "h = set_zone D a zone parent (fst (link_parent E s a zone (m_zones m1) h3))"
    by (rule place_zone_eqs)
  from fresh have "map_of (m_zones m) key = None" by (simp add: GetZone_def)
  note fr = intern_fresh [OF i this]
  have ab: "a \<noteq> b" and bl: "b < length h"
    using b fr(1) len by auto
  have h3b: "h3 = upd (m_heap m1) a (\<lambda>y. y\<lparr>zn_serialId := serial_of zone\<rparr>)"
    using fr(2) len by (simp add: h3 unlink_parent_def)
  have "zn_children (foldl (hand_serial a) h as ! b) = zn_children (h ! b)"
    using bl by (intro nth_map_eq map_hand_serials) simp_all
  also have "\<dots> = zn_children (fst (link_parent E s a zone (m_zones m1) h3) ! b)"
    using ab by (simp add: h set_zone_def)
  also have "\<dots> = (if parent = Some b then AList.update (zone_parent zone) a (zn_children (h3 ! b))
      else zn_children (h3 ! b))"
    using parent_key_For [OF wf(3,4)] b fr(1) len ab
    by (auto simp: parent new_parent_def link_parent_def Let_def h3b nth_list_update split: option.splits)
  also have "zn_children (h3 ! b) = zn_children (m_heap m ! b)"
    using ab fr(3) [OF b] by (simp add: h3b)
  also have "parent = Some b \<longleftrightarrow> new_parent E s zone m = Some b"
  proof -
    have "map_of (m_zones m1) key = Some a" using place_zone_wf [OF wf place] by simp
    then show ?thesis
      using parent_key_For [OF wf(3,4)] ab intern_zones [OF i, of "parent_key E s zone"] fresh
      by (cases "parent_key E s zone = key") (auto simp: parent new_parent_def GetZone_def)
  qed
  finally show ?thesis by (simp add: m')
qed

lemma AddZone_fresh_addr:
  assumes "wf_model m" "iteration_order ord" "refkey_law E" "zone_call s key zone"
    and "GetZone m key = None" "AddZone D E ord s key zone m = Some (m', a)"
  shows "a = length (m_heap m) \<and> length (m_heap m) < length (m_heap m')"
proof -
  from AddZone_SomeE [OF assms(1-4,6)] obtain m1 parent h as where
    place: "place_zone D E ord s key zone m = (m1, a, parent, h)"
    and m': "m' = m1\<lparr>m_heap := foldl (hand_serial a) h as\<rparr>" by metis
  have i: "intern ord s key m = (m1, a)" using place by (rule place_zone_eqs)
  have "length (foldl (hand_serial a) h as) = length h"
    by (induction as arbitrary: h) (simp_all add: hand_serial_def)
  moreover have "length h = length (m_heap m1)" and "a < length (m_heap m1)"
    using place_zone_wf [OF assms(1-4) place] by auto
  moreover have "a = length (m_heap m)"
    using intern_fresh(1) [OF i] assms(5) by (simp add: GetZone_def)
  ultimately show ?thesis by (simp add: m')
qed

lemma snd_update_twice:
  "a \<notin> snd ` set xs \<Longrightarrow> a \<noteq> b \<Longrightarrow> a \<notin> snd ` set (AList.update k b (AList.update k a xs))"
  by (induction xs) auto

section \<open>Diverging calls\<close>

lemma ancestor_upd:
  "ancestor par n x = Some a \<Longrightarrow> \<exists>k. ancestor (par(a := v)) k x = Some a"
proof (induction n arbitrary: x)
  case 0
  then have "ancestor (par(a := v)) 0 x = Some a" by simp
  then show ?case ..
next
  case (Suc n)
  then obtain b where x: "x = Some b" and b: "ancestor par n (par b) = Some a"
    by (auto split: option.splits)
  show ?case
  proof (cases "b = a")
    case True
    with x have "ancestor (par(a := v)) 0 x = Some a" by simp
    then show ?thesis ..
  next
    case False
    from Suc.IH [OF b] obtain k where "ancestor (par(a := v)) k (par b) = Some a" ..
    with False x have "ancestor (par(a := v)) (Suc k) x = Some a" by simp
    then show ?thesis ..
  qed
qed

lemma intern_existing: "map_of (m_zones m) key = Some a \<Longrightarrow> intern ord s key m = (m, a)"
  by (simp add: intern_def)

lemma cyclic_no_root_path:
  assumes "ancestor par n (Some p) = Some a"
  shows "\<not> root_path (par(a := Some p)) (Some p) as"
proof
  let ?par = "par(a := Some p)"
  assume "root_path ?par (Some p) as"
  then have "root_path ?par (Some a) (a # as)" by simp
  moreover obtain k where "ancestor ?par k (?par a) = Some a"
    using ancestor_upd [OF assms, of "Some p"] by auto
  ultimately show False using no_root_path_cycle by blast
qed

lemma AddZone_existing_None:
  assumes wf: "wf_model m" "iteration_order ord" "refkey_law E" "zone_call s key zone"
    and a: "GetZone m key = Some a" and p: "new_parent E s zone m = Some p"
    and anc: "ancestor (parents (m_heap m)) n (Some p) = Some a"
  shows "AddZone D E ord s key zone m = None"
proof -
  obtain m1 old parent h where place: "place_zone D E ord s key zone m = (m1, old, parent, h)"
    by (cases "place_zone D E ord s key zone m") auto
  from a have i: "intern ord s key m = (m, a)" by (simp add: GetZone_def intern_existing)
  from place have "intern ord s key m = (m1, old)" and parent: "parent = new_parent E s zone m1"
    by (blast elim: place_zone_eqs)+
  with i have eq: "m1 = m" "old = a" by simp_all
  have "parents h = (parents (m_heap m))(a := Some p)"
    using place_zone_parents [OF place] place_zone_wf [OF wf place] p by (simp add: eq parent)
  then have "\<not> root_path (parents h) parent as" for as
    using cyclic_no_root_path [OF anc] p by (simp add: parent eq)
  then show ?thesis using AddZone_None_iff [OF wf place] by blast
qed

section \<open>Serial ids\<close>

lemma serial_intern:
  assumes "intern ord s key m = (m1, old)" "i < length (m_heap m)"
  shows "zn_serialId (m_heap m1 ! i) = zn_serialId (m_heap m ! i)"
  by (rule nth_map_prefix [OF intern_map [OF assms(1)] assms(2)]) simp_all

lemma root_path_less:
  assumes "wf_heap h" "root_path (parents h) x as" "\<And>p. x = Some p \<Longrightarrow> p < length h"
  shows "\<forall>a \<in> set as. a < length h"
  using assms(2,3)
proof (induction as arbitrary: x)
  case (Cons a as)
  then have a: "x = Some a" "a < length h" and rest: "root_path (parents h) (parents h a) as" by auto
  have "p < length h" if "parents h a = Some p" for p
    using wf_heapD [OF assms(1) a(2)] that by (simp add: wf_zone_alt)
  with Cons.IH [OF rest] a show ?case by auto
qed simp

lemma AddZone_serials:
  assumes wf: "wf_model m" "iteration_order ord" "refkey_law E" "zone_call s key zone"
    and add: "AddZone D E ord s key zone m = Some (m', a)"
  shows "\<exists>as. root_path (parents (m_heap m')) (parents (m_heap m') a) as \<and>
    zn_serialId (m_heap m' ! a) = serial_of zone \<and>
    (\<forall>i < length (m_heap m). zn_serialId (m_heap m' ! i) =
       (if i = a \<or> i \<in> set as then serial_of zone else zn_serialId (m_heap m ! i)))"
proof -
  from AddZone_SomeE [OF wf add] obtain m1 parent h as where
    place: "place_zone D E ord s key zone m = (m1, a, parent, h)"
    and path: "root_path (parents h) parent as"
    and m': "m' = m1\<lparr>m_heap := foldl (hand_serial a) h as\<rparr>" by metis
  from place_zone_wf [OF wf place] have wf1: "wf_model (m1\<lparr>m_heap := h\<rparr>)"
    and len: "length h = length (m_heap m1)" "a < length (m_heap m1)" by auto
  have i: "intern ord s key m = (m1, a)" using place by (rule place_zone_eqs)
  have par: "parents h = (parents (m_heap m1))(a := parent)"
    by (rule place_zone_parents [OF place len(2)])
  have pa: "parents h a = parent" using fun_cong [OF par, of a] by simp
  have wfh: "wf_heap h" using wf1 by (simp add: wf_model_def)
  have "\<forall>b \<in> set as. b < length h"
  proof (rule root_path_less [OF wfh path])
    show "p < length h" if "parent = Some p" for p
      using wf_heapD [OF wfh, of a] pa that len by (simp add: wf_zone_alt)
  qed
  then have ser: "zn_serialId (m_heap m' ! j) =
      (if j \<in> set as then zn_serialId (h ! a) else zn_serialId (h ! j))" for j
    unfolding m' by (simp add: serial_hand_serials)
  have "parents (foldl (hand_serial a) h as) = parents h"
    by (induction as arbitrary: h) simp_all
  note parm = this
  have "root_path (parents (m_heap m')) (parents (m_heap m') a) as"
    using path pa parm fun_cong [OF parm, of a] by (simp add: m')
  moreover have "zn_serialId (m_heap m' ! i) =
      (if i = a \<or> i \<in> set as then serial_of zone else zn_serialId (m_heap m ! i))"
    if "i < length (m_heap m)" for i
    using serial_intern [OF i that] by (simp add: ser place_zone_serial [OF place len(2)])
  moreover have "zn_serialId (m_heap m' ! a) = serial_of zone"
    by (simp add: ser place_zone_serial [OF place len(2)])
  ultimately show ?thesis by blast
qed

section \<open>Stale links\<close>

lemma children_upd_delete:
  "n \<noteq> k \<Longrightarrow> map_of (zn_children (upd h p (\<lambda>y. y\<lparr>zn_children := AList.delete k (zn_children y)\<rparr>) ! q)) n
     = map_of (zn_children (h ! q)) n"
  by (cases "p < length h"; cases "p = q")
     (auto simp: list_update_beyond go_map simp del: AList.delete_eq)

lemma children_unlink_parent:
  "n \<noteq> zone_name zone \<Longrightarrow>
   map_of (zn_children (unlink_parent old zone h ! q)) n = map_of (zn_children (h ! q)) n"
proof (cases "zn_parent (h ! old)")
  case (Some p)
  assume "n \<noteq> zone_name zone"
  from children_upd_delete [OF this, of h p q] Some show ?thesis
    by (simp add: unlink_parent_def)
qed (simp add: unlink_parent_def)

lemma AddZone_existing_root_children:
  assumes wf: "wf_model m" "iteration_order ord" "refkey_law E" "zone_call s key zone"
    and a: "GetZone m key = Some a" and root: "zone_parent zone = []"
    and add: "AddZone D E ord s key zone m = Some (m', b)"
    and n: "n \<noteq> zone_name zone" and q: "q < length (m_heap m)"
  shows "map_of (zn_children (m_heap m' ! q)) n = map_of (zn_children (m_heap m ! q)) n
    \<and> parents (m_heap m') a = None"
proof -
  from AddZone_SomeE [OF wf add] obtain m1 parent h as where
    place: "place_zone D E ord s key zone m = (m1, b, parent, h)"
    and m': "m' = m1\<lparr>m_heap := foldl (hand_serial b) h as\<rparr>" by metis
  from place obtain h3 where i: "intern ord s key m = (m1, b)"
    and h3: "h3 = unlink_parent b zone (upd (m_heap m1) b (\<lambda>y. y\<lparr>zn_serialId := serial_of zone\<rparr>))"
    and parent: "parent = new_parent E s zone m1"
    and h: "h = set_zone D b zone parent (fst (link_parent E s b zone (m_zones m1) h3))"
    by (rule place_zone_eqs)
  from a i have eq: "m1 = m" "b = a" by (simp_all add: GetZone_def intern_existing)
  have al: "a < length (m_heap m)" using place_zone_wf [OF wf place] by (simp add: eq)
  let ?h2 = "upd (m_heap m) a (\<lambda>y. y\<lparr>zn_serialId := serial_of zone\<rparr>)"
  have "map_of (zn_children (m_heap m' ! q)) n = map_of (zn_children (h ! q)) n"
    using q by (simp add: m' eq, subst nth_map_eq [OF map_hand_serials, of zn_children])
      (simp_all add: h h3 eq)
  also have "zn_children (h ! q) = zn_children (h3 ! q)"
    using root by (simp add: h link_parent_def children_set_zone)
  also have "map_of (zn_children (h3 ! q)) n = map_of (zn_children (?h2 ! q)) n"
    unfolding h3 eq by (rule children_unlink_parent [OF n])
  also have "zn_children (?h2 ! q) = zn_children (m_heap m ! q)"
    by (rule nth_upd_same) simp
  finally have ch: "map_of (zn_children (m_heap m' ! q)) n = map_of (zn_children (m_heap m ! q)) n" .
  have "parents (foldl (hand_serial b) h as) = parents h"
    by (induction as arbitrary: h) simp_all
  from fun_cong [OF this, of a] have "parents (m_heap m') a = None"
    using fun_cong [OF place_zone_parents [OF place], of a] al root
    by (simp add: m' eq parent new_parent_def)
  with ch show ?thesis ..
qed

section \<open>Concrete models\<close>

text \<open>The test's nested zone added, and the two objects after their roles are swapped.\<close>

definition ZoneB :: hosted_zone where
  "ZoneB = zero_zone\<lparr>z_Meta := (named ''default'' ''b'')\<lparr>om_ResourceVersion := ''4294967303''\<rparr>,
     z_Spec := zero_zone_spec\<lparr>zs_DomainNames := [''sub''], zs_ParentRef := ''a''\<rparr>\<rparr>"

definition ZoneA_below_AA :: hosted_zone where
  "ZoneA_below_AA = ZoneA\<lparr>z_Spec := (z_Spec ZoneA)\<lparr>zs_ParentRef := ''aa''\<rparr>\<rparr>"

definition ZoneAA_root :: hosted_zone where
  "ZoneAA_root = ZoneAA\<lparr>z_Spec := (z_Spec ZoneAA)\<lparr>zs_ParentRef := []\<rparr>\<rparr>"

definition model_B :: model where
  "model_B = (case test_add ZoneB model_AA of None \<Rightarrow> New | Some m \<Rightarrow> m)"

definition model_AA_root :: model where
  "model_AA_root = (case test_add ZoneAA_root model_AA of None \<Rightarrow> New | Some m \<Rightarrow> m)"

lemma test_calls:
  "zone_call test_Source (test_key z) z" "iteration_order (\<lambda>xs. xs)" "refkey_law ref_ext"
  by (simp_all add: zone_call_def test_key_def iteration_order_id ref_laws)

lemma model_AA_add:
  "AddZone ref_dns ref_ext (\<lambda>xs. xs) test_Source (test_key ZoneAA) ZoneAA model_A = Some (model_AA, 1)"
  by code_simp

lemma model_B_add:
  "AddZone ref_dns ref_ext (\<lambda>xs. xs) test_Source (test_key ZoneB) ZoneB model_AA = Some (model_B, 2)"
  by code_simp

lemma model_AA_root_add:
  "AddZone ref_dns ref_ext (\<lambda>xs. xs) test_Source (test_key ZoneAA_root) ZoneAA_root model_AA
     = Some (model_AA_root, 1)"
  by code_simp

lemma wf_model_A: "wf_model model_A"
  by code_simp

lemma wf_model_AA: "wf_model model_AA"
  using AddZone_wf_aux [OF wf_model_A test_calls(2,3,1) model_AA_add] ..

section \<open>Properties\<close>

text \<open>\<open>AddZone\<close> and \<open>RemoveZone\<close> keep the model well-formed (every parent pointer is the
  zone the parent name names, every child pointer is valid, keys are unique); after an
  \<open>AddZone\<close> its key finds the returned zone, after a \<open>RemoveZone\<close> its key finds nothing.\<close>

theorem AddZone_keeps_model:
  assumes "wf_model m" "iteration_order ord" "refkey_law E" "zone_call s key zone"
    and "AddZone D E ord s key zone m = Some (m', a)"
  shows "wf_model m' \<and> GetZone m' key = Some a \<and>
    wf_model (RemoveZone m k) \<and> GetZone (RemoveZone m k) k = None"
  using AddZone_wf_aux [OF assms] RemoveZone_wf [OF assms(1)]
  by (simp add: RemoveZone_def GetZone_def go_map del: AList.delete_eq)

theorem AddZone_keeps_model_witness:
  "wf_model model_AA \<and> GetZone model_AA (test_key ZoneAA) = Some 1 \<and>
   GetZone (RemoveZone model_A (test_key ZoneA)) (test_key ZoneA) = None"
  using AddZone_keeps_model [OF wf_model_A test_calls(2,3,1) model_AA_add, of "test_key ZoneA"]
  by simp

text \<open>C2: seen as a map from keys to declarations (parent name and normalised domain names,
  fully qualified for a root zone and relative for a nested one), \<open>AddZone\<close> is a map update
  and \<open>RemoveZone\<close> a map deletion: links and serial ids of other zones change, their
  declarations never do.\<close>

theorem AddZone_refines_map:
  assumes "wf_model m" "iteration_order ord" "refkey_law E" "zone_call s key zone"
    and "AddZone D E ord s key zone m = Some (m', a)"
  shows "abs_model m' = (abs_model m)(key \<mapsto> object_decl D zone) \<and>
    abs_model (RemoveZone m' k) = (abs_model m')(k := None)"
  using AddZone_abs [OF assms] RemoveZone_abs by blast

theorem AddZone_refines_map_witness:
  "abs_model model_AA = (abs_model model_A)(test_key ZoneAA \<mapsto> (''a'', [''demo'', ''test'']))"
proof -
  have "object_decl ref_dns ZoneAA = (''a'', [''demo'', ''test''])" by code_simp
  with AddZone_refines_map [OF wf_model_A test_calls(2,3,1) model_AA_add] show ?thesis by simp
qed

text \<open>\<open>AddZone\<close> returns if and only if the chain of parents that starts at the zone's new
  parent, in the heap with the new parent pointer in place, ends at a root zone; on a cyclic
  chain its serial id loop never ends (and the caller keeps the lock of the model).\<close>

theorem AddZone_returns_iff:
  assumes "wf_model m" "iteration_order ord" "refkey_law E" "zone_call s key zone"
    and "intern ord s key m = (m1, a)"
  shows "(\<exists>r. AddZone D E ord s key zone m = Some r) \<longleftrightarrow>
    (\<exists>as. root_path ((parents (m_heap m1))(a := new_parent E s zone m1)) (new_parent E s zone m1) as)"
proof -
  obtain m2 old parent h where place: "place_zone D E ord s key zone m = (m2, old, parent, h)"
    by (cases "place_zone D E ord s key zone m") auto
  then have "intern ord s key m = (m2, old)" and parent: "parent = new_parent E s zone m2"
    by (blast elim: place_zone_eqs)+
  with assms(5) have eq: "m2 = m1" "old = a" by simp_all
  have "parents h = (parents (m_heap m1))(a := parent)"
    using place_zone_parents [OF place] place_zone_wf [OF assms(1-4) place] by (simp add: eq)
  moreover have "(\<exists>r. AddZone D E ord s key zone m = Some r) \<longleftrightarrow> AddZone D E ord s key zone m \<noteq> None"
    by auto
  ultimately show ?thesis
    using AddZone_None_iff [OF assms(1-4) place] by (simp add: parent eq)
qed

theorem AddZone_returns_iff_witness:
  "\<exists>as. root_path ((parents (m_heap model_AA))(1 := Some 0)) (Some 0) as"
proof -
  have i: "intern (\<lambda>xs. xs) test_Source (test_key ZoneAA) model_AA = (model_AA, 1)"
    and p: "new_parent ref_ext test_Source ZoneAA model_AA = Some 0" by code_simp+
  have "AddZone ref_dns ref_ext (\<lambda>xs. xs) test_Source (test_key ZoneAA) ZoneAA model_AA \<noteq> None"
    by code_simp
  then show ?thesis
    using AddZone_returns_iff [OF wf_model_AA test_calls(2,3,1) i] p by simp
qed

text \<open>C36: when a known zone is given a parent of whose chain it is already a member, \<open>AddZone\<close>
  does not return. The witness is an update of two consistent objects one at a time: the
  nested zone of the test becomes the parent of its former parent, and the former parent is
  reconciled first.\<close>

theorem AddZone_cycle_diverges:
  assumes "wf_model m" "iteration_order ord" "refkey_law E" "zone_call s key zone"
    and "GetZone m key = Some a" and "new_parent E s zone m = Some p"
    and "ancestor (parents (m_heap m)) n (Some p) = Some a"
  shows "AddZone D E ord s key zone m = None"
  using assms by (rule AddZone_existing_None)

theorem AddZone_cycle_diverges_witness:
  "AddZone ref_dns ref_ext (\<lambda>xs. xs) test_Source (test_key ZoneA_below_AA) ZoneA_below_AA model_AA = None"
proof (rule AddZone_cycle_diverges [OF wf_model_AA test_calls(2,3,1)])
  show "GetZone model_AA (test_key ZoneA_below_AA) = Some 0" by code_simp
  show "new_parent ref_ext test_Source ZoneA_below_AA model_AA = Some 1" by code_simp
  show "ancestor (parents (m_heap model_AA)) 1 (Some 1) = Some 0" by code_simp
qed

text \<open>The serial id of an added zone is its resource version truncated to 32 bits, it is
  handed to every zone of the chain of parents of the added zone, and to no other zone.\<close>

theorem AddZone_serial_chain:
  assumes "wf_model m" "iteration_order ord" "refkey_law E" "zone_call s key zone"
    and "AddZone D E ord s key zone m = Some (m', a)"
  shows "\<exists>as. root_path (parents (m_heap m')) (parents (m_heap m') a) as \<and>
    zn_serialId (m_heap m' ! a) = serial_of zone \<and>
    (\<forall>i < length (m_heap m). zn_serialId (m_heap m' ! i) =
       (if i = a \<or> i \<in> set as then serial_of zone else zn_serialId (m_heap m ! i)))"
  using assms by (rule AddZone_serials)

theorem AddZone_serial_chain_witness:
  "\<exists>as. root_path (parents (m_heap model_B)) (parents (m_heap model_B) 2) as \<and>
    zn_serialId (m_heap model_B ! 2) = 7 \<and>
    (\<forall>i < 2. zn_serialId (m_heap model_B ! i) =
       (if i = 2 \<or> i \<in> set as then 7 else zn_serialId (m_heap model_AA ! i)))"
proof -
  have ser: "serial_of ZoneB = 7" and len: "length (m_heap model_AA) = 2" by code_simp+
  from AddZone_serial_chain [OF wf_model_AA test_calls(2,3,1) model_B_add]
  show ?thesis unfolding ser len .
qed

text \<open>The children map of a parent is keyed by the parent's own name, so that of two zones
  added under the same parent only the last one is kept among its children: the first one is
  no child of it any more, though its parent pointer says so.\<close>

theorem AddZone_sibling_lost:
  assumes "wf_model m" "iteration_order ord" "refkey_law E"
    and "zone_call s key1 zone1" "zone_call s key2 zone2"
    and "GetZone m key1 = None" "GetZone m1 key2 = None"
    and "AddZone D E ord s key1 zone1 m = Some (m1, a)" "AddZone D E ord s key2 zone2 m1 = Some (m2, b)"
    and "new_parent E s zone1 m = Some p" "new_parent E s zone2 m1 = Some p"
    and "zone_parent zone2 = zone_parent zone1"
  shows "map_of (zn_children (m_heap m2 ! p)) (zone_parent zone1) = Some b \<and>
    a \<notin> snd ` set (zn_children (m_heap m2 ! p))"
proof -
  have wf1: "wf_model m1" using AddZone_wf_aux assms(1-4,8) by blast
  have p: "p < length (m_heap m)"
    using assms(1,10) by (auto simp: new_parent_def wf_model_def dest: wf_zones_lookup split: if_splits)
  have al: "a = length (m_heap m) \<and> b = length (m_heap m1) \<and> length (m_heap m) < length (m_heap m1)"
    using AddZone_fresh_addr assms wf1 by metis
  have "zn_children (m_heap m2 ! p) =
      AList.update (zone_parent zone1) b (AList.update (zone_parent zone1) a (zn_children (m_heap m ! p)))"
    using AddZone_fresh_children [OF assms(1,2,3,4,6,8), of p]
      AddZone_fresh_children [OF wf1 assms(2,3,5,7,9), of p] assms(10-12) p al by simp
  moreover have "a \<notin> snd ` set (zn_children (m_heap m ! p))"
    using wf_heapD [of "m_heap m" p] assms(1) p al by (auto simp: wf_model_def wf_zone_alt)
  ultimately show ?thesis
    using al snd_update_twice [of a "zn_children (m_heap m ! p)" b "zone_parent zone1"]
    by (simp add: go_map)
qed

theorem AddZone_sibling_lost_witness:
  "map_of (zn_children (m_heap model_B ! 0)) ''a'' = Some 2 \<and> 1 \<notin> snd ` set (zn_children (m_heap model_B ! 0))"
proof -
  have "GetZone model_A (test_key ZoneAA) = None" "GetZone model_AA (test_key ZoneB) = None"
    "new_parent ref_ext test_Source ZoneAA model_A = Some 0"
    "new_parent ref_ext test_Source ZoneB model_AA = Some 0"
    "zone_parent ZoneB = zone_parent ZoneAA" "zone_parent ZoneAA = ''a''" by code_simp+
  with AddZone_sibling_lost [OF wf_model_A test_calls(2,3,1,1) _ _ model_AA_add model_B_add]
  show ?thesis by simp
qed

text \<open>A nested zone that becomes a root zone loses its parent pointer, but stays in the
  children map of its former parent: the link is stored under the parent's name and removed
  under the zone's own name.\<close>

theorem AddZone_stale_child:
  assumes "wf_model m" "iteration_order ord" "refkey_law E" "zone_call s key zone"
    and "GetZone m key = Some a" and "zone_parent zone = []"
    and "AddZone D E ord s key zone m = Some (m', b)"
    and "q < length (m_heap m)" and "map_of (zn_children (m_heap m ! q)) n = Some a" and "n \<noteq> zone_name zone"
  shows "parents (m_heap m') a = None \<and> map_of (zn_children (m_heap m' ! q)) n = Some a"
  using AddZone_existing_root_children [OF assms(1-7,10,8)] assms(9) by simp

theorem AddZone_stale_child_witness:
  "parents (m_heap model_AA_root) 1 = None \<and> map_of (zn_children (m_heap model_AA_root ! 0)) ''a'' = Some 1"
proof (rule AddZone_stale_child [OF wf_model_AA test_calls(2,3,1) _ _ model_AA_root_add])
  show "GetZone model_AA (test_key ZoneAA_root) = Some 1" by code_simp
  show "zone_parent ZoneAA_root = []" by code_simp
  show "0 < length (m_heap model_AA)" by code_simp
  show "map_of (zn_children (m_heap model_AA ! 0)) ''a'' = Some 1" by code_simp
  show "''a'' \<noteq> zone_name ZoneAA_root" by code_simp
qed

end
