(* ===== verification/Zone_Resolve.thy ===== *)
theory Zone_Resolve
  imports Zone_Store
begin

text \<open>
  Correctness of the two queries of the zone model. For \<open>ResolveFQDN\<close>: the descent ends and
  does not panic, the answer belongs to the queried name, and the search for delegations is
  the search of a reference definition over the suffixes of the relative name. For
  \<open>ResolveIP\<close>: enough fuel for nested zones without a cycle, divergence on a cycle, and the
  names and zones of the answers. What an index promises is the locale \<open>zone_index\<close>.
\<close>

section \<open>The descent to the responsible zone\<close>

lemma Matches_fold:
  "foldl (\<lambda>zone zname. if P zname \<and> length zname > length zone then zname else zone) z0 ns = r \<Longrightarrow>
   (r = z0 \<or> r \<in> set ns \<and> P r) \<and> length z0 \<le> length r \<and> (\<forall>n \<in> set ns. P n \<longrightarrow> length n \<le> length r)"
  by (induction ns arbitrary: z0) (auto split: if_splits, (fastforce split: if_splits)+)

lemma Matches_props:
  "Matches D z q = [] \<or> Matches D z q \<in> set (zn_names z) \<and> dns_IsSubDomain D (Matches D z q) q"
  "n \<in> set (zn_names z) \<Longrightarrow> dns_IsSubDomain D n q \<Longrightarrow> length n \<le> length (Matches D z q)"
  unfolding Matches_def using Matches_fold [OF refl, of "\<lambda>n. dns_IsSubDomain D n q"] by blast+


text \<open>
  The names a served zone has: those of the zone asked are fully qualified, those of nested
  zones are relative (no dot at the end), children are addresses of the heap, and no name uses
  the escape character.
\<close>

definition servable :: "zone_heap \<Rightarrow> addr \<Rightarrow> bool" where
  "servable h z \<longleftrightarrow>
     z < length h \<and> (\<forall>n \<in> set (zn_names (h ! z)). plain n \<and> ends_dot n) \<and>
     (\<forall>x \<in> set h. \<forall>(k, c) \<in> set (zn_children x). c < length h \<and>
        (\<forall>n \<in> set (zn_names (h ! c)). plain n \<and> \<not> ends_dot n))"

text \<open>The zones reachable through the children maps.\<close>

inductive nested :: "zone_heap \<Rightarrow> addr \<Rightarrow> addr \<Rightarrow> bool" for h where
  nested_refl: "nested h z z"
| nested_step: "(k, c) \<in> set (zn_children (h ! z)) \<Longrightarrow> nested h c d \<Longrightarrow> nested h z d"

text \<open>
  Which zone a name belongs to, stated without the code's search: a zone is matched by the
  longest of its names the name lies in; a zone none of whose children is matched answers the
  name itself, otherwise the answer is that of a matched child for what is left of the name in
  front of the matched one.
\<close>

definition matched_by :: "dns_lib \<Rightarrow> zone \<Rightarrow> string \<Rightarrow> string \<Rightarrow> bool" where
  "matched_by D x s r \<longleftrightarrow> r \<noteq> [] \<and> r \<in> set (zn_names x) \<and> dns_IsSubDomain D r s \<and>
     (\<forall>n \<in> set (zn_names x). dns_IsSubDomain D n s \<longrightarrow> length n \<le> length r)"

definition rest_of :: "string \<Rightarrow> string \<Rightarrow> string" where
  "rest_of r s = Rdn (take (length s - length r) s)"

inductive responsible ::
    "dns_lib \<Rightarrow> zone_heap \<Rightarrow> addr \<Rightarrow> string \<Rightarrow> string \<Rightarrow> addr \<Rightarrow> string \<Rightarrow> string \<Rightarrow> bool" for D h where
  answers_itself: "(\<forall>(k, c) \<in> set (zn_children (h ! z)). \<forall>r. \<not> matched_by D (h ! c) s r) \<Longrightarrow>
    responsible D h z s cur z s cur"
| answered_below: "(k, c) \<in> set (zn_children (h ! z)) \<Longrightarrow> matched_by D (h ! c) s r \<Longrightarrow>
    responsible D h c (rest_of r s) (jn r cur) zone rel cur' \<Longrightarrow> responsible D h z s cur zone rel cur'"

lemma matched_Matches: "Matches D x s \<noteq> [] \<Longrightarrow> matched_by D x s (Matches D x s)"
  using Matches_props(1) [of D x s] Matches_props(2) [where z = x and D = D and q = s] by (auto simp: matched_by_def)

lemma unmatched_Matches: "Matches D x s = [] \<Longrightarrow> \<not> matched_by D x s r"
  using Matches_props(2) [where n = r and z = x and D = D and q = s] by (auto simp: matched_by_def)

lemma nested_match_None:
  "iteration_order ord \<Longrightarrow> nested_match D ord h z s = None \<Longrightarrow> responsible D h z s cur z s cur"
  by (rule answers_itself)
     (auto simp: nested_match_def find_None_iff dest!: unmatched_Matches split: option.splits)

lemma nested_match_Some:
  assumes "servable h z0" "z < length h" "iteration_order ord"
    and "nested_match D ord h z s = Some ra"
  shows "fst ra \<noteq> [] \<and> plain (fst ra) \<and> \<not> ends_dot (fst ra) \<and> dns_IsSubDomain D (fst ra) s \<and>
    snd ra < length h \<and>
    (\<exists>k. (k, snd ra) \<in> set (zn_children (h ! z)) \<and> matched_by D (h ! snd ra) s (fst ra))"
proof -
  from assms(4) obtain k a where "find (\<lambda>(k, a). Matches D (h ! a) s \<noteq> []) (ord (zn_children (h ! z))) = Some (k, a)"
    and ra: "ra = (Matches D (h ! a) s, a)"
    by (auto simp: nested_match_def split: option.splits)
  then have mem: "(k, a) \<in> set (zn_children (h ! z))" and ne: "Matches D (h ! a) s \<noteq> []"
    using find_SomeD [of _ _ "(k, a)"] assms(3) by force+
  then have "a < length h" "\<forall>n \<in> set (zn_names (h ! a)). plain n \<and> \<not> ends_dot n"
    using assms(1,2) by (force simp: servable_def)+
  with Matches_props(1) [of D "h ! a" s] matched_Matches [OF ne] ne mem ra show ?thesis by auto
qed

lemma Matches_cut:
  assumes "subdomain_law D" "plain ra" "\<not> ends_dot ra" "plain s" "\<not> ends_dot s" "dns_IsSubDomain D ra s"
  shows "\<exists>q. lower s = q @ lower ra \<and> (q = [] \<or> last q = CHR ''.'')"
proof -
  have "ra \<noteq> ''.''" using assms(3) by (auto simp: ends_dot_def)
  then obtain q where "lower (dotted s) = q @ lower (dotted ra)" "q = [] \<or> last q = CHR ''.''"
    using assms by (auto simp: subdomain_law_def)
  with assms(3,5) show ?thesis by (auto simp: dotted_def)
qed

text \<open>A step of the descent keeps the name up to the case of letters.\<close>

lemma join_step:
  assumes law: "fqdn_law D" and r: "r \<noteq> []" "plain r" "\<not> ends_dot r"
    and cur: "cur \<noteq> []" "plain cur" "ends_dot cur"
  shows "\<exists>c. Join D [r, cur] = Ret c \<and> c \<noteq> [] \<and> plain c \<and> ends_dot c \<and> c = jn r cur \<and>
    (\<forall>s. jn s c = jn (if s = [] then r else s @ ''.'' @ r) cur)"
proof (cases "cur = ''.''")
  case True
  with r show ?thesis by (auto simp: Join_cons_dot ends_dot_def jn_def)
next
  case False
  have pl: "plain (r @ ''.'' @ cur)" and ed: "ends_dot (r @ ''.'' @ cur)"
    using r cur by (auto simp: ends_dot_def)
  have "Join D [r, cur] = Ret (r @ ''.'' @ cur)"
    using False cur pl ed by (simp add: Join_cons fqdn_lawD [OF law])
  moreover have "r @ ''.'' @ cur \<noteq> ''.''" using r by (cases r) auto
  ultimately show ?thesis using r pl ed False cur by (auto simp: jn_def)
qed

text \<open>
  The descent from a zone with the relative name \<open>s\<close> below \<open>cur\<close>: it ends, and the zone it
  ends in is a nested one without a child for the rest of the name.
\<close>

definition descend ::
    "dns_lib \<Rightarrow> child_order \<Rightarrow> zone_heap \<Rightarrow> addr \<Rightarrow> string \<Rightarrow> string \<Rightarrow> (string \<times> addr \<times> string) go option" where
  "descend D ord h zone s cur =
     (case nested_match D ord h zone s of
        None \<Rightarrow> Some (Ret (s, zone, cur))
      | Some ra \<Rightarrow> forward D ord h (fst ra) s (snd ra) cur)"

lemma forward_descend:
  "length zn \<le> length sub \<Longrightarrow> Join D [zn, cur] = Ret cur' \<Longrightarrow>
   forward D ord h zn sub zone cur = descend D ord h zone (Rdn (take (length sub - length zn) sub)) cur'"
  by (subst forward.simps) (simp add: descend_def)

definition descent_ok ::
    "dns_lib \<Rightarrow> child_order \<Rightarrow> zone_heap \<Rightarrow> addr \<Rightarrow> string \<Rightarrow> string \<Rightarrow> string \<times> addr \<times> string \<Rightarrow> bool" where
  "descent_ok D ord h z s cur = (\<lambda>(rel, zone, c).
     responsible D h z s cur zone rel c \<and> plain rel \<and> \<not> ends_dot rel \<and> c \<noteq> [] \<and> plain c \<and> ends_dot c \<and> zone < length h \<and> nested h z zone \<and>
     nested_match D ord h zone rel = None \<and>
     (clean s \<longrightarrow> clean rel \<and> lower (jn rel c) = lower (jn s cur)))"

lemma lower_jn: "lower (jn s c) = jn (lower s) (lower c)"
proof -
  have "lower c = ''.'' \<longleftrightarrow> c = ''.''" by (cases c) (auto simp: to_lower_dot)
  then show ?thesis by (auto simp: jn_def)
qed

lemma descend_total:
  assumes laws: "dns_laws D" and ord: "iteration_order ord" and serv: "servable h z0"
  shows "z < length h \<Longrightarrow> plain s \<Longrightarrow> \<not> ends_dot s \<Longrightarrow> cur \<noteq> [] \<Longrightarrow> plain cur \<Longrightarrow> ends_dot cur \<Longrightarrow>
    \<exists>r. descend D ord h z s cur = Some (Ret r) \<and> descent_ok D ord h z s cur r"
proof (induction "length s" arbitrary: s z cur rule: less_induct)
  case less
  have law: "fqdn_law D" "subdomain_law D" using laws by (simp_all add: dns_laws_def)
  show ?case
  proof (cases "nested_match D ord h z s")
    case None
    with less.prems show ?thesis
      by (auto simp: descend_def descent_ok_def intro: nested_refl nested_match_None [OF ord])
  next
    case (Some ra)
    obtain r a where ra: "ra = (r, a)" by force
    from nested_match_Some [OF serv less.prems(1) ord Some] have
      r: "r \<noteq> []" "plain r" "\<not> ends_dot r" "dns_IsSubDomain D r s" and a: "a < length h"
      and child: "\<exists>k. (k, a) \<in> set (zn_children (h ! z)) \<and> matched_by D (h ! a) s r"
      by (auto simp: ra)
    from Matches_cut [OF law(2) r(2,3) less.prems(2,3) r(4)] obtain q where
      q: "lower s = q @ lower r" "q = [] \<or> last q = CHR ''.''" by blast
    note cut = cut_relative [OF q]
    from join_step [OF law(1) r(1-3) less.prems(4-6)] obtain c where
      c: "Join D [r, cur] = Ret c" "c \<noteq> []" "plain c" "ends_dot c" and cj: "c = jn r cur"
      and jc: "\<And>s. jn s c = jn (if s = [] then r else s @ ''.'' @ r) cur" by blast
    let ?s' = "Rdn (take (length s - length r) s)"
    have less': "length ?s' < length s"
      using cut(1,2) r(1) by (metis diff_less length_greater_0_conv le_less_trans less_le_trans)
    have "plain ?s'"
      using less.prems(2) by (intro plain_Rdn) (auto simp: plain_def dest: in_set_takeD)
    from less.hyps [OF less' a this Rdn_no_dot c(2-4)] obtain res where
      res: "descend D ord h a ?s' c = Some (Ret res)" and ok: "descent_ok D ord h a ?s' c res" by blast
    have "descend D ord h z s cur = Some (Ret res)"
      using Some ra res forward_descend [OF cut(1) c(1)] by (simp add: descend_def)
    moreover have "descent_ok D ord h z s cur res"
    proof -
      have "lower (jn ?s' c) = lower (jn s cur)" if "clean s"
        using cut(4) [OF that r(1)] by (simp only: jc lower_jn)
      with ok cut(3) child show ?thesis
        by (auto simp: descent_ok_def cj [symmetric] rest_of_def intro: nested_step answered_below)
    qed
    ultimately show ?thesis by blast
  qed
qed


text \<open>A query without empty labels; the root dot may be written or not.\<close>

definition clean_name :: "string \<Rightarrow> bool" where
  "clean_name q \<longleftrightarrow> clean (butlast (dotted q))"

lemma take_snoc: "n \<le> length p \<Longrightarrow> take n (p @ [c]) = take n p"
  by simp

lemma forward_first:
  assumes laws: "dns_laws D" and zn: "zn \<noteq> []" "plain zn" "ends_dot zn"
    and Q: "plain q" "dns_IsSubDomain D zn (dotted q)"
  shows "\<exists>s. s = rest_of zn (dotted q) \<and>
    forward D ord h zn (dotted q) z [] = descend D ord h z s zn \<and> plain s \<and> \<not> ends_dot s \<and>
    (clean_name q \<longrightarrow> clean s \<and> lower (jn s zn) = lower (dotted q))"
proof -
  obtain p where p: "dotted q = p @ ''.''" using dotted_ends_dot by (rule ends_dotE)
  obtain t where t: "zn = t @ ''.''" using zn(3) by (rule ends_dotE)
  have pp: "plain p" using Q(1) p by (auto simp: dotted_def plain_def split: if_splits)
  have cp: "clean_name q \<longleftrightarrow> clean p" by (simp add: clean_name_def p)
  have law: "fqdn_law D" "subdomain_law D" using laws by (simp_all add: dns_laws_def)
  have join: "Join D [zn, []] = Ret zn"
    using zn by (simp add: Join_root fqdn_lawD [OF law(1)])
  let ?s = "Rdn (take (length (dotted q) - length zn) (dotted q))"
  have "plain ?s"
    using Q(1) pp p by (intro plain_Rdn) (auto simp: plain_def dest: in_set_takeD)
  moreover have "length zn \<le> length (dotted q) \<and>
      (clean p \<longrightarrow> clean ?s \<and> lower (jn ?s zn) = lower (dotted q))"
  proof (cases "zn = ''.''")
    case True
    have s: "?s = Rdn p" by (simp add: True p)
    have "clean (Rdn p) \<and> lower (jn (Rdn p) ''.'') = lower (dotted q)" if "clean p"
    proof -
      have "\<not> ends_dot p"
      proof
        assume "ends_dot p"
        then obtain u where "p = u @ CHR ''.'' # []" by (rule ends_dotE)
        with that clean_prefix [of u "[]"] show False
          by (simp add: clean_def str_split_app)
      qed
      with that show ?thesis by (simp add: Rdn_id p jn_def)
    qed
    then show ?thesis unfolding s using True p by simp
  next
    case False
    have "plain (dotted q)" using pp p by simp
    with law(2) zn(2) False Q(2) obtain r where
      "lower (dotted (dotted q)) = r @ lower (dotted zn) \<and> (r = [] \<or> last r = CHR ''.'')"
      unfolding subdomain_law_def by meson
    moreover have "dotted (dotted q) = dotted q" "dotted zn = zn"
      using zn(3) by (simp_all add: dotted_def [of "dotted q"] dotted_def [of zn])
    ultimately have r: "lower (dotted q) = r @ lower zn" "r = [] \<or> last r = CHR ''.''" by simp_all
    then have r': "lower p = r @ lower t" by (simp add: p t)
    note cut = cut_relative [OF r' r(2)]
    from False t have t0: "t \<noteq> []" by auto
    have "take (length (dotted q) - length zn) (dotted q) = take (length p - length t) p"
      by (simp add: p t)
    then have s: "?s = Rdn (take (length p - length t) p)" by (rule arg_cong)
    have "lower (jn ?s zn) = lower (dotted q)" if "clean p"
    proof -
      have "lower (dotted q) = lower p @ ''.''" by (simp add: p)
      also have "\<dots> = lower (jn ?s zn)"
        unfolding cut(4) [OF that t0] s using False by (simp add: jn_def t)
      finally show ?thesis ..
    qed
    then show ?thesis using cut(1) cut(3) unfolding s by (simp add: p t)
  qed
  ultimately show ?thesis
    using forward_descend [of zn "dotted q" D "[]" zn ord h z] join cp
    by (intro exI [of _ ?s]) (simp add: rest_of_def)
qed

section \<open>The search for delegations\<close>

text \<open>The suffixes of a relative name at label boundaries, the shortest first.\<close>

definition name_suffixes :: "string list \<Rightarrow> string list" where
  "name_suffixes labels = map (\<lambda>i. str_join ''.'' (drop i labels)) (rev [0..<length labels])"

type_synonym lookup_fun = "string \<Rightarrow> go_error + coredns_entry list"

abbreviation has_NS :: "coredns_entry \<Rightarrow> bool" where
  "has_NS e \<equiv> es_NS (e_Spec e) \<noteq> []"

text \<open>A suffix decides the lookup if its lookup fails or has an entry with NS records.\<close>

definition decisive :: "lookup_fun \<Rightarrow> string \<Rightarrow> bool" where
  "decisive look s = (case look s of Inl _ \<Rightarrow> True | Inr es \<Rightarrow> list_ex has_NS es)"

definition decided :: "lookup_fun \<Rightarrow> string \<Rightarrow> string \<Rightarrow> go_error + lookup_result" where
  "decided look cur s =
     (case look s of
        Inl err \<Rightarrow> Inl err
      | Inr es \<Rightarrow> (case find has_NS es of
           Some e \<Rightarrow> Inr (Delegated e (jn s cur)) | None \<Rightarrow> Inr (Entries es (jn s cur))))"

text \<open>
  The reference definition: the first decisive suffix is the answer, otherwise the entries of
  the whole relative name; the zone apex has none.
\<close>

definition spec_lookup :: "lookup_fun \<Rightarrow> string \<Rightarrow> string \<Rightarrow> go_error + lookup_result" where
  "spec_lookup look rel cur =
     (if rel = [] then Inr (Entries [] cur)
      else case find (decisive look) (name_suffixes (str_split (CHR ''.'') rel)) of
             Some s \<Rightarrow> decided look cur s
           | None \<Rightarrow> decided look cur rel)"

fun suffixes_from :: "string \<Rightarrow> string list \<Rightarrow> string list" where
  "suffixes_from rel [] = []"
| "suffixes_from rel (l # ls) =
     (let r = (if rel = [] then l else l @ ''.'' @ rel) in r # suffixes_from r ls)"

lemma suffixes_from_drop:
  assumes "k \<le> length ls" and "\<forall>i < length ls. str_join ''.'' (drop i ls) \<noteq> []"
  shows "suffixes_from (str_join ''.'' (drop k ls)) (rev (take k ls)) =
    map (\<lambda>i. str_join ''.'' (drop i ls)) (rev [0..<k])"
  using assms(1)
proof (induction k)
  case (Suc k)
  then have t: "take (Suc k) ls = take k ls @ [ls ! k]" by (simp add: take_Suc_conv_app_nth)
  have d: "drop k ls = ls ! k # drop (Suc k) ls" using Suc.prems by (simp add: Cons_nth_drop_Suc)
  have "(if str_join ''.'' (drop (Suc k) ls) = [] then ls ! k
      else ls ! k @ ''.'' @ str_join ''.'' (drop (Suc k) ls)) = str_join ''.'' (drop k ls)"
  proof (cases "Suc k = length ls")
    case True
    then show ?thesis by (simp add: d)
  next
    case False
    with Suc.prems assms(2) have "str_join ''.'' (drop (Suc k) ls) \<noteq> []" by simp
    moreover have "drop (Suc k) ls \<noteq> []" using False Suc.prems by simp
    ultimately show ?thesis unfolding d by (cases "drop (Suc k) ls") simp_all
  qed
  with Suc.IH Suc.prems t show ?case by (simp add: Let_def)
qed simp

lemma str_join_Nil_iff: "str_join ''.'' ls = [] \<longleftrightarrow> ls = [] \<or> ls = [[]]"
  by (cases ls; cases "tl ls") auto

lemma suffixes_from_eq:
  assumes "ls = [] \<or> last ls \<noteq> []"
  shows "suffixes_from [] (rev ls) = name_suffixes ls"
proof -
  have "str_join ''.'' (drop i ls) \<noteq> []" if "i < length ls" for i
    using that assms by (auto simp: str_join_Nil_iff last_drop dest: arg_cong [of _ _ last])
  with suffixes_from_drop [of "length ls" ls] show ?thesis by (simp add: name_suffixes_def)
qed


text \<open>The loop is the reference definition.\<close>

lemma ns_loop_from:
  assumes law: "fqdn_law D" and cur0: "cur0 \<noteq> []" "plain cur0" "ends_dot cur0"
  shows "\<forall>l \<in> set ls. plain l \<and> CHR ''.'' \<notin> set l \<Longrightarrow> plain rel \<Longrightarrow> \<not> ends_dot rel \<Longrightarrow>
    (rel = [] \<Longrightarrow> ls = [] \<or> hd ls \<noteq> []) \<Longrightarrow> cur = jn rel cur0 \<Longrightarrow>
    ns_loop D I src key ls cur rel list =
      Ret (let look = LookupRelativeDomainName I src key; sfx = suffixes_from rel ls in
        case find (decisive look) sfx of
          Some s \<Rightarrow> decided look cur0 s
        | None \<Rightarrow> (if ls = [] then Inr (Entries list cur) else decided look cur0 (last sfx)))"
proof (induction ls arbitrary: cur rel list)
  case (Cons l ls)
  let ?look = "LookupRelativeDomainName I src key"
  let ?r = "if rel = [] then l else l @ ''.'' @ rel"
  have l: "plain l" "\<not> ends_dot l" "rel = [] \<Longrightarrow> l \<noteq> []"
    using Cons.prems no_dot_end [of l] by auto
  have r: "?r \<noteq> []" "plain ?r" "\<not> ends_dot ?r"
    using l Cons.prems(2,3) by (auto simp: ends_dot_def)
  have jr: "\<exists>j. Join D [l, rel] = Ret j \<and> Rdn j = ?r"
  proof (cases "rel = []")
    case True
    with l have "l \<noteq> ''.''" "l \<noteq> []" by (auto simp: ends_dot_def)
    with True l show ?thesis
      by (simp add: Join_root fqdn_lawD [OF law] Rdn_id)
  next
    case False
    then have "rel \<noteq> ''.''" using Cons.prems(3) by (auto simp: ends_dot_def)
    moreover have "plain (l @ ''.'' @ rel)" using l Cons.prems(2) by simp
    ultimately show ?thesis
      using False Rdn_snoc_dot [of "l @ ''.'' @ rel"] r(3)
      by (simp add: Join_cons fqdn_lawD [OF law] Rdn_id)
  qed
  have jc: "Join D [l, cur] = Ret (jn ?r cur0)"
  proof (cases "rel = [] \<and> cur0 = ''.''")
    case True
    then show ?thesis using Cons.prems(5) l by (simp add: jn_def Join_cons_dot)
  next
    case False
    have "rel \<noteq> [] \<Longrightarrow> rel @ ''.'' @ cur0 \<noteq> ''.''" by (cases rel) auto
    then have c: "cur \<noteq> []" "cur \<noteq> ''.''" "plain cur" "ends_dot cur"
      using Cons.prems(2,3,5) cur0 False by (auto simp: jn_def ends_dot_def split: if_splits)
    have "plain (l @ ''.'' @ cur)" "ends_dot (l @ ''.'' @ cur)"
      using c l by (auto simp: ends_dot_def)
    then have "Join D [l, cur] = Ret (l @ ''.'' @ cur)"
      using c by (simp add: Join_cons fqdn_lawD [OF law])
    then show ?thesis using Cons.prems(5) l False c by (auto simp: jn_def)
  qed
  from jr obtain j where j: "Join D [l, rel] = Ret j" "Rdn j = ?r" by blast
  have step: "ns_loop D I src key (l # ls) cur rel list =
      (case ?look ?r of Inl err \<Rightarrow> Ret (Inl err)
       | Inr es \<Rightarrow> (case find has_NS es of Some e \<Rightarrow> Ret (Inr (Delegated e (jn ?r cur0)))
           | None \<Rightarrow> ns_loop D I src key ls (jn ?r cur0) ?r es))"
    by (simp only: ns_loop.simps jc j go_bind.simps)
  have IH: "ns_loop D I src key ls (jn ?r cur0) ?r es =
      Ret (case find (decisive ?look) (suffixes_from ?r ls) of
          Some s \<Rightarrow> decided ?look cur0 s
        | None \<Rightarrow> (if ls = [] then Inr (Entries es (jn ?r cur0))
            else decided ?look cur0 (last (suffixes_from ?r ls))))" for es
    using Cons.IH [of ?r "jn ?r cur0" es] Cons.prems(1) r by (simp add: Let_def)
  have sfx: "suffixes_from rel (l # ls) = ?r # suffixes_from ?r ls" by (simp add: Let_def)
  show ?case
  proof (cases "?look ?r")
    case (Inl err)
    then show ?thesis unfolding step sfx by (simp add: decisive_def decided_def)
  next
    case (Inr es)
    show ?thesis
    proof (cases "find has_NS es")
      case (Some e)
      then have "list_ex has_NS es" by (auto simp: list_ex_iff dest!: find_SomeD)
      with Some Inr show ?thesis unfolding step sfx by (simp add: decisive_def decided_def)
    next
      case None
      then have nd: "\<not> decisive ?look ?r"
        using Inr by (auto simp: decisive_def list_ex_iff find_None_iff)
      have "ls = [] \<Longrightarrow> suffixes_from ?r ls = []" "ls \<noteq> [] \<Longrightarrow> suffixes_from ?r ls \<noteq> []"
        by (auto simp: neq_Nil_conv Let_def)
      with None Inr nd show ?thesis
        unfolding step IH sfx by (auto simp: Let_def decided_def split: option.splits)
    qed
  qed
qed simp

lemma last_split_nonempty: "s \<noteq> [] \<Longrightarrow> \<not> ends_dot s \<Longrightarrow> last (str_split c s) \<noteq> [] \<or> c \<noteq> CHR ''.''"
proof (induction s)
  case (Cons x s)
  then show ?case
    by (cases "s = []") (auto simp: ends_dot_def split: list.splits)
qed simp

lemma ns_loop_spec:
  assumes laws: "dns_laws D" and cur: "cur \<noteq> []" "plain cur" "ends_dot cur"
    and rel: "plain rel" "\<not> ends_dot rel"
  shows "ns_loop D I src key (rev (dns_SplitDomainName D rel)) cur [] [] =
    Ret (spec_lookup (LookupRelativeDomainName I src key) rel cur)"
proof (cases "rel = []")
  case True
  with laws show ?thesis by (simp add: dns_laws_def split_law_def spec_lookup_def)
next
  case False
  let ?ls = "str_split (CHR ''.'') rel"
  have split: "dns_SplitDomainName D rel = ?ls"
    using laws rel False by (simp add: dns_laws_def split_law_def)
  have law: "fqdn_law D" using laws by (simp add: dns_laws_def)
  have last: "last ?ls \<noteq> []" using last_split_nonempty [OF False rel(2)] by auto
  have pl: "\<forall>l \<in> set ?ls. plain l"
    using plain_str_join [of ?ls] rel(1) by (simp add: str_join_split)
  have sfx: "suffixes_from [] (rev ?ls) = name_suffixes ?ls"
    using last by (intro suffixes_from_eq) simp
  have "name_suffixes ?ls \<noteq> [] \<and> last (name_suffixes ?ls) = rel"
    using str_join_split [of "CHR ''.''" rel]
    by (cases ?ls) (simp_all add: name_suffixes_def rev_map [symmetric] last_rev upt_rec)
  then show ?thesis
    using ns_loop_from [OF law cur, of "rev ?ls" "[]" cur I src key "[]"] pl last False
      str_split_no_sep [of _ "CHR ''.''" rel]
    unfolding split by (simp add: sfx hd_rev spec_lookup_def Let_def jn_def ends_dot_def split: option.splits)
qed


section \<open>The result of a name query\<close>

definition found :: "addr \<Rightarrow> string \<Rightarrow> go_error + lookup_result \<Rightarrow> go_error + info option" where
  "found zone cur r = (case r of Inl err \<Rightarrow> Inl err | Inr lr \<Rightarrow> Inr (Some (answer_info zone cur lr)))"

lemma ResolveFQDN_found:
  assumes laws: "dns_laws D" and ord: "iteration_order ord" and serv: "servable (m_heap m) z"
    and q: "plain qname"
  shows "if Matches D (m_heap m ! z) (dotted qname) = [] then ResolveFQDN D ord I m z qname = Some (Ret (Inr None))
    else \<exists>rel zone cur. responsible D (m_heap m) z
        (rest_of (Matches D (m_heap m ! z) (dotted qname)) (dotted qname))
        (Matches D (m_heap m ! z) (dotted qname)) zone rel cur \<and> nested (m_heap m) z zone \<and> nested_match D ord (m_heap m) zone rel = None \<and>
      plain rel \<and> \<not> ends_dot rel \<and> plain cur \<and> ends_dot cur \<and>
      (clean_name qname \<longrightarrow> lower (jn rel cur) = lower (dotted qname)) \<and>
      ResolveFQDN D ord I m z qname = Some (Ret (found zone cur (spec_lookup
        (LookupRelativeDomainName I (zn_source (m_heap m ! zone)) (zn_key (m_heap m ! zone))) rel cur)))"
proof -
  let ?h = "m_heap m" and ?zn = "Matches D (m_heap m ! z) (dotted qname)"
  have law: "fqdn_law D" using laws by (simp add: dns_laws_def)
  have fq: "dns_Fqdn D qname = dotted qname" by (rule Fqdn_dotted [OF law q])
  show ?thesis
  proof (cases "?zn = []")
    case True
    then show ?thesis by (simp add: ResolveFQDN_def fq Let_def)
  next
    case False
    have z: "z < length ?h" using serv by (simp add: servable_def)
    have mem: "?zn \<in> set (zn_names (?h ! z))" and sub: "dns_IsSubDomain D ?zn (dotted qname)"
      using Matches_props(1) [of D "?h ! z" "dotted qname"] False by auto
    then have zn: "?zn \<noteq> []" "plain ?zn" "ends_dot ?zn"
      using serv False by (auto simp: servable_def)
    from forward_first [OF laws zn q sub] obtain s where
      rest: "s = rest_of ?zn (dotted qname)"
      and fwd: "forward D ord ?h ?zn (dotted qname) z [] = descend D ord ?h z s ?zn"
      and s: "plain s" "\<not> ends_dot s"
      and cl: "clean_name qname \<Longrightarrow> clean s \<and> lower (jn s ?zn) = lower (dotted qname)" by blast
    from descend_total [OF laws ord serv z s zn] obtain rel zone cur where
      d: "descend D ord ?h z s ?zn = Some (Ret (rel, zone, cur))"
      and ok: "descent_ok D ord ?h z s ?zn (rel, zone, cur)" by (metis prod_cases3)
    have "ResolveFQDN D ord I m z qname = Some (Ret (found zone cur (spec_lookup
        (LookupRelativeDomainName I (zn_source (?h ! zone)) (zn_key (?h ! zone))) rel cur)))"
      using False fwd d ok
      by (simp add: ResolveFQDN_def fq Let_def descent_ok_def ns_loop_spec [OF laws] found_def)
    with False show ?thesis
      unfolding if_not_P [OF False]
      by (rule_tac exI [of _ rel], rule_tac exI [of _ zone], rule_tac exI [of _ cur])
         (use ok cl in \<open>simp add: descent_ok_def rest\<close>)
  qed
qed

lemma nested_less: "nested h z d \<Longrightarrow> servable h z0 \<Longrightarrow> z < length h \<Longrightarrow> d < length h"
  by (induction rule: nested.induct) (fastforce simp: servable_def)+

lemma found_InrD: "found zone cur x = Inr (Some i) \<Longrightarrow> \<exists>r. x = Inr r \<and> i = answer_info zone cur r"
  by (auto simp: found_def split: sum.splits)

lemma ResolveFQDN_InrE:
  assumes "dns_laws D" "iteration_order ord" "servable (m_heap m) z" "plain qname"
    and "ResolveFQDN D ord I m z qname = Some (Ret (Inr (Some i)))"
  obtains rel zone cur r where "nested (m_heap m) z zone" "zone < length (m_heap m)" "\<not> ends_dot rel"
    and "clean_name qname \<longrightarrow> lower (jn rel cur) = lower (dotted qname)"
    and "spec_lookup (LookupRelativeDomainName I (zn_source (m_heap m ! zone)) (zn_key (m_heap m ! zone))) rel cur = Inr r"
    and "i = answer_info zone cur r"
proof -
  from assms(5) have ne: "Matches D (m_heap m ! z) (dotted qname) \<noteq> []"
    using ResolveFQDN_found [OF assms(1-4), of I] by auto
  from ResolveFQDN_found [OF assms(1-4), of I] obtain rel zone cur where
    z: "nested (m_heap m) z zone" "\<not> ends_dot rel"
    "clean_name qname \<longrightarrow> lower (jn rel cur) = lower (dotted qname)"
    and "ResolveFQDN D ord I m z qname = Some (Ret (found zone cur (spec_lookup
        (LookupRelativeDomainName I (zn_source (m_heap m ! zone)) (zn_key (m_heap m ! zone))) rel cur)))"
    unfolding if_not_P [OF ne] by blast
  with assms(5) have "found zone cur (spec_lookup (LookupRelativeDomainName I (zn_source (m_heap m ! zone))
      (zn_key (m_heap m ! zone))) rel cur) = Inr (Some i)" by simp
  moreover have "zone < length (m_heap m)"
    using nested_less [OF z(1) assms(3)] assms(3) by (simp add: servable_def)
  ultimately show ?thesis using z that found_InrD by meson
qed

section \<open>Address queries\<close>

text \<open>
  The zones an address query visits below a zone, each with the list of its fully qualified
  names: every domain name of the zone before every name of the zone above.
\<close>

inductive ip_path :: "dns_lib \<Rightarrow> zone_heap \<Rightarrow> addr \<Rightarrow> string list \<Rightarrow> addr \<Rightarrow> string list \<Rightarrow> bool" for D h where
  ip_here: "ip_path D h z fq z (expand D (zn_names (h ! z)) fq [])"
| ip_below: "(k, c) \<in> set (zn_children (h ! z)) \<Longrightarrow>
    ip_path D h c (expand D (zn_names (h ! z)) fq []) d fd \<Longrightarrow> ip_path D h z fq d fd"

inductive_simps ip_path_iff: "ip_path D h z fq d fd"

definition ip_info :: "dns_lib \<Rightarrow> zindex \<Rightarrow> zone_heap \<Rightarrow> string \<Rightarrow> addr \<Rightarrow> string list \<Rightarrow> info \<Rightarrow> bool" where
  "ip_info D I h ip d fd i \<longleftrightarrow>
     (\<exists>es. LookupIP I (zn_source (h ! d)) (zn_key (h ! d)) ip = Inr es \<and> i \<in> set (own_infos D d fd es))"

lemma resolve_children_Inr:
  "resolve_children f ss res = Some (Inr r) \<longleftrightarrow>
   (\<exists>rs. map f ss = map (\<lambda>x. Some (Inr x)) rs \<and> r = res @ concat rs)"
  by (induction ss arbitrary: res)
     (auto split: option.splits sum.splits simp: Cons_eq_map_conv)

lemma resolveIP_infos:
  assumes ord: "iteration_order ord"
  shows "resolveIP n D ord I h ip fq z = Some (Inr infos) \<Longrightarrow>
    set infos = {i. \<exists>d fd. ip_path D h z fq d fd \<and> ip_info D I h ip d fd i}"
proof (induction n arbitrary: fq z infos)
  case (Suc n)
  let ?fq = "expand D (zn_names (h ! z)) fq []" and ?cs = "map snd (ord (zn_children (h ! z)))"
  from Suc.prems obtain es where es: "LookupIP I (zn_source (h ! z)) (zn_key (h ! z)) ip = Inr es"
    and rc: "resolve_children (resolveIP n D ord I h ip ?fq) ?cs (own_infos D z ?fq es) = Some (Inr infos)"
    by (auto split: sum.splits simp: Let_def)
  from rc obtain rs where rs: "map (resolveIP n D ord I h ip ?fq) ?cs = map (\<lambda>x. Some (Inr x)) rs"
    and infos: "infos = own_infos D z ?fq es @ concat rs"
    by (auto simp: resolve_children_Inr)
  have cs: "set ?cs = snd ` set (zn_children (h ! z))" using ord by simp
  have sub: "set (concat rs) = {i. \<exists>k c d fd. (k, c) \<in> set (zn_children (h ! z)) \<and> ip_path D h c ?fq d fd
      \<and> ip_info D I h ip d fd i}" (is "_ = ?R")
  proof
    have idx: "length rs = length ?cs" using rs by (metis length_map)
    have each: "resolveIP n D ord I h ip ?fq (?cs ! j) = Some (Inr (rs ! j))" if "j < length rs" for j
      using arg_cong [OF rs, of "\<lambda>l. l ! j"] that idx by simp
    show "set (concat rs) \<subseteq> ?R"
    proof
      fix i assume "i \<in> set (concat rs)"
      then obtain j where j: "j < length rs" "i \<in> set (rs ! j)" by (metis UN_E in_set_conv_nth set_concat)
      moreover have "?cs ! j \<in> set ?cs" using j idx by (intro nth_mem) simp
      ultimately show "i \<in> ?R" using Suc.IH [OF each [OF j(1)]] cs by force
    qed
    show "?R \<subseteq> set (concat rs)"
    proof
      fix i assume "i \<in> ?R"
      then obtain k c d fd where c: "(k, c) \<in> set (zn_children (h ! z))"
        and p: "ip_path D h c ?fq d fd" "ip_info D I h ip d fd i" by blast
      then have "c \<in> set ?cs" using cs by force
      then obtain j where j: "j < length ?cs" "?cs ! j = c" by (metis in_set_conv_nth)
      then have "i \<in> set (rs ! j)" using Suc.IH [OF each [of j]] idx p by auto
      then show "i \<in> set (concat rs)" using j idx by (metis UN_I nth_mem set_concat)
    qed
  qed
  have own: "ip_info D I h ip z ?fq i \<longleftrightarrow> i \<in> set (own_infos D z ?fq es)" for i
    by (simp add: ip_info_def es)
  have path: "ip_path D h z fq d fd \<longleftrightarrow> (d = z \<and> fd = ?fq) \<or>
      (\<exists>k c. (k, c) \<in> set (zn_children (h ! z)) \<and> ip_path D h c ?fq d fd)" for d fd
    by (subst ip_path_iff) blast
  show ?case
  proof (rule set_eqI)
    fix i
    have "i \<in> set infos \<longleftrightarrow> ip_info D I h ip z ?fq i \<or> (\<exists>k c d fd. (k, c) \<in> set (zn_children (h ! z)) \<and>
        ip_path D h c ?fq d fd \<and> ip_info D I h ip d fd i)"
      by (simp only: infos set_append Un_iff sub own mem_Collect_eq)
    also have "\<dots> \<longleftrightarrow> (\<exists>d fd. ip_path D h z fq d fd \<and> ip_info D I h ip d fd i)"
      by (simp only: path) blast
    finally show "i \<in> set infos \<longleftrightarrow> i \<in> {i. \<exists>d fd. ip_path D h z fq d fd \<and> ip_info D I h ip d fd i}"
      by simp
  qed
qed simp

lemma own_infos_eq:
  "set (own_infos D z fd es) = (if es = [] then {} else
     {\<lparr>i_Zone = Some z, i_ZoneNames = fd, i_Entries = es,
       i_EntryNames = concat (map (\<lambda>e. concat (map (\<lambda>n. map (\<lambda>f. dns_Fqdn D n @ f) fd) (es_DNSNames (e_Spec e)))) es)\<rparr>})"
proof -
  have "foldl (\<lambda>names e. expand D (es_DNSNames (e_Spec e)) fd names) l es = l @
      concat (map (\<lambda>e. concat (map (\<lambda>n. map (\<lambda>f. dns_Fqdn D n @ f) fd) (es_DNSNames (e_Spec e)))) es)" for l
    by (induction es arbitrary: l) (simp_all add: expand_eq)
  from this [of "[]"] show ?thesis by (simp add: own_infos_def)
qed

text \<open>Enough fuel: the depth of the nesting, given by a rank that falls from zone to child.\<close>

definition ranked :: "zone_heap \<Rightarrow> (addr \<Rightarrow> nat) \<Rightarrow> bool" where
  "ranked h r \<longleftrightarrow> (\<forall>z < length h. \<forall>(k, c) \<in> set (zn_children (h ! z)). r c < r z)"

lemma resolve_children_defined:
  "(\<forall>c \<in> set ss. f c \<noteq> None) \<Longrightarrow> resolve_children f ss res \<noteq> None"
  by (induction ss arbitrary: res) (auto split: option.splits sum.splits)

lemma resolveIP_defined:
  assumes ord: "iteration_order ord" and wf: "wf_heap h" and r: "ranked h r"
  shows "z < length h \<Longrightarrow> r z < n \<Longrightarrow> resolveIP n D ord I h ip fq z \<noteq> None"
proof (induction n arbitrary: z fq)
  case (Suc n)
  have "\<forall>c \<in> set (map snd (ord (zn_children (h ! z)))). resolveIP n D ord I h ip fq' c \<noteq> None" for fq'
  proof
    fix c assume "c \<in> set (map snd (ord (zn_children (h ! z))))"
    then have "r c < r z \<and> c < length h"
      using r ord Suc.prems(1) wf_heapD [OF wf Suc.prems(1)] by (fastforce simp: ranked_def wf_zone_alt)
    then show "resolveIP n D ord I h ip fq' c \<noteq> None" using Suc by simp
  qed
  from resolve_children_defined [OF this] show ?case
    by (auto simp: Let_def split: sum.splits)
qed simp

lemma resolve_children_mono:
  assumes "\<And>c x. f c = Some x \<Longrightarrow> g c = Some x" and "resolve_children f ss res = Some x"
  shows "resolve_children g ss res = Some x"
  using assms(2)
  by (induction ss arbitrary: res) (auto dest: assms(1) split: option.splits sum.splits)

lemma resolveIP_mono:
  "resolveIP n D ord I h ip fq z = Some x \<Longrightarrow> n \<le> m \<Longrightarrow> resolveIP m D ord I h ip fq z = Some x"
proof (induction n arbitrary: m fq z x)
  case (Suc n)
  then obtain m' where m: "m = Suc m'" "n \<le> m'" by (cases m) auto
  from Suc.prems(1) m show ?case
    by (auto simp: Let_def split: sum.splits elim!: resolve_children_mono [rotated] dest: Suc.IH)
qed simp

text \<open>A set of zones in which every zone has a child is never left.\<close>

definition ip_safe :: "zindex \<Rightarrow> bool" where
  "ip_safe I \<longleftrightarrow> (\<forall>src key ip. \<exists>es. LookupIP I src key ip = Inr es)"

definition trapped :: "zone_heap \<Rightarrow> addr set \<Rightarrow> bool" where
  "trapped h S \<longleftrightarrow> (\<forall>z \<in> S. \<exists>(k, c) \<in> set (zn_children (h ! z)). c \<in> S)"

lemma resolve_children_no_error:
  "(\<forall>c e. f c \<noteq> Some (Inl e)) \<Longrightarrow> resolve_children f ss res \<noteq> Some (Inl e)"
  by (induction ss arbitrary: res) (auto split: option.splits sum.splits)

lemma resolveIP_no_error: "ip_safe I \<Longrightarrow> resolveIP n D ord I h ip fq z \<noteq> Some (Inl e)"
proof (induction n arbitrary: fq z e)
  case (Suc n)
  from Suc.prems obtain es where "LookupIP I (zn_source (h ! z)) (zn_key (h ! z)) ip = Inr es"
    unfolding ip_safe_def by blast
  moreover have "\<forall>c e. resolveIP n D ord I h ip fq' c \<noteq> Some (Inl e)" for fq'
    using Suc unfolding ip_safe_def by metis
  ultimately show ?case
    by (simp add: Let_def resolve_children_no_error)
qed simp

lemma resolve_children_undefined:
  "(\<forall>c e. f c \<noteq> Some (Inl e)) \<Longrightarrow> c \<in> set ss \<Longrightarrow> f c = None \<Longrightarrow> resolve_children f ss res = None"
  by (induction ss arbitrary: res) (auto split: option.splits sum.splits)

lemma resolveIP_trapped:
  assumes safe: "ip_safe I" and ord: "iteration_order ord" and S: "trapped h S"
  shows "z \<in> S \<Longrightarrow> resolveIP n D ord I h ip fq z = None"
proof (induction n arbitrary: z fq)
  case (Suc n)
  from S Suc.prems obtain k c where c: "(k, c) \<in> set (zn_children (h ! z))" "c \<in> S"
    by (auto simp: trapped_def)
  then have mem: "c \<in> set (map snd (ord (zn_children (h ! z))))" using ord by force
  obtain es where "LookupIP I (zn_source (h ! z)) (zn_key (h ! z)) ip = Inr es"
    using safe unfolding ip_safe_def by blast
  moreover have "resolve_children (resolveIP n D ord I h ip fq')
      (map snd (ord (zn_children (h ! z)))) res = None" for fq' res
    using resolveIP_no_error [OF safe] Suc.IH [OF c(2)]
    by (intro resolve_children_undefined [OF _ mem]) blast+
  ultimately show ?case by (simp add: Let_def)
qed simp


lemma ip_path_nested: "ip_path D h z fq d fd \<Longrightarrow> nested h z d"
  by (induction rule: ip_path.induct) (auto intro: nested_refl nested_step)

section \<open>The interface of the entry index\<close>

text \<open>An entry belongs to a zone key if it lies in its namespace and references its name.\<close>

definition belongs_to :: "coredns_entry \<Rightarrow> zone_key \<Rightarrow> bool" where
  "belongs_to e key \<longleftrightarrow> entry_namespace e = zk_Namespace key \<and> es_ZoneRef (e_Spec e) = zk_Name key"

definition slash_free :: "string \<Rightarrow> bool" where
  "slash_free s \<longleftrightarrow> CHR ''/'' \<notin> set s"

text \<open>
  What the model relies on, for zone names without a slash (the names of Kubernetes objects
  have none): an index only returns entries of the zone asked for that carry
  the relative name or the address asked for.
\<close>

locale zone_index =
  fixes view :: "'i \<Rightarrow> zindex" and inv :: "'i \<Rightarrow> bool"
  assumes name_law: "inv i \<Longrightarrow> slash_free (zk_Name key) \<Longrightarrow>
      LookupRelativeDomainName (view i) src key rel = Inr es \<Longrightarrow> e \<in> set es \<Longrightarrow>
      belongs_to e key \<and> rel \<in> Rdn ` set (es_DNSNames (e_Spec e))"
    and ip_law: "inv i \<Longrightarrow> slash_free (zk_Name key) \<Longrightarrow>
      LookupIP (view i) src key ip = Inr es \<Longrightarrow> e \<in> set es \<Longrightarrow>
      belongs_to e key \<and> ip \<in> set (es_A (e_Spec e)) \<union> set (es_AAAA (e_Spec e))"
begin

lemma decided_entries:
  assumes "inv i" "slash_free (zk_Name key)" and "decided (LookupRelativeDomainName (view i) src key) cur s = Inr r"
    and "e \<in> set (i_Entries (answer_info zone c r))"
  shows "belongs_to e key \<and> s \<in> Rdn ` set (es_DNSNames (e_Spec e))"
proof -
  from assms(3) obtain es where es: "LookupRelativeDomainName (view i) src key s = Inr es"
    by (auto simp: decided_def split: sum.splits)
  with assms(3,4) have "e \<in> set es"
    by (auto simp: decided_def answer_info_def split: option.splits dest: find_SomeD)
  with name_law [OF assms(1,2) es] show ?thesis by blast
qed

lemma spec_entries:
  assumes "inv i" "slash_free (zk_Name key)" and "spec_lookup (LookupRelativeDomainName (view i) src key) rel cur = Inr r"
    and "e \<in> set (i_Entries (answer_info zone c r))"
  shows "belongs_to e key"
  using assms decided_entries [OF assms(1,2)]
  by (force simp: spec_lookup_def answer_info_def split: if_splits option.splits)

text \<open>The entries of an answer belong to one zone nested in the queried one.\<close>

lemma answer_entries:
  assumes "dns_laws D" "iteration_order ord" "servable (m_heap m) z" "plain qname" "inv i"
    and "\<forall>x \<in> set (m_heap m). slash_free (zk_Name (zn_key x))"
    and "ResolveFQDN D ord (view i) m z qname = Some (Ret (Inr (Some info)))"
  shows "\<exists>zone. nested (m_heap m) z zone \<and> (\<forall>a. i_Zone info = Some a \<longrightarrow> a = zone) \<and>
    (\<forall>e \<in> set (i_Entries info). belongs_to e (zn_key (m_heap m ! zone)))"
proof -
  from ResolveFQDN_InrE [OF assms(1-4,7)] obtain rel zone cur r where
    z: "nested (m_heap m) z zone" "zone < length (m_heap m)"
    and r: "spec_lookup (LookupRelativeDomainName (view i) (zn_source (m_heap m ! zone)) (zn_key (m_heap m ! zone))) rel cur = Inr r"
    and info: "info = answer_info zone cur r" by metis
  have "slash_free (zk_Name (zn_key (m_heap m ! zone)))" using assms(6) z(2) by simp
  from spec_entries [OF assms(5) this r] z info show ?thesis
    by (intro exI [of _ zone]) (auto simp: answer_info_def split: lookup_result.splits)
qed

lemma address_entries:
  assumes "iteration_order ord" "inv i" "servable (m_heap m) z"
    and "\<forall>x \<in> set (m_heap m). slash_free (zk_Name (zn_key x))"
    and "ResolveIP n D ord (view i) m z ip = Some (Inr infos)" "info \<in> set infos"
  shows "\<exists>zone. i_Zone info = Some zone \<and> i_Entries info \<noteq> [] \<and> (\<forall>e \<in> set (i_Entries info).
    belongs_to e (zn_key (m_heap m ! zone)) \<and> ip \<in> set (es_A (e_Spec e)) \<union> set (es_AAAA (e_Spec e)))"
proof -
  from resolveIP_infos [OF assms(1) assms(5) [unfolded ResolveIP_def]] assms(6) obtain d fd where
    p: "ip_path D (m_heap m) z [[]] d fd" and i: "ip_info D (view i) (m_heap m) ip d fd info" by blast
  have "d < length (m_heap m)"
    using nested_less [OF ip_path_nested [OF p] assms(3)] assms(3) by (simp add: servable_def)
  then have sf: "slash_free (zk_Name (zn_key (m_heap m ! d)))" using assms(4) by simp
  from i obtain es where es: "LookupIP (view i) (zn_source (m_heap m ! d)) (zn_key (m_heap m ! d)) ip = Inr es"
    and "info \<in> set (own_infos D d fd es)" by (auto simp: ip_info_def)
  then have "i_Zone info = Some d" "i_Entries info = es" "es \<noteq> []"
    by (auto simp: own_infos_eq split: if_splits)
  with ip_law [OF assms(2) sf es] show ?thesis by auto
qed

end

text \<open>The index of the repository's test is such an index.\<close>

definition mem_inv :: "mem_index \<Rightarrow> bool" where
  "mem_inv i \<longleftrightarrow> (\<forall>(key, m) \<in> set i. \<forall>(rel, es) \<in> set m. \<forall>e \<in> set es.
     belongs_to e key \<and> rel \<in> Rdn ` set (es_DNSNames (e_Spec e)))"

interpretation mem: zone_index mem_zindex mem_inv
proof
  show "belongs_to e key \<and> rel \<in> Rdn ` set (es_DNSNames (e_Spec e))"
    if "mem_inv i" "slash_free (zk_Name key)" "LookupRelativeDomainName (mem_zindex i) src key rel = Inr es" "e \<in> set es"
    for i src key rel es e
    using that by (fastforce simp: mem_zindex_def mem_LookupRelativeDomainName_def mem_inv_def
        split: option.splits dest!: map_of_SomeD)
  show "belongs_to e key \<and> ip \<in> set (es_A (e_Spec e)) \<union> set (es_AAAA (e_Spec e))"
    if "mem_inv i" "slash_free (zk_Name key)" "LookupIP (mem_zindex i) src key ip = Inr es" "e \<in> set es" for i src key ip es e
    using that by (fastforce simp: mem_zindex_def mem_LookupIP_def mem_inv_def
        split: option.splits dest!: map_of_SomeD)
qed


section \<open>Delegations\<close>

lemma name_suffixes_suffix:
  "s \<in> set (name_suffixes ls) \<Longrightarrow> \<exists>u. str_join ''.'' ls = u @ s \<and> (u = [] \<or> last u = CHR ''.'')"
proof -
  have "\<exists>u. str_join ''.'' ls = u @ str_join ''.'' (drop i ls) \<and> (u = [] \<or> last u = CHR ''.'')"
    if "i < length ls" for i
    using that
  proof (induction i arbitrary: ls)
    case (Suc i)
    then obtain x xs where ls: "ls = x # xs" "i < length xs" by (cases ls) auto
    from Suc.IH [OF ls(2)] obtain u where u: "str_join ''.'' xs = u @ str_join ''.'' (drop i xs)"
      "u = [] \<or> last u = CHR ''.''" by blast
    from ls(2) have "str_join ''.'' ls = x @ ''.'' @ str_join ''.'' xs"
      unfolding ls by (cases xs) auto
    with u ls show ?case by (intro exI [of _ "x @ ''.'' @ u"]) auto
  qed auto
  then show "s \<in> set (name_suffixes ls) \<Longrightarrow> \<exists>u. str_join ''.'' ls = u @ s \<and> (u = [] \<or> last u = CHR ''.'')"
    by (auto simp: name_suffixes_def)
qed

lemma jn_suffix:
  "rel = u @ s \<Longrightarrow> s \<noteq> [] \<Longrightarrow> jn rel cur = u @ jn s cur"
  by (simp add: jn_def)

lemma decided_Delegated: "decided look cur s = Inr (Delegated e c) \<Longrightarrow> decisive look s"
  by (auto simp: decided_def decisive_def list_ex_iff split: sum.splits option.splits dest!: find_SomeD)

text \<open>A delegated answer: the first decisive suffix, at some index, with an NS entry.\<close>

lemma spec_lookup_delegated:
  assumes "spec_lookup look rel cur = Inr (Delegated e c)" and rel: "\<not> ends_dot rel"
  shows "\<exists>j es. j < length (name_suffixes (str_split (CHR ''.'') rel)) \<and>
    look (name_suffixes (str_split (CHR ''.'') rel) ! j) = Inr es \<and> find has_NS es = Some e \<and>
    c = jn (name_suffixes (str_split (CHR ''.'') rel) ! j) cur \<and>
    (\<forall>i < j. \<exists>es'. look (name_suffixes (str_split (CHR ''.'') rel) ! i) = Inr es' \<and> \<not> list_ex has_NS es')"
proof -
  let ?sfx = "name_suffixes (str_split (CHR ''.'') rel)"
  have ne: "rel \<noteq> []" using assms(1) by (auto simp: spec_lookup_def)
  show ?thesis
  proof (cases "find (decisive look) ?sfx")
    case (Some s)
    then obtain j where j: "j < length ?sfx" "decisive look (?sfx ! j)" "s = ?sfx ! j"
      "\<forall>i < j. \<not> decisive look (?sfx ! i)" by (auto simp: find_Some_iff)
    from assms(1) Some ne have "decided look cur s = Inr (Delegated e c)" by (simp add: spec_lookup_def)
    then obtain es where es: "look s = Inr es" "find has_NS es = Some e" "c = jn s cur"
      by (auto simp: decided_def split: sum.splits option.splits)
    have "\<exists>es'. look (?sfx ! i) = Inr es' \<and> \<not> list_ex has_NS es'" if "i < j" for i
      using j(4) that by (cases "look (?sfx ! i)") (auto simp: decisive_def)
    with j es show ?thesis by blast
  next
    case None
    have "rel \<in> set ?sfx"
    proof -
      have "?sfx \<noteq> [] \<and> last ?sfx = rel"
        using str_join_split [of "CHR ''.''" rel]
        by (cases "str_split (CHR ''.'') rel")
           (simp_all add: name_suffixes_def rev_map [symmetric] last_rev upt_rec)
      then show ?thesis by (metis last_in_set)
    qed
    with None have "\<not> decisive look rel" by (auto simp: find_None_iff)
    moreover from assms(1) None ne have "decided look cur rel = Inr (Delegated e c)"
      by (simp add: spec_lookup_def)
    ultimately show ?thesis using decided_Delegated by blast
  qed
qed

text \<open>The name of an answer, whatever it is, is a suffix of the name the search started with.\<close>

lemma spec_lookup_name:
  assumes "spec_lookup look rel cur = Inr r" and rel: "\<not> ends_dot rel"
  shows "case r of Entries es c \<Rightarrow> c = jn rel cur
    | Delegated e c \<Rightarrow> has_NS e \<and> (\<exists>u. jn rel cur = u @ c \<and> (u = [] \<or> last u = CHR ''.''))"
proof (cases r)
  case (Entries es c)
  have "decided look cur s = Inr (Entries es c) \<Longrightarrow> \<not> decisive look s" for s
    by (auto simp: decided_def decisive_def list_ex_iff find_None_iff split: sum.splits option.splits)
  then have "c = jn rel cur"
    using assms(1) Entries
    by (auto simp: spec_lookup_def jn_def decided_def split: if_splits option.splits sum.splits dest!: find_SomeD)
  with Entries show ?thesis by simp
next
  case (Delegated e c)
  let ?sfx = "name_suffixes (str_split (CHR ''.'') rel)"
  from spec_lookup_delegated [OF assms(1) [unfolded Delegated] rel] obtain j es where
    j: "j < length ?sfx" and e: "find has_NS es = Some e" and c: "c = jn (?sfx ! j) cur" by blast
  have ne: "rel \<noteq> []" using assms(1) Delegated by (auto simp: spec_lookup_def)
  from j have "?sfx ! j \<in> set ?sfx" by simp
  from name_suffixes_suffix [OF this] obtain u where
    u: "rel = u @ ?sfx ! j" "u = [] \<or> last u = CHR ''.''" by (auto simp: str_join_split)
  have "?sfx ! j \<noteq> []" using u ne rel by (auto simp: ends_dot_def)
  with u e c Delegated show ?thesis by (auto simp: jn_suffix [OF u(1)] dest: find_SomeD)
qed


section \<open>Concrete queries\<close>

definition test_index :: mem_index where
  "test_index = foldl (\<lambda>i e. mem_AddEntry test_Source e i) [] [EntryA_demo, EntryA_test, EntryA_NS, EntryAA_demo]"

text \<open>The test's two zones after their roles are swapped in the order child first.\<close>

definition model_swapped :: model where
  "model_swapped = (case test_add ZoneA_below_AA model_AA_root of None \<Rightarrow> New | Some m \<Rightarrow> m)"

abbreviation ask :: "model \<Rightarrow> addr \<Rightarrow> string \<Rightarrow> (go_error + info option) go option" where
  "ask m z q \<equiv> ResolveFQDN ref_dns (\<lambda>xs. xs) (mem_zindex test_index) m z q"

lemma servable_AA: "servable (m_heap model_AA) 0"
  by code_simp

section \<open>Properties\<close>

text \<open>The domain of a zone that a name is matched with is one of the zone's names, the
  name lies in it, and it is the longest such name; it is empty only if there is none (or only
  empty ones).\<close>

theorem Matches_longest:
  "(Matches D z q = [] \<or> Matches D z q \<in> set (zn_names z) \<and> dns_IsSubDomain D (Matches D z q) q) \<and>
   (\<forall>n \<in> set (zn_names z). dns_IsSubDomain D n q \<longrightarrow> length n \<le> length (Matches D z q))"
  using Matches_props by blast

theorem Matches_longest_witness:
  "length ''demo.mandelsoft.org.'' \<le>
   length (Matches ref_dns ((NewZone test_Source (test_key ZoneA))
     \<lparr>zn_names := [''org.'', ''demo.mandelsoft.org.'', ''mandelsoft.org.'']\<rparr>) ''x.Demo.mandelsoft.org.'')"
proof -
  have "dns_IsSubDomain ref_dns ''demo.mandelsoft.org.'' ''x.Demo.mandelsoft.org.''" by code_simp
  then show ?thesis
    using Matches_longest [of ref_dns "(NewZone test_Source (test_key ZoneA))
     \<lparr>zn_names := [''org.'', ''demo.mandelsoft.org.'', ''mandelsoft.org.'']\<rparr>" "''x.Demo.mandelsoft.org.''"]
    by simp
qed

text \<open>C5: a name query on a zone whose own names are fully qualified and whose nested zones
  have relative names always ends, and never panics, in whatever order the children are
  visited: every step of the descent shortens the relative name.\<close>

theorem ResolveFQDN_total:
  assumes "dns_laws D" "iteration_order ord" "servable (m_heap m) z" "plain qname"
  shows "\<exists>r. ResolveFQDN D ord I m z qname = Some (Ret r)"
  using ResolveFQDN_found [OF assms, of I] by (auto split: if_splits)

theorem ResolveFQDN_total_witness:
  "\<exists>r. ask model_AA 0 ''demo.test.mandelsoft.de'' = Some (Ret r)"
proof -
  have "plain ''demo.test.mandelsoft.de''" by code_simp
  with ResolveFQDN_total [OF ref_dns_laws iteration_order_id servable_AA] show ?thesis by blast
qed

text \<open>C4: a name query is answered by the zone responsible for the name. A name that lies in
  none of the zone's domains has no answer. Any other name is cut off behind the longest such
  domain, and belongs to the zone that the relation \<open>responsible\<close> reaches with the rest, from
  child to child as long as a child has a domain the rest lies in; the answer is that of the
  reference search in the entries of this very zone, for what is left of the name: the first
  decisive suffix, or all entries of the rest. The current name put behind the rest is, up to
  the case of letters, the name queried.\<close>

theorem ResolveFQDN_refines:
  assumes "dns_laws D" "iteration_order ord" "servable (m_heap m) z" "plain qname"
  shows "if \<exists>n \<in> set (zn_names (m_heap m ! z)). dns_IsSubDomain D n (dotted qname)
    then \<exists>zn rel zone cur. matched_by D (m_heap m ! z) (dotted qname) zn \<and>
      responsible D (m_heap m) z (rest_of zn (dotted qname)) zn zone rel cur \<and> nested (m_heap m) z zone \<and> nested_match D ord (m_heap m) zone rel = None \<and>
      plain rel \<and> \<not> ends_dot rel \<and> plain cur \<and> ends_dot cur \<and>
      (clean_name qname \<longrightarrow> lower (jn rel cur) = lower (dotted qname)) \<and>
      ResolveFQDN D ord I m z qname = Some (Ret (found zone cur (spec_lookup
        (LookupRelativeDomainName I (zn_source (m_heap m ! zone)) (zn_key (m_heap m ! zone))) rel cur)))
    else ResolveFQDN D ord I m z qname = Some (Ret (Inr None))"
proof -
  let ?zn = "Matches D (m_heap m ! z) (dotted qname)"
  note found = ResolveFQDN_found [OF assms, of I]
  show ?thesis
  proof (cases "?zn = []")
    case True
    have "n \<noteq> []" if "n \<in> set (zn_names (m_heap m ! z))" for n
      using that assms(3) by (auto simp: servable_def ends_dot_def)
    with True Matches_props(2) [where z = "m_heap m ! z" and D = D and q = "dotted qname"]
    have no: "\<not> (\<exists>n \<in> set (zn_names (m_heap m ! z)). dns_IsSubDomain D n (dotted qname))" by fastforce
    show ?thesis unfolding if_not_P [OF no] using found True by simp
  next
    case False
    from matched_Matches [OF False]
    have m: "matched_by D (m_heap m ! z) (dotted qname) ?zn" .
    then have some: "\<exists>n \<in> set (zn_names (m_heap m ! z)). dns_IsSubDomain D n (dotted qname)"
      by (auto simp: matched_by_def)
    show ?thesis unfolding if_P [OF some]
      by (rule exI [of _ ?zn]) (use m found in \<open>simp only: if_not_P [OF False] simp_thms\<close>)
  qed
qed

theorem ResolveFQDN_refines_witness:
  "ask model_AA 0 ''kubedns.io'' = Some (Ret (Inr None)) \<and>
   (\<exists>zn rel zone cur. matched_by ref_dns (m_heap model_AA ! 0) ''demo.test.mandelsoft.org.'' zn \<and>
      responsible ref_dns (m_heap model_AA) 0 (rest_of zn ''demo.test.mandelsoft.org.'') zn zone rel cur \<and>
      zone = 1 \<and> lower (jn rel cur) = ''demo.test.mandelsoft.org.'')"
proof
  let ?q = "''demo.test.mandelsoft.org''"
  have "plain ''kubedns.io''" "\<not> (\<exists>n \<in> set (zn_names (m_heap model_AA ! 0)).
      dns_IsSubDomain ref_dns n (dotted ''kubedns.io''))"
    by code_simp+
  with ResolveFQDN_refines [OF ref_dns_laws iteration_order_id servable_AA, of "''kubedns.io''"]
  show "ask model_AA 0 ''kubedns.io'' = Some (Ret (Inr None))" by simp
  have q: "plain ?q" "clean_name ?q" "dotted ?q = ''demo.test.mandelsoft.org.''"
      "lower (dotted ?q) = ''demo.test.mandelsoft.org.''"
    and some: "\<exists>n \<in> set (zn_names (m_heap model_AA ! 0)). dns_IsSubDomain ref_dns n (dotted ?q)"
    and res: "ask model_AA 0 ?q = Some (Ret (Inr (Some
      \<lparr>i_Zone = Some 1, i_ZoneNames = [''test.mandelsoft.org.''], i_Entries = [EntryAA_demo],
       i_EntryNames = [''demo.test.mandelsoft.org.'']\<rparr>)))"
    by code_simp+
  from ResolveFQDN_refines [OF ref_dns_laws iteration_order_id servable_AA q(1), of "mem_zindex test_index",
      unfolded if_P [OF some]] obtain zn rel zone cur where
    m: "matched_by ref_dns (m_heap model_AA ! 0) (dotted ?q) zn"
      "responsible ref_dns (m_heap model_AA) 0 (rest_of zn (dotted ?q)) zn zone rel cur"
    and rel: "clean_name ?q \<longrightarrow> lower (jn rel cur) = lower (dotted ?q)"
    and ask: "ask model_AA 0 ?q = Some (Ret (found zone cur (spec_lookup (LookupRelativeDomainName
        (mem_zindex test_index) (zn_source (m_heap model_AA ! zone)) (zn_key (m_heap model_AA ! zone))) rel cur)))"
    by blast
  from ask res have "zone = 1"
    by (auto simp: found_def answer_info_def split: sum.splits lookup_result.splits)
  with m rel q(2,4) show "\<exists>zn rel zone cur. matched_by ref_dns (m_heap model_AA ! 0) ''demo.test.mandelsoft.org.'' zn \<and>
      responsible ref_dns (m_heap model_AA) 0 (rest_of zn ''demo.test.mandelsoft.org.'') zn zone rel cur \<and>
      zone = 1 \<and> lower (jn rel cur) = ''demo.test.mandelsoft.org.''"
    unfolding q(3) by auto
qed

text \<open>An answer carries one name; it is the queried name up to the case of letters if a
  zone answers, and a domain the queried name lies in if the answer is a delegation, which
  then is one entry with NS records.\<close>

theorem ResolveFQDN_answer_name:
  assumes "dns_laws D" "iteration_order ord" "servable (m_heap m) z" "plain qname" "clean_name qname"
    and "ResolveFQDN D ord I m z qname = Some (Ret (Inr (Some i)))"
  shows "\<exists>n. i_EntryNames i = [n] \<and>
    (case i_Zone i of
       Some zone \<Rightarrow> nested (m_heap m) z zone \<and> lower n = lower (dotted qname)
     | None \<Rightarrow> (\<exists>e u. i_Entries i = [e] \<and> has_NS e \<and> i_ZoneNames i = [n] \<and>
         lower (dotted qname) = u @ lower n \<and> (u = [] \<or> last u = CHR ''.'')))"
proof -
  from ResolveFQDN_InrE [OF assms(1-4,6)] obtain rel zone cur r where
    z: "nested (m_heap m) z zone" and rel: "\<not> ends_dot rel"
    and nc: "clean_name qname \<longrightarrow> lower (jn rel cur) = lower (dotted qname)"
    and r: "spec_lookup (LookupRelativeDomainName I (zn_source (m_heap m ! zone)) (zn_key (m_heap m ! zone))) rel cur = Inr r"
    and i: "i = answer_info zone cur r" by metis
  from nc assms(5) have n: "lower (jn rel cur) = lower (dotted qname)" by simp
  note name = spec_lookup_name [OF r rel]
  show ?thesis
  proof (cases r)
    case (Entries es c)
    with name i z n show ?thesis by (simp add: answer_info_def)
  next
    case (Delegated e c)
    with name obtain u where u: "jn rel cur = u @ c" "u = [] \<or> last u = CHR ''.''" and e: "has_NS e" by auto
    have "lower u = [] \<or> last (lower u) = CHR ''.''"
      using u(2) lower_ends_dot [of u] by (auto simp: ends_dot_def)
    moreover have "lower (dotted qname) = lower u @ lower c" using n u(1) by simp
    ultimately show ?thesis using Delegated i e by (auto simp: answer_info_def)
  qed
qed

theorem ResolveFQDN_answer_name_witness:
  "\<exists>n. lower n = ''demo.test.mandelsoft.org.'' \<and>
    map_option (map_go (map_sum id (map_option i_EntryNames))) (ask model_AA 0 ''demo.Test.mandelsoft.org'')
     = Some (Ret (Inr (Some [n])))"
proof -
  let ?i = "\<lparr>i_Zone = Some 1, i_ZoneNames = [''test.mandelsoft.org.''], i_Entries = [EntryAA_demo],
    i_EntryNames = [''demo.test.mandelsoft.org.'']\<rparr>"
  have "ask model_AA 0 ''demo.Test.mandelsoft.org'' = Some (Ret (Inr (Some ?i)))"
    and "plain ''demo.Test.mandelsoft.org''" "clean_name ''demo.Test.mandelsoft.org''"
    and "lower (dotted ''demo.Test.mandelsoft.org'') = ''demo.test.mandelsoft.org.''"
    by code_simp+
  with ResolveFQDN_answer_name [OF ref_dns_laws iteration_order_id servable_AA, of "''demo.Test.mandelsoft.org''" "mem_zindex test_index" ?i]
  show ?thesis by auto
qed

text \<open>A delegated answer comes from the shortest suffix of the relative name that has an
  entry with NS records, the lookups of all shorter suffixes having succeeded without one:
  entries of the zone below a delegation are never consulted.\<close>

theorem ResolveFQDN_delegation_shortest:
  assumes "dns_laws D" "iteration_order ord" "servable (m_heap m) z" "plain qname"
    and "ResolveFQDN D ord I m z qname = Some (Ret (Inr (Some i)))" "i_Zone i = None"
  shows "\<exists>zone rel cur j es e. nested (m_heap m) z zone \<and>
    j < length (name_suffixes (str_split (CHR ''.'') rel)) \<and>
    LookupRelativeDomainName I (zn_source (m_heap m ! zone)) (zn_key (m_heap m ! zone))
      (name_suffixes (str_split (CHR ''.'') rel) ! j) = Inr es \<and>
    find has_NS es = Some e \<and> i_Entries i = [e] \<and>
    i_EntryNames i = [jn (name_suffixes (str_split (CHR ''.'') rel) ! j) cur] \<and>
    (clean_name qname \<longrightarrow> lower (jn rel cur) = lower (dotted qname)) \<and>
    (\<forall>k < j. \<exists>es'. LookupRelativeDomainName I (zn_source (m_heap m ! zone)) (zn_key (m_heap m ! zone))
      (name_suffixes (str_split (CHR ''.'') rel) ! k) = Inr es' \<and> \<not> list_ex has_NS es')"
proof -
  from ResolveFQDN_InrE [OF assms(1-5)] obtain rel zone cur r where
    z: "nested (m_heap m) z zone" and rel: "\<not> ends_dot rel"
    and n: "clean_name qname \<longrightarrow> lower (jn rel cur) = lower (dotted qname)"
    and r: "spec_lookup (LookupRelativeDomainName I (zn_source (m_heap m ! zone)) (zn_key (m_heap m ! zone))) rel cur = Inr r"
    and i: "i = answer_info zone cur r" by metis
  from i assms(6) obtain e c where del: "r = Delegated e c"
    by (cases r) (auto simp: answer_info_def)
  have "i_Entries i = [e]" "i_EntryNames i = [c]" by (simp_all add: i del answer_info_def)
  with spec_lookup_delegated [OF r [unfolded del] rel] z n show ?thesis
    by (elim exE) (rule exI [of _ zone], rule exI [of _ rel], rule exI [of _ cur], meson)
qed

theorem ResolveFQDN_delegation_shortest_witness:
  "\<exists>rel cur j. [jn (name_suffixes (str_split (CHR ''.'') rel) ! j) cur] = [''nested.test.mandelsoft.de.''] \<and>
    lower (jn rel cur) = ''www.sub.nested.test.mandelsoft.de.''"
proof -
  let ?i = "\<lparr>i_Zone = None, i_ZoneNames = [''nested.test.mandelsoft.de.''], i_Entries = [EntryA_NS],
    i_EntryNames = [''nested.test.mandelsoft.de.'']\<rparr>"
  have "servable (m_heap model_A) 0"
    and "ask model_A 0 ''www.sub.nested.test.mandelsoft.de'' = Some (Ret (Inr (Some ?i)))"
    and "plain ''www.sub.nested.test.mandelsoft.de''" "clean_name ''www.sub.nested.test.mandelsoft.de''"
    and "lower (dotted ''www.sub.nested.test.mandelsoft.de'') = ''www.sub.nested.test.mandelsoft.de.''"
    by code_simp+
  with ResolveFQDN_delegation_shortest [OF ref_dns_laws iteration_order_id, of model_A 0 "''www.sub.nested.test.mandelsoft.de''" "mem_zindex test_index" ?i]
  show ?thesis by simp metis
qed

text \<open>A name query panics when a zone that became a root zone is still among the children
  of its former parent: its name is fully qualified now, one character longer than the
  relative name it matches, and the slice has a negative bound. The model is the test's after
  its nested zone lost its parent reference, the query the nested zone's former name.\<close>

theorem ResolveFQDN_stale_panic:
  "ask model_AA_root 0 ''demo.mandelsoft.de'' = Some Panic"
  by code_simp

text \<open>An address query answers with exactly the zones below the queried one whose index
  has entries for the address; each answer has the zone's fully qualified names, the product
  of the domain names along the path to it, and the names of its entries below them.\<close>

theorem ResolveIP_exact:
  assumes "iteration_order ord" "ResolveIP n D ord I m z ip = Some (Inr infos)"
  shows "set infos = {i. \<exists>d fd es. ip_path D (m_heap m) z [[]] d fd \<and>
    LookupIP I (zn_source (m_heap m ! d)) (zn_key (m_heap m ! d)) ip = Inr es \<and> es \<noteq> [] \<and>
    i = \<lparr>i_Zone = Some d, i_ZoneNames = fd, i_Entries = es,
      i_EntryNames = concat (map (\<lambda>e. concat (map (\<lambda>n. map (\<lambda>f. dns_Fqdn D n @ f) fd) (es_DNSNames (e_Spec e)))) es)\<rparr>}"
  using resolveIP_infos [OF assms(1) assms(2) [unfolded ResolveIP_def]]
  by (auto simp: ip_info_def own_infos_eq split: if_splits)

theorem ResolveIP_exact_witness:
  "\<exists>fd. ip_path ref_dns (m_heap model_AA) 0 [[]] 1 fd \<and> ''test.mandelsoft.org.'' \<in> set fd"
proof -
  let ?i = "\<lparr>i_Zone = Some 1, i_ZoneNames = [''demo.mandelsoft.de.'', ''demo.mandelsoft.org.'',
      ''test.mandelsoft.de.'', ''test.mandelsoft.org.''], i_Entries = [EntryAA_demo],
      i_EntryNames = [''demo.demo.mandelsoft.de.'', ''demo.demo.mandelsoft.org.'',
      ''demo.test.mandelsoft.de.'', ''demo.test.mandelsoft.org.'']\<rparr>"
  have "ResolveIP 2 ref_dns (\<lambda>xs. xs) (mem_zindex test_index) model_AA 0 ''9.9.9.9'' = Some (Inr [?i])"
    by code_simp
  note eq = ResolveIP_exact [OF iteration_order_id this]
  have "?i \<in> set [?i]" by simp
  then obtain d fd es where p: "ip_path ref_dns (m_heap model_AA) 0 [[]] d fd"
    and i: "?i = \<lparr>i_Zone = Some d, i_ZoneNames = fd, i_Entries = es,
      i_EntryNames = concat (map (\<lambda>e. concat (map (\<lambda>n. map (\<lambda>f. dns_Fqdn ref_dns n @ f) fd) (es_DNSNames (e_Spec e)))) es)\<rparr>"
    unfolding eq by blast
  from arg_cong [OF i, of i_Zone] arg_cong [OF i, of i_ZoneNames] p show ?thesis
    by (intro exI [of _ fd]) auto
qed

text \<open>Where the children maps have no cycle, an address query returns: fuel above the rank
  of the zone is enough, and more fuel does not change the result.\<close>

theorem ResolveIP_returns:
  assumes "iteration_order ord" "wf_heap (m_heap m)" "ranked (m_heap m) r" "z < length (m_heap m)"
    and "r z < n" "n \<le> k"
  shows "\<exists>x. ResolveIP n D ord I m z ip = Some x \<and> ResolveIP k D ord I m z ip = Some x"
proof -
  obtain x where "ResolveIP n D ord I m z ip = Some x"
    using resolveIP_defined [OF assms(1-5)] unfolding ResolveIP_def by blast
  with resolveIP_mono [OF _ assms(6)] show ?thesis unfolding ResolveIP_def by blast
qed

theorem ResolveIP_returns_witness:
  "\<exists>x. ResolveIP 2 ref_dns rev (mem_zindex test_index) model_AA 0 ''9.9.9.9'' = Some x \<and>
     ResolveIP 100 ref_dns rev (mem_zindex test_index) model_AA 0 ''9.9.9.9'' = Some x"
proof (rule ResolveIP_returns [OF iteration_order_rev, where r = "\<lambda>z. if z = 0 then 1 else 0"])
  show "wf_heap (m_heap model_AA)" using wf_model_AA by (simp add: wf_model_def)
  have h: "map zn_children (m_heap model_AA) = [[(''a'', 1)], []]" by code_simp
  then have "length (m_heap model_AA) = 2" by (metis length_map length_Cons list.size(3) numeral_2_eq_2)
  then show "0 < length (m_heap model_AA)" by simp
  show "ranked (m_heap model_AA) (\<lambda>z. if z = 0 then 1 else 0)"
    using h by (auto simp: ranked_def map_eq_Cons_conv less_Suc_eq)
qed simp_all

text \<open>On a cycle of the children maps an address query never returns, whatever the fuel.
  The cycle of the witness is built by the operations themselves: the nested zone of the test
  becomes a root zone, then its former parent is placed below it.\<close>

theorem ResolveIP_cycle_diverges:
  assumes "ip_safe I" "iteration_order ord" "trapped (m_heap m) S" "z \<in> S"
  shows "ResolveIP n D ord I m z ip = None"
  using resolveIP_trapped [OF assms] by (simp add: ResolveIP_def)

theorem ResolveIP_cycle_diverges_witness:
  "\<forall>n. ResolveIP n ref_dns (\<lambda>xs. xs) (mem_zindex test_index) model_swapped 0 ''8.8.8.8'' = None"
proof (intro allI, rule ResolveIP_cycle_diverges [OF _ iteration_order_id, where S = "{0, 1}"])
  show "ip_safe (mem_zindex test_index)"
    by (auto simp: ip_safe_def mem_zindex_def mem_LookupIP_def split: option.splits)
  have "map zn_children (m_heap model_swapped) = [[(''a'', 1)], [(''aa'', 0)]]" by code_simp
  then show "trapped (m_heap model_swapped) {0, 1}"
    by (auto simp: trapped_def map_eq_Cons_conv)
qed simp

end
