(* ===== verification/Zone_Tests.thy ===== *)
theory Zone_Tests
  imports Zone_Resolve
begin

text \<open>
  The specification of the repository's test of the zone model
  (internal/controller/server/zonemodel/model_test.go, from line 165): the set-up and each of
  its expectations, evaluated on the model. Only the test of addresses of a nested zone is
  focused in the source, so the others do not run there; one of them does not hold.
\<close>

text \<open>The index after a test has added its entries, and the two queries at the zone of the set-up.\<close>

definition indexed_with :: "coredns_entry list \<Rightarrow> zindex" where
  "indexed_with es = mem_zindex (foldl (\<lambda>i e. mem_AddEntry test_Source e i) [] es)"

definition fqdn_to_record :: "model \<Rightarrow> coredns_entry list \<Rightarrow> string \<Rightarrow> (go_error + info option) go option" where
  "fqdn_to_record m es q = ResolveFQDN ref_dns (\<lambda>xs. xs) (indexed_with es) m 0 q"

definition ip_to_record :: "model \<Rightarrow> coredns_entry list \<Rightarrow> string \<Rightarrow> (go_error + info list) option" where
  "ip_to_record m es ip = ResolveIP 3 ref_dns (\<lambda>xs. xs) (indexed_with es) m 0 ip"

definition record_of :: "addr \<Rightarrow> string list \<Rightarrow> coredns_entry list \<Rightarrow> string list \<Rightarrow> info" where
  "record_of z zns es ns = \<lparr>i_Zone = Some z, i_ZoneNames = zns, i_Entries = es, i_EntryNames = ns\<rparr>"

abbreviation expected :: "addr \<Rightarrow> string \<Rightarrow> coredns_entry list \<Rightarrow> string \<Rightarrow> (go_error + info option) go option" where
  "expected z zn es n \<equiv> Some (Ret (Inr (Some (record_of z [zn] es [n]))))"

lemma simple_entry_access:
  "fqdn_to_record model_A [EntryA_test] ''test.mandelsoft.de'' = expected 0 ''mandelsoft.de.'' [EntryA_test] ''test.mandelsoft.de.''"
  "fqdn_to_record model_A [EntryA_test, EntryA_demo] ''test.mandelsoft.de'' =
    expected 0 ''mandelsoft.de.'' [EntryA_test] ''test.mandelsoft.de.''"
  by code_simp+

lemma simple_alternate_entry_access:
  "fqdn_to_record model_A [EntryA_test, EntryA_demo] ''demo.test.mandelsoft.de'' =
    expected 0 ''mandelsoft.de.'' [EntryA_demo] ''demo.test.mandelsoft.de.''"
  by code_simp

lemma ignore_forwarded:
  "fqdn_to_record model_AA [EntryA_test, EntryA_demo] ''demo.test.mandelsoft.de'' =
    expected 1 ''test.mandelsoft.de.'' [] ''demo.test.mandelsoft.de.''"
  by code_simp

lemma use_forwarded:
  "fqdn_to_record model_AA [EntryA_test, EntryAA_demo] ''demo.test.mandelsoft.de'' =
    expected 1 ''test.mandelsoft.de.'' [EntryAA_demo] ''demo.test.mandelsoft.de.''"
  by code_simp

text \<open>The expectation for a delegation does not hold: the answer has no zone, and the delegated name is its zone name.\<close>

lemma provide_forwarded_NS:
  "fqdn_to_record model_A [EntryA_test, EntryA_NS] ''demo.nested.test.mandelsoft.de'' =
     Some (Ret (Inr (Some \<lparr>i_Zone = None, i_ZoneNames = [''nested.test.mandelsoft.de.''], i_Entries = [EntryA_NS],
       i_EntryNames = [''nested.test.mandelsoft.de.'']\<rparr>)))"
  "fqdn_to_record model_A [EntryA_test, EntryA_NS] ''demo.nested.test.mandelsoft.de'' \<noteq>
     expected 0 ''mandelsoft.de.'' [EntryA_NS] ''nested.test.mandelsoft.de.''"
  by code_simp+

lemma ip_simple_entry_access:
  "ip_to_record model_A [EntryA_test] ''8.8.8.9'' = Some (Inr
    [record_of 0 [''mandelsoft.de.'', ''mandelsoft.org.''] [EntryA_test] [''test.mandelsoft.de.'', ''test.mandelsoft.org.'']])"
  by code_simp

lemma ip_forwarded_entry_access:
  "ip_to_record model_AA [EntryA_test, EntryAA_demo] ''9.9.9.9'' = Some (Inr
    [record_of 1 [''demo.mandelsoft.de.'', ''demo.mandelsoft.org.'', ''test.mandelsoft.de.'', ''test.mandelsoft.org.''] [EntryAA_demo]
      [''demo.demo.mandelsoft.de.'', ''demo.demo.mandelsoft.org.'', ''demo.test.mandelsoft.de.'', ''demo.test.mandelsoft.org.'']])"
  by code_simp

end
