(* ===== verification/Responsibility.thy ===== *)
theory Responsibility
  imports Zone_Fixture
begin

text \<open>
  Responsibility for a zone or an entry (internal/controller/common/responsibility.go,
  indexer.go, options.go): the walk along the parent references to the root zone, with its
  detection of cycles, missing and deleted parents, and the aggregation of the domain names
  on the way. The cluster is a parameter: \<open>get\<close> is its \<open>Get\<close> for hosted zones. The
  walks can run for as long as the cluster keeps answering with new zones, so they are
  partial functions, \<open>None\<close> being a walk that does not return.
\<close>

section \<open>Options and responsibility\<close>

record options =
  op_Class :: str_ptr
  op_Runtime :: str_ptr

record responsibility =
  rs_Root :: "hosted_zone option"
  rs_Parent :: "hosted_zone option"
  rs_Runtime :: str_ptr
  rs_Class :: str_ptr

definition Check :: "responsibility \<Rightarrow> str_ptr \<Rightarrow> str_ptr \<Rightarrow> bool" where
  "Check r class runtime =
     (case rs_Class r of
        None \<Rightarrow> class = None
      | Some rc \<Rightarrow>
          (case class of
             None \<Rightarrow> False
           | Some c \<Rightarrow>
               if rc \<noteq> c then False
               else case rs_Runtime r of
                      Some rr \<Rightarrow> if runtime = None \<or> Some rr \<noteq> runtime then False else False
                    | None \<Rightarrow> False))"

type_synonym zone_getter = "object_key \<Rightarrow> go_error + hosted_zone"

text \<open>The three results of a walk: the responsibility, the flag, and the problem.\<close>

type_synonym 'p root_result = "responsibility option \<times> bool \<times> 'p option"

section \<open>The walk for an entry\<close>

text \<open>
  The loop of \<open>GetRootInfoForEntry\<close>; after it, the root's class and runtime are read, which
  panics if the loop was never entered.
\<close>

definition root_done :: "responsibility \<Rightarrow> 'p root_result go" where
  "root_done resp =
     (case rs_Root resp of
        None \<Rightarrow> Panic
      | Some root \<Rightarrow> Ret (Some (resp\<lparr>rs_Runtime := zs_Runtime (z_Spec root),
          rs_Class := zs_Class (z_Spec root)\<rparr>), True, None))"

definition deleted :: "object_meta \<Rightarrow> bool" where
  "deleted m \<longleftrightarrow> om_DeletionTimestamp m \<noteq> None"

text \<open>One step: the first zone is the parent, the last one the root.\<close>

definition step_resp :: "responsibility \<Rightarrow> hosted_zone \<Rightarrow> responsibility" where
  "step_resp resp z = resp\<lparr>rs_Parent := (case rs_Parent resp of None \<Rightarrow> Some z | Some p \<Rightarrow> Some p),
     rs_Root := Some z\<rparr>"

partial_function (option) entry_walk ::
    "'p ext \<Rightarrow> zone_getter \<Rightarrow> string \<Rightarrow> string \<Rightarrow> string list \<Rightarrow> string \<Rightarrow> responsibility
     \<Rightarrow> 'p root_result go option" where
  "entry_walk E get ns zone hist path resp =
     (if zone = [] then Some (root_done resp)
      else if zone \<in> set hist then
        Some (Ret (None, True, Some (x_Failedf E (''reference cyle '' @ path @ ''/'' @ zone))))
      else case get (ns, zone) of
             Inl err \<Rightarrow>
               Some (Ret (if IsNotFound err
                 then (None, True, Some (x_Failedf E (''parent '' @ zone @ '' not found'')))
                 else (None, False, x_TemporaryProblem E (Some err))))
           | Inr parent \<Rightarrow>
               if deleted (z_Meta parent) then
                 Some (Ret (None, True, Some (x_Failedf E (''parent '' @ zone @ '' deleted''))))
               else entry_walk E get ns (zone_parent parent) (hist @ [zone]) (path @ ''/'' @ zone)
                      (step_resp resp parent))"

declare entry_walk.simps [code]

definition no_resp :: responsibility where
  "no_resp = \<lparr>rs_Root = None, rs_Parent = None, rs_Runtime = None, rs_Class = None\<rparr>"

definition GetRootInfoForEntry ::
    "'p ext \<Rightarrow> zone_getter \<Rightarrow> object_key \<Rightarrow> 'p root_result go option" where
  "GetRootInfoForEntry E get n = entry_walk E get (ok_Namespace n) (ok_Name n) [] [] no_resp"

section \<open>The walk for a zone\<close>

text \<open>The names pointer is an option; the products are built zone by zone.\<close>

definition AggregateNames :: "dns_lib \<Rightarrow> hosted_zone \<Rightarrow> string list option \<Rightarrow> string list option" where
  "AggregateNames D z names =
     (case names of
        None \<Rightarrow> None
      | Some ns \<Rightarrow>
          Some (foldl (\<lambda>result n. foldl (\<lambda>result suf. result @ [dns_Fqdn D n @ dns_Fqdn D suf]) result
            (zs_DomainNames (z_Spec z))) [] ns))"

partial_function (option) zone_walk ::
    "dns_lib \<Rightarrow> 'p ext \<Rightarrow> zone_getter \<Rightarrow> hosted_zone \<Rightarrow> string list option \<Rightarrow> string \<Rightarrow> hosted_zone option
     \<Rightarrow> string list \<Rightarrow> ('p root_result \<times> string list option) option" where
  "zone_walk D E get obj names path direct hist =
     (if zone_parent obj = [] then
        Some ((Some \<lparr>rs_Root = Some obj, rs_Parent = direct, rs_Runtime = zs_Runtime (z_Spec obj),
          rs_Class = zs_Class (z_Spec obj)\<rparr>, True, None), AggregateNames D obj names)
      else if zone_parent obj \<in> set (hist @ [zone_name obj]) then
        Some ((None, True, Some (x_Failedf E (''reference cyle '' @ path @ ''/'' @ zone_parent obj))),
          AggregateNames D obj names)
      else case get (x_RefObjectKeyFor E (zone_namespace obj) (zone_parent obj)) of
             Inl err \<Rightarrow>
               Some (if IsNotFound err
                 then (None, True, Some (x_Failedf E
                   (''parent '' @ quote (path @ ''/'' @ zone_parent obj) @ '' not found'')))
                 else (None, False, x_TemporaryProblem E (Some err)), AggregateNames D obj names)
           | Inr parent \<Rightarrow>
               if deleted (z_Meta parent) then
                 Some ((None, True, Some (x_Failedf E (''parent '' @ zone_parent obj @ '' deleted''))),
                   AggregateNames D obj names)
               else zone_walk D E get parent (AggregateNames D obj names) (path @ ''/'' @ zone_parent obj)
                      (case direct of None \<Rightarrow> Some parent | Some p \<Rightarrow> Some p) (hist @ [zone_name obj]))"

declare zone_walk.simps [code]

definition GetRootInfo ::
    "dns_lib \<Rightarrow> 'p ext \<Rightarrow> zone_getter \<Rightarrow> hosted_zone \<Rightarrow> string list option
     \<Rightarrow> ('p root_result \<times> string list option) option" where
  "GetRootInfo D E get obj dnsnames = zone_walk D E get obj dnsnames [] None []"

section \<open>The cache indices\<close>

definition ParentIndexer :: "hosted_zone \<Rightarrow> string list" where
  "ParentIndexer obj = (if zone_parent obj = [] then [] else [zone_parent obj])"

definition ZoneIndexer :: "coredns_entry \<Rightarrow> string list" where
  "ZoneIndexer res = (if es_ZoneRef (e_Spec res) = [] then [] else [es_ZoneRef (e_Spec res)])"

text \<open>The objects a trigger enqueues for reconciliation.\<close>

datatype queued = QZone object_key | QEntry object_key

section \<open>Chains of zones\<close>

text \<open>
  The abstract notion behind the walks: a chain of existing, undeleted zones from a name along
  the parent references to a zone without one.
\<close>

fun zone_chain :: "zone_getter \<Rightarrow> string \<Rightarrow> string \<Rightarrow> hosted_zone list \<Rightarrow> bool" where
  "zone_chain get ns name [] \<longleftrightarrow> name = []"
| "zone_chain get ns name (z # zs) \<longleftrightarrow> name \<noteq> [] \<and> get (ns, name) = Inr z \<and> \<not> deleted (z_Meta z) \<and>
     zone_chain get ns (zone_parent z) zs"

text \<open>The names by which the zones of a chain are reached.\<close>

fun chain_names :: "string \<Rightarrow> hosted_zone list \<Rightarrow> string list" where
  "chain_names name [] = []"
| "chain_names name (z # zs) = name # chain_names (zone_parent z) zs"

lemma zone_chain_unique: "zone_chain get ns n zs \<Longrightarrow> zone_chain get ns n zs' \<Longrightarrow> zs = zs'"
  by (induction zs arbitrary: n zs') (case_tac zs'; auto)+

lemma zone_chain_suffix:
  "zone_chain get ns n zs \<Longrightarrow> m \<in> set (chain_names n zs) \<Longrightarrow>
   \<exists>us vs. zs = us @ vs \<and> vs \<noteq> [] \<and> zone_chain get ns m vs"
proof (induction zs arbitrary: n)
  case (Cons z zs)
  show ?case
  proof (cases "m = n")
    case True
    with Cons.prems(1) show ?thesis by (intro exI [of _ "[]"] exI [of _ "z # zs"]) simp
  next
    case False
    with Cons.prems Cons.IH [of "zone_parent z"] obtain us vs where
      "zs = us @ vs" "vs \<noteq> []" "zone_chain get ns m vs" by auto
    then show ?thesis by (intro exI [of _ "z # us"] exI [of _ vs]) simp
  qed
qed simp

lemma zone_chain_distinct: "zone_chain get ns n zs \<Longrightarrow> distinct (chain_names n zs)"
proof (induction zs arbitrary: n)
  case (Cons z zs)
  have "n \<notin> set (chain_names (zone_parent z) zs)"
  proof
    assume "n \<in> set (chain_names (zone_parent z) zs)"
    moreover have "zone_chain get ns (zone_parent z) zs" using Cons.prems by simp
    ultimately obtain us vs where vs: "zs = us @ vs" "zone_chain get ns n vs"
      using zone_chain_suffix by blast
    from zone_chain_unique [OF Cons.prems vs(2)] vs(1) show False by simp
  qed
  with Cons show ?case by simp
qed simp

text \<open>The entry walk succeeds exactly on a chain, whose first and last zone it returns.\<close>

definition chain_resp :: "hosted_zone option \<Rightarrow> hosted_zone \<Rightarrow> responsibility" where
  "chain_resp parent root = \<lparr>rs_Root = Some root, rs_Parent = parent,
     rs_Runtime = zs_Runtime (z_Spec root), rs_Class = zs_Class (z_Spec root)\<rparr>"

lemma entry_walk_chain:
  "zone_chain get ns n zs \<Longrightarrow> set (chain_names n zs) \<inter> set hist = {} \<Longrightarrow>
   entry_walk E get ns n hist path resp = Some (root_done (foldl step_resp resp zs))"
proof (induction zs arbitrary: n hist path resp)
  case Nil
  then show ?case by (subst entry_walk.simps) simp
next
  case (Cons z zs)
  from zone_chain_distinct [OF Cons.prems(1)] Cons.prems
  have "set (chain_names (zone_parent z) zs) \<inter> set (hist @ [n]) = {}" by auto
  from Cons.IH [OF _ this] Cons.prems show ?case
    by (subst entry_walk.simps) simp
qed

lemma entry_walk_ok:
  assumes "entry_walk E get ns n hist path resp = Some (Ret (Some r, f, None))"
  shows "\<exists>zs. zone_chain get ns n zs"
proof (rule entry_walk.raw_induct [where P = "\<lambda>E get ns n hist path resp res.
    (\<exists>r f. res = Ret (Some r, f, None)) \<longrightarrow> (\<exists>zs. zone_chain get ns n zs)", OF _ assms, THEN mp])
  fix W :: "'a ext \<Rightarrow> zone_getter \<Rightarrow> string \<Rightarrow> string \<Rightarrow> string list \<Rightarrow> string \<Rightarrow> responsibility
     \<Rightarrow> 'a root_result go option"
  fix E get ns n hist path resp res
  assume IH: "\<And>E get ns n hist path resp res. W E get ns n hist path resp = Some res \<Longrightarrow>
      (\<exists>r f. res = Ret (Some r, f, None)) \<longrightarrow> (\<exists>zs. zone_chain get ns n zs)"
    and eq: "(if n = [] then Some (root_done resp)
      else if n \<in> set hist then
        Some (Ret (None, True, Some (x_Failedf E (''reference cyle '' @ path @ ''/'' @ n))))
      else case get (ns, n) of
             Inl err \<Rightarrow>
               Some (Ret (if IsNotFound err
                 then (None, True, Some (x_Failedf E (''parent '' @ n @ '' not found'')))
                 else (None, False, x_TemporaryProblem E (Some err))))
           | Inr parent \<Rightarrow>
               if deleted (z_Meta parent) then
                 Some (Ret (None, True, Some (x_Failedf E (''parent '' @ n @ '' deleted''))))
               else W E get ns (zone_parent parent) (hist @ [n]) (path @ ''/'' @ n)
                      (step_resp resp parent)) = Some res"
  show "(\<exists>r f. res = Ret (Some r, f, None)) \<longrightarrow> (\<exists>zs. zone_chain get ns n zs)"
  proof
    assume ok: "\<exists>r f. res = Ret (Some r, f, None)"
    show "\<exists>zs. zone_chain get ns n zs"
    proof (cases "n = []")
      case True
      then show ?thesis by (intro exI [of _ "[]"]) simp
    next
      case False
      with eq ok obtain z where z: "get (ns, n) = Inr z" "\<not> deleted (z_Meta z)" "n \<notin> set hist"
        by (auto split: if_splits sum.splits)
      with eq ok False IH obtain zs where "zone_chain get ns (zone_parent z) zs" by fastforce
      with z False have "zone_chain get ns n (z # zs)" by simp
      then show ?thesis ..
    qed
  qed
qed (use assms in auto)


text \<open>The walk returns if the cluster has finitely many zones in the namespace.\<close>

definition finite_zones :: "zone_getter \<Rightarrow> string \<Rightarrow> bool" where
  "finite_zones get ns \<longleftrightarrow> finite {n. \<exists>z. get (ns, n) = Inr z}"

lemma entry_walk_returns:
  assumes fin: "finite_zones get ns"
  shows "n \<noteq> [] \<or> rs_Root resp \<noteq> None \<Longrightarrow> problem_laws E \<Longrightarrow>
    \<exists>r f p. entry_walk E get ns n hist path resp = Some (Ret (r, f, p)) \<and> (r = None \<longleftrightarrow> p \<noteq> None) \<and> (r \<noteq> None \<longrightarrow> f)"
proof (induction "card ({n. \<exists>z. get (ns, n) = Inr z} - set hist)" arbitrary: n hist path resp rule: less_induct)
  case less
  let ?S = "{n. \<exists>z. get (ns, n) = Inr z}"
  show ?case
  proof (cases "n = [] \<or> n \<in> set hist")
    case True
    with less.prems show ?thesis by (subst entry_walk.simps) (auto simp: root_done_def)
  next
    case False
    show ?thesis
    proof (cases "get (ns, n)")
      case (Inr z)
      have "?S - set (hist @ [n]) \<subset> ?S - set hist" using Inr False by auto
      then have "card (?S - set (hist @ [n])) < card (?S - set hist)"
        using fin by (intro psubset_card_mono) (auto simp: finite_zones_def)
      from less.hyps [OF this, where n = "zone_parent z" and path = "path @ ''/'' @ n" and resp = "step_resp resp z"]
        Inr False less.prems
      show ?thesis by (subst entry_walk.simps) (auto simp: step_resp_def)
    next
      case (Inl err)
      obtain y where "x_TemporaryProblem E (Some err) = Some y"
        using Temp_Some [OF less.prems(2), of err] by blast
      then show ?thesis using False less.prems Inl
        by (subst entry_walk.simps) (auto simp: problem_lawsD)
    qed
  qed
qed

lemma foldl_step_resp:
  "zs \<noteq> [] \<Longrightarrow> rs_Parent (foldl step_resp r zs) = (case rs_Parent r of None \<Rightarrow> Some (hd zs) | Some p \<Rightarrow> Some p) \<and>
     rs_Root (foldl step_resp r zs) = Some (last zs)"
  by (induction zs arbitrary: r rule: list_nonempty_induct) (auto simp: step_resp_def split: option.splits)

lemma root_done_chain:
  "zs \<noteq> [] \<Longrightarrow> root_done (foldl step_resp no_resp zs) = Ret (Some (chain_resp (Some (hd zs)) (last zs)), True, None)"
  using foldl_step_resp [of zs no_resp]
  by (simp add: root_done_def chain_resp_def no_resp_def)

section \<open>The walk of a zone\<close>

text \<open>What the API server guarantees: an object is stored under its own key.\<close>

definition honest :: "zone_getter \<Rightarrow> bool" where
  "honest get \<longleftrightarrow> (\<forall>ns n z. get (ns, n) = Inr z \<longrightarrow> zone_namespace z = ns \<and> zone_name z = n)"

lemma honestD: "honest get \<Longrightarrow> get (ns, n) = Inr z \<Longrightarrow> zone_namespace z = ns \<and> zone_name z = n"
  by (simp add: honest_def)

abbreviation names_along :: "dns_lib \<Rightarrow> string list option \<Rightarrow> hosted_zone list \<Rightarrow> string list option" where
  "names_along D names zs \<equiv> foldl (\<lambda>ns z. AggregateNames D z ns) names zs"

lemma zone_walk_chain:
  assumes get: "honest get" and E: "refkey_law E"
  shows "zone_chain get (zone_namespace obj) (zone_parent obj) zs \<Longrightarrow>
    set (chain_names (zone_parent obj) zs) \<inter> set (hist @ [zone_name obj]) = {} \<Longrightarrow>
    zone_walk D E get obj names path direct hist =
      Some ((Some (chain_resp (if direct = None \<and> zs \<noteq> [] then Some (hd zs) else direct) (last (obj # zs))), True, None),
        names_along D names (obj # zs))"
proof (induction zs arbitrary: obj names path direct hist)
  case Nil
  then show ?case by (subst zone_walk.simps) (simp add: chain_resp_def)
next
  case (Cons z zs)
  have z: "get (zone_namespace obj, zone_parent obj) = Inr z" "\<not> deleted (z_Meta z)"
    "zone_parent obj \<noteq> []" and ch: "zone_chain get (zone_namespace obj) (zone_parent z) zs"
    using Cons.prems(1) by auto
  with honestD [OF get z(1)] have ch': "zone_chain get (zone_namespace z) (zone_parent z) zs"
    and nm: "zone_name z = zone_parent obj" by auto
  have "set (chain_names (zone_parent z) zs) \<inter> set ((hist @ [zone_name obj]) @ [zone_name z]) = {}"
    using Cons.prems(2) zone_chain_distinct [OF Cons.prems(1)] nm by auto
  from Cons.IH [OF ch' this] z Cons.prems(2) show ?case
    by (subst zone_walk.simps) (auto simp: refkey_lawD [OF E] split: option.splits)
qed

lemma zone_walk_returns:
  assumes get: "honest get" and E: "refkey_law E" and fin: "finite_zones get (zone_namespace obj)"
    and P: "problem_laws E"
  shows "\<exists>r f p ns. zone_walk D E get obj names path direct hist = Some ((r, f, p), ns) \<and> (r = None \<longleftrightarrow> p \<noteq> None) \<and> (r \<noteq> None \<longrightarrow> f)"
  using fin
proof (induction "card ({n. \<exists>z. get (zone_namespace obj, n) = Inr z} - set (hist @ [zone_name obj]))"
    arbitrary: obj names path direct hist rule: less_induct)
  case less
  let ?S = "{n. \<exists>z. get (zone_namespace obj, n) = Inr z}"
  show ?case
  proof (cases "zone_parent obj = [] \<or> zone_parent obj \<in> set (hist @ [zone_name obj])")
    case True
    then show ?thesis by (subst zone_walk.simps) auto
  next
    case False
    show ?thesis
    proof (cases "get (zone_namespace obj, zone_parent obj)")
      case (Inr z)
      have z: "zone_namespace z = zone_namespace obj" "zone_name z = zone_parent obj"
        using honestD [OF get Inr] by auto
      have "?S - set ((hist @ [zone_name obj]) @ [zone_name z]) \<subset> ?S - set (hist @ [zone_name obj])"
        using Inr False z by auto
      then have "card (?S - set ((hist @ [zone_name obj]) @ [zone_name z])) < card (?S - set (hist @ [zone_name obj]))"
        using less.prems by (intro psubset_card_mono) (auto simp: finite_zones_def)
      from less.hyps [of z "hist @ [zone_name obj]"] this less.prems Inr False z show ?thesis
        by (subst zone_walk.simps) (auto simp: refkey_lawD [OF E])
    next
      case (Inl err)
      then show ?thesis using False Temp_Some [OF P, of err]
        by (subst zone_walk.simps) (auto simp: refkey_lawD [OF E])
    qed
  qed
qed


lemma zone_walk_ok:
  assumes get: "honest get" and E: "refkey_law E"
    and ok: "zone_walk D E get obj names path direct hist = Some ((Some r, f, None), names')"
  shows "\<exists>zs. zone_chain get (zone_namespace obj) (zone_parent obj) zs \<and>
    set (chain_names (zone_parent obj) zs) \<inter> set (hist @ [zone_name obj]) = {}"
proof (rule zone_walk.raw_induct [where P = "\<lambda>D E get obj names path direct hist res.
    honest get \<longrightarrow> refkey_law E \<longrightarrow> (\<exists>r f names'. res = ((Some r, f, None), names')) \<longrightarrow>
    (\<exists>zs. zone_chain get (zone_namespace obj) (zone_parent obj) zs \<and>
       set (chain_names (zone_parent obj) zs) \<inter> set (hist @ [zone_name obj]) = {})",
    OF _ ok, THEN mp, THEN mp, THEN mp])
  fix W :: "dns_lib \<Rightarrow> 'a ext \<Rightarrow> zone_getter \<Rightarrow> hosted_zone \<Rightarrow> string list option \<Rightarrow> string \<Rightarrow> hosted_zone option
     \<Rightarrow> string list \<Rightarrow> ('a root_result \<times> string list option) option"
  fix D E get obj names path direct hist res
  assume IH: "\<And>D E get obj names path direct hist res. W D E get obj names path direct hist = Some res \<Longrightarrow>
      honest get \<longrightarrow> refkey_law E \<longrightarrow> (\<exists>r f names'. res = ((Some r, f, None), names')) \<longrightarrow>
      (\<exists>zs. zone_chain get (zone_namespace obj) (zone_parent obj) zs \<and>
         set (chain_names (zone_parent obj) zs) \<inter> set (hist @ [zone_name obj]) = {})"
    and eq: "(if zone_parent obj = [] then
        Some ((Some \<lparr>rs_Root = Some obj, rs_Parent = direct, rs_Runtime = zs_Runtime (z_Spec obj),
          rs_Class = zs_Class (z_Spec obj)\<rparr>, True, None), AggregateNames D obj names)
      else if zone_parent obj \<in> set (hist @ [zone_name obj]) then
        Some ((None, True, Some (x_Failedf E (''reference cyle '' @ path @ ''/'' @ zone_parent obj))),
          AggregateNames D obj names)
      else case get (x_RefObjectKeyFor E (zone_namespace obj) (zone_parent obj)) of
             Inl err \<Rightarrow>
               Some (if IsNotFound err
                 then (None, True, Some (x_Failedf E
                   (''parent '' @ quote (path @ ''/'' @ zone_parent obj) @ '' not found'')))
                 else (None, False, x_TemporaryProblem E (Some err)), AggregateNames D obj names)
           | Inr parent \<Rightarrow>
               if deleted (z_Meta parent) then
                 Some ((None, True, Some (x_Failedf E (''parent '' @ zone_parent obj @ '' deleted''))),
                   AggregateNames D obj names)
               else W D E get parent (AggregateNames D obj names) (path @ ''/'' @ zone_parent obj)
                      (case direct of None \<Rightarrow> Some parent | Some p \<Rightarrow> Some p) (hist @ [zone_name obj])) = Some res"
  show "honest get \<longrightarrow> refkey_law E \<longrightarrow> (\<exists>r f names'. res = ((Some r, f, None), names')) \<longrightarrow>
      (\<exists>zs. zone_chain get (zone_namespace obj) (zone_parent obj) zs \<and>
         set (chain_names (zone_parent obj) zs) \<inter> set (hist @ [zone_name obj]) = {})"
  proof (intro impI)
    assume get: "honest get" and E: "refkey_law E" and ok: "\<exists>r f names'. res = ((Some r, f, None), names')"
    show "\<exists>zs. zone_chain get (zone_namespace obj) (zone_parent obj) zs \<and>
         set (chain_names (zone_parent obj) zs) \<inter> set (hist @ [zone_name obj]) = {}"
    proof (cases "zone_parent obj = []")
      case True
      then show ?thesis by (intro exI [of _ "[]"]) simp
    next
      case False
      with eq ok refkey_lawD [OF E] obtain z where
        z: "get (zone_namespace obj, zone_parent obj) = Inr z" "\<not> deleted (z_Meta z)"
        and new: "zone_parent obj \<notin> set (hist @ [zone_name obj])"
        by (auto split: if_splits sum.splits)
      then have "W D E get z (AggregateNames D obj names) (path @ ''/'' @ zone_parent obj)
                      (case direct of None \<Rightarrow> Some z | Some p \<Rightarrow> Some p) (hist @ [zone_name obj]) = Some res"
        using eq False refkey_lawD [OF E] by simp
      from IH [OF this] get E ok obtain zs where
        zs: "zone_chain get (zone_namespace z) (zone_parent z) zs"
        "set (chain_names (zone_parent z) zs) \<inter> set ((hist @ [zone_name obj]) @ [zone_name z]) = {}" by blast
      then show ?thesis
        using honestD [OF get z(1)] z new False by (intro exI [of _ "z # zs"]) auto
    qed
  qed
qed (use get E in auto)

text \<open>The names after the walk: every name extended by one domain name of every zone on the way.\<close>

lemma AggregateNames_eq:
  "AggregateNames D z (Some ns) =
     Some (concat (map (\<lambda>n. map (\<lambda>s. dns_Fqdn D n @ dns_Fqdn D s) (zs_DomainNames (z_Spec z))) ns))"
proof -
  have inner: "foldl (\<lambda>result suf. result @ [f suf]) l ss = l @ map f ss"
    for f :: "string \<Rightarrow> string" and l ss
    by (induction ss arbitrary: l) simp_all
  have "foldl (\<lambda>result n. foldl (\<lambda>result suf. result @ [dns_Fqdn D n @ dns_Fqdn D suf]) result ds) l ns =
      l @ concat (map (\<lambda>n. map (\<lambda>s. dns_Fqdn D n @ dns_Fqdn D s) ds) ns)" for l ds
    by (induction ns arbitrary: l) (simp_all add: inner)
  from this [where l = "[]"] show ?thesis by (simp add: AggregateNames_def)
qed

definition chosen :: "hosted_zone list \<Rightarrow> string list \<Rightarrow> bool" where
  "chosen zs ss \<longleftrightarrow> list_all2 (\<lambda>z s. s \<in> dotted ` set (zs_DomainNames (z_Spec z))) zs ss"

definition plain_domains :: "hosted_zone \<Rightarrow> bool" where
  "plain_domains z \<longleftrightarrow> (\<forall>n \<in> set (zs_DomainNames (z_Spec z)). plain n)"

lemma dotted_id: "ends_dot s \<Longrightarrow> dotted s = s"
  by (simp add: dotted_def)

lemma dotted_app: "ends_dot t \<Longrightarrow> dotted (s @ t) = s @ t"
  by (auto simp: dotted_def ends_dot_def)

lemma names_along_product:
  assumes law: "fqdn_law D"
  shows "\<forall>z \<in> set zs. plain_domains z \<Longrightarrow> \<forall>n \<in> set ns. plain n \<Longrightarrow> zs \<noteq> [] \<Longrightarrow>
    \<exists>ns'. names_along D (Some ns) zs = Some ns' \<and>
      set ns' = {dotted n @ concat ss | n ss. n \<in> set ns \<and> chosen zs ss}"
proof (induction zs arbitrary: ns)
  case (Cons z zs)
  let ?ds = "zs_DomainNames (z_Spec z)"
  let ?ns = "concat (map (\<lambda>n. map (\<lambda>s. dns_Fqdn D n @ dns_Fqdn D s) ?ds) ns)"
  have pl: "\<forall>s \<in> set ?ds. plain s" using Cons.prems(1) by (simp add: plain_domains_def)
  have step: "set ?ns = {dotted n @ dotted s | n s. n \<in> set ns \<and> s \<in> set ?ds}"
    using pl Cons.prems(2) by (auto simp: Fqdn_dotted [OF law])
  have pl': "\<forall>n \<in> set ?ns. plain n"
    using step pl Cons.prems(2) by (auto simp: dotted_def)
  have chosen1: "chosen (z # zs) ss \<longleftrightarrow> (\<exists>s ss'. ss = dotted s # ss' \<and> s \<in> set ?ds \<and> chosen zs ss')" for ss
    by (auto simp: chosen_def list_all2_Cons1)
  show ?case
  proof (cases "zs = []")
    case True
    then have nil: "chosen zs ss \<longleftrightarrow> ss = []" for ss by (simp add: chosen_def)
    have "set ?ns = {dotted n @ concat ss | n ss. n \<in> set ns \<and> chosen (z # zs) ss}"
    proof (rule set_eqI)
      show "x \<in> set ?ns \<longleftrightarrow> x \<in> {dotted n @ concat ss | n ss. n \<in> set ns \<and> chosen (z # zs) ss}" for x
        unfolding step chosen1 nil mem_Collect_eq
      proof
        assume "\<exists>n s. x = dotted n @ dotted s \<and> n \<in> set ns \<and> s \<in> set ?ds"
        then obtain n s where "x = dotted n @ dotted s" "n \<in> set ns" "s \<in> set ?ds" by blast
        then show "\<exists>n ss. x = dotted n @ concat ss \<and> n \<in> set ns \<and>
            (\<exists>s ss'. ss = dotted s # ss' \<and> s \<in> set ?ds \<and> ss' = [])"
          by (intro exI [of _ n] exI [of _ "[dotted s]"]) auto
      qed (auto, metis)
    qed
    with True show ?thesis by (simp add: AggregateNames_eq)
  next
    case False
    from Cons.IH [OF _ pl' this] Cons.prems(1) obtain ns' where
      ns': "names_along D (Some ?ns) zs = Some ns'"
      and set: "set ns' = {dotted n @ concat ss | n ss. n \<in> set ?ns \<and> chosen zs ss}" by auto
    have "set ns' = {dotted n @ concat ss | n ss. n \<in> set ns \<and> chosen (z # zs) ss}"
    proof -
      have "set ns' = {dotted n @ dotted s @ concat ss | n s ss. n \<in> set ns \<and> s \<in> set ?ds \<and> chosen zs ss}"
      proof (intro set_eqI iffI)
        show "x \<in> {dotted n @ dotted s @ concat ss | n s ss. n \<in> set ns \<and> s \<in> set ?ds \<and> chosen zs ss}"
          if "x \<in> set ns'" for x
        proof -
          from that obtain n s ss where "x = dotted (dotted n @ dotted s) @ concat ss"
            and m: "n \<in> set ns" "s \<in> set ?ds" "chosen zs ss" unfolding set step by blast
          then have "x = dotted n @ dotted s @ concat ss" by (simp add: dotted_app)
          with m show ?thesis by blast
        qed
        show "x \<in> set ns'"
          if "x \<in> {dotted n @ dotted s @ concat ss | n s ss. n \<in> set ns \<and> s \<in> set ?ds \<and> chosen zs ss}" for x
        proof -
          from that obtain n s ss where x: "x = dotted n @ dotted s @ concat ss"
            and m: "n \<in> set ns" "s \<in> set ?ds" "chosen zs ss" by blast
          have "x = dotted (dotted n @ dotted s) @ concat ss" by (simp add: x dotted_app)
          with m show ?thesis unfolding set step by blast
        qed
      qed
      also have "\<dots> = {dotted n @ concat ss | n ss. n \<in> set ns \<and> chosen (z # zs) ss}"
        unfolding chosen1 by (auto; metis concat.simps(2))
      finally show ?thesis .
    qed
    with ns' show ?thesis by (simp add: AggregateNames_eq)
  qed
qed simp


lemma entry_root_iff:
  assumes "ok_Name n \<noteq> []"
  shows "GetRootInfoForEntry E get n = Some (Ret (Some r, True, None)) \<longleftrightarrow>
    (\<exists>zs. zs \<noteq> [] \<and> zone_chain get (ok_Namespace n) (ok_Name n) zs \<and> r = chain_resp (Some (hd zs)) (last zs))"
proof
  have chain: "GetRootInfoForEntry E get n = Some (Ret (Some (chain_resp (Some (hd zs)) (last zs)), True, None))"
    if "zone_chain get (ok_Namespace n) (ok_Name n) zs" for zs
  proof -
    from that assms have "zs \<noteq> []" by auto
    with root_done_chain [of zs] entry_walk_chain [OF that, of "[]" E "[]" no_resp]
    show ?thesis by (simp add: GetRootInfoForEntry_def)
  qed
  assume ok: "GetRootInfoForEntry E get n = Some (Ret (Some r, True, None))"
  then obtain zs where "zone_chain get (ok_Namespace n) (ok_Name n) zs"
    using entry_walk_ok unfolding GetRootInfoForEntry_def by blast
  with chain [OF this] ok assms show "\<exists>zs. zs \<noteq> [] \<and> zone_chain get (ok_Namespace n) (ok_Name n) zs \<and>
      r = chain_resp (Some (hd zs)) (last zs)"
    by (intro exI [of _ zs]) auto
next
  assume "\<exists>zs. zs \<noteq> [] \<and> zone_chain get (ok_Namespace n) (ok_Name n) zs \<and> r = chain_resp (Some (hd zs)) (last zs)"
  then obtain zs where zs: "zs \<noteq> []" "zone_chain get (ok_Namespace n) (ok_Name n) zs"
    "r = chain_resp (Some (hd zs)) (last zs)" by blast
  with root_done_chain [OF zs(1)] entry_walk_chain [OF zs(2), of "[]" E "[]" no_resp]
  show "GetRootInfoForEntry E get n = Some (Ret (Some r, True, None))"
    by (simp add: GetRootInfoForEntry_def)
qed

lemma entry_root_total:
  assumes "finite_zones get ns" "problem_laws E" "name \<noteq> []"
  shows "(\<exists>r f p. GetRootInfoForEntry E get (ns, name) = Some (Ret (r, f, p)) \<and> (r = None \<longleftrightarrow> p \<noteq> None) \<and> (r \<noteq> None \<longrightarrow> f)) \<and>
    GetRootInfoForEntry E get (ns, []) = Some Panic"
proof
  show "\<exists>r f p. GetRootInfoForEntry E get (ns, name) = Some (Ret (r, f, p)) \<and> (r = None \<longleftrightarrow> p \<noteq> None) \<and> (r \<noteq> None \<longrightarrow> f)"
    unfolding GetRootInfoForEntry_def using entry_walk_returns [OF assms(1) _ assms(2)] assms(3) by simp
  show "GetRootInfoForEntry E get (ns, []) = Some Panic"
    by (simp add: GetRootInfoForEntry_def entry_walk.simps root_done_def no_resp_def)
qed

lemma zone_root_iff:
  assumes "honest get" "refkey_law E"
  shows "GetRootInfo D E get obj names = Some ((Some r, True, None), names') \<longleftrightarrow>
    (\<exists>zs. zone_chain get (zone_namespace obj) (zone_parent obj) zs \<and>
      zone_name obj \<notin> set (chain_names (zone_parent obj) zs) \<and>
      r = chain_resp (if zs = [] then None else Some (hd zs)) (last (obj # zs)) \<and>
      names' = names_along D names (obj # zs))"
proof -
  have chain: "GetRootInfo D E get obj names =
      Some ((Some (chain_resp (if zs = [] then None else Some (hd zs)) (last (obj # zs))), True, None),
        names_along D names (obj # zs))"
    if "zone_chain get (zone_namespace obj) (zone_parent obj) zs"
      "zone_name obj \<notin> set (chain_names (zone_parent obj) zs)" for zs
    unfolding GetRootInfo_def
    by (subst zone_walk_chain [OF assms that(1)]) (use that in auto)
  show ?thesis
  proof
    assume ok: "GetRootInfo D E get obj names = Some ((Some r, True, None), names')"
    then obtain zs where "zone_chain get (zone_namespace obj) (zone_parent obj) zs"
      "zone_name obj \<notin> set (chain_names (zone_parent obj) zs)"
      using zone_walk_ok [OF assms, of D obj names "[]" None "[]"] unfolding GetRootInfo_def by auto
    with chain [of zs] ok show "\<exists>zs. zone_chain get (zone_namespace obj) (zone_parent obj) zs \<and>
      zone_name obj \<notin> set (chain_names (zone_parent obj) zs) \<and>
      r = chain_resp (if zs = [] then None else Some (hd zs)) (last (obj # zs)) \<and>
      names' = names_along D names (obj # zs)" by (intro exI [of _ zs]) simp
  qed (use chain in blast)
qed

lemma zone_root_total:
  assumes "honest get" "refkey_law E" "finite_zones get (zone_namespace obj)" "problem_laws E"
  shows "\<exists>r f p ns. GetRootInfo D E get obj names = Some ((r, f, p), ns) \<and> (r = None \<longleftrightarrow> p \<noteq> None) \<and> (r \<noteq> None \<longrightarrow> f)"
  unfolding GetRootInfo_def using assms by (rule zone_walk_returns)

section \<open>A concrete cluster\<close>

definition store_get :: "hosted_zone list \<Rightarrow> zone_getter" where
  "store_get zs key =
     (case find (\<lambda>z. (zone_namespace z, zone_name z) = key) zs of
        Some z \<Rightarrow> Inr z
      | None \<Rightarrow> Inl ((Errorf (''hostedzone not found''))\<lparr>IsNotFound := True\<rparr>))"

lemma store_get_honest: "honest (store_get zs)"
  by (auto simp: honest_def store_get_def split: option.splits dest!: find_SomeD)

lemma store_get_finite: "finite_zones (store_get zs) ns"
proof -
  have "{n. \<exists>z. store_get zs (ns, n) = Inr z} \<subseteq> zone_name ` set zs"
    by (auto simp: store_get_def split: option.splits dest!: find_SomeD)
  then show ?thesis unfolding finite_zones_def using finite_subset by blast
qed

section \<open>Properties\<close>

text \<open>The root walk of an entry succeeds exactly if its zone reference starts a chain of
  existing, undeleted zones that ends at a zone without parent; parent and root are the first
  and the last zone of it and class and runtime the root's. The check for cycles never rejects
  such a chain.\<close>

theorem GetRootInfoForEntry_iff:
  assumes "ok_Name n \<noteq> []"
  shows "GetRootInfoForEntry E get n = Some (Ret (Some r, True, None)) \<longleftrightarrow>
    (\<exists>zs. zs \<noteq> [] \<and> zone_chain get (ok_Namespace n) (ok_Name n) zs \<and> r = chain_resp (Some (hd zs)) (last zs))"
  using assms by (rule entry_root_iff)

theorem GetRootInfoForEntry_iff_witness:
  "GetRootInfoForEntry ref_ext (store_get [ZoneA, ZoneAA]) (''default'', ''aa'')
     = Some (Ret (Some (chain_resp (Some ZoneAA) ZoneA), True, None))"
proof -
  have "zone_chain (store_get [ZoneA, ZoneAA]) ''default'' ''aa'' [ZoneAA, ZoneA]" by code_simp
  with GetRootInfoForEntry_iff [of "(''default'', ''aa'')" ref_ext "store_get [ZoneA, ZoneAA]"
      "chain_resp (Some ZoneAA) ZoneA"]
  show ?thesis by (auto intro: exI [of _ "[ZoneAA, ZoneA]"])
qed

text \<open>In a cluster with finitely many zones the root walk of an entry returns for every
  zone name, cycles included, with either a responsibility or a problem; for the empty name it
  panics, so its callers must not call it for an entry without zone reference.\<close>

theorem GetRootInfoForEntry_total:
  assumes "finite_zones get ns" "problem_laws E" "name \<noteq> []"
  shows "(\<exists>r f p. GetRootInfoForEntry E get (ns, name) = Some (Ret (r, f, p)) \<and> (r = None \<longleftrightarrow> p \<noteq> None) \<and> (r \<noteq> None \<longrightarrow> f)) \<and>
    GetRootInfoForEntry E get (ns, []) = Some Panic"
  using assms by (rule entry_root_total)

theorem GetRootInfoForEntry_total_witness:
  "\<exists>r f p. GetRootInfoForEntry ref_ext (store_get [ZoneA\<lparr>z_Spec := z_Spec ZoneAA\<lparr>zs_ParentRef := ''aa''\<rparr>\<rparr>, ZoneAA])
     (''default'', ''aa'') = Some (Ret (r, f, p)) \<and> (r = None \<longleftrightarrow> p \<noteq> None) \<and> (r \<noteq> None \<longrightarrow> f)"
  using GetRootInfoForEntry_total [OF store_get_finite ref_problem_laws] by blast

text \<open>The root walk of a zone succeeds exactly if its parent references form a chain that
  does not come back to the zone itself; the result is the root's responsibility and the names
  aggregated over the zone and its chain.\<close>

theorem GetRootInfo_iff:
  assumes "honest get" "refkey_law E"
  shows "GetRootInfo D E get obj names = Some ((Some r, True, None), names') \<longleftrightarrow>
    (\<exists>zs. zone_chain get (zone_namespace obj) (zone_parent obj) zs \<and>
      zone_name obj \<notin> set (chain_names (zone_parent obj) zs) \<and>
      r = chain_resp (if zs = [] then None else Some (hd zs)) (last (obj # zs)) \<and>
      names' = names_along D names (obj # zs))"
  using assms by (rule zone_root_iff)

theorem GetRootInfo_iff_witness:
  "GetRootInfo ref_dns ref_ext (store_get [ZoneA, ZoneAA]) ZoneAA (Some [''www''])
     = Some ((Some (chain_resp (Some ZoneA) ZoneA), True, None),
         Some [''www.demo.mandelsoft.de.'', ''www.demo.mandelsoft.org.'',
           ''www.test.mandelsoft.de.'', ''www.test.mandelsoft.org.''])"
proof -
  have "zone_chain (store_get [ZoneA, ZoneAA]) (zone_namespace ZoneAA) (zone_parent ZoneAA) [ZoneA]"
    "zone_name ZoneAA \<notin> set (chain_names (zone_parent ZoneAA) [ZoneA])"
    "names_along ref_dns (Some [''www'']) [ZoneAA, ZoneA] =
       Some [''www.demo.mandelsoft.de.'', ''www.demo.mandelsoft.org.'',
           ''www.test.mandelsoft.de.'', ''www.test.mandelsoft.org.'']"
    by code_simp+
  with GetRootInfo_iff [OF store_get_honest ref_refkey_law, where D = ref_dns and obj = ZoneAA
      and names = "Some [''www'']" and r = "chain_resp (Some ZoneA) ZoneA"]
  show ?thesis by (auto intro: exI [of _ "[ZoneA]"])
qed

text \<open>The root walk of a zone returns in a cluster with finitely many zones, whatever the
  parent references are, with either a responsibility or a problem.\<close>

theorem GetRootInfo_total:
  assumes "honest get" "refkey_law E" "finite_zones get (zone_namespace obj)" "problem_laws E"
  shows "\<exists>r f p ns. GetRootInfo D E get obj names = Some ((r, f, p), ns) \<and> (r = None \<longleftrightarrow> p \<noteq> None) \<and> (r \<noteq> None \<longrightarrow> f)"
  using assms by (rule zone_root_total)

theorem GetRootInfo_total_witness:
  "\<exists>r f p ns. GetRootInfo ref_dns ref_ext (store_get [ZoneA, ZoneAA]) ZoneAA None = Some ((r, f, p), ns)
     \<and> (r = None \<longleftrightarrow> p \<noteq> None) \<and> (r \<noteq> None \<longrightarrow> f)"
  using GetRootInfo_total [OF store_get_honest ref_refkey_law store_get_finite ref_problem_laws] .

text \<open>The names aggregated along a chain are exactly the fully qualified products: a name,
  followed by one domain name of each zone from the first to the root.\<close>

theorem names_along_chain:
  assumes "fqdn_law D" "\<forall>z \<in> set zs. plain_domains z" "\<forall>n \<in> set ns. plain n" "zs \<noteq> []"
  shows "\<exists>ns'. names_along D (Some ns) zs = Some ns' \<and>
    set ns' = {dotted n @ concat ss | n ss. n \<in> set ns \<and> chosen zs ss}"
  using assms by (rule names_along_product)

theorem names_along_chain_witness:
  "\<exists>ns'. names_along ref_dns (Some [''www'']) [ZoneAA, ZoneA] = Some ns' \<and>
     ''www.test.mandelsoft.de.'' \<in> set ns'"
proof -
  have pl: "\<forall>z \<in> set [ZoneAA, ZoneA]. plain_domains z" "\<forall>n \<in> set [''www'']. plain n"
    and c: "chosen [ZoneAA, ZoneA] [''test.'', ''mandelsoft.de.'']"
    and e: "dotted ''www'' @ concat [''test.'', ''mandelsoft.de.''] = ''www.test.mandelsoft.de.''"
    by code_simp+
  have "fqdn_law ref_dns" using ref_dns_laws by (simp add: dns_laws_def)
  from names_along_chain [OF this pl] obtain ns' where
    ns': "names_along ref_dns (Some [''www'']) [ZoneAA, ZoneA] = Some ns'"
    and set: "set ns' = {dotted n @ concat ss | n ss. n \<in> set [''www''] \<and> chosen [ZoneAA, ZoneA] ss}" by auto
  have "dotted ''www'' @ concat [''test.'', ''mandelsoft.de.''] \<in> set ns'"
    unfolding set using c by (auto intro!: exI [of _ "''www''"] exI [of _ "[''test.'', ''mandelsoft.de.'']"])
  with ns' show ?thesis unfolding e by blast
qed

text \<open>\<open>Check\<close> accepts only a controller without class for a root zone without class. For a
  root zone with a class it is false even for a controller of that class and runtime: the
  function ends in \<open>return false\<close>.\<close>

theorem Check_only_classless:
  "Check r class runtime \<longleftrightarrow> rs_Class r = None \<and> class = None"
  by (auto simp: Check_def split: option.splits)

end
