(* ===== verification/Validation.thy ===== *)
theory Validation
  imports Responsibility
begin

text \<open>
  Validation of entries and zones (internal/controller/common/utils.go and validate.go):
  \<open>String\<close>, \<open>IsValidFQDN\<close> with its regular expression, \<open>ValidateEntryData\<close>, \<open>ValidateEntry\<close>
  and \<open>ValidateZone\<close>, and what the code uses of Go's \<open>net\<close> package: \<open>ParseIP\<close> and \<open>To4\<close>.
  A validation error is its message, the empty error being \<open>None\<close>. The address parser of
  \<open>net/mail\<close> is the parameter \<open>x_ParseAddress\<close>: the code uses only whether it fails, and
  its error.
\<close>

definition String :: "str_ptr \<Rightarrow> string \<Rightarrow> string" where
  "String s def = (case s of None \<Rightarrow> def | Some x \<Rightarrow> x)"

section \<open>Go's net.ParseIP\<close>

text \<open>
  An IPv4 address is four decimal fields below 256 without leading zero. The result is the
  list of the address bytes.
\<close>

definition ipv4_field :: "string \<Rightarrow> int option" where
  "ipv4_field s =
     (if s = [] \<or> (2 \<le> length s \<and> hd s = CHR ''0'') then None
      else case digits_val 0 s of None \<Rightarrow> None | Some n \<Rightarrow> if n \<le> 255 then Some n else None)"

definition parse_ipv4 :: "string \<Rightarrow> int list option" where
  "parse_ipv4 s =
     (let fs = map ipv4_field (str_split (CHR ''.'') s)
      in if length fs = 4 \<and> None \<notin> set fs then Some (map the fs) else None)"

definition hex_val :: "char \<Rightarrow> int option" where
  "hex_val c =
     (let n = int_of_char c
      in if 48 \<le> n \<and> n \<le> 57 then Some (n - 48)
         else if 97 \<le> n \<and> n \<le> 102 then Some (n - 87)
         else if 65 \<le> n \<and> n \<le> 70 then Some (n - 55) else None)"

fun hex_acc :: "int \<Rightarrow> string \<Rightarrow> int" where
  "hex_acc acc [] = acc"
| "hex_acc acc (c # cs) = hex_acc (16 * acc + the (hex_val c)) cs"

text \<open>
  The fields of an IPv6 address: groups of one to four hexadecimal digits separated by colons,
  at most one double colon (remembered by its byte position), and an IPv4 address for the last
  two groups. The first argument is the number of groups still to read.
\<close>

fun ipv6_groups :: "nat \<Rightarrow> string \<Rightarrow> int list \<Rightarrow> nat option \<Rightarrow> (int list \<times> nat option \<times> string) option" where
  "ipv6_groups 0 s ip ellipsis = Some (ip, ellipsis, s)"
| "ipv6_groups (Suc k) s ip ellipsis =
     (let hs = takeWhile (\<lambda>c. hex_val c \<noteq> None) s;
          rest = drop (length hs) s
      in if hs = [] \<or> 4 < length hs then None
         else if rest \<noteq> [] \<and> hd rest = CHR ''.'' then
           (if ellipsis = None \<and> length ip \<noteq> 12 \<or> 16 < length ip + 4 then None
            else case parse_ipv4 s of None \<Rightarrow> None | Some b \<Rightarrow> Some (ip @ b, ellipsis, []))
         else
           (let v = hex_acc 0 hs; ip' = ip @ [v div 256, v mod 256]
            in if rest = [] then Some (ip', ellipsis, [])
               else if hd rest \<noteq> CHR '':'' \<or> tl rest = [] then None
               else if hd (tl rest) = CHR '':'' then
                 (if ellipsis \<noteq> None then None
                  else if tl (tl rest) = [] then Some (ip', Some (length ip'), [])
                  else ipv6_groups k (tl (tl rest)) ip' (Some (length ip')))
               else ipv6_groups k (tl rest) ip' ellipsis))"

definition expand_ellipsis :: "int list \<Rightarrow> nat option \<Rightarrow> int list option" where
  "expand_ellipsis ip ellipsis =
     (case ellipsis of
        None \<Rightarrow> if length ip < 16 then None else Some ip
      | Some e \<Rightarrow>
          if length ip < 16 then Some (take e ip @ replicate (16 - length ip) 0 @ drop e ip) else None)"

definition parse_ipv6 :: "string \<Rightarrow> int list option" where
  "parse_ipv6 s0 =
     (let lead = has_prefix s0 ''::''; s = (if lead then drop 2 s0 else s0)
      in if lead \<and> s = [] then Some (replicate 16 0)
         else case ipv6_groups 8 s [] (if lead then Some 0 else None) of
                None \<Rightarrow> None
              | Some (ip, ellipsis, rest) \<Rightarrow> if rest \<noteq> [] then None else expand_ellipsis ip ellipsis)"

definition v4_prefix :: "int list" where
  "v4_prefix = replicate 10 0 @ [255, 255]"

text \<open>
  \<open>ParseIP\<close> gives the sixteen bytes of the address; the first of the characters \<open>.\<close>, \<open>:\<close> and
  \<open>%\<close> decides the family, and a zone (\<open>%\<close>) is never accepted.
\<close>

definition ParseIP :: "string \<Rightarrow> int list option" where
  "ParseIP s =
     (case find (\<lambda>c. c = CHR ''.'' \<or> c = CHR '':'' \<or> c = CHR ''%'') s of
        None \<Rightarrow> None
      | Some c \<Rightarrow>
          if c = CHR ''.'' then map_option (\<lambda>b. v4_prefix @ b) (parse_ipv4 s)
          else if c = CHR ''%'' \<or> CHR ''%'' \<in> set s then None
          else parse_ipv6 s)"

definition To4 :: "int list \<Rightarrow> int list option" where
  "To4 ip = (if length ip = 16 \<and> take 12 ip = v4_prefix then Some (drop 12 ip) else None)"

section \<open>Domain names\<close>

definition is_alpha :: "char \<Rightarrow> bool" where
  "is_alpha c \<longleftrightarrow> (let n = int_of_char c in 65 \<le> n \<and> n \<le> 90 \<or> 97 \<le> n \<and> n \<le> 122)"

definition is_alnum :: "char \<Rightarrow> bool" where
  "is_alnum c \<longleftrightarrow> is_alpha c \<or> is_digit c"

text \<open>
  The labels the regular expression \<open>fqdnRegex\<close> accepts: before the last dot 1 to 63 letters,
  digits and inner hyphens, at the end 2 to 63 letters.
\<close>

definition regex_label :: "string \<Rightarrow> bool" where
  "regex_label l \<longleftrightarrow> l \<noteq> [] \<and> length l \<le> 63 \<and> is_alnum (hd l) \<and> is_alnum (last l) \<and>
     list_all (\<lambda>c. is_alnum c \<or> c = CHR ''-'') l"

definition regex_tld :: "string \<Rightarrow> bool" where
  "regex_tld l \<longleftrightarrow> 2 \<le> length l \<and> length l \<le> 63 \<and> list_all is_alpha l"

definition fqdnRegex_MatchString :: "string \<Rightarrow> bool" where
  "fqdnRegex_MatchString name =
     (let ls = str_split (CHR ''.'') (if ends_dot name then butlast name else name)
      in 2 \<le> length ls \<and> list_all regex_label (butlast ls) \<and> regex_tld (last ls))"

definition IsValidFQDN :: "dns_lib \<Rightarrow> string \<Rightarrow> bool" where
  "IsValidFQDN D name \<longleftrightarrow>
     (if length name < 1 \<or> length name > 253 then False
      else if \<not> fqdnRegex_MatchString name then False
      else dns_IsDomainName D name)"

section \<open>Entries\<close>

text \<open>\<open>err = errors.Join(err, fmt.Errorf(...))\<close>, guarded by a condition.\<close>

definition join_if :: "bool \<Rightarrow> string \<Rightarrow> string option \<Rightarrow> string option" where
  "join_if b msg err = (if b then errors_Join [err, Some msg] else err)"

definition check_A :: "string \<Rightarrow> bool" where
  "check_A ips \<longleftrightarrow> (case ParseIP ips of None \<Rightarrow> True | Some ip \<Rightarrow> To4 ip = None)"

definition check_AAAA :: "string \<Rightarrow> bool" where
  "check_AAAA ips \<longleftrightarrow> (case ParseIP ips of None \<Rightarrow> True | Some ip \<Rightarrow> To4 ip \<noteq> None)"

definition validate_srv :: "dns_lib \<Rightarrow> string option \<Rightarrow> nat \<times> srv_record \<Rightarrow> string option" where
  "validate_srv D err = (\<lambda>(i, r).
     join_if (length (srv_Host r) = 0) (''host missing for SRV record '' @ show_nat i)
     (join_if (srv_Port r \<le> 0) (''invalid port for SRV record '' @ show_nat i)
     (join_if (srv_Protocol r \<noteq> ''TCP'' \<and> srv_Protocol r \<noteq> ''UDP'')
        (''invalid protocol '' @ quote (srv_Protocol r) @ '' for SRV record '' @ show_nat i)
     (join_if (\<not> IsValidFQDN D (srv_Host r))
        (''invalid host '' @ quote (srv_Host r) @ '' for SRV record '' @ show_nat i) err))))"

definition no_srv_records :: "coredns_spec \<Rightarrow> bool" where
  "no_srv_records s \<longleftrightarrow> (case es_SRV s of None \<Rightarrow> True | Some srv \<Rightarrow> length (svc_Records srv) = 0)"

definition ValidateEntryData :: "dns_lib \<Rightarrow> coredns_entry \<Rightarrow> string option" where
  "ValidateEntryData D e =
     (let s = e_Spec e;
          err = (if length (es_DNSNames s) = 0 then Some ''no DNS names specified'' else None);
          err = foldl (\<lambda>err ips. join_if (check_A ips) (''invalid ipv4 address '' @ quote ips) err) err (es_A s);
          err = foldl (\<lambda>err ips. join_if (check_AAAA ips) (''invalid ipv6 address '' @ quote ips) err) err (es_AAAA s);
          err = foldl (\<lambda>err ns. join_if (\<not> IsValidFQDN D ns) (''invalid NS record '' @ quote ns) err) err (es_NS s);
          err = join_if (length (es_CNAME s) > 0 \<and> \<not> IsValidFQDN D (es_CNAME s))
                  (''invalid CNAME record '' @ quote (es_CNAME s)) err;
          err = join_if (length (es_A s) = 0 \<and> length (es_AAAA s) = 0 \<and> length (es_CNAME s) = 0 \<and>
                   length (es_TXT s) = 0 \<and> length (es_NS s) = 0 \<and> no_srv_records s) ''no record defined'' err;
          err = join_if (length (es_NS s) > 0 \<and> (length (es_A s) \<noteq> 0 \<or> length (es_AAAA s) \<noteq> 0 \<or>
                   length (es_CNAME s) \<noteq> 0 \<or> length (es_TXT s) \<noteq> 0 \<or> \<not> no_srv_records s))
                  ''NS records cannot be combined with other ones'' err
      in case es_SRV s of
           None \<Rightarrow> err
         | Some srv \<Rightarrow>
             foldl (validate_srv D)
               (join_if (length (svc_Records srv) \<noteq> 0 \<and> length (svc_Service srv) = 0)
                  ''service name required for SRV record'' err)
               (enumerate 0 (svc_Records srv)))"

text \<open>The responsibility, the validation error and the problem; \<open>None\<close> is a walk without end.\<close>

definition ValidateEntry ::
    "dns_lib \<Rightarrow> 'p ext \<Rightarrow> zone_getter \<Rightarrow> coredns_entry
     \<Rightarrow> (responsibility option \<times> string option \<times> 'p option) go option" where
  "ValidateEntry D E get e =
     (let baseerr = ValidateEntryData D e
      in if es_ZoneRef (e_Spec e) \<noteq> [] then
           map_option (\<lambda>g. go_bind g (\<lambda>(resp, ok, prob).
             Ret (if \<not> ok then (None, baseerr, prob)
                  else (resp, case prob of
                      Some p \<Rightarrow> errors_Join [Some (''zone error: '' @ x_Message E p), baseerr]
                    | None \<Rightarrow> baseerr, None))))
             (GetRootInfoForEntry E get (x_RefObjectKeyFor E (entry_namespace e) (es_ZoneRef (e_Spec e))))
         else Some (Ret (None, errors_Join [Some ''zone reference required'', baseerr], None)))"

section \<open>Zones\<close>

definition ValidateZone :: "'p ext \<Rightarrow> hosted_zone \<Rightarrow> string \<times> string option" where
  "ValidateZone E e =
     (let s = z_Spec e
      in if length (zs_DomainNames s) = 0 then (ReasonDomainNameMissing, Some ''at least one domain name required'')
         else if zs_EMail s = [] then (ReasonEMailMissing, Some ''email address required'')
         else case x_ParseAddress E (zs_EMail s) of
                Some err \<Rightarrow> (ReasonEMailInvalid, Some (Error err))
              | None \<Rightarrow>
                  if zs_Expire s = 0 then (ReasonExpireMissing, Some ''expire required'')
                  else if zs_Refresh s = 0 \<or> zs_Retry s = 0 \<or> zs_MinimumTTL s = 0 then
                    (ReasonTTLMissing, Some ''refresh, retry or minimumTTL required'')
                  else if zs_ParentRef s \<noteq> [] \<and> zs_Runtime s \<noteq> None then
                    (ReasonInvalidNesting, Some ''runtime set for nested zone'')
                  else if zs_ParentRef s \<noteq> [] \<and> zs_Class s \<noteq> None then
                    (ReasonInvalidNesting, Some ''class set for nested zone'')
                  else ([], None))"

section \<open>What a valid entry is\<close>

text \<open>The declarative notions the validation implements.\<close>

definition valid_srv :: "dns_lib \<Rightarrow> srv_record \<Rightarrow> bool" where
  "valid_srv D r \<longleftrightarrow> IsValidFQDN D (srv_Host r) \<and> srv_Protocol r \<in> {''TCP'', ''UDP''} \<and> 0 < srv_Port r"

definition srv_records :: "coredns_spec \<Rightarrow> srv_record list" where
  "srv_records s = (case es_SRV s of None \<Rightarrow> [] | Some srv \<Rightarrow> svc_Records srv)"

definition valid_entry :: "dns_lib \<Rightarrow> coredns_spec \<Rightarrow> bool" where
  "valid_entry D s \<longleftrightarrow>
     es_DNSNames s \<noteq> [] \<and>
     (\<forall>a \<in> set (es_A s). \<exists>ip. ParseIP a = Some ip \<and> To4 ip \<noteq> None) \<and>
     (\<forall>a \<in> set (es_AAAA s). \<exists>ip. ParseIP a = Some ip \<and> To4 ip = None) \<and>
     (\<forall>n \<in> set (es_NS s). IsValidFQDN D n) \<and>
     (es_CNAME s \<noteq> [] \<longrightarrow> IsValidFQDN D (es_CNAME s)) \<and>
     (if es_NS s = []
      then es_A s \<noteq> [] \<or> es_AAAA s \<noteq> [] \<or> es_CNAME s \<noteq> [] \<or> es_TXT s \<noteq> [] \<or> srv_records s \<noteq> []
      else es_A s = [] \<and> es_AAAA s = [] \<and> es_CNAME s = [] \<and> es_TXT s = [] \<and> srv_records s = []) \<and>
     (\<forall>r \<in> set (srv_records s). valid_srv D r) \<and>
     (\<forall>srv. es_SRV s = Some srv \<longrightarrow> svc_Records srv \<noteq> [] \<longrightarrow> svc_Service srv \<noteq> [])"

lemma errors_Join_Some [simp]: "errors_Join [e, Some m] \<noteq> None" "errors_Join [Some m, e] \<noteq> None"
  by simp_all

lemma join_if_None [simp]: "join_if b msg err = None \<longleftrightarrow> \<not> b \<and> err = None"
  by (simp add: join_if_def)

lemma foldl_join_if_None:
  "foldl (\<lambda>err x. join_if (P x) (m x) err) e xs = None \<longleftrightarrow> e = None \<and> (\<forall>x \<in> set xs. \<not> P x)"
  by (induction xs arbitrary: e) auto

lemma IsValidFQDN_Nil [simp]: "\<not> IsValidFQDN D []"
  by (simp add: IsValidFQDN_def)

lemma validate_srv_None: "validate_srv D err (i, r) = None \<longleftrightarrow> err = None \<and> valid_srv D r"
  by (auto simp: validate_srv_def valid_srv_def)

lemma foldl_validate_srv:
  "foldl (validate_srv D) e irs = None \<longleftrightarrow> e = None \<and> (\<forall>(i, r) \<in> set irs. valid_srv D r)"
  by (induction irs arbitrary: e) (auto simp: validate_srv_None)

lemma set_enumerate_snd: "(\<forall>(i, r) \<in> set (enumerate n rs). P r) \<longleftrightarrow> (\<forall>r \<in> set rs. P r)"
  by (induction rs arbitrary: n) auto

lemma check_A_iff: "\<not> check_A a \<longleftrightarrow> (\<exists>ip. ParseIP a = Some ip \<and> To4 ip \<noteq> None)"
  "\<not> check_AAAA a \<longleftrightarrow> (\<exists>ip. ParseIP a = Some ip \<and> To4 ip = None)"
  by (auto simp: check_A_def check_AAAA_def split: option.splits)

lemma ValidateEntryData_None: "ValidateEntryData D e = None \<longleftrightarrow> valid_entry D (e_Spec e)"
proof (cases "es_SRV (e_Spec e)")
  case None
  then show ?thesis
    by (simp add: ValidateEntryData_def valid_entry_def Let_def foldl_join_if_None check_A_iff
        no_srv_records_def srv_records_def) blast
next
  case (Some srv)
  then show ?thesis
    by (simp add: ValidateEntryData_def valid_entry_def Let_def foldl_join_if_None check_A_iff
        foldl_validate_srv set_enumerate_snd no_srv_records_def srv_records_def) blast
qed


section \<open>Addresses\<close>

definition bytes :: "int list \<Rightarrow> bool" where
  "bytes bs \<longleftrightarrow> (\<forall>b \<in> set bs. 0 \<le> b \<and> b < 256)"

lemma bytes_append [simp]: "bytes (a @ b) \<longleftrightarrow> bytes a \<and> bytes b"
  by (auto simp: bytes_def)

lemma digits_val_nonneg: "digits_val acc s = Some n \<Longrightarrow> 0 \<le> acc \<Longrightarrow> 0 \<le> n"
  by (induction s arbitrary: acc) (auto simp: is_digit_def digit_val_def split: if_splits)

lemma ipv4_field_range: "ipv4_field s = Some n \<Longrightarrow> 0 \<le> n \<and> n < 256"
  by (auto simp: ipv4_field_def split: if_splits option.splits dest: digits_val_nonneg)

lemma parse_ipv4_bytes:
  assumes "parse_ipv4 s = Some b"
  shows "length b = 4 \<and> bytes b"
proof -
  let ?fs = "map ipv4_field (str_split (CHR ''.'') s)"
  have fs: "length ?fs = 4" "None \<notin> set ?fs" "b = map the ?fs"
    using assms by (auto simp: parse_ipv4_def Let_def split: if_splits)
  have "0 \<le> the f \<and> the f < 256" if "f \<in> set ?fs" for f
  proof -
    from that fs(2) obtain n where "f = Some n" by (metis not_None_eq)
    with that ipv4_field_range show ?thesis by force
  qed
  with fs show ?thesis by (auto simp: bytes_def simp del: map_map)
qed

lemma hex_val_range: "hex_val c = Some v \<Longrightarrow> 0 \<le> v \<and> v < 16"
  by (auto simp: hex_val_def Let_def split: if_splits)

lemma hex_acc_range:
  "\<forall>c \<in> set hs. hex_val c \<noteq> None \<Longrightarrow> 0 \<le> acc \<Longrightarrow>
   0 \<le> hex_acc acc hs \<and> hex_acc acc hs < (acc + 1) * 16 ^ length hs"
proof (induction hs arbitrary: acc)
  case (Cons c hs)
  then obtain v where v: "hex_val c = Some v" by auto
  with hex_val_range have r: "0 \<le> v" "v < 16" by auto
  with Cons v have "0 \<le> hex_acc (16 * acc + v) hs \<and>
      hex_acc (16 * acc + v) hs < (16 * acc + v + 1) * 16 ^ length hs" by auto
  moreover have "(16 * acc + v + 1) * 16 ^ length hs \<le> (acc + 1) * 16 ^ length (c # hs)"
  proof -
    have "16 * acc + v + 1 \<le> (acc + 1) * 16" using r by simp
    then have "(16 * acc + v + 1) * 16 ^ length hs \<le> (acc + 1) * 16 * 16 ^ length hs"
      by (intro mult_right_mono) simp_all
    then show ?thesis by (simp add: mult.assoc)
  qed
  ultimately have "0 \<le> hex_acc (16 * acc + v) hs \<and>
      hex_acc (16 * acc + v) hs < (acc + 1) * 16 ^ length (c # hs)" by linarith
  then show ?case by (simp only: hex_acc.simps v option.sel)
qed simp

lemma ipv6_groups_bytes:
  "ipv6_groups k s ip e = Some (ip', e', r) \<Longrightarrow> bytes ip \<Longrightarrow> length ip + 2 * k = 16 \<Longrightarrow>
   (\<forall>x. e = Some x \<longrightarrow> x \<le> length ip) \<Longrightarrow>
   bytes ip' \<and> length ip' \<le> 16 \<and> (\<forall>x. e' = Some x \<longrightarrow> x \<le> length ip')"
proof (induction k s ip e rule: ipv6_groups.induct)
  case (2 k s ip e)
  let ?hs = "takeWhile (\<lambda>c. hex_val c \<noteq> None) s"
  let ?rest = "drop (length ?hs) s"
  let ?v = "hex_acc 0 ?hs"
  let ?ip = "ip @ [?v div 256, ?v mod 256]"
  from "2.prems"(1) have len: "?hs \<noteq> [] \<and> length ?hs \<le> 4" by (auto simp: Let_def split: if_splits)
  have "0 \<le> ?v \<and> ?v < 16 ^ length ?hs"
    using hex_acc_range [of ?hs 0] set_takeWhileD by fastforce
  moreover have "(16 :: int) ^ length ?hs \<le> 16 ^ 4" using len by (intro power_increasing) auto
  ultimately have v: "0 \<le> ?v" "?v < 65536" by auto
  then have ip: "bytes ?ip" using "2.prems"(2) by (auto simp: bytes_def)
  have l: "length ?ip + 2 * k = 16" using "2.prems"(3) by simp
  let ?more = "\<lambda>s' e'. ipv6_groups k s' ?ip e'"
  have step: "ipv6_groups (Suc k) s ip e =
      (if ?rest \<noteq> [] \<and> hd ?rest = CHR ''.'' then
         (if e = None \<and> length ip \<noteq> 12 \<or> 16 < length ip + 4 then None
          else case parse_ipv4 s of None \<Rightarrow> None | Some b \<Rightarrow> Some (ip @ b, e, []))
       else if ?rest = [] then Some (?ip, e, [])
       else if hd ?rest \<noteq> CHR '':'' \<or> tl ?rest = [] then None
       else if hd (tl ?rest) = CHR '':'' then
         (if e \<noteq> None then None
          else if tl (tl ?rest) = [] then Some (?ip, Some (length ?ip), [])
          else ?more (tl (tl ?rest)) (Some (length ?ip)))
       else ?more (tl ?rest) e)"
    using len by (simp add: Let_def)
  note res = "2.prems"(1) [unfolded step]
  consider b where "parse_ipv4 s = Some b" "ip' = ip @ b" "e' = e" "length ip + 4 \<le> 16"
    | "ip' = ?ip" "e' = e \<or> e' = Some (length ?ip)"
    | "?more (tl (tl ?rest)) (Some (length ?ip)) = Some (ip', e', r)"
        "?rest \<noteq> []" "hd ?rest = CHR '':''" "tl ?rest \<noteq> []" "hd (tl ?rest) = CHR '':''" "e = None" "tl (tl ?rest) \<noteq> []"
    | "?more (tl ?rest) e = Some (ip', e', r)"
        "?rest \<noteq> []" "hd ?rest = CHR '':''" "tl ?rest \<noteq> []" "hd (tl ?rest) \<noteq> CHR '':''"
    using res by (auto split: if_splits option.splits)
  then show ?case
  proof cases
    case 1
    with parse_ipv4_bytes "2.prems" show ?thesis by fastforce
  next
    case 2
    with ip l "2.prems"(4) show ?thesis by fastforce
  next
    case 3
    have nd: "\<not> (?rest \<noteq> [] \<and> hd ?rest = CHR ''.'')" using 3 by simp
    show ?thesis
      using "2.IH"(1) [OF refl refl _ nd refl refl _ _ _ _ _ 3(1) ip l] len 3 by simp
  next
    case 4
    have nd: "\<not> (?rest \<noteq> [] \<and> hd ?rest = CHR ''.'')" using 4 by simp
    show ?thesis
      using "2.IH"(2) [OF refl refl _ nd refl refl _ _ _ 4(1) ip l] len 4 "2.prems"(4) by fastforce
  qed
qed auto

lemma ParseIP_16: "ParseIP s = Some ip \<Longrightarrow> length ip = 16 \<and> bytes ip"
proof -
  have "length ip = 16 \<and> bytes ip" if "parse_ipv6 s = Some ip"
  proof -
    let ?t = "if has_prefix s ''::'' then drop 2 s else s" and ?e = "if has_prefix s ''::'' then Some 0 else None"
    from that consider "ip = replicate 16 0"
      | g e where "ipv6_groups 8 ?t [] ?e = Some (g, e, [])" "expand_ellipsis g e = Some ip"
      by (auto simp: parse_ipv6_def Let_def split: if_splits option.splits)
    then show ?thesis
    proof cases
      case 1
      then show ?thesis by (simp add: bytes_def)
    next
      case 2
      have "bytes g \<and> length g \<le> 16 \<and> (\<forall>x. e = Some x \<longrightarrow> x \<le> length g)"
        using 2(1) by (rule ipv6_groups_bytes) (auto simp: bytes_def)
      with 2(2) show ?thesis
        by (auto simp: expand_ellipsis_def bytes_def split: option.splits if_splits
            dest!: in_set_takeD in_set_dropD)
    qed
  qed
  moreover have "length (v4_prefix @ b) = 16 \<and> bytes (v4_prefix @ b)" if "parse_ipv4 s = Some b" for b
    using parse_ipv4_bytes [OF that] by (auto simp: v4_prefix_def bytes_def)
  ultimately show "ParseIP s = Some ip \<Longrightarrow> length ip = 16 \<and> bytes ip"
    by (auto simp: ParseIP_def split: option.splits if_splits)
qed



section \<open>Valid domain names\<close>

lemma regex_label_chars: "regex_label l \<Longrightarrow> l \<noteq> [] \<and> CHR 0x5C \<notin> set l \<and> CHR ''.'' \<notin> set l"
  by (auto simp: regex_label_def list_all_iff is_alnum_def is_alpha_def is_digit_def Let_def)

lemma regex_tld_chars: "regex_tld l \<Longrightarrow> l \<noteq> [] \<and> CHR 0x5C \<notin> set l \<and> CHR ''.'' \<notin> set l"
  by (auto simp: regex_tld_def list_all_iff is_alpha_def Let_def)

lemma IsValidFQDN_labels:
  assumes "IsValidFQDN D s"
  shows "\<exists>ls. 2 \<le> length ls \<and> (s = str_join ''.'' ls \<or> s = str_join ''.'' ls @ ''.'') \<and>
    (\<forall>l \<in> set ls. l \<noteq> [] \<and> length l \<le> 63 \<and> CHR ''.'' \<notin> set l) \<and> plain s"
proof -
  let ?t = "if ends_dot s then butlast s else s"
  let ?ls = "str_split (CHR ''.'') ?t"
  from assms have r: "2 \<le> length ?ls" "list_all regex_label (butlast ?ls)" "regex_tld (last ?ls)"
    by (auto simp: IsValidFQDN_def fqdnRegex_MatchString_def Let_def split: if_splits)
  have ok: "l \<noteq> [] \<and> length l \<le> 63 \<and> CHR 0x5C \<notin> set l \<and> CHR ''.'' \<notin> set l" if "l \<in> set ?ls" for l
  proof (cases "l = last ?ls")
    case True
    with r(3) regex_tld_chars show ?thesis by (auto simp: regex_tld_def)
  next
    case False
    have "?ls = butlast ?ls @ [last ?ls]" by simp
    with that False have "l \<in> set (butlast ?ls)"
      by (metis Un_iff empty_iff empty_set insert_iff list.simps(15) set_append)
    with r(2) regex_label_chars [of l] show ?thesis by (auto simp: list_all_iff regex_label_def)
  qed
  have t: "str_join ''.'' ?ls = ?t" by (rule str_join_split)
  have "plain ?t"
    using plain_str_join [of ?ls] ok unfolding t by (auto simp: plain_def)
  moreover have st: "s = ?t \<or> s = ?t @ ''.''"
    by (cases s rule: rev_cases) (auto simp: ends_dot_def)
  moreover have "plain ''.''" by simp
  ultimately have "plain s" by (metis plain_append)
  then show ?thesis using r(1) ok st t by (intro exI [of _ ?ls]) simp
qed

section \<open>Validation of an entry\<close>

lemma ValidateEntry_ok_iff:
  assumes "problem_laws E" "refkey_law E" "finite_zones get (entry_namespace e)"
  shows "ValidateEntry D E get e = Some (Ret (resp, None, None)) \<longleftrightarrow>
    valid_entry D (e_Spec e) \<and> es_ZoneRef (e_Spec e) \<noteq> [] \<and>
    (\<exists>zs. zs \<noteq> [] \<and> zone_chain get (entry_namespace e) (es_ZoneRef (e_Spec e)) zs \<and>
       resp = Some (chain_resp (Some (hd zs)) (last zs)))"
proof (cases "es_ZoneRef (e_Spec e) = []")
  case True
  then show ?thesis by (simp add: ValidateEntry_def Let_def)
next
  case False
  let ?n = "(entry_namespace e, es_ZoneRef (e_Spec e))"
  from entry_root_total [OF assms(3,1) False] obtain r f p where
    r: "GetRootInfoForEntry E get ?n = Some (Ret (r, f, p))" "r = None \<longleftrightarrow> p \<noteq> None"
      "r \<noteq> None \<longrightarrow> f" by blast
  have iff: "(r, f, p) = (Some r', True, None) \<longleftrightarrow>
      (\<exists>zs. zs \<noteq> [] \<and> zone_chain get (entry_namespace e) (es_ZoneRef (e_Spec e)) zs \<and>
         r' = chain_resp (Some (hd zs)) (last zs))" for r'
    using entry_root_iff [of ?n E get r'] False r(1) by simp
  have "ValidateEntry D E get e = Some (Ret (resp, None, None)) \<longleftrightarrow>
      (if \<not> f then resp = None \<and> ValidateEntryData D e = None \<and> p = None
       else resp = r \<and> p = None \<and> ValidateEntryData D e = None)"
    using False r by (auto simp: ValidateEntry_def Let_def refkey_lawD [OF assms(2)] split: option.splits)
  also have "\<dots> \<longleftrightarrow> valid_entry D (e_Spec e) \<and> (\<exists>r'. resp = Some r' \<and> (r, f, p) = (Some r', True, None))"
    using r(2,3) assms(1) by (cases r; cases p; cases f) (auto simp: ValidateEntryData_None)
  finally show ?thesis using False iff by auto
qed


section \<open>Properties\<close>

text \<open>C35: the data of an entry is accepted exactly if it is a valid entry: it has DNS names and a
  record, its IPv4, IPv6, NS, CNAME and SRV data are well-formed, NS records stand alone, and
  SRV records have a service name.\<close>

theorem ValidateEntryData_iff: "ValidateEntryData D e = None \<longleftrightarrow> valid_entry D (e_Spec e)"
  by (rule ValidateEntryData_None)

text \<open>An entry passes \<open>ValidateEntry\<close> exactly if its data is valid and its zone reference
  starts a chain of existing, undeleted zones up to a root zone; the responsibility returned
  then has the first zone as parent and the last as root.\<close>

theorem ValidateEntry_iff:
  assumes "problem_laws E" "refkey_law E" "finite_zones get (entry_namespace e)"
  shows "ValidateEntry D E get e = Some (Ret (resp, None, None)) \<longleftrightarrow>
    valid_entry D (e_Spec e) \<and> es_ZoneRef (e_Spec e) \<noteq> [] \<and>
    (\<exists>zs. zs \<noteq> [] \<and> zone_chain get (entry_namespace e) (es_ZoneRef (e_Spec e)) zs \<and>
       resp = Some (chain_resp (Some (hd zs)) (last zs)))"
  using assms by (rule ValidateEntry_ok_iff)

theorem ValidateEntry_iff_witness:
  "ValidateEntry ref_dns ref_ext (store_get [ZoneA, ZoneAA]) EntryAA_demo
     = Some (Ret (Some (chain_resp (Some ZoneAA) ZoneA), None, None))"
proof -
  have d: "ValidateEntryData ref_dns EntryAA_demo = None"
    and z: "es_ZoneRef (e_Spec EntryAA_demo) = ''aa''" "entry_namespace EntryAA_demo = ''default''"
    and c: "zone_chain (store_get [ZoneA, ZoneAA]) ''default'' ''aa'' [ZoneAA, ZoneA]" by code_simp+
  from d have "valid_entry ref_dns (e_Spec EntryAA_demo)" by (simp add: ValidateEntryData_None)
  then show ?thesis
    using ValidateEntry_iff [OF ref_problem_laws ref_refkey_law store_get_finite, where e = EntryAA_demo
        and D = ref_dns and zs1 = "[ZoneA, ZoneAA]" and resp = "Some (chain_resp (Some ZoneAA) ZoneA)"] z c
    by (auto intro: exI [of _ "[ZoneAA, ZoneA]"])
qed

text \<open>A parsed address has sixteen bytes; the textual addresses accepted as A and as AAAA
  records are disjoint, and every address that parses is accepted as one of the two. An IPv4
  address is an A record, but so is an IPv6 literal with the IPv4 prefix, whatever its
  notation.\<close>

theorem address_families:
  "(case ParseIP a of
      None \<Rightarrow> check_A a \<and> check_AAAA a
    | Some ip \<Rightarrow> length ip = 16 \<and> bytes ip \<and> (check_A a \<longleftrightarrow> \<not> check_AAAA a) \<and>
        (check_A a \<longleftrightarrow> take 12 ip \<noteq> v4_prefix)) \<and>
   \<not> check_A ''::FFFF:808:808''"
proof -
  have "\<not> check_A ''::FFFF:808:808''" by code_simp
  then show ?thesis
    using ParseIP_16 [of a] by (auto simp: check_A_def check_AAAA_def To4_def split: option.splits)
qed

text \<open>C40: a name accepted by \<open>IsValidFQDN\<close> has at least two labels, each of 1 to 63 characters
  without dot, with at most one dot at the end, and no escape character: it satisfies what the
  zone model needs of a name.\<close>

theorem IsValidFQDN_shape:
  assumes "IsValidFQDN D s"
  shows "length s \<le> 253 \<and> plain s \<and>
    (\<exists>ls. 2 \<le> length ls \<and> (s = str_join ''.'' ls \<or> s = str_join ''.'' ls @ ''.'') \<and>
      (\<forall>l \<in> set ls. l \<noteq> [] \<and> length l \<le> 63 \<and> CHR ''.'' \<notin> set l))"
proof -
  have "length s \<le> 253" using assms by (auto simp: IsValidFQDN_def split: if_splits)
  with IsValidFQDN_labels [OF assms] show ?thesis by blast
qed

theorem IsValidFQDN_shape_witness: "plain ''ns1.kube-dns.io.'' \<and> length ''ns1.kube-dns.io.'' \<le> 253"
proof -
  have "IsValidFQDN ref_dns ''ns1.kube-dns.io.''" by code_simp
  from IsValidFQDN_shape [OF this] show ?thesis by blast
qed

text \<open>The API constant for the UDP protocol is not one of the protocols the validation
  accepts: an entry with an SRV record of that protocol is always rejected.\<close>

theorem PROTO_UDP_rejected:
  assumes "es_SRV (e_Spec e) = Some srv" "r \<in> set (svc_Records srv)" "srv_Protocol r = PROTO_UDP"
  shows "ValidateEntryData D e \<noteq> None"
proof
  assume "ValidateEntryData D e = None"
  then have "\<forall>r \<in> set (srv_records (e_Spec e)). valid_srv D r"
    by (simp add: ValidateEntryData_None valid_entry_def)
  with assms have "valid_srv D r" by (simp add: srv_records_def)
  with assms(3) show False by (simp add: valid_srv_def PROTO_UDP_def)
qed

theorem PROTO_UDP_rejected_witness:
  "ValidateEntryData ref_dns (EntryA_demo\<lparr>e_Spec := zero_entry_spec\<lparr>es_DNSNames := [''a''],
     es_SRV := Some \<lparr>svc_Service = ''dns'', svc_Records = [\<lparr>srv_Protocol = PROTO_UDP, srv_Priority = 1,
       srv_Weight = 1, srv_Port = 53, srv_Host = ''ns.mandelsoft.de''\<rparr>]\<rparr>\<rparr>\<rparr>) \<noteq> None"
  by (rule PROTO_UDP_rejected) (simp, simp, simp)

text \<open>A zone is accepted exactly if it has domain names, a parsable e-mail address, an expiry,
  a refresh, a retry and a minimum time to live, and, if it is nested, neither runtime nor
  class; the reason is empty exactly for accepted zones.\<close>

theorem ValidateZone_iff:
  "(snd (ValidateZone E z) = None \<longleftrightarrow>
     zs_DomainNames (z_Spec z) \<noteq> [] \<and> zs_EMail (z_Spec z) \<noteq> [] \<and> x_ParseAddress E (zs_EMail (z_Spec z)) = None \<and>
     zs_Expire (z_Spec z) \<noteq> 0 \<and> zs_Refresh (z_Spec z) \<noteq> 0 \<and> zs_Retry (z_Spec z) \<noteq> 0 \<and>
     zs_MinimumTTL (z_Spec z) \<noteq> 0 \<and>
     (zs_ParentRef (z_Spec z) = [] \<or> zs_Runtime (z_Spec z) = None \<and> zs_Class (z_Spec z) = None)) \<and>
   (fst (ValidateZone E z) = [] \<longleftrightarrow> snd (ValidateZone E z) = None)"
  by (simp add: ValidateZone_def Let_def ReasonDomainNameMissing_def ReasonEMailMissing_def
      ReasonEMailInvalid_def ReasonExpireMissing_def ReasonTTLMissing_def ReasonInvalidNesting_def
      split: option.splits)

end
