(* ===== verification/Server_Comp.thy ===== *)
theory Server_Comp
  imports Zone_Resolve Validation
begin

text \<open>
  The REST server component (internal/controller/server/servercomp and server/common): the two
  indexer functions, the index keys, the component as the index of the zone model, the answer
  documents, and the two request handlers with their status codes. The cache index of
  kubecrtutils is a parameter (\<open>index_get\<close>): given an indexer function, a cluster, a
  namespace and a key it returns entries or an error. Marshalling and network errors are not
  modelled: a response is its status code, its content type and the document sent.
\<close>

section \<open>Server options\<close>

record server_options =
  so_Class :: str_ptr
  so_Slave :: bool

fun only_server_conditions :: "condition list \<Rightarrow> bool" where
  "only_server_conditions [] = True"
| "only_server_conditions (c # cs) =
     (if c_Type c \<noteq> ServerConditionType then False else only_server_conditions cs)"

definition IsMaster :: "server_options \<Rightarrow> condition list \<Rightarrow> bool" where
  "IsMaster opts conditions = (if \<not> so_Slave opts then True else only_server_conditions conditions)"

section \<open>The indexer functions\<close>

type_synonym index_get =
  "(coredns_entry \<Rightarrow> string list) \<Rightarrow> string \<Rightarrow> string \<Rightarrow> string \<Rightarrow> go_error + coredns_entry list"

definition INDEX_ZONENAMES :: string where "INDEX_ZONENAMES = ''zonednsnames''"
definition INDEX_ZONEIPS :: string where "INDEX_ZONEIPS = ''zoneips''"

text \<open>
  An indexer omits an entry without zone reference and, in slave mode, an entry whose server
  condition is missing or false. Outside slave mode an entry that is neither Ok nor Ready is
  logged as omitted; the branch does not return.
\<close>

definition indexerNames :: "'p ext \<Rightarrow> server_options \<Rightarrow> coredns_entry \<Rightarrow> string list" where
  "indexerNames E opts obj =
     (if es_ZoneRef (e_Spec obj) = [] then []
      else let c = x_FindStatusCondition E (et_Conditions (e_Status obj)) ServerConditionType
      in if so_Slave opts \<and> (case c of None \<Rightarrow> True | Some x \<Rightarrow> c_Status x = ConditionFalse) then []
      else let key = entry_namespace obj @ ''/'' @ es_ZoneRef (e_Spec obj);
               names = map Rdn (es_DNSNames (e_Spec obj))
           in map (\<lambda>item. key @ ''/'' @ item) names)"

definition indexerIPs :: "'p ext \<Rightarrow> server_options \<Rightarrow> coredns_entry \<Rightarrow> string list" where
  "indexerIPs E opts obj =
     (if es_ZoneRef (e_Spec obj) = [] then []
      else let c = x_FindStatusCondition E (et_Conditions (e_Status obj)) ServerConditionType
      in if so_Slave opts \<and> (case c of None \<Rightarrow> True | Some x \<Rightarrow> c_Status x = ConditionFalse) then []
      else let key = entry_namespace obj @ ''/'' @ es_ZoneRef (e_Spec obj);
               ips = es_A (e_Spec obj) @ es_AAAA (e_Spec obj)
           in if length ips > 0 then map (\<lambda>item. key @ ''/'' @ item) ips else [])"

section \<open>The component as index\<close>

definition IndexKey :: "zone_key \<Rightarrow> string \<Rightarrow> string" where
  "IndexKey zk rdn = zk_Namespace zk @ ''/'' @ zk_Name zk @ ''/'' @ rdn"

definition EntryKey :: "zone_key \<Rightarrow> string \<Rightarrow> string" where
  "EntryKey zone rdn = zk_Namespace zone @ ''/'' @ zk_Name zone @ ''/'' @ rdn"

definition comp_LookupRelativeDomainName ::
    "'p ext \<Rightarrow> server_options \<Rightarrow> index_get \<Rightarrow> string \<Rightarrow> zone_key \<Rightarrow> string \<Rightarrow> go_error + coredns_entry list" where
  "comp_LookupRelativeDomainName E opts cg src zk rel =
     cg (indexerNames E opts) src (zk_Namespace zk) (IndexKey zk rel)"

definition comp_LookupIP ::
    "'p ext \<Rightarrow> server_options \<Rightarrow> index_get \<Rightarrow> string \<Rightarrow> zone_key \<Rightarrow> string \<Rightarrow> go_error + coredns_entry list" where
  "comp_LookupIP E opts cg src zk ip = cg (indexerIPs E opts) src (zk_Namespace zk) (IndexKey zk ip)"

definition Component_index :: "'p ext \<times> server_options \<times> index_get \<Rightarrow> zindex" where
  "Component_index = (\<lambda>(E, opts, cg).
     \<lparr>LookupRelativeDomainName = comp_LookupRelativeDomainName E opts cg, LookupIP = comp_LookupIP E opts cg\<rparr>)"

text \<open>The unused second index of server/common, over a cluster context.\<close>

definition Index_LookupRelativeDomainName ::
    "(string \<Rightarrow> string \<Rightarrow> go_error + coredns_entry list) \<Rightarrow> zone_key \<Rightarrow> string \<Rightarrow> go_error + coredns_entry list" where
  "Index_LookupRelativeDomainName entryIndex zone rdn = entryIndex (zk_Namespace zone) (EntryKey zone rdn)"

definition Index_GetZone :: "zone_getter \<Rightarrow> zone_key \<Rightarrow> go_error + hosted_zone" where
  "Index_GetZone get zone =
     (case get (zk_Namespace zone, zk_Name zone) of Inl err \<Rightarrow> Inl err | Inr obj \<Rightarrow> Inr obj)"

section \<open>Answers\<close>

definition CopyR :: "string list \<Rightarrow> string list \<Rightarrow> string list" where
  "CopyR list tgt = (if length list \<noteq> 0 then tgt @ list else tgt)"

definition add_records :: "api_records \<Rightarrow> coredns_entry \<Rightarrow> api_records" where
  "add_records i r =
     (let s = e_Spec r
      in i\<lparr>ar_NS := CopyR (es_NS s) (ar_NS i), ar_A := CopyR (es_A s) (ar_A i),
           ar_AAAA := CopyR (es_AAAA s) (ar_AAAA i), ar_TXT := CopyR (es_TXT s) (ar_TXT i),
           ar_CNAME := (if ar_CNAME i = [] then es_CNAME s else ar_CNAME i),
           ar_SRV := (case es_SRV s of None \<Rightarrow> ar_SRV i | Some srv \<Rightarrow> ar_SRV i @ [srv]),
           ar_TTL := es_TTL s\<rparr>)"

definition zero_api_zone :: api_zone where
  "zero_api_zone = \<lparr>az_SerialId = 0, az_NameServers = [], az_Names = [], az_EMail = [],
     az_MinimumTTL = 0, az_Expire = 0, az_Refresh = 0, az_Retry = 0\<rparr>"

definition zero_records :: api_records where
  "zero_records = \<lparr>ar_TTL = 0, ar_A = [], ar_AAAA = [], ar_TXT = [], ar_SRV = [], ar_CNAME = [], ar_NS = []\<rparr>"

definition zone_data :: "zone \<Rightarrow> hosted_zone \<Rightarrow> api_zone" where
  "zone_data z zone = \<lparr>az_SerialId = zn_serialId z, az_NameServers = zt_NameServers (z_Status zone),
     az_Names = [], az_EMail = zs_EMail (z_Spec zone), az_MinimumTTL = zs_MinimumTTL (z_Spec zone),
     az_Expire = zs_Expire (z_Spec zone), az_Refresh = zs_Refresh (z_Spec zone),
     az_Retry = zs_Retry (z_Spec zone)\<rparr>"

text \<open>The cluster of a zone's source answers for the zone object (\<open>getz\<close> by source name).\<close>

definition prepareInfo :: "(string \<Rightarrow> zone_getter) \<Rightarrow> zone_heap \<Rightarrow> info \<Rightarrow> go_error + api_info" where
  "prepareInfo getz h info =
     (let zone = (case i_Zone info of
                    None \<Rightarrow> Inr zero_api_zone
                  | Some a \<Rightarrow>
                      (case getz (zn_source (h ! a)) (zk_Namespace (zn_key (h ! a)), zk_Name (zn_key (h ! a))) of
                         Inl err \<Rightarrow> Inl err
                       | Inr zone \<Rightarrow> Inr (zone_data (h ! a) zone)))
      in case zone of
           Inl err \<Rightarrow> Inl err
         | Inr zd \<Rightarrow> Inr \<lparr>ai_Zone = zd\<lparr>az_Names := i_ZoneNames info\<rparr>, ai_Names = i_EntryNames info,
             ai_Records = foldl add_records zero_records (i_Entries info)\<rparr>)"

section \<open>Request handlers\<close>

definition PATH_ZONES :: string where "PATH_ZONES = ''/api/v1/zones/''"
definition PATH_IPS :: string where "PATH_IPS = ''/api/v1/ips/''"

datatype http_body = NoBody | ErrorBody string | AnswerBody api_answer | TextBody string

record http_response =
  hr_Status :: int
  hr_JSON :: bool
  hr_Body :: http_body

definition only_status :: "int \<Rightarrow> http_response" where
  "only_status code = \<lparr>hr_Status = code, hr_JSON = False, hr_Body = NoBody\<rparr>"

definition SendError :: "string \<Rightarrow> int \<Rightarrow> http_response" where
  "SendError err statusCode = \<lparr>hr_Status = statusCode, hr_JSON = True, hr_Body = ErrorBody err\<rparr>"

definition send_answer :: "api_info list \<Rightarrow> http_response" where
  "send_answer infos = \<lparr>hr_Status = 200, hr_JSON = True,
     hr_Body = AnswerBody \<lparr>an_Error = [], an_Infos = infos\<rparr>\<rparr>"

definition handleNames ::
    "dns_lib \<Rightarrow> child_order \<Rightarrow> zindex \<Rightarrow> model \<Rightarrow> (string \<Rightarrow> zone_getter) \<Rightarrow> string
     \<Rightarrow> http_response go option" where
  "handleNames D ord I m getz path =
     (let fields = str_split (CHR ''/'') (trim_prefix path PATH_ZONES)
      in if length fields \<noteq> 4 then Some (Ret (only_status 400))
         else case GetZone m (NewZoneKey (fields ! 0) (fields ! 1) (fields ! 2)) of
                None \<Rightarrow> Some (Ret (only_status 404))
              | Some z \<Rightarrow>
                  map_option (\<lambda>g. go_bind g (\<lambda>res. Ret (case res of
                      Inl err \<Rightarrow> SendError (Error err) 500
                    | Inr None \<Rightarrow> SendError ''name not in domain'' 400
                    | Inr (Some info) \<Rightarrow>
                        (case prepareInfo getz (m_heap m) info of
                           Inr i \<Rightarrow> send_answer [i]
                         | Inl err \<Rightarrow> SendError (Error err) 500))))
                    (ResolveFQDN D ord I m z (fields ! 3)))"

fun prepare_all :: "(info \<Rightarrow> go_error + api_info) \<Rightarrow> info list \<Rightarrow> api_info list \<Rightarrow> go_error + api_info list" where
  "prepare_all f [] answer = Inr answer"
| "prepare_all f (i # is) answer =
     (case f i of Inl err \<Rightarrow> Inl err | Inr info \<Rightarrow> prepare_all f is (answer @ [info]))"

definition handleIPs ::
    "nat \<Rightarrow> dns_lib \<Rightarrow> child_order \<Rightarrow> zindex \<Rightarrow> model \<Rightarrow> (string \<Rightarrow> zone_getter) \<Rightarrow> string
     \<Rightarrow> http_response option" where
  "handleIPs n D ord I m getz path =
     (let fields = str_split (CHR ''/'') (trim_prefix path PATH_IPS)
      in if length fields \<noteq> 4 then Some (only_status 400)
         else case GetZone m (NewZoneKey (fields ! 0) (fields ! 1) (fields ! 2)) of
                None \<Rightarrow> Some (only_status 404)
              | Some z \<Rightarrow>
                  map_option (\<lambda>res. case res of
                      Inl err \<Rightarrow> SendError (Error err) 500
                    | Inr infos \<Rightarrow>
                        if length infos = 0 then SendError ''name not in domain'' 400
                        else case prepare_all (prepareInfo getz (m_heap m)) infos [] of
                               Inl err \<Rightarrow> SendError (Error err) 500
                             | Inr answer \<Rightarrow> send_answer answer)
                    (ResolveIP n D ord I m z (fields ! 3)))"

definition statusHandler :: string where
  "statusHandler = ''{'' @ quote ''status'' @ '': '' @ quote ''running'' @ ''}''"

definition metricsHandler :: string where
  "metricsHandler = ''custom_metric 1'' @ [CHR 0x0A]"


section \<open>Index keys\<close>

lemma IndexKey_entry:
  assumes "slash_free (zk_Name zk)" "slash_free ref"
  shows "IndexKey zk rel = zk_Namespace zk @ ''/'' @ ref @ ''/'' @ item \<longleftrightarrow> zk_Name zk = ref \<and> rel = item"
  using assms append_sep_inject [of "CHR ''/''" "zk_Name zk" ref rel item]
  by (simp add: IndexKey_def slash_free_def)

lemma IndexKey_eq_iff:
  assumes "slash_free (zk_Namespace a)" "slash_free (zk_Name a)" "slash_free (zk_Namespace b)" "slash_free (zk_Name b)"
  shows "IndexKey a r = IndexKey b s \<longleftrightarrow> zk_Namespace a = zk_Namespace b \<and> zk_Name a = zk_Name b \<and> r = s"
  using assms append_sep_inject [of "CHR ''/''" "zk_Namespace a" "zk_Namespace b" "zk_Name a @ ''/'' @ r" "zk_Name b @ ''/'' @ s"]
    append_sep_inject [of "CHR ''/''" "zk_Name a" "zk_Name b" r s]
  by (auto simp: IndexKey_def slash_free_def)

text \<open>An entry the indexers do not omit.\<close>

definition indexed :: "'p ext \<Rightarrow> server_options \<Rightarrow> coredns_entry \<Rightarrow> bool" where
  "indexed E opts e \<longleftrightarrow> es_ZoneRef (e_Spec e) \<noteq> [] \<and>
     (so_Slave opts \<longrightarrow> (\<exists>c. x_FindStatusCondition E (et_Conditions (e_Status e)) ServerConditionType = Some c \<and>
        c_Status c \<noteq> ConditionFalse))"

lemma indexerNames_iff:
  "k \<in> set (indexerNames E opts e) \<longleftrightarrow> indexed E opts e \<and>
     (\<exists>n \<in> set (es_DNSNames (e_Spec e)). k = entry_namespace e @ ''/'' @ es_ZoneRef (e_Spec e) @ ''/'' @ Rdn n)"
  by (auto simp: indexerNames_def indexed_def Let_def split: option.splits)

lemma indexerIPs_iff:
  "k \<in> set (indexerIPs E opts e) \<longleftrightarrow> indexed E opts e \<and>
     (\<exists>n \<in> set (es_A (e_Spec e)) \<union> set (es_AAAA (e_Spec e)).
        k = entry_namespace e @ ''/'' @ es_ZoneRef (e_Spec e) @ ''/'' @ n)"
  by (auto simp: indexerIPs_def indexed_def Let_def split: option.splits)

text \<open>
  What a cache index promises: for a key it returns the entries of the namespace that the
  indexer gives the key; and the zone references of the stored entries have no slash.
\<close>

definition index_law :: "(string \<Rightarrow> coredns_entry list) \<Rightarrow> index_get \<Rightarrow> bool" where
  "index_law st cg \<longleftrightarrow>
     (\<forall>src. \<forall>e \<in> set (st src). slash_free (es_ZoneRef (e_Spec e))) \<and>
     (\<forall>f src ns key es. cg f src ns key = Inr es \<longrightarrow>
        set es = {e \<in> set (st src). entry_namespace e = ns \<and> key \<in> set (f e)})"

definition comp_inv :: "'p ext \<times> server_options \<times> index_get \<Rightarrow> bool" where
  "comp_inv = (\<lambda>(E, opts, cg). \<exists>st. index_law st cg)"

lemma lookup_name_exact:
  assumes law: "index_law st cg" and key: "slash_free (zk_Name zk)"
    and es: "comp_LookupRelativeDomainName E opts cg src zk rel = Inr es"
  shows "set es = {e \<in> set (st src). belongs_to e zk \<and> indexed E opts e \<and> rel \<in> Rdn ` set (es_DNSNames (e_Spec e))}"
proof -
  have "set es = {e \<in> set (st src). entry_namespace e = zk_Namespace zk \<and> IndexKey zk rel \<in> set (indexerNames E opts e)}"
    using law es by (simp add: index_law_def comp_LookupRelativeDomainName_def)
  moreover have "IndexKey zk rel \<in> set (indexerNames E opts e) \<longleftrightarrow>
      es_ZoneRef (e_Spec e) = zk_Name zk \<and> indexed E opts e \<and> rel \<in> Rdn ` set (es_DNSNames (e_Spec e))"
    if "e \<in> set (st src)" "entry_namespace e = zk_Namespace zk" for e
  proof -
    have "slash_free (es_ZoneRef (e_Spec e))" using law that(1) by (auto simp: index_law_def)
    from IndexKey_entry [OF key this] that(2) show ?thesis by (auto simp: indexerNames_iff)
  qed
  ultimately show ?thesis by (auto simp: belongs_to_def)
qed

lemma lookup_ip_exact:
  assumes law: "index_law st cg" and key: "slash_free (zk_Name zk)"
    and es: "comp_LookupIP E opts cg src zk ip = Inr es"
  shows "set es = {e \<in> set (st src). belongs_to e zk \<and> indexed E opts e \<and>
    ip \<in> set (es_A (e_Spec e)) \<union> set (es_AAAA (e_Spec e))}"
proof -
  have "set es = {e \<in> set (st src). entry_namespace e = zk_Namespace zk \<and> IndexKey zk ip \<in> set (indexerIPs E opts e)}"
    using law es by (simp add: index_law_def comp_LookupIP_def)
  moreover have "IndexKey zk ip \<in> set (indexerIPs E opts e) \<longleftrightarrow>
      es_ZoneRef (e_Spec e) = zk_Name zk \<and> indexed E opts e \<and> ip \<in> set (es_A (e_Spec e)) \<union> set (es_AAAA (e_Spec e))"
    if "e \<in> set (st src)" "entry_namespace e = zk_Namespace zk" for e
  proof -
    have "slash_free (es_ZoneRef (e_Spec e))" using law that(1) by (auto simp: index_law_def)
    from IndexKey_entry [OF key this] that(2) show ?thesis by (auto simp: indexerIPs_iff)
  qed
  ultimately show ?thesis by (auto simp: belongs_to_def)
qed

text \<open>The component is an index of the zone model.\<close>

interpretation comp: zone_index Component_index comp_inv
proof
  show "belongs_to e key \<and> rel \<in> Rdn ` set (es_DNSNames (e_Spec e))"
    if "comp_inv i" "slash_free (zk_Name key)" "LookupRelativeDomainName (Component_index i) src key rel = Inr es"
      "e \<in> set es" for i :: "'a ext \<times> server_options \<times> index_get" and src key rel es e
    using that lookup_name_exact by (cases i) (fastforce simp: comp_inv_def Component_index_def)
  show "belongs_to e key \<and> ip \<in> set (es_A (e_Spec e)) \<union> set (es_AAAA (e_Spec e))"
    if "comp_inv i" "slash_free (zk_Name key)" "LookupIP (Component_index i) src key ip = Inr es" "e \<in> set es"
    for i :: "'a ext \<times> server_options \<times> index_get" and src key ip es e
    using that lookup_ip_exact by (cases i) (fastforce simp: comp_inv_def Component_index_def)
qed

section \<open>Answer documents\<close>

lemma CopyR_append [simp]: "CopyR l t = t @ l"
  by (simp add: CopyR_def)

definition srv_of :: "coredns_entry \<Rightarrow> service_spec list" where
  "srv_of e = (case es_SRV (e_Spec e) of None \<Rightarrow> [] | Some s \<Rightarrow> [s])"

lemma add_records_fold:
  "foldl add_records i es = \<lparr>ar_TTL = (if es = [] then ar_TTL i else es_TTL (e_Spec (last es))),
     ar_A = ar_A i @ concat (map (\<lambda>e. es_A (e_Spec e)) es),
     ar_AAAA = ar_AAAA i @ concat (map (\<lambda>e. es_AAAA (e_Spec e)) es),
     ar_TXT = ar_TXT i @ concat (map (\<lambda>e. es_TXT (e_Spec e)) es),
     ar_SRV = ar_SRV i @ concat (map srv_of es),
     ar_CNAME = (if ar_CNAME i \<noteq> [] then ar_CNAME i
        else case find (\<lambda>c. c \<noteq> []) (map (\<lambda>e. es_CNAME (e_Spec e)) es) of None \<Rightarrow> [] | Some c \<Rightarrow> c),
     ar_NS = ar_NS i @ concat (map (\<lambda>e. es_NS (e_Spec e)) es)\<rparr>"
  by (induction es arbitrary: i) (auto simp: add_records_def Let_def srv_of_def split: option.splits)

section \<open>Paths\<close>

lemma path_fields:
  assumes "slash_free a" "slash_free b" "slash_free c" "slash_free d"
  shows "str_split (CHR ''/'') (trim_prefix (p @ str_join ''/'' [a, b, c, d]) p) = [a, b, c, d]"
  using str_split_join [of "[a, b, c, d]" "CHR ''/''"] assms by (simp add: slash_free_def)

lemma prepare_all_Inr:
  "prepare_all f is acc = Inr r \<longleftrightarrow> (\<exists>rs. map f is = map Inr rs \<and> r = acc @ rs)"
  by (induction "is" arbitrary: acc) (auto split: sum.splits simp: Cons_eq_map_conv)


section \<open>A concrete server\<close>

definition ref_index :: "coredns_entry list \<Rightarrow> index_get" where
  "ref_index es f src ns key = Inr (filter (\<lambda>e. entry_namespace e = ns \<and> key \<in> set (f e)) es)"

lemma ref_index_law:
  "list_all (\<lambda>e. slash_free (es_ZoneRef (e_Spec e))) es \<Longrightarrow> index_law (\<lambda>_. es) (ref_index es)"
  by (auto simp: index_law_def ref_index_def list_all_iff)

definition master_options :: server_options where
  "master_options = \<lparr>so_Class = None, so_Slave = False\<rparr>"

definition test_entries :: "coredns_entry list" where
  "test_entries = [EntryA_demo, EntryA_test, EntryA_NS, EntryAA_demo]"

abbreviation test_comp :: zindex where
  "test_comp \<equiv> Component_index (ref_ext, master_options, ref_index test_entries)"

lemma test_index_law: "index_law (\<lambda>_. test_entries) (ref_index test_entries)"
  by (rule ref_index_law) code_simp

lemma test_keys: "list_all (\<lambda>x. slash_free (zk_Name (zn_key x))) (m_heap model_AA)"
  by code_simp

definition test_getz :: "string \<Rightarrow> zone_getter" where
  "test_getz src = store_get [ZoneA, ZoneAA]"

abbreviation serve :: "model \<Rightarrow> string \<Rightarrow> http_response go option" where
  "serve m path \<equiv> handleNames ref_dns (\<lambda>xs. xs) test_comp m test_getz path"

section \<open>Properties\<close>

text \<open>C39: index keys of zones and names are injective as long as namespaces and zone names have
  no slash; the relative name may have any characters.\<close>

theorem IndexKey_injective:
  assumes "slash_free (zk_Namespace a)" "slash_free (zk_Name a)" "slash_free (zk_Namespace b)" "slash_free (zk_Name b)"
  shows "IndexKey a r = IndexKey b s \<longleftrightarrow> zk_Namespace a = zk_Namespace b \<and> zk_Name a = zk_Name b \<and> r = s"
  using assms by (rule IndexKey_eq_iff)

theorem IndexKey_injective_witness:
  "IndexKey (test_key ZoneA) ''a/b'' \<noteq> IndexKey (test_key ZoneAA) ''b''"
proof -
  have "slash_free (zk_Namespace (test_key ZoneA))" "slash_free (zk_Name (test_key ZoneA))"
    "slash_free (zk_Namespace (test_key ZoneAA))" "slash_free (zk_Name (test_key ZoneAA))" by code_simp+
  from IndexKey_injective [OF this] show ?thesis by simp
qed

text \<open>A lookup of the component returns exactly the stored entries of the zone's namespace
  that reference the zone, are not omitted by the indexer, and carry the name: index and lookup
  build the same keys.\<close>

theorem component_lookup_exact:
  assumes "index_law st cg" "slash_free (zk_Name zk)"
    and "comp_LookupRelativeDomainName E opts cg src zk rel = Inr es"
  shows "set es = {e \<in> set (st src). belongs_to e zk \<and> indexed E opts e \<and> rel \<in> Rdn ` set (es_DNSNames (e_Spec e))}"
  using assms by (rule lookup_name_exact)

theorem component_lookup_exact_witness:
  "{e \<in> set test_entries. belongs_to e (test_key ZoneA) \<and> indexed ref_ext master_options e \<and>
     ''test'' \<in> Rdn ` set (es_DNSNames (e_Spec e))} = {EntryA_test}"
proof -
  have "comp_LookupRelativeDomainName ref_ext master_options (ref_index test_entries) test_Source
      (test_key ZoneA) ''test'' = Inr [EntryA_test]" "slash_free (zk_Name (test_key ZoneA))" by code_simp+
  from component_lookup_exact [OF test_index_law this(2,1)] show ?thesis by simp
qed

text \<open>The entries of an answer to a name query belong to one zone nested in the queried
  one, the zone the answer names if it names one; entries of other zones never leak into it.\<close>

theorem name_answer_entries:
  assumes "dns_laws D" "iteration_order ord" "servable (m_heap m) z" "plain qname" "index_law st cg"
    and "\<forall>x \<in> set (m_heap m). slash_free (zk_Name (zn_key x))"
    and "ResolveFQDN D ord (Component_index (E, opts, cg)) m z qname = Some (Ret (Inr (Some info)))"
  shows "\<exists>zone. nested (m_heap m) z zone \<and> (\<forall>a. i_Zone info = Some a \<longrightarrow> a = zone) \<and>
    (\<forall>e \<in> set (i_Entries info). belongs_to e (zn_key (m_heap m ! zone)))"
proof -
  have "comp_inv (E, opts, cg)" using assms(5) by (auto simp: comp_inv_def)
  from comp.answer_entries [OF assms(1-4) this assms(6,7)] show ?thesis .
qed

theorem name_answer_entries_witness:
  "belongs_to EntryAA_demo (zn_key (m_heap model_AA ! 1))"
proof -
  let ?i = "\<lparr>i_Zone = Some 1, i_ZoneNames = [''test.mandelsoft.org.''], i_Entries = [EntryAA_demo],
    i_EntryNames = [''demo.test.mandelsoft.org.'']\<rparr>"
  have "plain ''demo.test.mandelsoft.org''"
    and "ResolveFQDN ref_dns (\<lambda>xs. xs) test_comp model_AA 0 ''demo.test.mandelsoft.org'' = Some (Ret (Inr (Some ?i)))"
    by code_simp+
  from name_answer_entries [OF ref_dns_laws iteration_order_id servable_AA this(1) test_index_law _ this(2)] test_keys
  show ?thesis by (auto simp: list_all_iff)
qed

text \<open>Every info of an address query names its zone and has entries of that zone only, all
  of which carry the address.\<close>

theorem address_answer_entries:
  assumes "iteration_order ord" "index_law st cg" "servable (m_heap m) z"
    and "\<forall>x \<in> set (m_heap m). slash_free (zk_Name (zn_key x))"
    and "ResolveIP n D ord (Component_index (E, opts, cg)) m z ip = Some (Inr infos)" "info \<in> set infos"
  shows "\<exists>zone. i_Zone info = Some zone \<and> i_Entries info \<noteq> [] \<and> (\<forall>e \<in> set (i_Entries info).
    belongs_to e (zn_key (m_heap m ! zone)) \<and> ip \<in> set (es_A (e_Spec e)) \<union> set (es_AAAA (e_Spec e)))"
proof -
  have "comp_inv (E, opts, cg)" using assms(2) by (auto simp: comp_inv_def)
  from comp.address_entries [OF assms(1) this assms(3-6)] show ?thesis .
qed

theorem address_answer_entries_witness:
  "belongs_to EntryA_test (zn_key (m_heap model_AA ! 0)) \<and> ''8.8.8.9'' \<in> set (es_A (e_Spec EntryA_test)) \<union> set (es_AAAA (e_Spec EntryA_test))"
proof -
  let ?i = "\<lparr>i_Zone = Some 0, i_ZoneNames = [''mandelsoft.de.'', ''mandelsoft.org.''], i_Entries = [EntryA_test],
    i_EntryNames = [''test.mandelsoft.de.'', ''test.mandelsoft.org.'']\<rparr>"
  have "ResolveIP 3 ref_dns (\<lambda>xs. xs) test_comp model_AA 0 ''8.8.8.9'' = Some (Inr [?i])" by code_simp
  from address_answer_entries [OF iteration_order_id test_index_law servable_AA _ this, of ?i] test_keys
  show ?thesis by (auto simp: list_all_iff)
qed

text \<open>Outside slave mode the indexers take any entry with a zone reference, whatever its
  state: entries the log reports as omitted are served.\<close>

theorem master_indexes_invalid:
  assumes "\<not> so_Slave opts" "es_ZoneRef (e_Spec e) \<noteq> []"
  shows "indexerNames E opts (e\<lparr>e_Status := (e_Status e)\<lparr>et_State := ''Invalid''\<rparr>\<rparr>) =
    map (\<lambda>n. entry_namespace e @ ''/'' @ es_ZoneRef (e_Spec e) @ ''/'' @ Rdn n) (es_DNSNames (e_Spec e))"
  using assms by (simp add: indexerNames_def Let_def)

theorem master_indexes_invalid_witness:
  "indexerNames ref_ext master_options (EntryA_test\<lparr>e_Status := (e_Status EntryA_test)\<lparr>et_State := ''Invalid''\<rparr>\<rparr>)
     = [''default/a/test'']"
proof -
  have "\<not> so_Slave master_options" "es_ZoneRef (e_Spec EntryA_test) \<noteq> []"
    "map (\<lambda>n. entry_namespace EntryA_test @ ''/'' @ es_ZoneRef (e_Spec EntryA_test) @ ''/'' @ Rdn n)
      (es_DNSNames (e_Spec EntryA_test)) = [''default/a/test'']" by code_simp+
  with master_indexes_invalid [of master_options EntryA_test ref_ext] show ?thesis by simp
qed

text \<open>The answer document of an info has the names of the info, the record lists of its
  entries in order, the first non-empty CNAME, and the TTL of the last entry.\<close>

theorem prepareInfo_records:
  assumes "prepareInfo getz h info = Inr i"
  shows "ai_Names i = i_EntryNames info \<and> az_Names (ai_Zone i) = i_ZoneNames info \<and>
    ai_Records i = \<lparr>ar_TTL = (if i_Entries info = [] then 0 else es_TTL (e_Spec (last (i_Entries info)))),
      ar_A = concat (map (\<lambda>e. es_A (e_Spec e)) (i_Entries info)),
      ar_AAAA = concat (map (\<lambda>e. es_AAAA (e_Spec e)) (i_Entries info)),
      ar_TXT = concat (map (\<lambda>e. es_TXT (e_Spec e)) (i_Entries info)),
      ar_SRV = concat (map srv_of (i_Entries info)),
      ar_CNAME = (case find (\<lambda>c. c \<noteq> []) (map (\<lambda>e. es_CNAME (e_Spec e)) (i_Entries info)) of None \<Rightarrow> [] | Some c \<Rightarrow> c),
      ar_NS = concat (map (\<lambda>e. es_NS (e_Spec e)) (i_Entries info))\<rparr>"
  using assms by (auto simp: prepareInfo_def Let_def add_records_fold zero_records_def split: sum.splits)

theorem prepareInfo_records_witness:
  "\<exists>i. prepareInfo test_getz (m_heap model_AA) \<lparr>i_Zone = Some 0, i_ZoneNames = [''mandelsoft.de.''],
     i_Entries = [EntryA_demo, EntryA_test], i_EntryNames = [''test.mandelsoft.de.'']\<rparr> = Inr i \<and>
     ar_A (ai_Records i) = [''8.8.8.8'', ''8.8.8.9'']"
proof -
  let ?info = "\<lparr>i_Zone = Some 0, i_ZoneNames = [''mandelsoft.de.''],
     i_Entries = [EntryA_demo, EntryA_test], i_EntryNames = [''test.mandelsoft.de.'']\<rparr>"
  have "case prepareInfo test_getz (m_heap model_AA) ?info of Inl _ \<Rightarrow> False | Inr _ \<Rightarrow> True"
    and a: "concat (map (\<lambda>e. es_A (e_Spec e)) [EntryA_demo, EntryA_test]) = [''8.8.8.8'', ''8.8.8.9'']" by code_simp+
  then obtain i where i: "prepareInfo test_getz (m_heap model_AA) ?info = Inr i"
    by (cases "prepareInfo test_getz (m_heap model_AA) ?info") simp_all
  from prepareInfo_records [OF i] a i show ?thesis by simp
qed

text \<open>A request for a name under a path of the expected form addresses exactly the zone and
  the name of the path (unknown zones are answered 404), always returns, and is answered 200
  with one info, 400 for a name outside the zone, or 500 for an error of the index or the
  cluster; a path of another form is answered 400.\<close>

theorem handleNames_outcome:
  assumes "dns_laws D" "iteration_order ord" "plain q"
    and "slash_free cl" "slash_free ns" "slash_free nm" "slash_free q"
    and "\<forall>z. GetZone m (NewZoneKey cl ns nm) = Some z \<longrightarrow> servable (m_heap m) z"
  shows "\<exists>r. handleNames D ord I m getz (PATH_ZONES @ str_join ''/'' [cl, ns, nm, q]) = Some (Ret r) \<and>
    (case GetZone m (NewZoneKey cl ns nm) of
       None \<Rightarrow> r = only_status 404
     | Some z \<Rightarrow>
         (case ResolveFQDN D ord I m z q of
            Some (Ret (Inr None)) \<Rightarrow> hr_Status r = 400
          | Some (Ret (Inr (Some info))) \<Rightarrow>
              (case prepareInfo getz (m_heap m) info of
                 Inr i \<Rightarrow> r = send_answer [i] | Inl err \<Rightarrow> r = SendError (Error err) 500)
          | Some (Ret (Inl err)) \<Rightarrow> r = SendError (Error err) 500
          | _ \<Rightarrow> False))"
proof (cases "GetZone m (NewZoneKey cl ns nm)")
  case None
  then show ?thesis using path_fields [OF assms(4-7)] by (simp add: handleNames_def)
next
  case (Some z)
  from ResolveFQDN_found [OF assms(1,2) _ assms(3), where m = m and z = z and I = I] assms(8) Some obtain x where
    x: "ResolveFQDN D ord I m z q = Some (Ret x)" by (auto split: if_splits)
  show ?thesis
    using path_fields [OF assms(4-7)] Some x
    by (auto simp: handleNames_def SendError_def split: sum.splits option.splits)
qed

theorem handleNames_outcome_witness:
  "\<exists>r. serve model_AA ''/api/v1/zones/cluster/default/a/demo.mandelsoft.com'' = Some (Ret r) \<and> hr_Status r = 400"
proof -
  have "plain ''demo.mandelsoft.com''" "slash_free ''cluster''" "slash_free ''default''" "slash_free ''a''"
    "slash_free ''demo.mandelsoft.com''"
    and z: "GetZone model_AA (NewZoneKey ''cluster'' ''default'' ''a'') = Some 0"
    and p: "PATH_ZONES @ str_join ''/'' [''cluster'', ''default'', ''a'', ''demo.mandelsoft.com'']
      = ''/api/v1/zones/cluster/default/a/demo.mandelsoft.com''"
    and r: "ResolveFQDN ref_dns (\<lambda>xs. xs) test_comp model_AA 0 ''demo.mandelsoft.com'' = Some (Ret (Inr None))"
    by code_simp+
  from handleNames_outcome [OF ref_dns_laws iteration_order_id this(1-5), of model_AA test_comp test_getz]
    servable_AA z r show ?thesis unfolding p by auto
qed

text \<open>Removing a nested zone from the model does not take it out of its parent's children: a
  query on the parent is answered as before. The witness of the effect is a query of the test
  for a name of the nested zone, answered by its entry after the removal of the zone.\<close>

theorem RemoveZone_still_served:
  "ResolveFQDN D ord I (RemoveZone m k) z q = ResolveFQDN D ord I m z q \<and>
   (case ResolveFQDN ref_dns (\<lambda>xs. xs) test_comp (RemoveZone model_AA (test_key ZoneAA)) 0 ''demo.test.mandelsoft.de'' of
      Some (Ret (Inr (Some i))) \<Rightarrow> i_Entries i = [EntryAA_demo] | _ \<Rightarrow> False)"
proof -
  have "case ResolveFQDN ref_dns (\<lambda>xs. xs) test_comp (RemoveZone model_AA (test_key ZoneAA)) 0 ''demo.test.mandelsoft.de'' of
      Some (Ret (Inr (Some i))) \<Rightarrow> i_Entries i = [EntryAA_demo] | _ \<Rightarrow> False" by code_simp
  then show ?thesis by (simp add: ResolveFQDN_def RemoveZone_def)
qed

text \<open>A controller manages an object's status itself unless it runs in slave mode and the
  object has a condition other than the server's.\<close>

theorem IsMaster_iff:
  "IsMaster opts cs \<longleftrightarrow> \<not> so_Slave opts \<or> (\<forall>c \<in> set cs. c_Type c = ServerConditionType)"
proof -
  have "only_server_conditions cs \<longleftrightarrow> (\<forall>c \<in> set cs. c_Type c = ServerConditionType)"
    by (induction cs) auto
  then show ?thesis by (simp add: IsMaster_def)
qed

theorem IsMaster_iff_witness:
  "\<not> IsMaster \<lparr>so_Class = None, so_Slave = True\<rparr> [\<lparr>c_Type = ValidationConditionType, c_Status = ConditionTrue,
     c_Reason = [], c_Message = [], c_ObservedGeneration = 1\<rparr>]"
  by (simp add: IsMaster_iff condition_type_defs)

end
