(* ===== verification/Server_Entry.thy ===== *)
theory Server_Entry
  imports Server_Comp
begin

text \<open>
  The controller of the REST server for entries (internal/controller/server/entry): the request
  with its master flag, the status update, and \<open>Reconcile\<close>, which validates an entry against
  its zone and records the outcome either directly in the status or in the server condition.
  The object is passed through and returned; saving the changed status is the framework's.
\<close>

section \<open>The request\<close>

text \<open>The factory's \<open>CreateRequest\<close>: a request without object takes the mode of the options.\<close>

definition entry_CreateRequest :: "server_options \<Rightarrow> coredns_entry option \<Rightarrow> bool" where
  "entry_CreateRequest opts obj =
     (case obj of None \<Rightarrow> \<not> so_Slave opts | Some o' \<Rightarrow> IsMaster opts (et_Conditions (e_Status o')))"

definition server_condition :: "condition_status \<Rightarrow> int \<Rightarrow> string \<Rightarrow> string \<Rightarrow> condition" where
  "server_condition st gen reason msg =
     \<lparr>c_Type = ServerConditionType, c_Status = st, c_Reason = reason, c_Message = msg, c_ObservedGeneration = gen\<rparr>"

definition entry_updateStatus ::
    "'p ext \<Rightarrow> bool \<Rightarrow> coredns_entry \<Rightarrow> bool \<Rightarrow> string \<Rightarrow> string list \<Rightarrow> string option
     \<Rightarrow> coredns_entry \<times> 'p option" where
  "entry_updateStatus E master e force zn names err =
     (let s = e_Status e;
          s = (if et_RootZone s \<noteq> zn then s\<lparr>et_RootZone := zn\<rparr> else s);
          s = (if et_EffectiveDomainNames s \<noteq> names then s\<lparr>et_EffectiveDomainNames := names\<rparr> else s);
          s = (if force \<and> master then (if length (et_Conditions s) > 0 then s\<lparr>et_Conditions := []\<rparr> else s) else s)
      in case err of
           Some msg \<Rightarrow>
             (let s = (if master then
                         (if force \<or> et_State s \<noteq> ''Invalid'' then
                            (if et_Message s \<noteq> msg \<or> et_State s \<noteq> ''Invalid''
                             then s\<lparr>et_Message := msg, et_State := ''Invalid''\<rparr> else s)
                          else s)
                       else s\<lparr>et_Conditions := fst (x_SetStatusCondition E (et_Conditions s)
                              (server_condition ConditionFalse (om_Generation (e_Meta e))
                                 ReasonServerValidationFailure msg))\<rparr>)
              in (e\<lparr>e_Status := s\<rparr>, Some (x_Failed E (Errorf msg))))
         | None \<Rightarrow>
             (let s = (if master then
                         (if et_Message s \<noteq> [] \<or> et_State s \<noteq> ''Ok''
                          then s\<lparr>et_Message := [], et_State := ''Ok''\<rparr> else s)
                       else s\<lparr>et_Conditions := fst (x_SetStatusCondition E (et_Conditions s)
                              (server_condition ConditionTrue (om_Generation (e_Meta e))
                                 ReasonServerActive ''entry served''))\<rparr>)
              in (e\<lparr>e_Status := s\<rparr>, None)))"

text \<open>The part of \<open>Reconcile\<close> after the root zone is known.\<close>

definition entry_responsible ::
    "dns_lib \<Rightarrow> 'p ext \<Rightarrow> server_options \<Rightarrow> bool \<Rightarrow> coredns_entry \<Rightarrow> hosted_zone \<Rightarrow> responsibility
     \<Rightarrow> string list \<Rightarrow> coredns_entry \<times> 'p option" where
  "entry_responsible D E opts master e zone info names =
     (let root = (case rs_Root info of None \<Rightarrow> [] | Some z \<Rightarrow> zone_name z)
      in if \<not> Check info (so_Class opts) None then
           (let s = e_Status e
            in (if et_RootZone s \<noteq> [] \<and> et_RootZone s \<noteq> root then
                  e\<lparr>e_Status := s\<lparr>et_RootZone := [],
                     et_Conditions := x_RemoveStatusCondition E (et_Conditions s) ServerConditionType,
                     et_State := [], et_Message := []\<rparr>\<rparr>
                else e, None))
         else case ValidateEntryData D e of
                Some err \<Rightarrow> entry_updateStatus E master e True [] [] (Some err)
              | None \<Rightarrow>
                  if zt_State (z_Status zone) \<noteq> ''Ready'' \<and> zt_State (z_Status zone) \<noteq> ''Ok'' then
                    entry_updateStatus E master e True (zone_name zone) names
                      (Some (''zone failure: '' @ zt_Message (z_Status zone)))
                  else entry_updateStatus E master e True root names None)"

text \<open>\<open>Reconcile\<close>; \<open>None\<close> is a root walk that does not end.\<close>

definition entry_Reconcile ::
    "dns_lib \<Rightarrow> 'p ext \<Rightarrow> server_options \<Rightarrow> bool \<Rightarrow> zone_getter \<Rightarrow> coredns_entry
     \<Rightarrow> (coredns_entry \<times> 'p option) option" where
  "entry_Reconcile D E opts master get e =
     (let s = e_Spec e
      in if es_ZoneRef s = [] then Some (entry_updateStatus E master e False [] [] (Some ''no zone set''))
         else case get (x_RefObjectKeyFor E (entry_namespace e) (es_ZoneRef s)) of
                Inl err \<Rightarrow>
                  Some (if IsNotFound err
                    then entry_updateStatus E master e False [] [] (Some ''no root zone found'')
                    else (e, x_TemporaryProblem E (Some err)))
              | Inr zone \<Rightarrow>
                  map_option (\<lambda>((info, ok, prob), names).
                    case prob of
                      Some p \<Rightarrow>
                        if \<not> ok then (e, Some p)
                        else entry_updateStatus E master e False [] [] (Some (x_Message E p))
                    | None \<Rightarrow>
                        entry_responsible D E opts master e zone
                          (case info of None \<Rightarrow> no_resp | Some i \<Rightarrow> i)
                          (case names of None \<Rightarrow> [] | Some ns \<Rightarrow> ns))
                    (GetRootInfo D E get zone (Some (es_DNSNames s))))"

definition entry_ReconcileDeleting :: "'p option" where "entry_ReconcileDeleting = None"
definition entry_ReconcileDeleted :: "'p option" where "entry_ReconcileDeleted = None"

section \<open>The status update\<close>

text \<open>The guarded assignments are assignments.\<close>

lemma guarded_entry_updates:
  "(if et_RootZone s \<noteq> zn then s\<lparr>et_RootZone := zn\<rparr> else s) = s\<lparr>et_RootZone := zn\<rparr>"
  "(if et_EffectiveDomainNames s \<noteq> ns then s\<lparr>et_EffectiveDomainNames := ns\<rparr> else s) = s\<lparr>et_EffectiveDomainNames := ns\<rparr>"
  "(if length (et_Conditions s) > 0 then s\<lparr>et_Conditions := []\<rparr> else s) = s\<lparr>et_Conditions := []\<rparr>"
  "(if et_Message s \<noteq> m \<or> et_State s \<noteq> st then s\<lparr>et_Message := m, et_State := st\<rparr> else s)
     = s\<lparr>et_Message := m, et_State := st\<rparr>"
  by simp_all

lemma entry_updateStatus_eq:
  "entry_updateStatus E master e force zn names err =
     (let s0 = (e_Status e)\<lparr>et_RootZone := zn, et_EffectiveDomainNames := names\<rparr>;
          s = (if force \<and> master then s0\<lparr>et_Conditions := []\<rparr> else s0)
      in case err of
           Some msg \<Rightarrow>
             (e\<lparr>e_Status := (if master then if force \<or> et_State s \<noteq> ''Invalid''
                               then s\<lparr>et_Message := msg, et_State := ''Invalid''\<rparr> else s
                             else s\<lparr>et_Conditions := fst (x_SetStatusCondition E (et_Conditions s)
                               (server_condition ConditionFalse (om_Generation (e_Meta e)) ReasonServerValidationFailure msg))\<rparr>)\<rparr>,
              Some (x_Failed E (Errorf msg)))
         | None \<Rightarrow>
             (e\<lparr>e_Status := (if master then s\<lparr>et_Message := [], et_State := ''Ok''\<rparr>
                             else s\<lparr>et_Conditions := fst (x_SetStatusCondition E (et_Conditions s)
                               (server_condition ConditionTrue (om_Generation (e_Meta e)) ReasonServerActive ''entry served''))\<rparr>)\<rparr>,
              None))"
  unfolding entry_updateStatus_def guarded_entry_updates by (simp only: Let_def)

lemma entry_updateStatus_keeps:
  "e_Spec (fst (entry_updateStatus E master e force zn names err)) = e_Spec e"
  "e_Meta (fst (entry_updateStatus E master e force zn names err)) = e_Meta e"
  unfolding entry_updateStatus_eq by (cases err; simp add: Let_def)+

lemma entry_updateStatus_idem:
  assumes "condition_laws E"
  shows "entry_updateStatus E master (fst (entry_updateStatus E master e force zn names err)) force zn names err
    = entry_updateStatus E master e force zn names err"
proof (cases master)
  case True
  then show ?thesis unfolding entry_updateStatus_eq by (cases err; cases force) (simp_all add: Let_def)
next
  case False
  have set: "fst (x_SetStatusCondition E (fst (x_SetStatusCondition E cs c)) c) = fst (x_SetStatusCondition E cs c)" for cs c
    by (rule Set_same [OF assms]) (simp add: Set_eq [OF assms])
  from False show ?thesis unfolding entry_updateStatus_eq by (cases err) (simp_all add: Let_def set)
qed

lemma ValidateEntryData_spec: "e_Spec e' = e_Spec e \<Longrightarrow> ValidateEntryData D e' = ValidateEntryData D e"
  by (simp add: ValidateEntryData_def)

lemma entry_responsible_idem:
  assumes E: "condition_laws E" and r: "entry_responsible D E opts master e zone info names = (e', p)"
  shows "entry_responsible D E opts master e' zone info names = (e', p) \<and> e_Spec e' = e_Spec e \<and> e_Meta e' = e_Meta e"
proof -
  have fix_point: "entry_updateStatus E master e' f zn ns err = (e', p) \<and> e_Spec e' = e_Spec e \<and> e_Meta e' = e_Meta e"
    if "entry_updateStatus E master e f zn ns err = (e', p)" for f zn ns err
    using entry_updateStatus_idem [OF E, of master e f zn ns err] entry_updateStatus_keeps [of E master e f zn ns err] that
    by simp
  show ?thesis
  proof (cases "Check info (so_Class opts) None")
    case False
    with r show ?thesis by (auto simp: entry_responsible_def Let_def split: if_splits)
  next
    case True
    then have c: "entry_responsible D E opts master x zone info names =
      (case ValidateEntryData D x of
         Some err \<Rightarrow> entry_updateStatus E master x True [] [] (Some err)
       | None \<Rightarrow>
           if zt_State (z_Status zone) \<noteq> ''Ready'' \<and> zt_State (z_Status zone) \<noteq> ''Ok'' then
             entry_updateStatus E master x True (zone_name zone) names
               (Some (''zone failure: '' @ zt_Message (z_Status zone)))
           else entry_updateStatus E master x True (case rs_Root info of None \<Rightarrow> [] | Some z \<Rightarrow> zone_name z) names None)" for x
      by (simp add: entry_responsible_def Let_def)
    have "\<exists>f zn ns err. \<forall>x. e_Spec x = e_Spec e \<longrightarrow>
        entry_responsible D E opts master x zone info names = entry_updateStatus E master x f zn ns err"
    proof (cases "ValidateEntryData D e")
      case None
      then have v: "ValidateEntryData D x = None" if "e_Spec x = e_Spec e" for x
        using ValidateEntryData_spec [OF that, of D] by simp
      let ?root = "case rs_Root info of None \<Rightarrow> [] | Some z \<Rightarrow> zone_name z"
      show ?thesis
      proof (cases "zt_State (z_Status zone) \<noteq> ''Ready'' \<and> zt_State (z_Status zone) \<noteq> ''Ok''")
        case True
        show ?thesis
          by (rule exI [of _ True], rule exI [of _ "zone_name zone"], rule exI [of _ names],
              rule exI [of _ "Some (''zone failure: '' @ zt_Message (z_Status zone))"])
             (intro allI impI, simp only: c v option.case True if_True simp_thms)
      next
        case False
        show ?thesis
          by (rule exI [of _ True], rule exI [of _ ?root], rule exI [of _ names], rule exI [of _ None])
             (intro allI impI, simp only: c v option.case if_not_P [OF False] simp_thms)
      qed
    next
      case (Some m)
      then have v: "ValidateEntryData D x = Some m" if "e_Spec x = e_Spec e" for x
        using ValidateEntryData_spec [OF that, of D] by simp
      show ?thesis
        by (rule exI [of _ True], rule exI [of _ "[]"], rule exI [of _ "[]"], rule exI [of _ "Some m"])
           (intro allI impI, simp only: c v option.case simp_thms)
    qed
    then obtain f zn ns err where u: "\<And>x. e_Spec x = e_Spec e \<Longrightarrow>
        entry_responsible D E opts master x zone info names = entry_updateStatus E master x f zn ns err" by blast
    from u [of e] r have eq: "entry_updateStatus E master e f zn ns err = (e', p)" by simp
    from fix_point [OF this] u [of e'] show ?thesis by simp
  qed
qed

text \<open>\<open>Reconcile\<close> is one of three functions of the object, chosen by its metadata and spec.\<close>

lemma entry_Reconcile_shape:
  assumes "entry_Reconcile D E opts master get e \<noteq> None"
  obtains (status) f zn ns err where "\<And>x. e_Spec x = e_Spec e \<Longrightarrow> e_Meta x = e_Meta e \<Longrightarrow>
      entry_Reconcile D E opts master get x = Some (entry_updateStatus E master x f zn ns err)"
    | (same) q where "\<And>x. e_Spec x = e_Spec e \<Longrightarrow> e_Meta x = e_Meta e \<Longrightarrow>
      entry_Reconcile D E opts master get x = Some (x, q)"
    | (resp) zone info ns where "\<And>x. e_Spec x = e_Spec e \<Longrightarrow> e_Meta x = e_Meta e \<Longrightarrow>
      entry_Reconcile D E opts master get x = Some (entry_responsible D E opts master x zone info ns)"
proof (cases "es_ZoneRef (e_Spec e) = []")
  case True
  then show ?thesis by (intro status) (simp add: entry_Reconcile_def)
next
  case False
  note ref = this
  let ?k = "x_RefObjectKeyFor E (entry_namespace e) (es_ZoneRef (e_Spec e))"
  show ?thesis
  proof (cases "get ?k")
    case (Inl err)
    show ?thesis
    proof (cases "IsNotFound err")
      case True
      with ref Inl show ?thesis by (intro status) (simp add: entry_Reconcile_def)
    next
      case False
      with ref Inl show ?thesis by (intro same) (simp add: entry_Reconcile_def)
    qed
  next
    case (Inr zone)
    with ref assms obtain info ok prob names where
      root: "GetRootInfo D E get zone (Some (es_DNSNames (e_Spec e))) = Some ((info, ok, prob), names)"
      by (cases "GetRootInfo D E get zone (Some (es_DNSNames (e_Spec e)))") (auto simp: entry_Reconcile_def)
    show ?thesis
    proof (cases prob)
      case None
      with ref Inr root show ?thesis by (intro resp) (simp add: entry_Reconcile_def)
    next
      case (Some p)
      with ref Inr root show ?thesis
        by (cases ok) (rule status, simp add: entry_Reconcile_def, rule same, simp add: entry_Reconcile_def)
    qed
  qed
qed

lemma entry_Reconcile_idem:
  assumes E: "condition_laws E" and r: "entry_Reconcile D E opts master get e = Some (e', p)"
  shows "entry_Reconcile D E opts master get e' = Some (e', p) \<and> e_Spec e' = e_Spec e \<and> e_Meta e' = e_Meta e"
proof -
  from r have "entry_Reconcile D E opts master get e \<noteq> None" by simp
  then show ?thesis
  proof (cases rule: entry_Reconcile_shape)
    case (status f zn ns err)
    from status [of e] r have eq: "entry_updateStatus E master e f zn ns err = (e', p)" by simp
    with entry_updateStatus_keeps [of E master e f zn ns err]
    have keep: "e_Spec e' = e_Spec e" "e_Meta e' = e_Meta e" by simp_all
    from entry_updateStatus_idem [OF E, of master e f zn ns err] eq keep status [OF keep]
    show ?thesis by simp
  next
    case (same q)
    from same [of e] r have "e' = e" by simp
    with r show ?thesis by simp
  next
    case (resp zone info ns)
    from resp [of e] r have eq: "entry_responsible D E opts master e zone info ns = (e', p)" by simp
    from entry_responsible_idem [OF E eq] resp [of e'] show ?thesis by simp
  qed
qed

section \<open>A responsible server\<close>

text \<open>What \<open>Reconcile\<close> does to a valid entry of a served chain of zones.\<close>

lemma names_along_Some: "\<exists>ns. names_along D (Some x) zs = Some ns"
  by (induction zs arbitrary: x) (simp_all add: AggregateNames_eq)

lemma entry_Reconcile_update:
  assumes get: "honest get" and E: "refkey_law E"
    and zone: "get (entry_namespace e, es_ZoneRef (e_Spec e)) = Inr zone" "es_ZoneRef (e_Spec e) \<noteq> []"
    and chain: "zone_chain get (zone_namespace zone) (zone_parent zone) zs"
      "zone_name zone \<notin> set (chain_names (zone_parent zone) zs)"
    and cls: "zs_Class (z_Spec (last (zone # zs))) = None" "so_Class opts = None"
    and valid: "valid_entry D (e_Spec e)" and state: "zt_State (z_Status zone) \<in> {''Ready'', ''Ok''}"
    and ns: "names_along D (Some (es_DNSNames (e_Spec e))) (zone # zs) = Some ns"
  shows "entry_Reconcile D E opts master get e =
    Some (entry_updateStatus E master e True (zone_name (last (zone # zs))) ns None)"
proof -
  let ?r = "chain_resp (if zs = [] then None else Some (hd zs)) (last (zone # zs))"
  have root: "GetRootInfo D E get zone (Some (es_DNSNames (e_Spec e))) = Some ((Some ?r, True, None), Some ns)"
    unfolding zone_root_iff [OF get E]
    by (intro exI [of _ zs] conjI refl chain ns [symmetric])
  have check: "Check ?r (so_Class opts) None" using cls by (simp add: Check_def chain_resp_def)
  have v: "ValidateEntryData D e = None" using valid by (simp add: ValidateEntryData_None)
  have root_name: "(case rs_Root ?r of None \<Rightarrow> [] | Some z \<Rightarrow> zone_name z) = zone_name (last (zone # zs))"
    by (simp add: chain_resp_def)
  have "entry_responsible D E opts master e zone ?r ns =
      entry_updateStatus E master e True (zone_name (last (zone # zs))) ns None"
    unfolding entry_responsible_def root_name Let_def using check v state by auto
  then show ?thesis
    unfolding entry_Reconcile_def Let_def refkey_lawD [OF E] zone(1) using zone(2) root by simp
qed

lemma entry_Reconcile_served:
  assumes get: "honest get" and E: "refkey_law E" "condition_laws E"
    and zone: "get (entry_namespace e, es_ZoneRef (e_Spec e)) = Inr zone" "es_ZoneRef (e_Spec e) \<noteq> []"
    and chain: "zone_chain get (zone_namespace zone) (zone_parent zone) zs"
      "zone_name zone \<notin> set (chain_names (zone_parent zone) zs)"
    and cls: "zs_Class (z_Spec (last (zone # zs))) = None" "so_Class opts = None"
    and valid: "valid_entry D (e_Spec e)" and state: "zt_State (z_Status zone) \<in> {''Ready'', ''Ok''}"
  shows "\<exists>e'. entry_Reconcile D E opts master get e = Some (e', None) \<and>
    et_RootZone (e_Status e') = zone_name (last (zone # zs)) \<and>
    Some (et_EffectiveDomainNames (e_Status e')) = names_along D (Some (es_DNSNames (e_Spec e))) (zone # zs) \<and>
    (if master then et_State (e_Status e') = ''Ok'' \<and> et_Message (e_Status e') = [] \<and> et_Conditions (e_Status e') = []
     else \<exists>c. cond_of (et_Conditions (e_Status e')) ServerConditionType = Some c \<and> c_Status c = ConditionTrue \<and>
       c_ObservedGeneration c = om_Generation (e_Meta e))"
proof -
  obtain ns where ns: "names_along D (Some (es_DNSNames (e_Spec e))) (zone # zs) = Some ns"
    using names_along_Some by blast
  note rec = entry_Reconcile_update [OF get E(1) zone chain cls valid state ns, of master]
  let ?u = "entry_updateStatus E master e True (zone_name (last (zone # zs))) ns None"
  let ?c = "server_condition ConditionTrue (om_Generation (e_Meta e)) ReasonServerActive ''entry served''"
  have u: "snd ?u = None" "et_RootZone (e_Status (fst ?u)) = zone_name (last (zone # zs))"
    "et_EffectiveDomainNames (e_Status (fst ?u)) = ns"
    "master \<Longrightarrow> et_State (e_Status (fst ?u)) = ''Ok'' \<and> et_Message (e_Status (fst ?u)) = [] \<and>
       et_Conditions (e_Status (fst ?u)) = []"
    "\<not> master \<Longrightarrow> et_Conditions (e_Status (fst ?u)) = fst (x_SetStatusCondition E (et_Conditions (e_Status e)) ?c)"
    unfolding entry_updateStatus_eq by (simp_all add: Let_def)
  have "\<exists>c. cond_of (et_Conditions (e_Status (fst ?u))) ServerConditionType = Some c \<and> c_Status c = ConditionTrue \<and>
      c_ObservedGeneration c = om_Generation (e_Meta e)" if "\<not> master"
    unfolding u(5) [OF that] Set_eq [OF E(2)]
    by (intro exI [of _ ?c]) (simp add: server_condition_def)
  moreover have "Some (fst ?u, None) = Some ?u" using u(1) by (simp add: prod_eq_iff)
  ultimately show ?thesis
    unfolding rec ns using u(2-4) by (intro exI [of _ "fst ?u"]) (cases master; simp)
qed

section \<open>Properties\<close>

text \<open>Reconciling an entry again, with the same cluster and the same mode, changes nothing
  and has the same outcome: the controller reaches its fixed point in one step. It never
  touches the spec or the metadata.\<close>

theorem entry_Reconcile_stable:
  assumes "condition_laws E" "entry_Reconcile D E opts master get e = Some (e', p)"
  shows "entry_Reconcile D E opts master get e' = Some (e', p) \<and> e_Spec e' = e_Spec e \<and> e_Meta e' = e_Meta e"
  using assms by (rule entry_Reconcile_idem)

text \<open>An entry with valid data whose zone reference leads to a root zone without class, over a
  ready zone, is served by a controller without class: the root zone and the effective domain
  names (the products along the chain) are recorded, and the status is Ok, or the server
  condition true for the current generation.\<close>

theorem entry_Reconcile_serves:
  assumes "honest get" "refkey_law E" "condition_laws E"
    and "get (entry_namespace e, es_ZoneRef (e_Spec e)) = Inr zone" "es_ZoneRef (e_Spec e) \<noteq> []"
    and "zone_chain get (zone_namespace zone) (zone_parent zone) zs"
      "zone_name zone \<notin> set (chain_names (zone_parent zone) zs)"
    and "zs_Class (z_Spec (last (zone # zs))) = None" "so_Class opts = None"
    and "valid_entry D (e_Spec e)" "zt_State (z_Status zone) \<in> {''Ready'', ''Ok''}"
  shows "\<exists>e'. entry_Reconcile D E opts master get e = Some (e', None) \<and>
    et_RootZone (e_Status e') = zone_name (last (zone # zs)) \<and>
    Some (et_EffectiveDomainNames (e_Status e')) = names_along D (Some (es_DNSNames (e_Spec e))) (zone # zs) \<and>
    (if master then et_State (e_Status e') = ''Ok'' \<and> et_Message (e_Status e') = [] \<and> et_Conditions (e_Status e') = []
     else \<exists>c. cond_of (et_Conditions (e_Status e')) ServerConditionType = Some c \<and> c_Status c = ConditionTrue \<and>
       c_ObservedGeneration c = om_Generation (e_Meta e))"
  using assms by (rule entry_Reconcile_served)

definition ready :: "hosted_zone \<Rightarrow> hosted_zone" where
  "ready z = z\<lparr>z_Status := (z_Status z)\<lparr>zt_State := STATE_OK\<rparr>\<rparr>"

theorem entry_Reconcile_serves_witness:
  "\<exists>e'. entry_Reconcile ref_dns ref_ext master_options True (store_get [ready ZoneA, ready ZoneAA]) EntryAA_demo = Some (e', None) \<and>
     et_State (e_Status e') = ''Ok'' \<and>
     Some (et_EffectiveDomainNames (e_Status e')) = names_along ref_dns (Some [''demo'']) [ready ZoneAA, ready ZoneA]"
proof -
  let ?get = "store_get [ready ZoneA, ready ZoneAA]"
  have f: "?get (entry_namespace EntryAA_demo, es_ZoneRef (e_Spec EntryAA_demo)) = Inr (ready ZoneAA)"
    "es_ZoneRef (e_Spec EntryAA_demo) \<noteq> []"
    "zone_chain ?get (zone_namespace (ready ZoneAA)) (zone_parent (ready ZoneAA)) [ready ZoneA]"
    "zone_name (ready ZoneAA) \<notin> set (chain_names (zone_parent (ready ZoneAA)) [ready ZoneA])"
    "zs_Class (z_Spec (last [ready ZoneAA, ready ZoneA])) = None" "so_Class master_options = None"
    "zt_State (z_Status (ready ZoneAA)) \<in> {''Ready'', ''Ok''}" "es_DNSNames (e_Spec EntryAA_demo) = [''demo'']"
    and "ValidateEntryData ref_dns EntryAA_demo = None" by code_simp+
  then have v: "valid_entry ref_dns (e_Spec EntryAA_demo)" by (simp add: ValidateEntryData_None)
  from entry_Reconcile_serves [OF store_get_honest ref_refkey_law ref_condition_laws f(1-6) v f(7), of True]
  show ?thesis by (auto simp: f(8))
qed

theorem entry_Reconcile_stable_witness:
  "\<exists>e' p. entry_Reconcile ref_dns ref_ext master_options False (store_get [ZoneA, ZoneAA]) EntryAA_demo = Some (e', p) \<and>
     entry_Reconcile ref_dns ref_ext master_options False (store_get [ZoneA, ZoneAA]) e' = Some (e', p)"
proof -
  have "entry_Reconcile ref_dns ref_ext master_options False (store_get [ZoneA, ZoneAA]) EntryAA_demo \<noteq> None" by code_simp
  then obtain e' p where r: "entry_Reconcile ref_dns ref_ext master_options False (store_get [ZoneA, ZoneAA]) EntryAA_demo = Some (e', p)"
    by force
  from entry_Reconcile_stable [OF ref_condition_laws r] r show ?thesis by blast
qed

text \<open>An entry without data errors is still not served by a controller whose class is that of
  the root zone: \<open>Check\<close> fails, and the entry keeps its status (or loses it, if it named
  another root zone). No entry of a zone with a class is ever set to Ok.\<close>

theorem entry_Reconcile_class_unserved:
  assumes "rs_Class info = Some c"
  shows "entry_responsible D E opts master e zone info names =
    (if et_RootZone (e_Status e) \<noteq> [] \<and> et_RootZone (e_Status e) \<noteq> (case rs_Root info of None \<Rightarrow> [] | Some z \<Rightarrow> zone_name z)
     then e\<lparr>e_Status := (e_Status e)\<lparr>et_RootZone := [],
        et_Conditions := x_RemoveStatusCondition E (et_Conditions (e_Status e)) ServerConditionType,
        et_State := [], et_Message := []\<rparr>\<rparr> else e, None)"
  using assms by (simp add: entry_responsible_def Let_def Check_def split: option.splits)

theorem entry_Reconcile_class_unserved_witness:
  "entry_responsible ref_dns ref_ext \<lparr>so_Class = Some ''dns'', so_Slave = False\<rparr> True EntryAA_demo ZoneAA
     \<lparr>rs_Root = Some ZoneA, rs_Parent = None, rs_Runtime = None, rs_Class = Some ''dns''\<rparr> [''x.''] = (EntryAA_demo, None)"
  by (subst entry_Reconcile_class_unserved) (simp, simp add: EntryAA_demo_def zero_defs)

end
