(* ===== verification/Server_Zone.thy ===== *)
theory Server_Zone
  imports Server_Entry
begin

text \<open>
  The controller of the REST server for hosted zones (internal/controller/server/hostedzone):
  its settings with the two cache indices and the triggers, and the request, which keeps the
  zone model in step with the cluster. The state a request works on is the zone model, the
  objects enqueued for reconciliation, and the object itself.
\<close>

section \<open>Settings and triggers\<close>

record settings =
  st_options :: server_options
  st_ParentIndex :: "string \<Rightarrow> string \<Rightarrow> go_error + hosted_zone list"
  st_EntryIndex :: "string \<Rightarrow> string \<Rightarrow> go_error + coredns_entry list"

definition GetNestedZones :: "settings \<Rightarrow> string \<Rightarrow> string \<Rightarrow> go_error + hosted_zone list" where
  "GetNestedZones r ns n = st_ParentIndex r ns n"

definition GetEntriesForZone :: "settings \<Rightarrow> string \<Rightarrow> string \<Rightarrow> go_error + coredns_entry list" where
  "GetEntriesForZone r ns n = st_EntryIndex r ns n"

definition TriggerChildren :: "settings \<Rightarrow> object_key \<Rightarrow> queued list \<Rightarrow> queued list \<times> go_error option" where
  "TriggerChildren r obj q =
     (case GetNestedZones r (ok_Namespace obj) (ok_Name obj) of
        Inl err \<Rightarrow> (q, Some err)
      | Inr children \<Rightarrow>
          (foldl (\<lambda>q c. q @ [QZone (zone_namespace c, zone_name c)]) q children, None))"

definition TriggerEntries :: "settings \<Rightarrow> object_key \<Rightarrow> queued list \<Rightarrow> queued list \<times> go_error option" where
  "TriggerEntries r obj q =
     (case GetEntriesForZone r (ok_Namespace obj) (ok_Name obj) of
        Inl err \<Rightarrow> (q, Some err)
      | Inr entries \<Rightarrow>
          (foldl (\<lambda>q c. q @ [QEntry (entry_namespace c, entry_name c)]) q entries, None))"

text \<open>The errors of the triggers are dropped.\<close>

definition TriggerStatusChanged :: "settings \<Rightarrow> object_key \<Rightarrow> queued list \<Rightarrow> queued list" where
  "TriggerStatusChanged r key q = fst (TriggerEntries r key (fst (TriggerChildren r key q)))"

section \<open>The request\<close>

text \<open>
  The factory's \<open>CreateRequest\<close> reads the object's conditions without a test for a missing
  object.
\<close>

definition zone_CreateRequest :: "server_options \<Rightarrow> hosted_zone option \<Rightarrow> bool go" where
  "zone_CreateRequest opts obj =
     (case obj of None \<Rightarrow> Panic | Some z \<Rightarrow> Ret (IsMaster opts (zt_Conditions (z_Status z))))"

definition zone_String :: "str_ptr \<Rightarrow> string" where
  "zone_String s = (case s of None \<Rightarrow> [] | Some x \<Rightarrow> x)"

definition zone_updateStatus ::
    "'p ext \<Rightarrow> bool \<Rightarrow> hosted_zone \<Rightarrow> bool \<Rightarrow> string option \<Rightarrow> string option \<Rightarrow> hosted_zone" where
  "zone_updateStatus E master z force err oreason =
     (let s = z_Status z;
          s = (if master then (if length (zt_Conditions s) > 0 then s\<lparr>zt_Conditions := []\<rparr> else s) else s)
      in case err of
           Some msg \<Rightarrow>
             (let reason = (case oreason of None \<Rightarrow> ReasonServerValidationFailure | Some x \<Rightarrow> x)
              in z\<lparr>z_Status :=
                   (if master then
                      (if force \<or> zt_State s \<noteq> ''Invalid'' then
                         (if zt_Message s \<noteq> msg \<or> zt_State s \<noteq> ''Invalid''
                          then s\<lparr>zt_Message := msg, zt_State := ''Invalid''\<rparr> else s)
                       else s)
                    else s\<lparr>zt_Conditions := fst (x_SetStatusCondition E (zt_Conditions s)
                           (server_condition ConditionFalse (om_Generation (z_Meta z)) reason msg))\<rparr>)\<rparr>)
         | None \<Rightarrow>
             z\<lparr>z_Status :=
                (if master then
                   (if zt_Message s \<noteq> ''zone is served'' \<or> zt_State s \<noteq> ''Ok''
                    then s\<lparr>zt_Message := ''zone is served'', zt_State := ''Ok''\<rparr> else s)
                 else s\<lparr>zt_Conditions := fst (x_SetStatusCondition E (zt_Conditions s)
                        (server_condition ConditionTrue (om_Generation (z_Meta z))
                           ReasonServerActive ''hosted zone served''))\<rparr>)\<rparr>)"

text \<open>The result of a request: the model, the object and the problem.\<close>

type_synonym 'p zone_result = "model \<times> hosted_zone \<times> 'p option"

definition not_responsible :: "server_options \<Rightarrow> bool \<Rightarrow> hosted_zone \<Rightarrow> hosted_zone" where
  "not_responsible opts master z =
     (case zt_Observed (z_Status z) of
        Some obs \<Rightarrow>
          if master \<and> ob_Class obs = zone_String (so_Class opts)
          then z\<lparr>z_Status := (z_Status z)\<lparr>zt_Observed := None\<rparr>\<rparr> else z
      | None \<Rightarrow> z)"

definition zone_Reconcile ::
    "dns_lib \<Rightarrow> 'p ext \<Rightarrow> zones_order \<Rightarrow> server_options \<Rightarrow> bool \<Rightarrow> string \<Rightarrow> zone_getter \<Rightarrow> model \<Rightarrow> hosted_zone
     \<Rightarrow> 'p zone_result option" where
  "zone_Reconcile D E ord opts master cluster get m z =
     (let zk = ZoneKeyFromObject cluster (z_Meta z)
      in case GetRootInfo D E get z None of
           None \<Rightarrow> None
         | Some ((info, ok, prob), _) \<Rightarrow>
             (case prob of
                Some p \<Rightarrow>
                  Some (if \<not> ok then (m, z, Some p)
                        else (RemoveZone m zk, zone_updateStatus E master z False (Some (x_Message E p)) None, None))
              | None \<Rightarrow>
                  if \<not> Check (case info of None \<Rightarrow> no_resp | Some i \<Rightarrow> i) (so_Class opts) None then
                    Some (RemoveZone m zk, not_responsible opts master z, None)
                  else
                    (let z = (if master then z\<lparr>z_Status := (z_Status z)\<lparr>zt_Observed := Some
                                \<lparr>ob_Class = zone_String (so_Class opts),
                                 ob_Runtime = zone_String (zs_Runtime (z_Spec z))\<rparr>\<rparr>\<rparr> else z)
                     in case ValidateZone E z of
                          (reason, Some err) \<Rightarrow>
                            Some (RemoveZone m zk, zone_updateStatus E master z True (Some err) (Some reason), None)
                        | (_, None) \<Rightarrow>
                            map_option (\<lambda>(m', _). (m', zone_updateStatus E master z True None None, None))
                              (AddZone D E ord cluster zk z m))))"

definition zone_ReconcileDeleting ::
    "settings \<Rightarrow> string \<Rightarrow> object_key \<Rightarrow> hosted_zone \<Rightarrow> model \<times> queued list \<Rightarrow> model \<times> queued list" where
  "zone_ReconcileDeleting r cluster key z = (\<lambda>(m, q).
     (RemoveZone m (ZoneKeyFromObject cluster (z_Meta z)), TriggerStatusChanged r key q))"

definition zone_ReconcileDeleted ::
    "settings \<Rightarrow> string \<Rightarrow> object_key \<Rightarrow> model \<times> queued list \<Rightarrow> model \<times> queued list" where
  "zone_ReconcileDeleted r cluster key = (\<lambda>(m, q).
     (RemoveZone m (NewZoneKey cluster (ok_Namespace key) (ok_Name key)), TriggerStatusChanged r key q))"

section \<open>The model follows the cluster\<close>

text \<open>What a reconciliation of a zone makes of the model: removal or update of its key.\<close>

definition served :: "'p ext \<Rightarrow> server_options \<Rightarrow> zone_getter \<Rightarrow> hosted_zone \<Rightarrow> bool" where
  "served E opts get z \<longleftrightarrow>
     (\<exists>zs. zone_chain get (zone_namespace z) (zone_parent z) zs \<and>
        zone_name z \<notin> set (chain_names (zone_parent z) zs) \<and>
        zs_Class (z_Spec (last (z # zs))) = None) \<and>
     so_Class opts = None \<and> snd (ValidateZone E z) = None"

lemma ValidateZone_status: "ValidateZone E (z\<lparr>z_Status := s\<rparr>) = ValidateZone E z"
  by (simp add: ValidateZone_def)

lemma object_decl_status: "object_decl D (z\<lparr>z_Status := s\<rparr>) = object_decl D z"
  by (simp add: object_decl_def)

lemma Check_iff: "Check r class runtime \<longleftrightarrow> rs_Class r = None \<and> class = None"
  by (auto simp: Check_def split: option.splits)

lemma zone_call_status: "zone_call s (ZoneKeyFromObject s (z_Meta z)) (z\<lparr>z_Status := st\<rparr>)"
  by (simp add: zone_call_def)

lemma RemoveZone_abs_wf:
  "wf_model m \<Longrightarrow> wf_model (RemoveZone m k) \<and> abs_model (RemoveZone m k) = (abs_model m)(k := None)"
  by (simp add: RemoveZone_wf RemoveZone_abs)

lemma zone_Reconcile_model:
  assumes get: "honest get" and E: "refkey_law E" "problem_laws E"
    and fin: "finite_zones get (zone_namespace z)" and m: "wf_model m"
    and ord: "iteration_order ord"
    and r: "zone_Reconcile D E ord opts master cluster get m z = Some (m', z', p)"
  shows "wf_model m' \<and>
    (if p \<noteq> None then m' = m \<and> z' = z
     else abs_model m' = (abs_model m)(ZoneKeyFromObject cluster (z_Meta z) :=
       (if served E opts get z then Some (object_decl D z) else None)))"
proof -
  let ?zk = "ZoneKeyFromObject cluster (z_Meta z)"
  from r obtain info ok prob names where
    root: "GetRootInfo D E get z None = Some ((info, ok, prob), names)"
    by (auto simp: zone_Reconcile_def Let_def split: option.splits)
  show ?thesis
  proof (cases prob)
    case (Some q)
    have ns: "\<not> served E opts get z"
    proof
      assume "served E opts get z"
      then obtain zs where "zone_chain get (zone_namespace z) (zone_parent z) zs"
        "zone_name z \<notin> set (chain_names (zone_parent z) zs)" by (auto simp: served_def)
      then have "GetRootInfo D E get z None = Some ((Some (chain_resp (if zs = [] then None else Some (hd zs))
          (last (z # zs))), True, None), names_along D None (z # zs))"
        unfolding zone_root_iff [OF get E(1)] by blast
      with root Some show False by simp
    qed
    show ?thesis
    proof (cases ok)
      case True
      with r root Some have "m' = RemoveZone m ?zk" "p = None"
        by (auto simp: zone_Reconcile_def Let_def)
      with ns RemoveZone_abs_wf [OF m] show ?thesis by simp
    next
      case False
      with r root Some m show ?thesis by (auto simp: zone_Reconcile_def Let_def)
    qed
  next
    case None
    obtain i where i: "info = Some i" "ok"
      using zone_root_total [OF get E(1) fin E(2), of D None] root None by auto
    from root None i have "GetRootInfo D E get z None = Some ((Some i, True, None), names)" by simp
    then obtain zs where zs: "zone_chain get (zone_namespace z) (zone_parent z) zs"
      "zone_name z \<notin> set (chain_names (zone_parent z) zs)"
      "i = chain_resp (if zs = [] then None else Some (hd zs)) (last (z # zs))"
      unfolding zone_root_iff [OF get E(1)] by blast
    have chk: "Check i (so_Class opts) None \<longleftrightarrow> zs_Class (z_Spec (last (z # zs))) = None \<and> so_Class opts = None"
      by (simp add: Check_iff zs(3) chain_resp_def)
    have srv: "served E opts get z \<longleftrightarrow> Check i (so_Class opts) None \<and> snd (ValidateZone E z) = None"
      using zs zone_chain_unique [OF zs(1)] unfolding served_def chk by blast
    let ?z = "if master then z\<lparr>z_Status := (z_Status z)\<lparr>zt_Observed := Some
        \<lparr>ob_Class = zone_String (so_Class opts), ob_Runtime = zone_String (zs_Runtime (z_Spec z))\<rparr>\<rparr>\<rparr> else z"
    have z: "ValidateZone E ?z = ValidateZone E z" "object_decl D ?z = object_decl D z" "zone_call cluster ?zk ?z"
      by (simp_all add: ValidateZone_status object_decl_status zone_call_def)
    show ?thesis
    proof (cases "Check i (so_Class opts) None")
      case False
      with r root None i have "m' = RemoveZone m ?zk" "p = None" by (auto simp: zone_Reconcile_def Let_def)
      with False srv RemoveZone_abs_wf [OF m] show ?thesis by simp
    next
      case True
      have rec: "zone_Reconcile D E ord opts master cluster get m z =
          (case ValidateZone E z of
             (reason, Some err) \<Rightarrow> Some (RemoveZone m ?zk, zone_updateStatus E master ?z True (Some err) (Some reason), None)
           | (_, None) \<Rightarrow> map_option (\<lambda>(m', _). (m', zone_updateStatus E master ?z True None None, None))
               (AddZone D E ord cluster ?zk ?z m))"
        unfolding zone_Reconcile_def Let_def root using True None i z(1) by simp
      show ?thesis
      proof (cases "snd (ValidateZone E z)")
        case (Some err)
        then have "m' = RemoveZone m ?zk \<and> p = None"
          using r unfolding rec by (cases "ValidateZone E z") simp
        with Some srv RemoveZone_abs_wf [OF m] show ?thesis by simp
      next
        case None
        then obtain a where "AddZone D E ord cluster ?zk ?z m = Some (m', a)" "p = None"
          using r unfolding rec by (cases "ValidateZone E z") auto
        with None True srv AddZone_abs [OF m ord E(1) z(3)] AddZone_wf_aux [OF m ord E(1) z(3)] z(2)
        show ?thesis by simp
      qed
    qed
  qed
qed


section \<open>Reachable models\<close>

text \<open>
  The steps the server can take on its model: reconciling a zone under any cluster state and
  map order, and the two deletions. A reconciliation that does not return is no step.
\<close>

inductive model_step :: "dns_lib \<Rightarrow> 'p ext \<Rightarrow> model \<Rightarrow> model \<Rightarrow> bool" for D E where
  step_reconcile: "zone_Reconcile D E ord opts master cluster get m z = Some (m', z', p) \<Longrightarrow>
    honest get \<Longrightarrow> finite_zones get (zone_namespace z) \<Longrightarrow> iteration_order ord \<Longrightarrow> model_step D E m m'"
| step_deleting: "zone_ReconcileDeleting r cluster key z (m, q) = (m', q') \<Longrightarrow> model_step D E m m'"
| step_deleted: "zone_ReconcileDeleted r cluster key (m, q) = (m', q') \<Longrightarrow> model_step D E m m'"

inductive_cases model_stepE: "model_step D E m m'"

inductive reachable :: "dns_lib \<Rightarrow> 'p ext \<Rightarrow> model \<Rightarrow> bool" for D E where
  reach_New: "reachable D E New"
| reach_step: "reachable D E m \<Longrightarrow> model_step D E m m' \<Longrightarrow> reachable D E m'"

lemma model_step_wf:
  assumes "refkey_law E" "problem_laws E" and step: "model_step D E m m'" and m: "wf_model m"
  shows "wf_model m'"
  using step
proof (rule model_stepE)
  fix ord opts master cluster get z z' p
  assume "zone_Reconcile D E ord opts master cluster get m z = Some (m', z', p)"
    and "honest get" "finite_zones get (zone_namespace z)" "iteration_order ord"
  with zone_Reconcile_model [of get E z m ord D opts master cluster m' z' p] assms(1,2) m
  show ?thesis by blast
next
  fix r cluster key z q q'
  assume "zone_ReconcileDeleting r cluster key z (m, q) = (m', q')"
  then show ?thesis using RemoveZone_wf [OF m] by (auto simp: zone_ReconcileDeleting_def)
next
  fix r cluster key q q'
  assume "zone_ReconcileDeleted r cluster key (m, q) = (m', q')"
  then show ?thesis using RemoveZone_wf [OF m] by (auto simp: zone_ReconcileDeleted_def)
qed

lemma reachable_wf_aux:
  assumes "refkey_law E" "problem_laws E" and "reachable D E m"
  shows "wf_model m"
  using assms(3)
  by (induction rule: reachable.induct) (auto intro: New_wf model_step_wf [OF assms(1,2)])

text \<open>The triggers enqueue what the indices return.\<close>

lemma TriggerStatusChanged_eq:
  "TriggerStatusChanged r key q = q
     @ (case GetNestedZones r (ok_Namespace key) (ok_Name key) of
          Inl _ \<Rightarrow> [] | Inr cs \<Rightarrow> map (\<lambda>c. QZone (zone_namespace c, zone_name c)) cs)
     @ (case GetEntriesForZone r (ok_Namespace key) (ok_Name key) of
          Inl _ \<Rightarrow> [] | Inr es \<Rightarrow> map (\<lambda>c. QEntry (entry_namespace c, entry_name c)) es)"
  by (simp add: foldl_snoc TriggerStatusChanged_def TriggerChildren_def TriggerEntries_def split: sum.splits)

section \<open>Properties\<close>

text \<open>C3: after a reconciliation without problem the model's declaration for the zone's key is
  the object's own, if the zone is served (a chain of existing zones up to a root without
  class, a controller without class, a valid spec), and absent otherwise; all other keys keep
  theirs. A reconciliation with a problem changes neither model nor object.\<close>

theorem zone_Reconcile_follows:
  assumes "honest get" "refkey_law E" "problem_laws E" "finite_zones get (zone_namespace z)" "wf_model m"
    and "iteration_order ord"
    and "zone_Reconcile D E ord opts master cluster get m z = Some (m', z', p)"
  shows "wf_model m' \<and>
    (if p \<noteq> None then m' = m \<and> z' = z
     else abs_model m' = (abs_model m)(ZoneKeyFromObject cluster (z_Meta z) :=
       (if served E opts get z then Some (object_decl D z) else None)))"
  using assms by (rule zone_Reconcile_model)

definition ZoneA_full :: hosted_zone where
  "ZoneA_full = ZoneA\<lparr>z_Spec := (z_Spec ZoneA)\<lparr>zs_EMail := ''admin@mandelsoft.de'', zs_Expire := 86400,
     zs_Refresh := 3600, zs_Retry := 300, zs_MinimumTTL := 60\<rparr>\<rparr>"

theorem zone_Reconcile_follows_witness:
  "\<exists>m' z'. zone_Reconcile ref_dns ref_ext (\<lambda>xs. xs) master_options True test_Source (store_get [ZoneA_full]) New ZoneA_full
     = Some (m', z', None) \<and>
   abs_model m' = (abs_model New)(test_key ZoneA_full \<mapsto> ([], [''mandelsoft.de.'', ''mandelsoft.org.'']))"
proof -
  let ?r = "zone_Reconcile ref_dns ref_ext (\<lambda>xs. xs) master_options True test_Source (store_get [ZoneA_full]) New ZoneA_full"
  have "case ?r of Some (m', z', None) \<Rightarrow> True | _ \<Rightarrow> False" by code_simp
  then obtain m' z' where r: "?r = Some (m', z', None)"
    by (auto split: option.splits prod.splits) (metis not_None_eq surj_pair)+
  have "zone_chain (store_get [ZoneA_full]) (zone_namespace ZoneA_full) (zone_parent ZoneA_full) []"
    "zs_Class (z_Spec (last [ZoneA_full])) = None" "so_Class master_options = None"
    "snd (ValidateZone ref_ext ZoneA_full) = None"
    "object_decl ref_dns ZoneA_full = ([], [''mandelsoft.de.'', ''mandelsoft.org.''])" by code_simp+
  moreover from this have "served ref_ext master_options (store_get [ZoneA_full]) ZoneA_full"
    unfolding served_def by (intro conjI exI [of _ "[]"]) simp_all
  ultimately show ?thesis
    using zone_Reconcile_follows [OF store_get_honest ref_refkey_law ref_problem_laws store_get_finite New_wf
        iteration_order_id r] r by (simp add: test_key_def)
qed

text \<open>C1: every model the server can reach, by any sequence of reconciliations and deletions of
  zones, under any states of the cluster, is well-formed.\<close>

theorem reachable_wf:
  assumes "refkey_law E" "problem_laws E" "reachable D E m"
  shows "wf_model m"
  using assms by (rule reachable_wf_aux)

theorem reachable_wf_witness:
  "\<exists>m. reachable ref_dns ref_ext m \<and> GetZone m (test_key ZoneA_full) = Some 0 \<and> wf_model m"
proof -
  let ?r = "zone_Reconcile ref_dns ref_ext (\<lambda>xs. xs) master_options True test_Source (store_get [ZoneA_full]) New ZoneA_full"
  have "case ?r of Some (m', z', None) \<Rightarrow> GetZone m' (test_key ZoneA_full) = Some 0 | _ \<Rightarrow> False" by code_simp
  then obtain m' z' where r: "?r = Some (m', z', None)" and g: "GetZone m' (test_key ZoneA_full) = Some 0"
    by (auto split: option.splits prod.splits) (metis not_None_eq surj_pair)+
  have "reachable ref_dns ref_ext m'"
    using reach_New step_reconcile [OF r store_get_honest store_get_finite iteration_order_id] by (rule reach_step)
  with reachable_wf [OF ref_refkey_law ref_problem_laws this] g show ?thesis by blast
qed

text \<open>Deleting a zone removes its key from the model, keeps every other declaration, and
  enqueues, after what is enqueued already, the nested zones and then the entries the indices
  return for it; an index that fails is skipped. The two deletion handlers agree on the key of
  an object.\<close>

theorem zone_deletion:
  assumes "key = (zone_namespace z, zone_name z)"
  shows "zone_ReconcileDeleting r cluster key z (m, q) = zone_ReconcileDeleted r cluster key (m, q) \<and>
    abs_model (fst (zone_ReconcileDeleted r cluster key (m, q))) =
      (abs_model m)(ZoneKeyFromObject cluster (z_Meta z) := None) \<and>
    snd (zone_ReconcileDeleted r cluster key (m, q)) = q
     @ (case GetNestedZones r (zone_namespace z) (zone_name z) of
          Inl _ \<Rightarrow> [] | Inr cs \<Rightarrow> map (\<lambda>c. QZone (zone_namespace c, zone_name c)) cs)
     @ (case GetEntriesForZone r (zone_namespace z) (zone_name z) of
          Inl _ \<Rightarrow> [] | Inr es \<Rightarrow> map (\<lambda>c. QEntry (entry_namespace c, entry_name c)) es)"
  using assms
  by (simp add: zone_ReconcileDeleting_def zone_ReconcileDeleted_def RemoveZone_abs TriggerStatusChanged_eq
      ZoneKeyFromObject_def NewZoneKey_def)

theorem zone_deletion_witness:
  "snd (zone_ReconcileDeleted \<lparr>st_options = master_options, st_ParentIndex = (\<lambda>ns n. Inr [ZoneAA]),
      st_EntryIndex = (\<lambda>ns n. Inl (Errorf ''index''))\<rparr> test_Source (''default'', ''a'') (model_AA, []))
   = [QZone (''default'', ''aa'')]"
proof -
  have k: "(''default'', ''a'') = (zone_namespace ZoneA, zone_name ZoneA)"
    and n: "(zone_namespace ZoneAA, zone_name ZoneAA) = (''default'', ''aa'')" by code_simp+
  show ?thesis
    using zone_deletion [OF k, of "\<lparr>st_options = master_options, st_ParentIndex = (\<lambda>ns n. Inr [ZoneAA]),
      st_EntryIndex = (\<lambda>ns n. Inl (Errorf ''index''))\<rparr>" test_Source model_AA "[]"]
    by (simp add: GetNestedZones_def GetEntriesForZone_def n)
qed

end
