(* ===== verification/Server_Answers.thy ===== *)
theory Server_Answers
  imports Server_Zone
begin

text \<open>
  The parts of the REST server together: the controller for zones puts a zone into the model,
  the cache index finds the entries, and the handler of a name request answers from both.
\<close>

section \<open>A name of the zone itself\<close>

text \<open>A relative name in front of a domain of the zone that no nested zone takes.\<close>

lemma ResolveFQDN_own:
  assumes laws: "dns_laws D" and zn: "plain zn" "ends_dot zn" "zn \<noteq> ''.''"
    and n: "n \<noteq> []" "plain n" "\<not> ends_dot n"
    and m: "Matches D (m_heap m ! a) (n @ ''.'' @ zn) = zn" "nested_match D ord (m_heap m) a n = None"
  shows "ResolveFQDN D ord I m a (n @ ''.'' @ zn) = Some (Ret (found a zn (spec_lookup
    (LookupRelativeDomainName I (zn_source (m_heap m ! a)) (zn_key (m_heap m ! a))) n zn)))"
proof -
  let ?q = "n @ ''.'' @ zn"
  have law: "fqdn_law D" using laws by (simp add: dns_laws_def)
  have z: "zn \<noteq> []" using zn(2) by (auto simp: ends_dot_def)
  have "plain ?q" "ends_dot ?q" using n(2) zn z by (simp_all add: ends_dot_def)
  then have q: "dns_Fqdn D ?q = ?q" by (simp only: fqdn_lawD [OF law] if_True)
  have join: "Join D [zn, []] = Ret zn" using z zn by (simp add: Join_root fqdn_lawD [OF law])
  have "take (length ?q - length zn) ?q = n @ ''.''" by simp
  then have r: "Rdn (take (length ?q - length zn) ?q) = n" using Rdn_id [OF n(3)] by (simp only: Rdn_snoc_dot)
  have "forward D ord (m_heap m) zn ?q a [] = Some (Ret (n, a, zn))"
    using forward_descend [OF _ join, of ?q ord "m_heap m" a] unfolding r descend_def by (simp add: m(2))
  then show ?thesis
    unfolding ResolveFQDN_def Let_def q m(1) using z
    by (simp add: ns_loop_spec [OF laws z zn(1,2) n(2,3)] found_def)
qed

lemma spec_lookup_no_NS:
  assumes "rel \<noteq> []" "look rel = Inr es" "\<And>s es e. look s = Inr es \<Longrightarrow> e \<in> set es \<Longrightarrow> \<not> has_NS e" "\<And>s. \<exists>es. look s = Inr es"
  shows "spec_lookup look rel cur = Inr (Entries es (jn rel cur))"
proof -
  have nd: "\<not> decisive look s" for s
    using assms(3,4) [of s] by (auto simp: decisive_def list_ex_iff)
  have "find has_NS es = None" using assms(2,3) by (auto simp: find_None_iff)
  moreover have "find (decisive look) xs = None" for xs using nd by (simp add: find_None_iff)
  ultimately show ?thesis using assms(1,2) by (simp add: spec_lookup_def decided_def)
qed

text \<open>The domains of a root zone in the model, and which of them a name is matched with.\<close>

lemma Matches_longest_is:
  assumes "d \<in> set (zn_names z)" "dns_IsSubDomain D d q"
    and "\<And>d'. d' \<in> set (zn_names z) \<Longrightarrow> dns_IsSubDomain D d' q \<Longrightarrow> d' = d \<or> length d' < length d" "d \<noteq> []"
  shows "Matches D z q = d"
  using Matches_props(1) [of D z q] Matches_props(2) [OF assms(1,2)] assms(3) [of "Matches D z q"] assms(4) by auto

section \<open>A request for a name\<close>

text \<open>The stored entries of a zone with a name, and the path of a request.\<close>

definition zone_entries :: "'p ext \<Rightarrow> server_options \<Rightarrow> coredns_entry list \<Rightarrow> zone_key \<Rightarrow> string \<Rightarrow> coredns_entry set" where
  "zone_entries E opts st key n =
     {e \<in> set st. belongs_to e key \<and> indexed E opts e \<and> n \<in> Rdn ` set (es_DNSNames (e_Spec e))}"

definition name_path :: "zone_key \<Rightarrow> string \<Rightarrow> string" where
  "name_path key q = PATH_ZONES @ str_join ''/'' [zk_ClusterName key, zk_Namespace key, zk_Name key, q]"

text \<open>The cache index never fails.\<close>

definition index_up :: "index_get \<Rightarrow> bool" where
  "index_up cg \<longleftrightarrow> (\<forall>f src ns key. \<exists>es. cg f src ns key = Inr es)"

lemma own_lookup:
  assumes law: "index_law (\<lambda>_. st) cg" "index_up cg" and key: "slash_free (zk_Name key)"
    and ns: "\<And>e. e \<in> set st \<Longrightarrow> belongs_to e key \<Longrightarrow> \<not> has_NS e" and n: "n \<noteq> []"
  shows "\<exists>es. spec_lookup (comp_LookupRelativeDomainName E opts cg src key) n cur = Inr (Entries es (jn n cur)) \<and>
    set es = zone_entries E opts st key n"
proof -
  let ?look = "comp_LookupRelativeDomainName E opts cg src key"
  have up: "\<exists>es. ?look s = Inr es" for s
    using law(2) by (simp add: index_up_def comp_LookupRelativeDomainName_def)
  then obtain es where es: "?look n = Inr es" by blast
  have no: "\<not> has_NS e" if "?look s = Inr xs" "e \<in> set xs" for s xs e
    using lookup_name_exact [OF law(1) key that(1)] that(2) ns by blast
  have "spec_lookup ?look n cur = Inr (Entries es (jn n cur))"
    by (rule spec_lookup_no_NS [where look = ?look, OF n es no up])
  with lookup_name_exact [OF law(1) key es] show ?thesis by (auto simp: zone_entries_def)
qed

text \<open>The answer if the query ends in a zone \<open>a\<close>, asked at the zone itself or above it.\<close>

lemma handleNames_found:
  assumes laws: "index_law (\<lambda>_. st) cg" "index_up cg"
    and path: "slash_free (zk_ClusterName rkey)" "slash_free (zk_Namespace rkey)" "slash_free (zk_Name rkey)" "slash_free (jn n cur)"
    and z: "GetZone m rkey = Some p" "zn_key (m_heap m ! a) = key" "slash_free (zk_Name key)" and n: "n \<noteq> []"
    and res: "ResolveFQDN D ord (Component_index (E, opts, cg)) m p (jn n cur) = Some (Ret (found a cur
      (spec_lookup (comp_LookupRelativeDomainName E opts cg (zn_source (m_heap m ! a)) key) n cur)))"
    and ns: "\<And>e. e \<in> set st \<Longrightarrow> belongs_to e key \<Longrightarrow> \<not> has_NS e"
    and obj: "\<And>src. getz src (zk_Namespace key, zk_Name key) = Inr obj"
  shows "\<exists>i es. handleNames D ord (Component_index (E, opts, cg)) m getz (name_path rkey (jn n cur)) = Some (Ret (send_answer [i])) \<and>
    ai_Names i = [jn n cur] \<and> az_Names (ai_Zone i) = [cur] \<and>
    set es = zone_entries E opts st key n \<and> ai_Records i = foldl add_records zero_records es"
proof -
  obtain es where es: "spec_lookup (comp_LookupRelativeDomainName E opts cg (zn_source (m_heap m ! a)) key) n cur =
      Inr (Entries es (jn n cur))" "set es = zone_entries E opts st key n"
    using own_lookup [OF laws z(3) ns n] by blast
  let ?i = "\<lparr>ai_Zone = (zone_data (m_heap m ! a) obj)\<lparr>az_Names := [cur]\<rparr>, ai_Names = [jn n cur],
    ai_Records = foldl add_records zero_records es\<rparr>"
  have k: "NewZoneKey (zk_ClusterName rkey) (zk_Namespace rkey) (zk_Name rkey) = rkey" by (simp add: NewZoneKey_def)
  have "handleNames D ord (Component_index (E, opts, cg)) m getz (name_path rkey (jn n cur)) = Some (Ret (send_answer [?i]))"
    using path_fields [OF path] obj
    by (simp add: handleNames_def name_path_def k z(1,2) res found_def es(1) answer_info_def prepareInfo_def)
  then show ?thesis using es(2) by (intro exI [of _ ?i] exI [of _ es]) simp
qed

lemma handleNames_own:
  assumes laws: "dns_laws D" "index_law (\<lambda>_. st) cg" "index_up cg"
    and key: "slash_free (zk_ClusterName key)" "slash_free (zk_Namespace key)" "slash_free (zk_Name key)" "slash_free (n @ ''.'' @ zn)"
    and z: "GetZone m key = Some a" "zn_key (m_heap m ! a) = key"
    and zn: "plain zn" "ends_dot zn" "zn \<noteq> ''.''" and n: "n \<noteq> []" "plain n" "\<not> ends_dot n"
    and match: "Matches D (m_heap m ! a) (n @ ''.'' @ zn) = zn" "nested_match D ord (m_heap m) a n = None"
    and ns: "\<And>e. e \<in> set st \<Longrightarrow> belongs_to e key \<Longrightarrow> \<not> has_NS e"
    and obj: "\<And>src. getz src (zk_Namespace key, zk_Name key) = Inr obj"
  shows "\<exists>i es. handleNames D ord (Component_index (E, opts, cg)) m getz (name_path key (n @ ''.'' @ zn)) = Some (Ret (send_answer [i])) \<and>
    ai_Names i = [n @ ''.'' @ zn] \<and> az_Names (ai_Zone i) = [zn] \<and>
    set es = zone_entries E opts st key n \<and> ai_Records i = foldl add_records zero_records es"
proof -
  have j: "jn n zn = n @ ''.'' @ zn" using n(1) zn(3) by (simp add: jn_def)
  have "ResolveFQDN D ord (Component_index (E, opts, cg)) m a (jn n zn) = Some (Ret (found a zn
      (spec_lookup (comp_LookupRelativeDomainName E opts cg (zn_source (m_heap m ! a)) key) n zn)))"
    using ResolveFQDN_own [OF laws(1) zn n match] unfolding j by (simp add: z(2) Component_index_def)
  from handleNames_found [where getz = getz, OF laws(2,3) key(1-3) key(4) [folded j] z key(3) n(1) this ns obj]
  show ?thesis unfolding j .
qed

text \<open>
  The relative name \<open>n\<close> in front of the domain \<open>d\<close> of a root zone, the longest of its domains
  the name lies in; and the path of a request in which nothing but the separators is a slash.
\<close>

definition own_name :: "dns_lib \<Rightarrow> hosted_zone \<Rightarrow> string \<Rightarrow> string \<Rightarrow> bool" where
  "own_name D z d n \<longleftrightarrow> d \<in> set (zs_DomainNames (z_Spec z)) \<and> plain d \<and> d \<notin> {[], ''.''} \<and>
     n \<noteq> [] \<and> plain n \<and> \<not> ends_dot n \<and> dns_IsSubDomain D (dns_Fqdn D d) (n @ ''.'' @ dns_Fqdn D d) \<and>
     (\<forall>d' \<in> dns_Fqdn D ` set (zs_DomainNames (z_Spec z)). dns_IsSubDomain D d' (n @ ''.'' @ dns_Fqdn D d) \<longrightarrow>
        d' = dns_Fqdn D d \<or> length d' < length (dns_Fqdn D d))"

definition proper_path :: "zone_key \<Rightarrow> string \<Rightarrow> bool" where
  "proper_path key q \<longleftrightarrow> slash_free (zk_ClusterName key) \<and> slash_free (zk_Namespace key) \<and> slash_free (zk_Name key) \<and> slash_free q"

lemma served_root_answers:
  assumes model: "wf_model m" "abs_model m key = Some (object_decl D z)" "zone_parent z = []" and own: "own_name D z d n"
    and laws: "dns_laws D" "index_law (\<lambda>_. st) cg" "index_up cg" and obj: "\<And>src. getz src (zk_Namespace key, zk_Name key) = Inr obj"
    and path: "proper_path key (n @ ''.'' @ dns_Fqdn D d)"
    and nest: "\<And>a. GetZone m key = Some a \<Longrightarrow> nested_match D ord (m_heap m) a n = None"
    and ns: "\<And>e. e \<in> set st \<Longrightarrow> belongs_to e key \<Longrightarrow> \<not> has_NS e"
  shows "\<exists>i es. handleNames D ord (Component_index (E, opts, cg)) m getz (name_path key (n @ ''.'' @ dns_Fqdn D d)) =
      Some (Ret (send_answer [i])) \<and> ai_Names i = [n @ ''.'' @ dns_Fqdn D d] \<and> az_Names (ai_Zone i) = [dns_Fqdn D d] \<and>
    set es = zone_entries E opts st key n \<and> ai_Records i = foldl add_records zero_records es"
proof -
  let ?zn = "dns_Fqdn D d"
  from model(2) obtain a where a: "GetZone m key = Some a" "zone_decl (m_heap m ! a) = object_decl D z"
    by (auto simp: abs_model_def)
  then have names: "zn_names (m_heap m ! a) = map (dns_Fqdn D) (zs_DomainNames (z_Spec z))"
    using model(3) by (simp add: zone_decl_def object_decl_def)
  have k: "zn_key (m_heap m ! a) = key" using model(1) a(1) by (auto simp: wf_model_def GetZone_def dest: wf_zones_lookup)
  have law: "fqdn_law D" using laws(1) by (simp add: dns_laws_def)
  from own have d: "d \<in> set (zs_DomainNames (z_Spec z))" "plain d" "d \<notin> {[], ''.''}" and n: "n \<noteq> []" "plain n" "\<not> ends_dot n"
    by (simp_all add: own_name_def)
  have zn: "plain ?zn" "ends_dot ?zn" "?zn \<noteq> ''.''" "?zn \<noteq> []"
    using d(2,3) plain_Fqdn [OF law d(2)] Fqdn_ends_dot [OF law d(2)] Fqdn_nonempty [OF law d(2)]
    by (auto simp: fqdn_lawD [OF law] split: if_splits)
  have match: "Matches D (m_heap m ! a) (n @ ''.'' @ ?zn) = ?zn"
  proof (rule Matches_longest_is)
    show "?zn \<in> set (zn_names (m_heap m ! a))" using d(1) names by simp
    show "dns_IsSubDomain D ?zn (n @ ''.'' @ ?zn)" using own by (simp add: own_name_def)
    show "d' = ?zn \<or> length d' < length ?zn"
      if "d' \<in> set (zn_names (m_heap m ! a))" "dns_IsSubDomain D d' (n @ ''.'' @ ?zn)" for d'
      using own that names by (simp only: own_name_def set_map)
  qed (rule zn(4))
  from path have p: "slash_free (zk_ClusterName key)" "slash_free (zk_Namespace key)" "slash_free (zk_Name key)"
    "slash_free (n @ ''.'' @ ?zn)" by (simp_all add: proper_path_def)
  show ?thesis
    by (rule handleNames_own [where a = a and getz = getz, OF laws p a(1) k zn(1-3) n match nest [OF a(1)] ns obj])
qed

section \<open>Properties\<close>

text \<open>C6: a served zone answers for its entries: after the controller has reconciled a served root zone,
  a request for a relative name in front of one of its domains (the longest the name lies in),
  which no nested zone takes and in a zone without delegations, is answered 200 with one
  document for that name; its records are those of exactly the stored entries of the zone that
  carry the name, whatever the model held before.\<close>

theorem served_zone_answers:
  assumes "honest get" "refkey_law E" "problem_laws E" "finite_zones get (zone_namespace z)" "wf_model m" "iteration_order ord"
    and "zone_Reconcile D E ord opts master cluster get m z = Some (m', z', None)" "served E opts get z" "zone_parent z = []"
    and "key = ZoneKeyFromObject cluster (z_Meta z)" "own_name D z d n"
    and "dns_laws D" "index_law (\<lambda>_. st) cg" "index_up cg" "\<And>src. getz src (zk_Namespace key, zk_Name key) = Inr obj"
    and "proper_path key (n @ ''.'' @ dns_Fqdn D d)"
    and "\<And>a. GetZone m' key = Some a \<Longrightarrow> nested_match D ord' (m_heap m') a n = None"
    and "\<And>e. e \<in> set st \<Longrightarrow> belongs_to e key \<Longrightarrow> \<not> has_NS e"
  shows "\<exists>i es. handleNames D ord' (Component_index (E', opts', cg)) m' getz (name_path key (n @ ''.'' @ dns_Fqdn D d)) =
      Some (Ret (send_answer [i])) \<and> ai_Names i = [n @ ''.'' @ dns_Fqdn D d] \<and> az_Names (ai_Zone i) = [dns_Fqdn D d] \<and>
    set es = zone_entries E' opts' st key n \<and> ai_Records i = foldl add_records zero_records es"
proof -
  have "wf_model m'" "abs_model m' key = Some (object_decl D z)"
    using zone_Reconcile_model [OF assms(1-7)] assms(8,10) by auto
  from served_root_answers [where cg = cg and getz = getz, OF this assms(9,11-18)] show ?thesis .
qed

definition own_entries :: "coredns_entry list" where
  "own_entries = [EntryA_demo, EntryA_test, EntryAA_demo]"

abbreviation serve_zone :: "model \<Rightarrow> string \<Rightarrow> http_response go option" where
  "serve_zone m path \<equiv> handleNames ref_dns (\<lambda>xs. xs) (Component_index (ref_ext, master_options, ref_index own_entries)) m
     (\<lambda>_. store_get [ZoneA_full]) path"

theorem served_zone_answers_witness:
  "\<exists>m' i. (\<exists>z'. zone_Reconcile ref_dns ref_ext (\<lambda>xs. xs) master_options True test_Source (store_get [ZoneA_full]) New ZoneA_full = Some (m', z', None)) \<and>
     serve_zone m' ''/api/v1/zones/cluster/default/a/test.mandelsoft.de.'' = Some (Ret (send_answer [i])) \<and> set (ar_A (ai_Records i)) = {''8.8.8.9''}"
proof -
  let ?r = "zone_Reconcile ref_dns ref_ext (\<lambda>xs. xs) master_options True test_Source (store_get [ZoneA_full]) New ZoneA_full"
  let ?m = "fst (the ?r)" and ?key = "ZoneKeyFromObject test_Source (z_Meta ZoneA_full)"
  have some: "?r = Some (?m, fst (snd (the ?r)), None)" by code_simp
  have c: "zone_chain (store_get [ZoneA_full]) (zone_namespace ZoneA_full) (zone_parent ZoneA_full) []"
    "zs_Class (z_Spec (last [ZoneA_full])) = None" "so_Class master_options = None"
    "snd (ValidateZone ref_ext ZoneA_full) = None" "zone_parent ZoneA_full = []"
    "own_name ref_dns ZoneA_full ''mandelsoft.de'' ''test''"
    "store_get [ZoneA_full] (zk_Namespace ?key, zk_Name ?key) = Inr ZoneA_full"
    "proper_path ?key (''test'' @ ''.'' @ dns_Fqdn ref_dns ''mandelsoft.de'')"
    "name_path ?key (''test'' @ ''.'' @ dns_Fqdn ref_dns ''mandelsoft.de'') = ''/api/v1/zones/cluster/default/a/test.mandelsoft.de.''"
    "list_all (\<lambda>e. belongs_to e ?key \<longrightarrow> \<not> has_NS e) own_entries"
    "(case GetZone ?m ?key of Some a \<Rightarrow> nested_match ref_dns (\<lambda>xs. xs) (m_heap ?m) a ''test'' = None | None \<Rightarrow> True)"
    "list_all (\<lambda>e. belongs_to e ?key \<and> es_ZoneRef (e_Spec e) \<noteq> [] \<and> ''test'' \<in> Rdn ` set (es_DNSNames (e_Spec e)) \<longleftrightarrow> e = EntryA_test) own_entries"
    "list_all (\<lambda>e. slash_free (es_ZoneRef (e_Spec e))) own_entries" "es_A (e_Spec EntryA_test) = [''8.8.8.9'']" "EntryA_test \<in> set own_entries"
    by code_simp+
  from c(1-4) have srv: "served ref_ext master_options (store_get [ZoneA_full]) ZoneA_full"
    unfolding served_def by (intro conjI exI [of _ "[]"]) simp_all
  have up: "index_up (ref_index own_entries)" by (simp add: index_up_def ref_index_def)
  have e: "zone_entries ref_ext master_options own_entries ?key ''test'' = {EntryA_test}"
    using c(12,15) by (auto simp: zone_entries_def list_all_iff indexed_def master_options_def)
  have nest: "nested_match ref_dns (\<lambda>xs. xs) (m_heap ?m) a ''test'' = None" if "GetZone ?m ?key = Some a" for a
    using c(11) unfolding that by simp
  have ns: "\<not> has_NS e" if "e \<in> set own_entries" "belongs_to e ?key" for e
    using c(10) that by (simp add: list_all_iff)
  obtain i es where i: "serve_zone ?m (name_path ?key (''test'' @ ''.'' @ dns_Fqdn ref_dns ''mandelsoft.de'')) = Some (Ret (send_answer [i]))"
    "set es = {EntryA_test}" "ai_Records i = foldl add_records zero_records es"
    using served_zone_answers [where E' = ref_ext and opts' = master_options and ord' = "\<lambda>xs. xs" and st = own_entries
        and cg = "ref_index own_entries" and getz = "\<lambda>_. store_get [ZoneA_full]",
        OF store_get_honest ref_refkey_law ref_problem_laws store_get_finite New_wf iteration_order_id some srv c(5) refl c(6)
          ref_dns_laws ref_index_law [OF c(13)] up c(7,8) nest ns] unfolding e by blast
  have "set (ar_A (ai_Records i)) = (\<Union>e \<in> set es. set (es_A (e_Spec e)))"
    unfolding i(3) add_records_fold by (simp add: zero_records_def)
  also have "\<dots> = {''8.8.8.9''}" by (simp add: i(2) c(14))
  finally show ?thesis using some i(1) unfolding c(9) by blast
qed

end
