(* ===== verification/Server_Web.thy ===== *)
theory Server_Web
  imports Server_Answers
begin

text \<open>
  The web server of the REST component (internal/controller/server/servercomp, server.go and
  def.go): its endpoints, their registration and the dispatch of a request. The listener and
  \<open>http.ServeMux\<close> are the standard library's; of the latter the registration of patterns
  and the choice of a handler for a path without escapes are modelled, with the redirection
  of paths that are not clean.
\<close>

section \<open>Registration\<close>

datatype endpoint = NamesEndpoint | IPsEndpoint | StatusEndpoint | MetricsEndpoint

record web_server =
  ws_port :: string
  ws_mux :: "(string \<times> endpoint) list"

definition NewWebServer :: "string \<Rightarrow> web_server" where
  "NewWebServer port = \<lparr>ws_port = port, ws_mux = []\<rparr>"

text \<open>A pattern can be registered once.\<close>

definition AddEndpoint :: "string \<Rightarrow> endpoint \<Rightarrow> web_server \<Rightarrow> web_server go" where
  "AddEndpoint p h ws =
     (if p \<in> fst ` set (ws_mux ws) then Panic else Ret (ws\<lparr>ws_mux := ws_mux ws @ [(p, h)]\<rparr>))"

text \<open>\<open>Start\<close> up to the call of the listener.\<close>

definition Start :: "web_server \<Rightarrow> web_server go" where
  "Start ws = go_bind (AddEndpoint ''/api/status'' StatusEndpoint ws) (AddEndpoint ''/api/metrics'' MetricsEndpoint)"

text \<open>The part of \<open>CreateComponent\<close> that is the component's own: the zone model and the server.\<close>

definition CreateComponent :: "string \<Rightarrow> (model \<times> web_server) go" where
  "CreateComponent port =
     go_bind (AddEndpoint PATH_ZONES NamesEndpoint (NewWebServer port)) (\<lambda>ws.
     go_bind (AddEndpoint PATH_IPS IPsEndpoint ws) (\<lambda>ws. Ret (New, ws)))"

section \<open>Dispatch\<close>

text \<open>The clean form of a path: no empty, \<open>.\<close> or \<open>..\<close> elements, a trailing slash kept.\<close>

definition clean_step :: "string list \<Rightarrow> string \<Rightarrow> string list" where
  "clean_step st s = (if s = [] \<or> s = ''.'' then st else if s = ''..'' then butlast st else st @ [s])"

definition cleanPath :: "string \<Rightarrow> string" where
  "cleanPath p =
     (if p = [] then ''/''
      else (let p = (if hd p = CHR ''/'' then p else CHR ''/'' # p);
                np = CHR ''/'' # str_join ''/'' (foldl clean_step [] (str_split (CHR ''/'') p))
            in if last p = CHR ''/'' \<and> np \<noteq> ''/'' then np @ ''/'' else np))"

text \<open>A pattern with a trailing slash matches the paths below it; the longest match wins.\<close>

definition pattern_matches :: "string \<Rightarrow> string \<Rightarrow> bool" where
  "pattern_matches p path \<longleftrightarrow> (if has_suffix p ''/'' then has_prefix path p else path = p)"

fun longest_match :: "string \<Rightarrow> (string \<times> endpoint) list \<Rightarrow> (string \<times> endpoint) option" where
  "longest_match path [] = None"
| "longest_match path ((p, h) # mux) =
     (if pattern_matches p path then
        (case longest_match path mux of
           None \<Rightarrow> Some (p, h)
         | Some (q, g) \<Rightarrow> if length p < length q then Some (q, g) else Some (p, h))
      else longest_match path mux)"

datatype routed = Redirect string | NotRouted | Routed endpoint

definition mux_route :: "(string \<times> endpoint) list \<Rightarrow> string \<Rightarrow> routed" where
  "mux_route mux path =
     (let c = cleanPath path
      in if c \<notin> fst ` set mux \<and> c @ ''/'' \<in> fst ` set mux then Redirect (c @ ''/'')
         else if c \<noteq> path then Redirect c
         else case longest_match path mux of None \<Rightarrow> NotRouted | Some (_, h) \<Rightarrow> Routed h)"

definition web_response :: "int \<Rightarrow> bool \<Rightarrow> string \<Rightarrow> http_response" where
  "web_response code json t = \<lparr>hr_Status = code, hr_JSON = json, hr_Body = TextBody t\<rparr>"

text \<open>The answer to a request; the text of a redirection is its target.\<close>

definition web_serve ::
    "nat \<Rightarrow> dns_lib \<Rightarrow> child_order \<Rightarrow> zindex \<Rightarrow> model \<Rightarrow> (string \<Rightarrow> zone_getter) \<Rightarrow> web_server \<Rightarrow> string
     \<Rightarrow> http_response go option" where
  "web_serve n D ord I m getz ws path =
     (case mux_route (ws_mux ws) path of
        Redirect p \<Rightarrow> Some (Ret (web_response 301 False p))
      | NotRouted \<Rightarrow> Some (Ret (web_response 404 False ''404 page not found''))
      | Routed NamesEndpoint \<Rightarrow> handleNames D ord I m getz path
      | Routed IPsEndpoint \<Rightarrow> map_option Ret (handleIPs n D ord I m getz path)
      | Routed StatusEndpoint \<Rightarrow> Some (Ret (web_response 200 True statusHandler))
      | Routed MetricsEndpoint \<Rightarrow> Some (Ret (web_response 200 False metricsHandler)))"

section \<open>The endpoints of the component\<close>

definition component_mux :: "(string \<times> endpoint) list" where
  "component_mux = [(PATH_ZONES, NamesEndpoint), (PATH_IPS, IPsEndpoint),
     (''/api/status'', StatusEndpoint), (''/api/metrics'', MetricsEndpoint)]"

lemma CreateComponent_eq:
  "CreateComponent port = Ret (New, \<lparr>ws_port = port, ws_mux = take 2 component_mux\<rparr>)"
  by (simp add: CreateComponent_def AddEndpoint_def NewWebServer_def component_mux_def PATH_ZONES_def PATH_IPS_def)

lemma Start_eq: "Start \<lparr>ws_port = port, ws_mux = take 2 component_mux\<rparr> = Ret \<lparr>ws_port = port, ws_mux = component_mux\<rparr>"
  by (simp add: Start_def AddEndpoint_def component_mux_def PATH_ZONES_def PATH_IPS_def)

text \<open>A path is clean if its elements are proper.\<close>

definition proper_element :: "string \<Rightarrow> bool" where
  "proper_element s \<longleftrightarrow> slash_free s \<and> s \<notin> {[], ''.'', ''..''}"

lemma clean_proper: "\<forall>s \<in> set ss. proper_element s \<Longrightarrow> foldl clean_step st ss = st @ ss"
  by (induction ss arbitrary: st) (simp_all add: clean_step_def proper_element_def)

lemma split_slash: "str_split (CHR ''/'') (CHR ''/'' # s) = [] # str_split (CHR ''/'') s"
  by simp

lemma str_join_last: "ss \<noteq> [] \<Longrightarrow> \<forall>s \<in> set ss. s \<noteq> [] \<Longrightarrow> str_join c ss \<noteq> [] \<and> last (str_join c ss) = last (last ss)"
  by (induction ss rule: induct_list012) auto

lemma cleanPath_proper:
  assumes ss: "\<forall>s \<in> set ss. proper_element s" "ss \<noteq> []"
  shows "cleanPath (CHR ''/'' # str_join ''/'' ss) = CHR ''/'' # str_join ''/'' ss"
proof -
  have sf: "\<forall>s \<in> set ss. CHR ''/'' \<notin> set s" "\<forall>s \<in> set ss. s \<noteq> []"
    using ss(1) by (auto simp: proper_element_def slash_free_def)
  have "last (last ss) \<in> set (last ss)" "last ss \<in> set ss" using sf(2) ss(2) by simp_all
  with sf(1) have l: "last (last ss) \<noteq> CHR ''/''" by metis
  have "foldl clean_step [] (str_split (CHR ''/'') (CHR ''/'' # str_join ''/'' ss)) = ss"
    unfolding split_slash str_split_join [OF ss(2) sf(1)] using clean_proper [OF ss(1), of "[]"] by (simp add: clean_step_def)
  moreover have "last (CHR ''/'' # str_join ''/'' ss) \<noteq> CHR ''/''" using str_join_last [OF ss(2) sf(2), of "''/''"] l by simp
  ultimately show ?thesis by (simp add: cleanPath_def Let_def del: str_split.simps)
qed

text \<open>A zone request has the elements \<open>api\<close>, \<open>v1\<close>, \<open>zones\<close> and those of the key and the name.\<close>

lemma zones_join: "PATH_ZONES @ str_join ''/'' [a, b, c, q] = CHR ''/'' # str_join ''/'' [''api'', ''v1'', ''zones'', a, b, c, q]"
  by (simp add: PATH_ZONES_def)

lemma route_zones:
  assumes "\<forall>s \<in> {a, b, c, q}. proper_element s"
  shows "mux_route component_mux (PATH_ZONES @ str_join ''/'' [a, b, c, q]) = Routed NamesEndpoint"
proof -
  let ?p = "PATH_ZONES @ str_join ''/'' [a, b, c, q]"
  have "proper_element ''api''" "proper_element ''v1''" "proper_element ''zones''" by code_simp+
  then have "cleanPath ?p = ?p" unfolding zones_join using assms by (intro cleanPath_proper) auto
  moreover have "?p @ ''/'' \<notin> fst ` set component_mux" "?p \<noteq> ''/api/status''" "?p \<noteq> ''/api/metrics''" "\<not> has_prefix ?p PATH_IPS"
    "has_prefix ?p PATH_ZONES"
    by (auto simp: component_mux_def PATH_ZONES_def PATH_IPS_def has_prefix_def)
  ultimately show ?thesis
    by (simp add: mux_route_def Let_def component_mux_def pattern_matches_def has_suffix_def PATH_ZONES_def [symmetric]
        del: append.simps) (simp add: PATH_ZONES_def PATH_IPS_def)
qed

lemma ips_join: "PATH_IPS @ str_join ''/'' [a, b, c, q] = CHR ''/'' # str_join ''/'' [''api'', ''v1'', ''ips'', a, b, c, q]"
  by (simp add: PATH_IPS_def)

lemma route_ips:
  assumes "\<forall>s \<in> {a, b, c, q}. proper_element s"
  shows "mux_route component_mux (PATH_IPS @ str_join ''/'' [a, b, c, q]) = Routed IPsEndpoint"
proof -
  let ?p = "PATH_IPS @ str_join ''/'' [a, b, c, q]"
  have "proper_element ''api''" "proper_element ''v1''" "proper_element ''ips''" by code_simp+
  then have "cleanPath ?p = ?p" unfolding ips_join using assms by (intro cleanPath_proper) auto
  moreover have "?p @ ''/'' \<notin> fst ` set component_mux" "?p \<noteq> ''/api/status''" "?p \<noteq> ''/api/metrics''" "\<not> has_prefix ?p PATH_ZONES"
    "has_prefix ?p PATH_IPS"
    by (auto simp: component_mux_def PATH_ZONES_def PATH_IPS_def has_prefix_def)
  ultimately show ?thesis
    by (simp add: mux_route_def Let_def component_mux_def pattern_matches_def has_suffix_def PATH_IPS_def [symmetric]
        del: append.simps) (simp add: PATH_ZONES_def PATH_IPS_def)
qed

text \<open>The name of the root of the DNS is an element the clean path has not.\<close>

lemma clean_root:
  assumes "\<forall>s \<in> {a, b, c}. proper_element s"
  shows "cleanPath (PATH_ZONES @ str_join ''/'' [a, b, c, ''.'']) = PATH_ZONES @ str_join ''/'' [a, b, c]"
proof -
  have p: "proper_element ''api''" "proper_element ''v1''" "proper_element ''zones''" by code_simp+
  have sf: "\<forall>s \<in> set [''api'', ''v1'', ''zones'', a, b, c, ''.'']. CHR ''/'' \<notin> set s"
    using assms by (auto simp: proper_element_def slash_free_def)
  have "foldl clean_step [] (str_split (CHR ''/'') (CHR ''/'' # str_join ''/'' [''api'', ''v1'', ''zones'', a, b, c, ''.''])) =
      [''api'', ''v1'', ''zones'', a, b, c]"
    unfolding split_slash str_split_join [OF list.simps(3) sf]
    using clean_proper [of "[''api'', ''v1'', ''zones'', a, b, c]" "[]"] assms p by (simp add: clean_step_def)
  then show ?thesis
    unfolding zones_join by (simp add: cleanPath_def Let_def PATH_ZONES_def del: str_split.simps)
qed

lemma route_root:
  assumes "\<forall>s \<in> {a, b, c}. proper_element s"
  shows "mux_route component_mux (PATH_ZONES @ str_join ''/'' [a, b, c, ''.'']) = Redirect (PATH_ZONES @ str_join ''/'' [a, b, c])"
    and "mux_route component_mux (PATH_ZONES @ str_join ''/'' [a, b, c]) = Routed NamesEndpoint"
proof -
  let ?c = "PATH_ZONES @ str_join ''/'' [a, b, c]"
  have "?c \<noteq> PATH_ZONES @ str_join ''/'' [a, b, c, ''.'']" by simp
  moreover have k: "?c @ ''/'' \<notin> fst ` set component_mux" "?c \<noteq> ''/api/status''" "?c \<noteq> ''/api/metrics''" "\<not> has_prefix ?c PATH_IPS"
    "has_prefix ?c PATH_ZONES"
    by (auto simp: component_mux_def PATH_ZONES_def PATH_IPS_def has_prefix_def)
  ultimately show "mux_route component_mux (PATH_ZONES @ str_join ''/'' [a, b, c, ''.'']) = Redirect ?c"
    by (simp add: mux_route_def clean_root [OF assms] Let_def del: str_join.simps)
  have p: "proper_element ''api''" "proper_element ''v1''" "proper_element ''zones''" by code_simp+
  have j: "?c = CHR ''/'' # str_join ''/'' [''api'', ''v1'', ''zones'', a, b, c]" by (simp add: PATH_ZONES_def)
  have "cleanPath ?c = ?c" unfolding j using assms p by (intro cleanPath_proper) auto
  with k show "mux_route component_mux ?c = Routed NamesEndpoint"
    by (simp add: mux_route_def Let_def component_mux_def pattern_matches_def has_suffix_def PATH_ZONES_def [symmetric]
        del: append.simps) (simp add: PATH_ZONES_def PATH_IPS_def)
qed

lemma handleNames_short:
  assumes "slash_free a" "slash_free b" "slash_free c"
  shows "handleNames D ord I m getz (PATH_ZONES @ str_join ''/'' [a, b, c]) = Some (Ret (only_status 400))"
proof -
  have "str_split (CHR ''/'') (str_join ''/'' [a, b, c]) = [a, b, c]"
    using assms by (intro str_split_join) (simp_all add: slash_free_def)
  then show ?thesis by (simp add: handleNames_def del: str_join.simps)
qed

section \<open>Properties\<close>

text \<open>C38: the started component serves its two interfaces: the registration of its endpoints does not
  panic, and a request whose path has proper elements (not empty, no dots only) for cluster,
  namespace, zone and name or address reaches the handler of its prefix with the path as it is.\<close>

theorem web_dispatch:
  assumes "\<forall>s \<in> {cl, ns, zn, q}. proper_element s"
  shows "\<exists>ws. go_bind (CreateComponent port) (\<lambda>(m, ws). Start ws) = Ret ws \<and>
    web_serve n D ord I m getz ws (PATH_ZONES @ str_join ''/'' [cl, ns, zn, q]) =
      handleNames D ord I m getz (PATH_ZONES @ str_join ''/'' [cl, ns, zn, q]) \<and>
    web_serve n D ord I m getz ws (PATH_IPS @ str_join ''/'' [cl, ns, zn, q]) =
      map_option Ret (handleIPs n D ord I m getz (PATH_IPS @ str_join ''/'' [cl, ns, zn, q]))"
proof -
  let ?ws = "\<lparr>ws_port = port, ws_mux = component_mux\<rparr>"
  have "go_bind (CreateComponent port) (\<lambda>(m, ws). Start ws) = Ret ?ws"
    unfolding CreateComponent_eq go_bind.simps prod.case Start_eq ..
  moreover have "ws_mux ?ws = component_mux" by simp
  ultimately show ?thesis
    unfolding web_serve_def by (metis (no_types, lifting) route_zones [OF assms] route_ips [OF assms] routed.case(3) endpoint.case(1,2))
qed

definition started :: web_server where
  "started = \<lparr>ws_port = '':8085'', ws_mux = component_mux\<rparr>"

theorem web_dispatch_witness:
  "web_serve 3 ref_dns (\<lambda>xs. xs) test_comp model_A test_getz started ''/api/v1/zones/cluster/default/a/demo.mandelsoft.de'' =
     serve model_A ''/api/v1/zones/cluster/default/a/demo.mandelsoft.de''"
proof -
  have p: "\<forall>s \<in> {''cluster'', ''default'', ''a'', ''demo.mandelsoft.de''}. proper_element s" by code_simp
  have j: "PATH_ZONES @ str_join ''/'' [''cluster'', ''default'', ''a'', ''demo.mandelsoft.de''] =
    ''/api/v1/zones/cluster/default/a/demo.mandelsoft.de''" by code_simp
  have s: "go_bind (CreateComponent '':8085'') (\<lambda>(m, ws). Start ws) = Ret started"
    unfolding CreateComponent_eq go_bind.simps prod.case Start_eq started_def ..
  from web_dispatch [OF p, of "'':8085''" 3 ref_dns "\<lambda>xs. xs" test_comp model_A test_getz] s show ?thesis
    unfolding j by auto
qed

text \<open>The name of the DNS root cannot be asked for: a request for \<open>.\<close> is redirected to the path
  without a name, which is answered 400, whatever the zones and entries are.\<close>

theorem root_name_refused:
  assumes "\<forall>s \<in> {cl, ns, zn}. proper_element s" "go_bind (CreateComponent port) (\<lambda>(m, ws). Start ws) = Ret ws"
  shows "web_serve n D ord I m getz ws (PATH_ZONES @ str_join ''/'' [cl, ns, zn, ''.'']) =
      Some (Ret (web_response 301 False (PATH_ZONES @ str_join ''/'' [cl, ns, zn]))) \<and>
    web_serve n D ord I m getz ws (PATH_ZONES @ str_join ''/'' [cl, ns, zn]) = Some (Ret (only_status 400))"
proof -
  have ws: "ws_mux ws = component_mux"
    using assms(2) unfolding CreateComponent_eq go_bind.simps prod.case Start_eq by auto
  have "slash_free cl" "slash_free ns" "slash_free zn" using assms(1) by (simp_all add: proper_element_def)
  from handleNames_short [OF this] show ?thesis
    by (simp add: web_serve_def ws route_root [OF assms(1)] del: str_join.simps)
qed

theorem root_name_refused_witness:
  "web_serve 3 ref_dns (\<lambda>xs. xs) test_comp model_A test_getz started ''/api/v1/zones/cluster/default/a/.'' =
     Some (Ret (web_response 301 False ''/api/v1/zones/cluster/default/a''))"
proof -
  have p: "\<forall>s \<in> {''cluster'', ''default'', ''a''}. proper_element s" by code_simp
  have j: "PATH_ZONES @ str_join ''/'' [''cluster'', ''default'', ''a'', ''.''] = ''/api/v1/zones/cluster/default/a/.''"
    "PATH_ZONES @ str_join ''/'' [''cluster'', ''default'', ''a''] = ''/api/v1/zones/cluster/default/a''" by code_simp+
  have s: "go_bind (CreateComponent '':8085'') (\<lambda>(m, ws). Start ws) = Ret started"
    unfolding CreateComponent_eq go_bind.simps prod.case Start_eq started_def ..
  from root_name_refused [OF p s, of 3 ref_dns "\<lambda>xs. xs" test_comp model_A test_getz] show ?thesis unfolding j by simp
qed

end
