(* ===== verification/Server_Nested.thy ===== *)
theory Server_Nested
  imports Server_Answers
begin

text \<open>
  Requests for names of a nested zone, made at its root zone: the controller for zones links the
  nested zone below its parent in the model, and the query descends along the link.
\<close>

section \<open>The link of an added zone\<close>

lemma children_hand_serials: "i < length h \<Longrightarrow> zn_children (foldl (hand_serial a) h as ! i) = zn_children (h ! i)"
  by (rule nth_map_eq, rule map_hand_serials) simp_all

lemma AddZone_linked:
  assumes wf: "wf_model m" "iteration_order ord" "refkey_law E" "zone_call s key zone"
    and add: "AddZone D E ord s key zone m = Some (m', a)" and nested: "zone_parent zone \<noteq> []"
    and p: "GetZone m' (zk_For key (zone_parent zone)) = Some p"
  shows "(zone_parent zone, a) \<in> set (zn_children (m_heap m' ! p)) \<and> GetZone m' key = Some a"
proof -
  from AddZone_SomeE [OF wf add] obtain m1 parent h as where
    place: "place_zone D E ord s key zone m = (m1, a, parent, h)"
    and m': "m' = m1\<lparr>m_heap := foldl (hand_serial a) h as\<rparr>" by metis
  from place_zone_wf [OF wf place] have wf1: "wf_model m1" and a: "map_of (m_zones m1) key = Some a"
    and len: "length h = length (m_heap m1)" by auto
  from place obtain h3 where h3: "h3 = unlink_parent a zone (upd (m_heap m1) a (\<lambda>y. y\<lparr>zn_serialId := serial_of zone\<rparr>))"
    and h: "h = set_zone D a zone parent (fst (link_parent E s a zone (m_zones m1) h3))"
    by (rule place_zone_eqs)
  have pk: "parent_key E s zone = zk_For key (zone_parent zone)" by (rule parent_key_For [OF wf(3,4)])
  have p1: "map_of (m_zones m1) (zk_For key (zone_parent zone)) = Some p" using p by (simp add: GetZone_def m')
  then have pl: "p < length (m_heap m1)" using wf1 by (auto simp: wf_model_def dest: wf_zones_lookup)
  have "zn_children (h ! p) = AList.update (zone_parent zone) a (zn_children (h3 ! p))"
    using nested p1 pl by (simp add: h children_set_zone link_parent_def pk zk_For_def h3)
  then have "map_of (zn_children (m_heap m' ! p)) (zone_parent zone) = Some a"
    using pl len by (simp add: m' children_hand_serials update_conv')
  with a show ?thesis by (auto simp: GetZone_def m' dest: map_of_SomeD)
qed

text \<open>A reconciliation of a served zone ends in an addition.\<close>

lemma zone_Reconcile_added:
  assumes "honest get" "refkey_law E" "served E opts get z"
    and "zone_Reconcile D E ord opts master cluster get m z = Some (m', z', p)"
  obtains a z0 where "AddZone D E ord cluster (ZoneKeyFromObject cluster (z_Meta z)) z0 m = Some (m', a)"
    "z_Spec z0 = z_Spec z" "z_Meta z0 = z_Meta z"
proof -
  from assms(3) obtain zs where zs: "zone_chain get (zone_namespace z) (zone_parent z) zs"
    "zone_name z \<notin> set (chain_names (zone_parent z) zs)" "zs_Class (z_Spec (last (z # zs))) = None"
    and cls: "so_Class opts = None" and v: "snd (ValidateZone E z) = None"
    by (auto simp: served_def)
  have root: "GetRootInfo D E get z None = Some ((Some (chain_resp (if zs = [] then None else Some (hd zs))
      (last (z # zs))), True, None), names_along D None (z # zs))"
    unfolding zone_root_iff [OF assms(1,2)] using zs(1,2) by blast
  let ?z = "if master then z\<lparr>z_Status := (z_Status z)\<lparr>zt_Observed := Some
      \<lparr>ob_Class = zone_String (so_Class opts), ob_Runtime = zone_String (zs_Runtime (z_Spec z))\<rparr>\<rparr>\<rparr> else z"
  have val: "ValidateZone E ?z = ValidateZone E z" by (simp add: ValidateZone_status)
  obtain a where "AddZone D E ord cluster (ZoneKeyFromObject cluster (z_Meta z)) ?z m = Some (m', a)"
    using assms(4) v zs(3) cls
    unfolding zone_Reconcile_def Let_def root
    by (cases "ValidateZone E z") (auto simp: Check_iff chain_resp_def val simp del: last.simps split: if_splits)
  then show ?thesis by (rule that) simp_all
qed

section \<open>The descent into a nested zone\<close>

lemma ResolveFQDN_nested:
  assumes laws: "dns_laws D" and zn: "plain zn" "ends_dot zn" "zn \<noteq> ''.''"
    and e: "e \<noteq> []" "plain e" "\<not> ends_dot e" and n: "n \<noteq> []" "plain n" "\<not> ends_dot n"
    and m: "Matches D (m_heap m ! p) (n @ ''.'' @ e @ ''.'' @ zn) = zn"
      "nested_match D ord (m_heap m) p (n @ ''.'' @ e) = Some (e, a)" "nested_match D ord (m_heap m) a n = None"
  shows "ResolveFQDN D ord I m p (n @ ''.'' @ e @ ''.'' @ zn) = Some (Ret (found a (e @ ''.'' @ zn) (spec_lookup
    (LookupRelativeDomainName I (zn_source (m_heap m ! a)) (zn_key (m_heap m ! a))) n (e @ ''.'' @ zn))))"
proof -
  let ?s = "n @ ''.'' @ e" let ?q = "n @ ''.'' @ e @ ''.'' @ zn" and ?c = "e @ ''.'' @ zn"
  have law: "fqdn_law D" using laws by (simp add: dns_laws_def)
  have z: "zn \<noteq> []" using zn(2) by (auto simp: ends_dot_def)
  have c: "plain ?c" "ends_dot ?c" "?c \<noteq> []" using zn z e by (simp_all add: ends_dot_def)
  have "plain ?q" "ends_dot ?q" using n(2) c by (simp_all add: ends_dot_def)
  then have q: "dns_Fqdn D ?q = ?q" by (simp only: fqdn_lawD [OF law] if_True)
  have s: "\<not> ends_dot ?s" using e by (simp add: ends_dot_def)
  have "take (length ?q - length zn) ?q = ?s @ ''.''" by simp
  then have r: "Rdn (take (length ?q - length zn) ?q) = ?s" using Rdn_id [OF s] by (simp only: Rdn_snoc_dot)
  have "take (length ?s - length e) ?s = n @ ''.''" by simp
  then have r2: "Rdn (take (length ?s - length e) ?s) = n" using Rdn_id [OF n(3)] by (simp only: Rdn_snoc_dot)
  have join: "Join D [zn, []] = Ret zn" using z zn by (simp add: Join_root fqdn_lawD [OF law])
  have join2: "Join D [e, zn] = Ret ?c" using join_step [OF law e z zn(1,2)] e(1) zn(3) by (auto simp: jn_def)
  have "forward D ord (m_heap m) zn ?q p [] = descend D ord (m_heap m) p ?s zn"
    using forward_descend [OF _ join, of ?q ord "m_heap m" p] unfolding r by simp
  also have "\<dots> = forward D ord (m_heap m) e ?s a zn" unfolding descend_def m(2) by simp
  also have "\<dots> = descend D ord (m_heap m) a n ?c"
    using forward_descend [OF _ join2, of ?s ord "m_heap m" a] unfolding r2 by simp
  also have "\<dots> = Some (Ret (n, a, ?c))" by (simp add: descend_def m(3))
  finally have fwd: "forward D ord (m_heap m) zn ?q p [] = Some (Ret (n, a, ?c))" .
  show ?thesis
    unfolding ResolveFQDN_def Let_def q m(1) fwd using z
    by (simp add: ns_loop_spec [OF laws c(3,1,2) n(2,3)] found_def del: append.simps)
qed

text \<open>The child of a parent that matches is the one found, whatever the order is.\<close>

lemma nested_match_only:
  assumes "iteration_order ord" "(k, a) \<in> set (zn_children (h ! p))" "Matches D (h ! a) s = e" "e \<noteq> []"
    and "\<And>k b. (k, b) \<in> set (zn_children (h ! p)) \<Longrightarrow> b \<noteq> a \<Longrightarrow> Matches D (h ! b) s = []"
  shows "nested_match D ord h p s = Some (e, a)"
proof -
  let ?P = "\<lambda>(k, a). Matches D (h ! a) s \<noteq> []" and ?cs = "ord (zn_children (h ! p))"
  have set: "set ?cs = set (zn_children (h ! p))" using assms(1) by (rule iteration_order_set)
  have "?P (k, a)" using assms(3,4) by simp
  then have P: "(k, a) \<in> set ?cs \<and> ?P (k, a)" using assms(2) set by simp
  have "find ?P ?cs \<noteq> None" using find_None_iff [THEN iffD1, of ?P ?cs] P by blast
  then obtain j b where x: "find ?P ?cs = Some (j, b)" by (metis not_None_eq surj_pair)
  then have mem: "(j, b) \<in> set (zn_children (h ! p))" and ne: "Matches D (h ! b) s \<noteq> []"
    using find_SomeD [OF x] set by auto
  have "b = a" using assms(5) [OF mem] ne by (rule contrapos_np [rotated]) simp
  with x assms(3) show ?thesis by (simp add: nested_match_def)
qed

section \<open>A request at the root zone\<close>

text \<open>
  The relative name \<open>n\<close> in front of the domain \<open>e\<close> of a nested zone, the longest of its domains
  the name lies in.
\<close>

definition own_sub :: "dns_lib \<Rightarrow> hosted_zone \<Rightarrow> string \<Rightarrow> string \<Rightarrow> bool" where
  "own_sub D z e n \<longleftrightarrow> e \<in> Rdn ` set (zs_DomainNames (z_Spec z)) \<and> e \<noteq> [] \<and> plain e \<and> \<not> ends_dot e \<and>
     n \<noteq> [] \<and> plain n \<and> \<not> ends_dot n \<and> dns_IsSubDomain D e (n @ ''.'' @ e) \<and>
     (\<forall>e' \<in> Rdn ` set (zs_DomainNames (z_Spec z)). dns_IsSubDomain D e' (n @ ''.'' @ e) \<longrightarrow> e' = e \<or> length e' < length e)"

text \<open>No child of the parent but the zone itself matches a relative name.\<close>

definition only_child :: "dns_lib \<Rightarrow> model \<Rightarrow> zone_key \<Rightarrow> zone_key \<Rightarrow> string \<Rightarrow> bool" where
  "only_child D m rkey key s \<longleftrightarrow>
     (case (GetZone m rkey, GetZone m key) of
        (Some p, Some a) \<Rightarrow> (\<forall>(k, b) \<in> set (zn_children (m_heap m ! p)). b \<noteq> a \<longrightarrow> Matches D (m_heap m ! b) s = [])
      | _ \<Rightarrow> True)"

text \<open>A zone of the model, its names, and which of them a name is matched with.\<close>

lemma model_zone:
  assumes "wf_model m" "abs_model m key = Some (object_decl D z)"
  obtains a where "GetZone m key = Some a" "zn_key (m_heap m ! a) = key"
    "zn_names (m_heap m ! a) = map (if zone_parent z = [] then dns_Fqdn D else Rdn) (zs_DomainNames (z_Spec z))"
proof -
  from assms(2) obtain a where a: "GetZone m key = Some a" "zone_decl (m_heap m ! a) = object_decl D z"
    by (auto simp: abs_model_def)
  moreover have "zn_key (m_heap m ! a) = key" using assms(1) a(1) by (auto simp: wf_model_def GetZone_def dest: wf_zones_lookup)
  ultimately show ?thesis by (intro that) (auto simp: zone_decl_def object_decl_def)
qed

lemma Matches_own_name:
  assumes "fqdn_law D" "own_name D z d n" "zn_names y = map (dns_Fqdn D) (zs_DomainNames (z_Spec z))"
  shows "Matches D y (n @ ''.'' @ dns_Fqdn D d) = dns_Fqdn D d"
    and "plain (dns_Fqdn D d)" "ends_dot (dns_Fqdn D d)" "dns_Fqdn D d \<noteq> ''.''"
proof -
  let ?zn = "dns_Fqdn D d"
  from assms(2) have d: "d \<in> set (zs_DomainNames (z_Spec z))" "plain d" "d \<notin> {[], ''.''}" by (simp_all add: own_name_def)
  show zn: "plain ?zn" "ends_dot ?zn" "?zn \<noteq> ''.''"
    using d(2,3) plain_Fqdn [OF assms(1) d(2)] Fqdn_ends_dot [OF assms(1) d(2)]
    by (auto simp: fqdn_lawD [OF assms(1)] split: if_splits)
  show "Matches D y (n @ ''.'' @ ?zn) = ?zn"
  proof (rule Matches_longest_is)
    show "?zn \<in> set (zn_names y)" using d(1) by (simp add: assms(3))
    show "dns_IsSubDomain D ?zn (n @ ''.'' @ ?zn)" using assms(2) by (simp add: own_name_def)
    show "d' = ?zn \<or> length d' < length ?zn" if "d' \<in> set (zn_names y)" "dns_IsSubDomain D d' (n @ ''.'' @ ?zn)" for d'
      using assms(2) that by (simp only: assms(3) own_name_def set_map)
  qed (rule Fqdn_nonempty [OF assms(1) d(2)])
qed

lemma Matches_own_sub:
  assumes "own_sub D z e n" "zn_names y = map Rdn (zs_DomainNames (z_Spec z))"
  shows "Matches D y (n @ ''.'' @ e) = e"
proof (rule Matches_longest_is)
  show "e \<in> set (zn_names y)" "dns_IsSubDomain D e (n @ ''.'' @ e)" "e \<noteq> []"
    using assms by (simp_all add: own_sub_def)
  show "e' = e \<or> length e' < length e" if "e' \<in> set (zn_names y)" "dns_IsSubDomain D e' (n @ ''.'' @ e)" for e'
    using assms(1) that unfolding assms(2) own_sub_def set_map by blast
qed

text \<open>A nested zone that was reconciled hangs below the zone of its parent.\<close>

lemma nested_added:
  assumes "honest get" "refkey_law E" "problem_laws E" "finite_zones get (zone_namespace z)" "wf_model m" "iteration_order ord"
    and "zone_Reconcile D E ord opts master cluster get m z = Some (m', z', None)" "served E opts get z" "zone_parent z \<noteq> []"
    and "key = ZoneKeyFromObject cluster (z_Meta z)" "rkey = zk_For key (zone_parent z)"
    and "abs_model m' rkey = Some (object_decl D r)" "zone_parent r = []"
  obtains p a where "GetZone m' rkey = Some p" "zn_key (m_heap m' ! p) = rkey"
    "zn_names (m_heap m' ! p) = map (dns_Fqdn D) (zs_DomainNames (z_Spec r))"
    "GetZone m' key = Some a" "zn_key (m_heap m' ! a) = key" "zn_names (m_heap m' ! a) = map Rdn (zs_DomainNames (z_Spec z))"
    "(zone_parent z, a) \<in> set (zn_children (m_heap m' ! p))"
proof -
  have model: "wf_model m'" "abs_model m' key = Some (object_decl D z)"
    using zone_Reconcile_model [OF assms(1-7)] assms(8,10) by auto
  obtain p where p: "GetZone m' rkey = Some p" "zn_key (m_heap m' ! p) = rkey"
    "zn_names (m_heap m' ! p) = map (dns_Fqdn D) (zs_DomainNames (z_Spec r))"
    using model_zone [OF model(1) assms(12)] assms(13) by auto
  obtain a where a: "GetZone m' key = Some a" "zn_key (m_heap m' ! a) = key"
    "zn_names (m_heap m' ! a) = map Rdn (zs_DomainNames (z_Spec z))"
    using model_zone [OF model] assms(9) by auto
  obtain z0 b where add: "AddZone D E ord cluster key z0 m = Some (m', b)" "z_Spec z0 = z_Spec z" "z_Meta z0 = z_Meta z"
    using zone_Reconcile_added [OF assms(1,2,8,7)] unfolding assms(10) by metis
  have call: "zone_call cluster key z0" using add(3) assms(10) by (simp add: zone_call_def)
  have link: "(zone_parent z, a) \<in> set (zn_children (m_heap m' ! p))"
    using AddZone_linked [OF assms(5,6,2) call add(1), of p] assms(9,11) add(2) p(1) a(1) by simp
  from that [OF p a link] show thesis .
qed

section \<open>Properties\<close>

text \<open>C12: a nested zone answers at its root zone: after the controller has reconciled a served zone
  whose parent is a root zone of the model, a request at the parent for a relative name in
  front of a domain of the zone and of the root (which no other child of the root matches, and
  no child of the zone) is answered 200 with one document of the nested zone, named by both
  domains; its records are those of exactly the stored entries of the nested zone that carry
  the relative name.\<close>

theorem nested_zone_answers:
  assumes "honest get" "refkey_law E" "problem_laws E" "finite_zones get (zone_namespace z)" "wf_model m"
    and "iteration_order ord" "iteration_order ord'"
    and "zone_Reconcile D E ord opts master cluster get m z = Some (m', z', None)" "served E opts get z" "zone_parent z \<noteq> []"
    and "key = ZoneKeyFromObject cluster (z_Meta z)" "rkey = zk_For key (zone_parent z)"
    and "abs_model m' rkey = Some (object_decl D r)" "zone_parent r = []"
    and "own_sub D z e n" "own_name D r d (n @ ''.'' @ e)"
    and "dns_laws D" "index_law (\<lambda>_. st) cg" "index_up cg" "\<And>src. getz src (zk_Namespace key, zk_Name key) = Inr obj"
    and "proper_path rkey (n @ ''.'' @ e @ ''.'' @ dns_Fqdn D d)" "slash_free (zk_Name key)"
    and "only_child D m' rkey key (n @ ''.'' @ e)" "\<forall>a. GetZone m' key = Some a \<longrightarrow> nested_match D ord' (m_heap m') a n = None"
    and "\<forall>e \<in> set st. belongs_to e key \<longrightarrow> \<not> has_NS e"
  shows "\<exists>i es. handleNames D ord' (Component_index (E', opts', cg)) m' getz (name_path rkey (n @ ''.'' @ e @ ''.'' @ dns_Fqdn D d)) =
      Some (Ret (send_answer [i])) \<and> ai_Names i = [n @ ''.'' @ e @ ''.'' @ dns_Fqdn D d] \<and>
    az_Names (ai_Zone i) = [e @ ''.'' @ dns_Fqdn D d] \<and>
    set es = zone_entries E' opts' st key n \<and> ai_Records i = foldl add_records zero_records es"
proof -
  let ?zn = "dns_Fqdn D d"
  have law: "fqdn_law D" using assms(17) by (simp add: dns_laws_def)
  obtain p a where p: "GetZone m' rkey = Some p" "zn_key (m_heap m' ! p) = rkey"
      "zn_names (m_heap m' ! p) = map (dns_Fqdn D) (zs_DomainNames (z_Spec r))"
    and a: "GetZone m' key = Some a" "zn_key (m_heap m' ! a) = key"
      "zn_names (m_heap m' ! a) = map Rdn (zs_DomainNames (z_Spec z))"
    and link: "(zone_parent z, a) \<in> set (zn_children (m_heap m' ! p))"
    by (rule nested_added [OF assms(1-6,8-14)])
  note zn = Matches_own_name [OF law assms(16) p(3)]
  have e: "e \<noteq> []" "plain e" "\<not> ends_dot e" and n: "n \<noteq> []" "plain n" "\<not> ends_dot n"
    using assms(15) by (simp_all add: own_sub_def)
  have nest: "nested_match D ord' (m_heap m') p (n @ ''.'' @ e) = Some (e, a)"
    by (rule nested_match_only [OF assms(7) link Matches_own_sub [OF assms(15) a(3)] e(1)])
      (use assms(23) p(1) a(1) in \<open>auto simp: only_child_def\<close>)
  have m1: "Matches D (m_heap m' ! p) (n @ ''.'' @ e @ ''.'' @ ?zn) = ?zn" using zn(1) by simp
  have j: "jn n (e @ ''.'' @ ?zn) = n @ ''.'' @ e @ ''.'' @ ?zn" using n(1) e by (cases e) (auto simp: jn_def)
  have "ResolveFQDN D ord' (Component_index (E', opts', cg)) m' p (jn n (e @ ''.'' @ ?zn)) = Some (Ret (found a (e @ ''.'' @ ?zn)
      (spec_lookup (comp_LookupRelativeDomainName E' opts' cg (zn_source (m_heap m' ! a)) key) n (e @ ''.'' @ ?zn))))"
    using ResolveFQDN_nested [OF assms(17) zn(2-4) e n m1 nest assms(24) [rule_format, OF a(1)], of "Component_index (E', opts', cg)"]
    unfolding j by (simp add: a(2) Component_index_def)
  note res = this
  have path: "slash_free (zk_ClusterName rkey)" "slash_free (zk_Namespace rkey)" "slash_free (zk_Name rkey)"
    "slash_free (jn n (e @ ''.'' @ ?zn))" using assms(21) unfolding proper_path_def j by blast+
  show ?thesis
    unfolding j [symmetric]
    by (rule handleNames_found [where getz = getz, OF assms(18,19) path p(1) a(2) assms(22) n(1) res])
      (use assms(25,20) in blast)+
qed

text \<open>The test's root zone reconciled first, then its nested zone.\<close>

definition ZoneAA_full :: hosted_zone where
  "ZoneAA_full = ZoneAA\<lparr>z_Spec := (z_Spec ZoneAA)\<lparr>zs_EMail := ''admin@mandelsoft.de'', zs_Expire := 86400,
     zs_Refresh := 3600, zs_Retry := 300, zs_MinimumTTL := 60\<rparr>\<rparr>"

definition two_zones :: zone_getter where
  "two_zones = store_get [ZoneA_full, ZoneAA_full]"

abbreviation load :: "model \<Rightarrow> hosted_zone \<Rightarrow> (model \<times> hosted_zone \<times> ref_problem option) option" where
  "load m z \<equiv> zone_Reconcile ref_dns ref_ext (\<lambda>xs. xs) master_options True test_Source two_zones m z"

definition loaded_root :: model where "loaded_root = fst (the (load New ZoneA_full))"

definition loaded_both :: model where "loaded_both = fst (the (load loaded_root ZoneAA_full))"

theorem nested_zone_answers_witness:
  "\<exists>i. handleNames ref_dns (\<lambda>xs. xs) (Component_index (ref_ext, master_options, ref_index own_entries)) loaded_both (\<lambda>_. two_zones)
      ''/api/v1/zones/cluster/default/a/demo.test.mandelsoft.de.'' = Some (Ret (send_answer [i])) \<and> set (ar_A (ai_Records i)) = {''9.9.9.9''}"
proof -
  let ?key = "ZoneKeyFromObject test_Source (z_Meta ZoneAA_full)" and ?rkey = "zk_For (ZoneKeyFromObject test_Source (z_Meta ZoneAA_full)) (zone_parent ZoneAA_full)"
  let ?zn = "dns_Fqdn ref_dns ''mandelsoft.de''"
  have r1: "load New ZoneA_full = Some (loaded_root, fst (snd (the (load New ZoneA_full))), None)" by code_simp
  have r2: "load loaded_root ZoneAA_full = Some (loaded_both, fst (snd (the (load loaded_root ZoneAA_full))), None)" by code_simp
  have c: "zone_chain two_zones (zone_namespace ZoneAA_full) (zone_parent ZoneAA_full) [ZoneA_full]"
    "zone_name ZoneAA_full \<notin> set (chain_names (zone_parent ZoneAA_full) [ZoneA_full])"
    "zs_Class (z_Spec (last [ZoneAA_full, ZoneA_full])) = None" "so_Class master_options = None"
    "snd (ValidateZone ref_ext ZoneAA_full) = None" "zone_parent ZoneAA_full \<noteq> []" "zone_parent ZoneA_full = []"
    "abs_model loaded_both ?rkey = Some (object_decl ref_dns ZoneA_full)"
    "own_sub ref_dns ZoneAA_full ''test'' ''demo''" "own_name ref_dns ZoneA_full ''mandelsoft.de'' (''demo'' @ ''.'' @ ''test'')"
    "two_zones (zk_Namespace ?key, zk_Name ?key) = Inr ZoneAA_full"
    "proper_path ?rkey (''demo'' @ ''.'' @ ''test'' @ ''.'' @ ?zn)" "slash_free (zk_Name ?key)"
    "name_path ?rkey (''demo'' @ ''.'' @ ''test'' @ ''.'' @ ?zn) = ''/api/v1/zones/cluster/default/a/demo.test.mandelsoft.de.''"
    "list_all (\<lambda>e. belongs_to e ?key \<longrightarrow> \<not> has_NS e) own_entries"
    "(case (GetZone loaded_both ?rkey, GetZone loaded_both ?key) of
       (Some p, Some a) \<Rightarrow> list_all (\<lambda>(k, b). b = a) (zn_children (m_heap loaded_both ! p)) \<and>
         nested_match ref_dns (\<lambda>xs. xs) (m_heap loaded_both) a ''demo'' = None | _ \<Rightarrow> False)"
    "list_all (\<lambda>e. belongs_to e ?key \<and> es_ZoneRef (e_Spec e) \<noteq> [] \<and> ''demo'' \<in> Rdn ` set (es_DNSNames (e_Spec e)) \<longleftrightarrow> e = EntryAA_demo) own_entries"
    "list_all (\<lambda>e. slash_free (es_ZoneRef (e_Spec e))) own_entries" "es_A (e_Spec EntryAA_demo) = [''9.9.9.9'']" "EntryAA_demo \<in> set own_entries"
    by code_simp+
  from c(1-5) have srv: "served ref_ext master_options two_zones ZoneAA_full"
    unfolding served_def by blast
  have laws: "honest two_zones" "finite_zones two_zones ns" for ns
    unfolding two_zones_def by (rule store_get_honest, rule store_get_finite)
  have wf: "wf_model loaded_root"
    using zone_Reconcile_model [OF laws(1) ref_refkey_law ref_problem_laws laws(2) New_wf iteration_order_id r1] by blast
  have up: "index_up (ref_index own_entries)" by (simp add: index_up_def ref_index_def)
  have e: "zone_entries ref_ext master_options own_entries ?key ''demo'' = {EntryAA_demo}"
    using c(17,20) by (auto simp: zone_entries_def list_all_iff indexed_def master_options_def)
  have only: "only_child ref_dns loaded_both ?rkey ?key (''demo'' @ ''.'' @ ''test'')"
    using c(16) by (auto simp: only_child_def list_all_iff split: option.splits)
  have leaf: "\<forall>a. GetZone loaded_both ?key = Some a \<longrightarrow> nested_match ref_dns (\<lambda>xs. xs) (m_heap loaded_both) a ''demo'' = None"
    using c(16) by (auto split: option.splits)
  have ns: "\<forall>e \<in> set own_entries. belongs_to e ?key \<longrightarrow> \<not> has_NS e" using c(15) by (simp add: list_all_iff)
  obtain i es where i: "handleNames ref_dns (\<lambda>xs. xs) (Component_index (ref_ext, master_options, ref_index own_entries)) loaded_both (\<lambda>_. two_zones)
      (name_path ?rkey (''demo'' @ ''.'' @ ''test'' @ ''.'' @ ?zn)) = Some (Ret (send_answer [i]))"
    "set es = {EntryAA_demo}" "ai_Records i = foldl add_records zero_records es"
    using nested_zone_answers [where E' = ref_ext and opts' = master_options and ord' = "\<lambda>xs. xs" and st = own_entries
        and cg = "ref_index own_entries" and getz = "\<lambda>_. two_zones",
        OF laws(1) ref_refkey_law ref_problem_laws laws(2) wf iteration_order_id iteration_order_id r2 srv c(6) refl refl c(8,7,9,10)
          ref_dns_laws ref_index_law [OF c(18)] up c(11,12,13) only leaf ns] unfolding e by blast
  have "set (ar_A (ai_Records i)) = (\<Union>e \<in> set es. set (es_A (e_Spec e)))"
    unfolding i(3) add_records_fold by (simp add: zero_records_def)
  also have "\<dots> = {''9.9.9.9''}" by (simp add: i(2) c(19))
  finally show ?thesis using i(1) unfolding c(14) by blast
qed

end
