(* ===== verification/Server_Addresses.thy ===== *)
theory Server_Addresses
  imports Server_Nested
begin

text \<open>
  Requests for addresses, from the object of the zone to the documents of the answer: which
  zones have a document, and what is in it.
\<close>

section \<open>What an answer contains\<close>

text \<open>The stored entries of a zone with an address, and the path of a request.\<close>

definition address_entries :: "'p ext \<Rightarrow> server_options \<Rightarrow> coredns_entry list \<Rightarrow> zone_key \<Rightarrow> string \<Rightarrow> coredns_entry set" where
  "address_entries E opts st key ip =
     {e \<in> set st. belongs_to e key \<and> indexed E opts e \<and> ip \<in> set (es_A (e_Spec e)) \<union> set (es_AAAA (e_Spec e))}"

definition address_path :: "zone_key \<Rightarrow> string \<Rightarrow> string" where
  "address_path key ip = PATH_IPS @ str_join ''/'' [zk_ClusterName key, zk_Namespace key, zk_Name key, ip]"

text \<open>
  A document for a zone with the fully qualified names \<open>fd\<close>: it has entries, all those of the
  zone with the address and no others, with each of their names below each of the zone's.
\<close>

definition answers_for ::
    "dns_lib \<Rightarrow> 'p ext \<Rightarrow> server_options \<Rightarrow> coredns_entry list \<Rightarrow> string \<Rightarrow> zone_key \<Rightarrow> string list \<Rightarrow> api_info \<Rightarrow> bool" where
  "answers_for D E opts st ip key fd i \<longleftrightarrow> az_Names (ai_Zone i) = fd \<and>
     (\<exists>es. es \<noteq> [] \<and> set es = address_entries E opts st key ip \<and>
        ai_Names i = concat (map (\<lambda>e. concat (map (\<lambda>n. map (\<lambda>f. dns_Fqdn D n @ f) fd) (es_DNSNames (e_Spec e)))) es) \<and>
        ai_Records i = foldl add_records zero_records es)"

lemma ip_path_less: "ip_path D h z fq d fd \<Longrightarrow> wf_heap h \<Longrightarrow> z < length h \<Longrightarrow> d < length h"
  by (induction rule: ip_path.induct) (fastforce dest: wf_heapD simp: wf_zone_alt)+

lemma index_up_ip_safe: "index_up cg \<Longrightarrow> ip_safe (Component_index (E, opts, cg))"
  by (simp add: ip_safe_def index_up_def Component_index_def comp_LookupIP_def)

text \<open>The object of a zone of the model can be read in the cluster of its source.\<close>

definition readable :: "(string \<Rightarrow> zone_getter) \<Rightarrow> zone_heap \<Rightarrow> addr \<Rightarrow> bool" where
  "readable getz h d \<longleftrightarrow>
     (\<exists>obj. getz (zn_source (h ! d)) (zk_Namespace (zn_key (h ! d)), zk_Name (zn_key (h ! d))) = Inr obj)"

lemma prepareInfo_up:
  assumes "\<And>d. i_Zone i = Some d \<Longrightarrow> readable getz h d"
  shows "\<exists>zd. prepareInfo getz h i = Inr \<lparr>ai_Zone = zd\<lparr>az_Names := i_ZoneNames i\<rparr>, ai_Names = i_EntryNames i,
    ai_Records = foldl add_records zero_records (i_Entries i)\<rparr>"
proof (cases "i_Zone i")
  case (Some a)
  with assms obtain obj where "getz (zn_source (h ! a)) (zk_Namespace (zn_key (h ! a)), zk_Name (zn_key (h ! a))) = Inr obj"
    by (auto simp: readable_def)
  with Some show ?thesis by (auto simp: prepareInfo_def)
qed (auto simp: prepareInfo_def)

lemma prepare_all_up:
  assumes "\<forall>i \<in> set is. \<exists>d. f i = Inr d"
  shows "\<exists>ds. prepare_all f is [] = Inr ds \<and> length ds = length is \<and> (\<forall>j < length is. f (is ! j) = Inr (ds ! j))"
proof -
  have "\<exists>ds. map f is = map Inr ds" using assms by (induction "is") (auto, metis list.map(2))
  then obtain ds where ds: "map f is = map Inr ds" by blast
  then have "length ds = length is" by (metis length_map)
  moreover have "f (is ! j) = Inr (ds ! j)" if "j < length is" for j
    using arg_cong [OF ds, of "\<lambda>l. l ! j"] that \<open>length ds = length is\<close> by simp
  ultimately show ?thesis using ds prepare_all_Inr [of f "is" "[]"] by auto
qed

text \<open>The infos of a query are those of the zones below with entries.\<close>

lemma infos_answer:
  assumes law: "index_law (\<lambda>_. st) cg" "index_up cg" and key: "slash_free (zk_Name (zn_key (h ! d)))"
  shows "(\<exists>i. ip_info D (Component_index (E, opts, cg)) h ip d fd i) \<longleftrightarrow> address_entries E opts st (zn_key (h ! d)) ip \<noteq> {}"
    and "ip_info D (Component_index (E, opts, cg)) h ip d fd i \<Longrightarrow> i_Zone i = Some d"
    and "ip_info D (Component_index (E, opts, cg)) h ip d fd i \<Longrightarrow>
      answers_for D E opts st ip (zn_key (h ! d)) fd \<lparr>ai_Zone = zd\<lparr>az_Names := i_ZoneNames i\<rparr>, ai_Names = i_EntryNames i,
        ai_Records = foldl add_records zero_records (i_Entries i)\<rparr>"
proof -
  obtain es where es: "comp_LookupIP E opts cg (zn_source (h ! d)) (zn_key (h ! d)) ip = Inr es"
    using law(2) unfolding index_up_def comp_LookupIP_def by blast
  have set: "set es = address_entries E opts st (zn_key (h ! d)) ip"
    using lookup_ip_exact [OF law(1) key es] by (simp add: address_entries_def)
  have info: "ip_info D (Component_index (E, opts, cg)) h ip d fd i \<longleftrightarrow> i \<in> set (own_infos D d fd es)" for i
    by (simp add: ip_info_def Component_index_def es)
  show "(\<exists>i. ip_info D (Component_index (E, opts, cg)) h ip d fd i) \<longleftrightarrow> address_entries E opts st (zn_key (h ! d)) ip \<noteq> {}"
    unfolding info own_infos_eq set [symmetric] by auto
  show "ip_info D (Component_index (E, opts, cg)) h ip d fd i \<Longrightarrow> i_Zone i = Some d"
    unfolding info own_infos_eq by (auto split: if_splits)
  show "answers_for D E opts st ip (zn_key (h ! d)) fd \<lparr>ai_Zone = zd\<lparr>az_Names := i_ZoneNames i\<rparr>, ai_Names = i_EntryNames i,
      ai_Records = foldl add_records zero_records (i_Entries i)\<rparr>" if "ip_info D (Component_index (E, opts, cg)) h ip d fd i"
    using that set unfolding info own_infos_eq answers_for_def by (auto split: if_splits)
qed

lemma handleIPs_infos:
  assumes path: "proper_path key ip" and a: "GetZone m key = Some a"
    and q: "ResolveIP n D ord I m a ip = Some (Inr infos)"
    and up: "\<forall>i \<in> set infos. \<forall>d. i_Zone i = Some d \<longrightarrow> readable getz (m_heap m) d"
  shows "\<exists>docs. handleIPs n D ord I m getz (address_path key ip) =
      Some (if docs = [] then SendError ''name not in domain'' 400 else send_answer docs) \<and> length docs = length infos \<and>
    (\<forall>j < length infos. prepareInfo getz (m_heap m) (infos ! j) = Inr (docs ! j))"
proof -
  have "\<forall>i \<in> set infos. \<exists>d. prepareInfo getz (m_heap m) i = Inr d" using prepareInfo_up [of _ getz "m_heap m"] up by meson
  from prepare_all_up [OF this] obtain docs where docs: "prepare_all (prepareInfo getz (m_heap m)) infos [] = Inr docs"
    "length docs = length infos" "\<forall>j < length infos. prepareInfo getz (m_heap m) (infos ! j) = Inr (docs ! j)" by blast
  have k: "NewZoneKey (zk_ClusterName key) (zk_Namespace key) (zk_Name key) = key" by (simp add: NewZoneKey_def)
  have "str_split (CHR ''/'') (trim_prefix (address_path key ip) PATH_IPS) = [zk_ClusterName key, zk_Namespace key, zk_Name key, ip]"
    unfolding address_path_def by (rule path_fields) (use path in \<open>simp_all add: proper_path_def\<close>)
  then have "handleIPs n D ord I m getz (address_path key ip) =
      Some (if docs = [] then SendError ''name not in domain'' 400 else send_answer docs)"
    using docs(1,2) by (auto simp: handleIPs_def k a q)
  with docs show ?thesis by blast
qed

section \<open>Properties\<close>

text \<open>C13: a served zone answers for its addresses: after the controller has reconciled a served root
  zone, and while the children maps of the model have no cycle and the objects of the zones that
  have entries with the address can be read, a request for an address ends (with fuel above the
  rank of the zone), with 400 if there is no document and 200 otherwise; each document is one
  for a zone below, and each zone below that has stored entries with the address has one,
  whatever the model held before.\<close>

theorem served_zone_addresses:
  assumes "honest get" "refkey_law E" "problem_laws E" "finite_zones get (zone_namespace z)" "wf_model m"
    and "iteration_order ord" "iteration_order ord'"
    and "zone_Reconcile D E ord opts master cluster get m z = Some (m', z', None)" "served E opts get z" "zone_parent z = []"
    and "key = ZoneKeyFromObject cluster (z_Meta z)" "proper_path key ip"
    and "index_law (\<lambda>_. st) cg" "index_up cg"
    and "\<forall>a d fd. GetZone m' key = Some a \<longrightarrow> ip_path D (m_heap m') a [[]] d fd \<longrightarrow>
      address_entries E' opts' st (zn_key (m_heap m' ! d)) ip \<noteq> {} \<longrightarrow> readable getz (m_heap m') d"
    and "ranked (m_heap m') r" "\<forall>a. r a < n" "\<forall>x \<in> set (m_heap m'). slash_free (zk_Name (zn_key x))"
  shows "\<exists>a docs. GetZone m' key = Some a \<and> zn_names (m_heap m' ! a) = map (dns_Fqdn D) (zs_DomainNames (z_Spec z)) \<and>
    handleIPs n D ord' (Component_index (E', opts', cg)) m' getz (address_path key ip) =
      Some (if docs = [] then SendError ''name not in domain'' 400 else send_answer docs) \<and>
    (\<forall>i \<in> set docs. \<exists>d fd. ip_path D (m_heap m') a [[]] d fd \<and> answers_for D E' opts' st ip (zn_key (m_heap m' ! d)) fd i) \<and>
    (\<forall>d fd. ip_path D (m_heap m') a [[]] d fd \<longrightarrow> address_entries E' opts' st (zn_key (m_heap m' ! d)) ip \<noteq> {} \<longrightarrow>
      (\<exists>i \<in> set docs. answers_for D E' opts' st ip (zn_key (m_heap m' ! d)) fd i))"
proof -
  let ?I = "Component_index (E', opts', cg)" and ?h = "m_heap m'"
  have model: "wf_model m'" "abs_model m' key = Some (object_decl D z)"
    using zone_Reconcile_model [OF assms(1-6,8)] assms(9,11) by auto
  obtain a where a: "GetZone m' key = Some a" "zn_key (?h ! a) = key"
    "zn_names (?h ! a) = map (dns_Fqdn D) (zs_DomainNames (z_Spec z))"
    using model_zone [OF model] assms(10) by auto
  have wf: "wf_heap ?h" "a < length ?h"
    using model(1) a(1) by (auto simp: wf_model_def GetZone_def dest: wf_zones_lookup)
  have "resolveIP n D ord' ?I ?h ip [[]] a \<noteq> None"
    using assms(17) by (intro resolveIP_defined [OF assms(7) wf(1) assms(16) wf(2)]) blast
  moreover have "resolveIP n D ord' ?I ?h ip [[]] a \<noteq> Some (Inl e)" for e
    by (rule resolveIP_no_error [OF index_up_ip_safe [OF assms(14)]])
  ultimately obtain infos where infos: "resolveIP n D ord' ?I ?h ip [[]] a = Some (Inr infos)"
    by (cases "resolveIP n D ord' ?I ?h ip [[]] a") (auto, metis sum.exhaust)
  note set = resolveIP_infos [OF assms(7) infos]
  have below: "d < length ?h" if "ip_path D ?h a [[]] d fd" for d fd
    using ip_path_less [OF that wf] .
  have sf: "slash_free (zk_Name (zn_key (?h ! d)))" if "ip_path D ?h a [[]] d fd" for d fd
    using below [OF that] assms(18) by simp
  have read: "readable getz ?h e" if "i \<in> set infos" "i_Zone i = Some e" for i e
  proof -
    from that(1) set obtain d fd where p: "ip_path D ?h a [[]] d fd" and x: "ip_info D ?I ?h ip d fd i" by blast
    from infos_answer(2) [OF assms(13,14) sf [OF p] x] that(2) have "e = d" by simp
    with assms(15) a(1) p infos_answer(1) [OF assms(13,14) sf [OF p]] x show ?thesis by blast
  qed
  then have reads: "\<forall>i \<in> set infos. \<forall>d. i_Zone i = Some d \<longrightarrow> readable getz ?h d" by blast
  obtain docs where docs: "handleIPs n D ord' ?I m' getz (address_path key ip) =
      Some (if docs = [] then SendError ''name not in domain'' 400 else send_answer docs)" "length docs = length infos"
    "\<forall>j < length infos. prepareInfo getz ?h (infos ! j) = Inr (docs ! j)"
    using handleIPs_infos [where getz = getz, OF assms(12) a(1) infos [folded ResolveIP_def] reads] by blast
  have doc: "answers_for D E' opts' st ip (zn_key (?h ! d)) fd (docs ! j)"
    if "j < length infos" "ip_path D ?h a [[]] d fd" "ip_info D ?I ?h ip d fd (infos ! j)" for j d fd
  proof -
    have "infos ! j \<in> set infos" using that(1) by simp
    from prepareInfo_up [where getz = getz, OF read [OF this]] obtain zd where
      "prepareInfo getz ?h (infos ! j) = Inr \<lparr>ai_Zone = zd\<lparr>az_Names := i_ZoneNames (infos ! j)\<rparr>,
        ai_Names = i_EntryNames (infos ! j), ai_Records = foldl add_records zero_records (i_Entries (infos ! j))\<rparr>" by blast
    with infos_answer(3) [OF assms(13,14) sf [OF that(2)] that(3), of zd] docs(3) that(1) show ?thesis by auto
  qed
  have one: "\<exists>d fd. ip_path D ?h a [[]] d fd \<and> answers_for D E' opts' st ip (zn_key (?h ! d)) fd i" if i: "i \<in> set docs" for i
  proof -
    obtain j where j: "j < length infos" "i = docs ! j" using i docs(2) by (metis in_set_conv_nth)
    then have "infos ! j \<in> set infos" by simp
    with set obtain d fd where "ip_path D ?h a [[]] d fd" "ip_info D ?I ?h ip d fd (infos ! j)" by blast
    with doc j show ?thesis by blast
  qed
  have two: "\<exists>i \<in> set docs. answers_for D E' opts' st ip (zn_key (?h ! d)) fd i"
    if p: "ip_path D ?h a [[]] d fd" and ne: "address_entries E' opts' st (zn_key (?h ! d)) ip \<noteq> {}" for d fd
  proof -
    obtain x where x: "ip_info D ?I ?h ip d fd x" using infos_answer(1) [OF assms(13,14) sf [OF p]] ne by blast
    have "x \<in> set infos" unfolding set using p x by blast
    then obtain j where j: "j < length infos" "infos ! j = x" unfolding in_set_conv_nth by blast
    with docs(2) have "docs ! j \<in> set docs" by simp
    then show ?thesis using doc [OF j(1) p] x unfolding j(2) by blast
  qed
  show ?thesis
    by (rule exI [of _ a], rule exI [of _ docs], intro conjI ballI allI impI,
        rule a(1), rule a(3), rule docs(1), erule one, erule (1) two)
qed

text \<open>The test's zones loaded, and the root zone reconciled again.\<close>

definition loaded_again :: model where "loaded_again = fst (the (load loaded_both ZoneA_full))"

definition loaded_again_zone :: "addr \<Rightarrow> zone" where "loaded_again_zone d = m_heap loaded_again ! d"

theorem served_zone_addresses_witness:
  "\<exists>docs. handleIPs 2 ref_dns rev (Component_index (ref_ext, master_options, ref_index own_entries)) loaded_again (\<lambda>_. two_zones)
      ''/api/v1/ips/cluster/default/a/9.9.9.9'' = Some (send_answer docs) \<and>
     (\<exists>i \<in> set docs. answers_for ref_dns ref_ext master_options own_entries ''9.9.9.9'' (ZoneKeyFromObject test_Source (z_Meta ZoneAA_full))
        [''demo.mandelsoft.de.'', ''demo.mandelsoft.org.'', ''test.mandelsoft.de.'', ''test.mandelsoft.org.''] i)"
proof -
  let ?key = "ZoneKeyFromObject test_Source (z_Meta ZoneA_full)" and ?sub = "ZoneKeyFromObject test_Source (z_Meta ZoneAA_full)"
  let ?fd = "[''demo.mandelsoft.de.'', ''demo.mandelsoft.org.'', ''test.mandelsoft.de.'', ''test.mandelsoft.org.'']"
  have r1: "load New ZoneA_full = Some (loaded_root, fst (snd (the (load New ZoneA_full))), None)"
    and r2: "load loaded_root ZoneAA_full = Some (loaded_both, fst (snd (the (load loaded_root ZoneAA_full))), None)"
    and r3: "load loaded_both ZoneA_full = Some (loaded_again, fst (snd (the (load loaded_both ZoneA_full))), None)"
    by code_simp+
  have c: "zone_chain two_zones (zone_namespace ZoneA_full) (zone_parent ZoneA_full) []"
    "zs_Class (z_Spec (last [ZoneA_full])) = None" "so_Class master_options = None" "snd (ValidateZone ref_ext ZoneA_full) = None"
    "zone_parent ZoneA_full = []" "proper_path ?key ''9.9.9.9''"
    "list_all (\<lambda>e. slash_free (es_ZoneRef (e_Spec e))) own_entries"
    "list_all (\<lambda>x. slash_free (zk_Name (zn_key x))) (m_heap loaded_again)"
    "address_path ?key ''9.9.9.9'' = ''/api/v1/ips/cluster/default/a/9.9.9.9''"
    "belongs_to EntryAA_demo ?sub" "''9.9.9.9'' \<in> set (es_A (e_Spec EntryAA_demo))" "EntryAA_demo \<in> set own_entries"
    "es_ZoneRef (e_Spec EntryAA_demo) \<noteq> []"
    by code_simp+
  have h: "map zn_children (m_heap loaded_again) = [[(''a'', 1)], []]" "map zn_key (m_heap loaded_again) = [?key, ?sub]" "?key \<noteq> ?sub"
    "map zn_names (m_heap loaded_again) = [[''mandelsoft.de.'', ''mandelsoft.org.''], [''demo'', ''test'']]"
    "expand ref_dns [''mandelsoft.de.'', ''mandelsoft.org.''] [[]] [] = [''mandelsoft.de.'', ''mandelsoft.org.'']"
    "expand ref_dns [''demo'', ''test''] [''mandelsoft.de.'', ''mandelsoft.org.''] [] = ?fd"
    "GetZone loaded_again ?key = Some 0"
    by code_simp+
  have len: "length (m_heap loaded_again) = 2" using arg_cong [OF h(1), of length] by simp
  have nth: "zn_children (m_heap loaded_again ! 0) = [(''a'', 1)]" "zn_children (m_heap loaded_again ! 1) = []"
    "zn_key (m_heap loaded_again ! 0) = ?key" "zn_key (m_heap loaded_again ! 1) = ?sub"
    "zn_names (m_heap loaded_again ! 0) = [''mandelsoft.de.'', ''mandelsoft.org.'']" "zn_names (m_heap loaded_again ! 1) = [''demo'', ''test'']"
    using len arg_cong [OF h(1), of "\<lambda>l. l ! 0"] arg_cong [OF h(1), of "\<lambda>l. l ! 1"] arg_cong [OF h(2), of "\<lambda>l. l ! 0"]
      arg_cong [OF h(2), of "\<lambda>l. l ! 1"] arg_cong [OF h(4), of "\<lambda>l. l ! 0"] arg_cong [OF h(4), of "\<lambda>l. l ! 1"] by simp_all
  have srv: "served ref_ext master_options two_zones ZoneA_full"
    unfolding served_def by (intro conjI exI [of _ "[]"]) (use c(1-5) in simp_all)
  have laws: "honest two_zones" "finite_zones two_zones ns" for ns
    unfolding two_zones_def by (rule store_get_honest, rule store_get_finite)
  have "wf_model loaded_root"
    using zone_Reconcile_model [OF laws(1) ref_refkey_law ref_problem_laws laws(2) New_wf iteration_order_id r1] by blast
  from zone_Reconcile_model [OF laws(1) ref_refkey_law ref_problem_laws laws(2) this iteration_order_id r2]
  have wf: "wf_model loaded_both" by blast
  have up: "index_up (ref_index own_entries)" by (simp add: index_up_def ref_index_def)
  have "list_all (\<lambda>d. case two_zones (zk_Namespace (zn_key (loaded_again_zone d)), zk_Name (zn_key (loaded_again_zone d))) of
      Inl _ \<Rightarrow> False | Inr _ \<Rightarrow> True) [0, 1]" by code_simp
  then have objs: "readable (\<lambda>_. two_zones) (m_heap loaded_again) d" if "d < 2" for d
    using that by (auto simp: readable_def loaded_again_zone_def less_2_cases_iff split: sum.splits)
  have rank: "ranked (m_heap loaded_again) (\<lambda>a. if a = 0 then 1 else 0)" "\<forall>a. (if a = (0::nat) then 1 else 0) < (2::nat)"
    using nth(1,2) by (auto simp: ranked_def len numeral_2_eq_2 less_Suc_eq)
  have sf: "\<forall>x \<in> set (m_heap loaded_again). slash_free (zk_Name (zn_key x))" using c(8) by (simp add: list_all_iff)
  have wf2: "wf_model loaded_again"
    using zone_Reconcile_model [OF laws(1) ref_refkey_law ref_problem_laws laws(2) wf iteration_order_id r3] by blast
  have objs': "\<forall>a d fd. GetZone loaded_again ?key = Some a \<longrightarrow> ip_path ref_dns (m_heap loaded_again) a [[]] d fd \<longrightarrow>
      address_entries ref_ext master_options own_entries (zn_key (m_heap loaded_again ! d)) ''9.9.9.9'' \<noteq> {} \<longrightarrow>
      readable (\<lambda>_. two_zones) (m_heap loaded_again) d"
    using objs ip_path_less wf2 len by (metis (no_types, lifting) GetZone_def wf_model_def wf_zones_lookup)
  obtain a docs where a: "GetZone loaded_again ?key = Some a"
    and d: "handleIPs 2 ref_dns rev (Component_index (ref_ext, master_options, ref_index own_entries)) loaded_again (\<lambda>_. two_zones)
      (address_path ?key ''9.9.9.9'') = Some (if docs = [] then SendError ''name not in domain'' 400 else send_answer docs)"
    and all: "\<forall>d fd. ip_path ref_dns (m_heap loaded_again) a [[]] d fd \<longrightarrow>
      address_entries ref_ext master_options own_entries (zn_key (m_heap loaded_again ! d)) ''9.9.9.9'' \<noteq> {} \<longrightarrow>
      (\<exists>i \<in> set docs. answers_for ref_dns ref_ext master_options own_entries ''9.9.9.9'' (zn_key (m_heap loaded_again ! d)) fd i)"
    using served_zone_addresses [where E' = ref_ext and opts' = master_options,
        OF laws(1) ref_refkey_law ref_problem_laws laws(2) wf iteration_order_id iteration_order_rev r3 srv c(5) refl c(6)
          ref_index_law [OF c(7)] up objs' rank sf] by blast
  have "a = 0" using a h(7) by simp
  then have "ip_path ref_dns (m_heap loaded_again) a [[]] 1 ?fd"
    using nth(1,5,6) h(5,6) ip_here [of ref_dns "m_heap loaded_again" 1 "[''mandelsoft.de.'', ''mandelsoft.org.'']"]
      ip_below [of "''a''" 1 "m_heap loaded_again" 0 ref_dns "[[]]" 1 ?fd] by simp
  moreover have "EntryAA_demo \<in> address_entries ref_ext master_options own_entries ?sub ''9.9.9.9''"
    using c(10-13) by (simp add: address_entries_def indexed_def master_options_def)
  ultimately obtain i where i: "i \<in> set docs" "answers_for ref_dns ref_ext master_options own_entries ''9.9.9.9'' ?sub ?fd i"
    using all nth(4) by (metis empty_iff)
  then have "docs \<noteq> []" by auto
  with d i show ?thesis unfolding c(9) by auto
qed

end
