(* ===== verification/Direct_Entry.thy ===== *)
theory Direct_Entry
  imports Validation
begin

text \<open>
  The controller of the data plane for entries (internal/controller/direct/entry): its own
  walk along the parent references, the validation condition, and the summary of the
  conditions of the entry, its server condition and the state of its zone. As in
  \<open>Responsibility\<close>, \<open>get\<close> is the cluster's \<open>Get\<close> for hosted zones and a walk is a partial
  function.
\<close>

section \<open>The walk\<close>

record direct_resp =
  dr_Zone :: "hosted_zone option"
  dr_Root :: "hosted_zone option"
  dr_Error :: string

definition no_direct_resp :: direct_resp where
  "no_direct_resp = \<lparr>dr_Zone = None, dr_Root = None, dr_Error = []\<rparr>"

definition resp_String :: "direct_resp \<Rightarrow> string" where
  "resp_String r =
     (let s = (case dr_Zone r of None \<Rightarrow> [] | Some z \<Rightarrow> '' zone='' @ zone_name z @ '', '');
          s = (case dr_Root r of None \<Rightarrow> s | Some z \<Rightarrow> s @ '' root '' @ zone_name z @ '', '')
      in if dr_Error r = [] then s @ ''Ok'' else s @ ''Error:'' @ dr_Error r)"

definition first_zone :: "direct_resp \<Rightarrow> hosted_zone \<Rightarrow> direct_resp" where
  "first_zone resp z = (case dr_Zone resp of None \<Rightarrow> resp\<lparr>dr_Zone := Some z\<rparr> | Some _ \<Rightarrow> resp)"

partial_function (option) responsible_walk ::
    "'p ext \<Rightarrow> zone_getter \<Rightarrow> object_key \<Rightarrow> string list \<Rightarrow> string \<Rightarrow> direct_resp
     \<Rightarrow> (direct_resp option \<times> 'p option) option" where
  "responsible_walk E get n hist path resp =
     (case get n of
        Inl err \<Rightarrow>
          Some (if IsNotFound err
            then (Some (resp\<lparr>dr_Error := ''zone '' @ quote (ok_Name n) @ '' not found''\<rparr>), None)
            else (None, Some (x_Failed E err)))
      | Inr z \<Rightarrow>
          if zone_parent z = [] then Some (Some ((first_zone resp z)\<lparr>dr_Root := Some z\<rparr>), None)
          else if zone_parent z \<in> set (hist @ [ok_Name n]) then
            Some (Some ((first_zone resp z)\<lparr>dr_Error :=
              ''reference cycle '' @ path @ ''/'' @ ok_Name n @ ''/'' @ zone_parent z\<rparr>), None)
          else responsible_walk E get (x_RefObjectKeyFor E (zone_namespace z) (zone_parent z))
                 (hist @ [ok_Name n]) (path @ ''/'' @ ok_Name n) (first_zone resp z))"

declare responsible_walk.simps [code]

definition responsibleForEntry ::
    "'p ext \<Rightarrow> zone_getter \<Rightarrow> coredns_entry \<Rightarrow> (direct_resp option \<times> 'p option) option" where
  "responsibleForEntry E get e =
     responsible_walk E get (x_RefObjectKeyFor E (entry_namespace e) (es_ZoneRef (e_Spec e))) [] [] no_direct_resp"

section \<open>The reconciliation\<close>

definition entry_SetStatusCondition :: "'p ext \<Rightarrow> condition \<Rightarrow> coredns_entry \<Rightarrow> coredns_entry" where
  "entry_SetStatusCondition E c e =
     (let c = (if c_ObservedGeneration c = 0 then c\<lparr>c_ObservedGeneration := om_Generation (e_Meta e)\<rparr> else c)
      in e\<lparr>e_Status := (e_Status e)\<lparr>et_Conditions :=
           fst (x_SetStatusCondition E (et_Conditions (e_Status e)) c)\<rparr>\<rparr>)"

definition validation_condition :: "string option \<Rightarrow> condition" where
  "validation_condition baseerr =
     (case baseerr of
        Some msg \<Rightarrow> \<lparr>c_Type = ValidationConditionType, c_Status = ConditionFalse,
          c_Reason = ReasonConfigurarationInvalid, c_Message = msg, c_ObservedGeneration = 0\<rparr>
      | None \<Rightarrow> \<lparr>c_Type = ValidationConditionType, c_Status = ConditionTrue,
          c_Reason = ReasonConfigurarationValid, c_Message = ''configuration valid'', c_ObservedGeneration = 0\<rparr>)"

text \<open>The summary of the state; the zone and the root are dereferenced only in the ready state.\<close>

definition entry_summary ::
    "'p ext \<Rightarrow> string option \<Rightarrow> hosted_zone option \<Rightarrow> hosted_zone option \<Rightarrow> coredns_entry
     \<Rightarrow> (string \<times> string) go" where
  "entry_summary E baseerr zone root e =
     (let (state, msg) = (case baseerr of None \<Rightarrow> (STATE_READY, []) | Some m \<Rightarrow> (''Invalid'', m));
          (state, msg) = (case x_FindStatusCondition E (et_Conditions (e_Status e)) ServerConditionType of
              None \<Rightarrow> (state, msg)
            | Some c \<Rightarrow> if c_Status c = ConditionFalse \<and> baseerr = None then (''Problem'', c_Message c)
                else (state, msg))
      in if state = STATE_READY then
           (case zone of
              None \<Rightarrow> Panic
            | Some z \<Rightarrow>
                if zt_State (z_Status z) \<noteq> STATE_READY then Ret (zt_State (z_Status z), zt_Message (z_Status z))
                else (case root of
                   None \<Rightarrow> Panic
                 | Some r \<Rightarrow>
                     if et_RootZone (e_Status e) \<noteq> zone_name r \<or> length (et_EffectiveDomainNames (e_Status e)) = 0
                     then Ret (''Pending'', ''waiting for server'') else Ret (state, msg)))
         else Ret (state, msg))"

text \<open>The entry after a reconciliation, and its problem.\<close>

definition direct_finish ::
    "'p ext \<Rightarrow> options \<Rightarrow> coredns_entry \<Rightarrow> string option \<Rightarrow> hosted_zone option \<Rightarrow> hosted_zone option
     \<Rightarrow> (coredns_entry \<times> 'p option) go" where
  "direct_finish E opts e baseerr zone root =
     (if (case root of None \<Rightarrow> False
          | Some r \<Rightarrow> String (zs_Runtime (z_Spec r)) [] \<noteq> String (op_Runtime opts) [] \<or>
                      String (zs_Class (z_Spec r)) [] \<noteq> String (op_Class opts) [])
      then Ret (e, None)
      else (let e = entry_SetStatusCondition E (validation_condition baseerr) e
            in go_bind (entry_summary E baseerr zone root e) (\<lambda>(state, msg).
                 Ret (e\<lparr>e_Status := (e_Status e)\<lparr>et_Message := msg, et_State := state\<rparr>\<rparr>, None))))"

definition direct_entry_Reconcile ::
    "dns_lib \<Rightarrow> 'p ext \<Rightarrow> options \<Rightarrow> zone_getter \<Rightarrow> coredns_entry \<Rightarrow> (coredns_entry \<times> 'p option) go option" where
  "direct_entry_Reconcile D E opts get e =
     (let baseerr = ValidateEntryData D e
      in if es_ZoneRef (e_Spec e) \<noteq> [] then
           (case responsibleForEntry E get e of
              None \<Rightarrow> None
            | Some (resp, Some p) \<Rightarrow> Some (Ret (e, Some p))
            | Some (None, None) \<Rightarrow> Some Panic
            | Some (Some resp, None) \<Rightarrow>
                Some (if dr_Error resp \<noteq> []
                  then direct_finish E opts e (errors_Join [Some (''zone error: '' @ dr_Error resp), baseerr]) None None
                  else direct_finish E opts e baseerr (dr_Zone resp) (dr_Root resp)))
         else Some (direct_finish E opts e (errors_Join [Some ''zone reference required'', baseerr]) None None))"

section \<open>Chains of references\<close>

text \<open>The chains of existing zones, deleted or not, which this walk accepts.\<close>

fun ref_chain :: "zone_getter \<Rightarrow> string \<Rightarrow> string \<Rightarrow> hosted_zone list \<Rightarrow> bool" where
  "ref_chain get ns name [] \<longleftrightarrow> name = []"
| "ref_chain get ns name (z # zs) \<longleftrightarrow> name \<noteq> [] \<and> get (ns, name) = Inr z \<and> ref_chain get ns (zone_parent z) zs"

lemma zone_chain_iff:
  "zone_chain get ns n zs \<longleftrightarrow> ref_chain get ns n zs \<and> (\<forall>z \<in> set zs. \<not> deleted (z_Meta z))"
  by (induction zs arbitrary: n) auto

lemma ref_chain_unique: "ref_chain get ns n zs \<Longrightarrow> ref_chain get ns n zs' \<Longrightarrow> zs = zs'"
  by (induction zs arbitrary: n zs') (case_tac zs'; auto)+

lemma ref_chain_suffix:
  "ref_chain get ns n zs \<Longrightarrow> m \<in> set (chain_names n zs) \<Longrightarrow>
   \<exists>us vs. zs = us @ vs \<and> vs \<noteq> [] \<and> ref_chain get ns m vs"
proof (induction zs arbitrary: n)
  case (Cons z zs)
  show ?case
  proof (cases "m = n")
    case True
    with Cons.prems(1) show ?thesis by (intro exI [of _ "[]"] exI [of _ "z # zs"]) simp
  next
    case False
    with Cons.prems Cons.IH [of "zone_parent z"] obtain us vs where
      "zs = us @ vs" "vs \<noteq> []" "ref_chain get ns m vs" by auto
    then show ?thesis by (intro exI [of _ "z # us"] exI [of _ vs]) simp
  qed
qed simp

lemma ref_chain_distinct: "ref_chain get ns n zs \<Longrightarrow> distinct (chain_names n zs)"
proof (induction zs arbitrary: n)
  case (Cons z zs)
  have "n \<notin> set (chain_names (zone_parent z) zs)"
  proof
    assume "n \<in> set (chain_names (zone_parent z) zs)"
    moreover have "ref_chain get ns (zone_parent z) zs" using Cons.prems by simp
    ultimately obtain us vs where vs: "zs = us @ vs" "ref_chain get ns n vs"
      using ref_chain_suffix by blast
    from ref_chain_unique [OF Cons.prems vs(2)] vs(1) show False by simp
  qed
  with Cons show ?case by simp
qed simp

text \<open>The result on a chain: its first zone and its last one.\<close>

definition chain_found :: "direct_resp \<Rightarrow> hosted_zone list \<Rightarrow> direct_resp" where
  "chain_found resp zs = resp\<lparr>dr_Zone := (case dr_Zone resp of None \<Rightarrow> Some (hd zs) | Some z \<Rightarrow> Some z),
     dr_Root := Some (last zs)\<rparr>"

lemma responsible_walk_chain:
  assumes get: "honest get" and E: "refkey_law E"
  shows "ref_chain get ns n zs \<Longrightarrow> zs \<noteq> [] \<Longrightarrow> set (chain_names n zs) \<inter> set hist = {} \<Longrightarrow>
    responsible_walk E get (ns, n) hist path resp = Some (Some (chain_found resp zs), None)"
proof (induction zs arbitrary: n hist path resp)
  case (Cons z zs)
  show ?case
  proof (cases zs)
    case Nil
    with Cons.prems show ?thesis
      by (subst responsible_walk.simps) (auto simp: chain_found_def first_zone_def split: option.splits)
  next
    case (Cons z' zs')
    with ref_chain_distinct [OF Cons.prems(1)] Cons.prems
    have "set (chain_names (zone_parent z) zs) \<inter> set (hist @ [n]) = {}" by auto
    with Cons.IH [of "zone_parent z"] Cons.prems Cons honestD [OF get, of ns n z] show ?thesis
      by (subst responsible_walk.simps)
        (auto simp: refkey_lawD [OF E] chain_found_def first_zone_def split: option.splits)
  qed
qed simp

lemma responsible_walk_sound:
  assumes "responsible_walk E get k hist path resp = Some res"
  shows "honest get \<longrightarrow> refkey_law E \<longrightarrow> ok_Name k \<noteq> [] \<longrightarrow>
    (\<forall>r. res = (Some r, None) \<longrightarrow> dr_Error r = [] \<longrightarrow>
      (\<exists>zs. zs \<noteq> [] \<and> ref_chain get (ok_Namespace k) (ok_Name k) zs))"
proof (rule responsible_walk.raw_induct [where P = "\<lambda>E get k hist path resp res.
    honest get \<longrightarrow> refkey_law E \<longrightarrow> ok_Name k \<noteq> [] \<longrightarrow>
    (\<forall>r. res = (Some r, None) \<longrightarrow> dr_Error r = [] \<longrightarrow>
      (\<exists>zs. zs \<noteq> [] \<and> ref_chain get (ok_Namespace k) (ok_Name k) zs))", OF _ assms])
  fix W :: "'a ext \<Rightarrow> zone_getter \<Rightarrow> object_key \<Rightarrow> string list \<Rightarrow> string \<Rightarrow> direct_resp
     \<Rightarrow> (direct_resp option \<times> 'a option) option"
  fix E get k hist path resp res
  assume IH: "\<And>E get k hist path resp res. W E get k hist path resp = Some res \<Longrightarrow>
      honest get \<longrightarrow> refkey_law E \<longrightarrow> ok_Name k \<noteq> [] \<longrightarrow>
      (\<forall>r. res = (Some r, None) \<longrightarrow> dr_Error r = [] \<longrightarrow>
        (\<exists>zs. zs \<noteq> [] \<and> ref_chain get (ok_Namespace k) (ok_Name k) zs))"
    and eq: "(case get k of
        Inl err \<Rightarrow>
          Some (if IsNotFound err
            then (Some (resp\<lparr>dr_Error := ''zone '' @ quote (ok_Name k) @ '' not found''\<rparr>), None)
            else (None, Some (x_Failed E err)))
      | Inr z \<Rightarrow>
          if zone_parent z = [] then Some (Some ((first_zone resp z)\<lparr>dr_Root := Some z\<rparr>), None)
          else if zone_parent z \<in> set (hist @ [ok_Name k]) then
            Some (Some ((first_zone resp z)\<lparr>dr_Error :=
              ''reference cycle '' @ path @ ''/'' @ ok_Name k @ ''/'' @ zone_parent z\<rparr>), None)
          else W E get (x_RefObjectKeyFor E (zone_namespace z) (zone_parent z))
                 (hist @ [ok_Name k]) (path @ ''/'' @ ok_Name k) (first_zone resp z)) = Some res"
  show "honest get \<longrightarrow> refkey_law E \<longrightarrow> ok_Name k \<noteq> [] \<longrightarrow>
      (\<forall>r. res = (Some r, None) \<longrightarrow> dr_Error r = [] \<longrightarrow>
        (\<exists>zs. zs \<noteq> [] \<and> ref_chain get (ok_Namespace k) (ok_Name k) zs))"
  proof (intro impI allI)
    fix r
    assume get: "honest get" and E: "refkey_law E" and k: "ok_Name k \<noteq> []"
      and r: "res = (Some r, None)" "dr_Error r = []"
    show "\<exists>zs. zs \<noteq> [] \<and> ref_chain get (ok_Namespace k) (ok_Name k) zs"
    proof (cases "get k")
      case (Inl err)
      with eq r show ?thesis by (auto split: if_splits)
    next
      case (Inr z)
      show ?thesis
      proof (cases "zone_parent z = []")
        case True
        with Inr k show ?thesis by (intro exI [of _ "[z]"]) simp
      next
        case False
        have z: "zone_namespace z = ok_Namespace k"
          using honestD [OF get, of "ok_Namespace k" "ok_Name k" z] Inr by simp
        from False Inr eq r have "W E get (x_RefObjectKeyFor E (zone_namespace z) (zone_parent z))
                 (hist @ [ok_Name k]) (path @ ''/'' @ ok_Name k) (first_zone resp z) = Some res"
          by (auto split: if_splits)
        from IH [OF this] get E False r obtain zs where
          "ref_chain get (ok_Namespace k) (zone_parent z) zs"
          by (auto simp: refkey_lawD [OF E] z)
        with Inr k show ?thesis by (intro exI [of _ "z # zs"]) simp
      qed
    qed
  qed
qed

lemma responsible_walk_returns:
  assumes get: "honest get" and E: "refkey_law E" and fin: "finite_zones get ns"
  shows "n \<notin> set hist \<Longrightarrow>
    \<exists>r p. responsible_walk E get (ns, n) hist path resp = Some (r, p) \<and> (r = None \<longleftrightarrow> p \<noteq> None)"
proof (induction "card ({n. \<exists>z. get (ns, n) = Inr z} - set hist)" arbitrary: n hist path resp rule: less_induct)
  case less
  let ?S = "{n. \<exists>z. get (ns, n) = Inr z}"
  show ?case
  proof (cases "get (ns, n)")
    case (Inl err)
    then show ?thesis by (subst responsible_walk.simps) simp
  next
    case (Inr z)
    show ?thesis
    proof (cases "zone_parent z = [] \<or> zone_parent z \<in> set (hist @ [n])")
      case True
      with Inr show ?thesis by (subst responsible_walk.simps) auto
    next
      case False
      have "?S - set (hist @ [n]) \<subset> ?S - set hist" using Inr less.prems by auto
      then have "card (?S - set (hist @ [n])) < card (?S - set hist)"
        using fin by (intro psubset_card_mono) (auto simp: finite_zones_def)
      from less.hyps [OF this, where n = "zone_parent z" and path = "path @ ''/'' @ n" and resp = "first_zone resp z"]
        False Inr honestD [OF get Inr]
      show ?thesis by (subst responsible_walk.simps) (auto simp: refkey_lawD [OF E])
    qed
  qed
qed

section \<open>The walk as a function\<close>

text \<open>On a finite cluster without zones under foreign keys, the walk finds the ends of the chain.\<close>

definition sane :: "zone_getter \<Rightarrow> string \<Rightarrow> bool" where
  "sane get ns \<longleftrightarrow> honest get \<and> finite_zones get ns"

lemma responsible_cases:
  assumes get: "sane get ns" and E: "refkey_law E" and n: "n \<noteq> []"
  shows "(\<exists>zs. zs \<noteq> [] \<and> ref_chain get ns n zs \<and>
      responsible_walk E get (ns, n) [] [] no_direct_resp =
        Some (Some \<lparr>dr_Zone = Some (hd zs), dr_Root = Some (last zs), dr_Error = []\<rparr>, None)) \<or>
    (\<nexists>zs. zs \<noteq> [] \<and> ref_chain get ns n zs) \<and>
      ((\<exists>r. responsible_walk E get (ns, n) [] [] no_direct_resp = Some (Some r, None) \<and> dr_Error r \<noteq> []) \<or>
       (\<exists>p. responsible_walk E get (ns, n) [] [] no_direct_resp = Some (None, Some p)))"
proof (cases "\<exists>zs. zs \<noteq> [] \<and> ref_chain get ns n zs")
  case True
  then obtain zs where zs: "zs \<noteq> []" "ref_chain get ns n zs" by blast
  with responsible_walk_chain [of get E ns n zs "[]" "[]" no_direct_resp] get E
  show ?thesis by (auto simp: sane_def chain_found_def no_direct_resp_def)
next
  case False
  obtain r p where rp: "responsible_walk E get (ns, n) [] [] no_direct_resp = Some (r, p)" "r = None \<longleftrightarrow> p \<noteq> None"
    using responsible_walk_returns [of get E ns n "[]" "[]" no_direct_resp] get E by (auto simp: sane_def)
  show ?thesis
  proof (cases r)
    case None
    with rp False show ?thesis by auto
  next
    case (Some x)
    with rp responsible_walk_sound [of E get "(ns, n)" "[]" "[]" no_direct_resp "(r, p)"] get E n False
    show ?thesis by (auto simp: sane_def)
  qed
qed

lemma responsible_entry_cases:
  assumes "sane get (entry_namespace e)" "refkey_law E" "es_ZoneRef (e_Spec e) \<noteq> []"
  obtains zs where "zs \<noteq> []" "ref_chain get (entry_namespace e) (es_ZoneRef (e_Spec e)) zs"
      "responsibleForEntry E get e =
        Some (Some \<lparr>dr_Zone = Some (hd zs), dr_Root = Some (last zs), dr_Error = []\<rparr>, None)"
  | r where "\<nexists>zs. zs \<noteq> [] \<and> ref_chain get (entry_namespace e) (es_ZoneRef (e_Spec e)) zs"
      "responsibleForEntry E get e = Some (Some r, None)" "dr_Error r \<noteq> []"
  | p where "\<nexists>zs. zs \<noteq> [] \<and> ref_chain get (entry_namespace e) (es_ZoneRef (e_Spec e)) zs"
      "responsibleForEntry E get e = Some (None, Some p)"
  using responsible_cases [OF assms] unfolding responsibleForEntry_def refkey_lawD [OF assms(2)] by blast

lemma walks_agree_iff:
  assumes "sane get (entry_namespace e)" "refkey_law E" "es_ZoneRef (e_Spec e) \<noteq> []"
  shows "GetRootInfoForEntry E get (entry_namespace e, es_ZoneRef (e_Spec e)) = Some (Ret (Some r, True, None)) \<longleftrightarrow>
    (\<exists>zs. ref_chain get (entry_namespace e) (es_ZoneRef (e_Spec e)) zs \<and> list_all (\<lambda>z. \<not> deleted (z_Meta z)) zs \<and>
      responsibleForEntry E get e = Some (Some \<lparr>dr_Zone = Some (hd zs), dr_Root = Some (last zs), dr_Error = []\<rparr>, None) \<and>
      r = chain_resp (Some (hd zs)) (last zs))" (is "?L \<longleftrightarrow> ?R")
proof
  assume ?L
  with entry_root_iff [of "(entry_namespace e, es_ZoneRef (e_Spec e))" E get r] assms(3) obtain zs where
    zs: "zs \<noteq> []" "zone_chain get (entry_namespace e) (es_ZoneRef (e_Spec e)) zs"
    "r = chain_resp (Some (hd zs)) (last zs)" by auto
  then have ch: "ref_chain get (entry_namespace e) (es_ZoneRef (e_Spec e)) zs"
    "list_all (\<lambda>z. \<not> deleted (z_Meta z)) zs" by (auto simp: zone_chain_iff list_all_iff)
  from assms show ?R
  proof (cases rule: responsible_entry_cases)
    case (1 zs')
    with ref_chain_unique [OF ch(1)] have "zs' = zs" by blast
    with 1 ch zs show ?thesis by blast
  qed (use ch zs in blast)+
next
  assume ?R
  then obtain zs where zs: "ref_chain get (entry_namespace e) (es_ZoneRef (e_Spec e)) zs"
    "list_all (\<lambda>z. \<not> deleted (z_Meta z)) zs" "r = chain_resp (Some (hd zs)) (last zs)" by blast
  with assms(3) have "zs \<noteq> []" "zone_chain get (entry_namespace e) (es_ZoneRef (e_Spec e)) zs"
    by (auto simp: zone_chain_iff list_all_iff)
  with zs(3) show ?L
    using entry_root_iff [of "(entry_namespace e, es_ZoneRef (e_Spec e))" E get r] assms(3) by auto
qed

section \<open>The reconciled entry\<close>

definition owned :: "options \<Rightarrow> hosted_zone \<Rightarrow> bool" where
  "owned opts r \<longleftrightarrow> String (zs_Runtime (z_Spec r)) [] = String (op_Runtime opts) [] \<and>
     String (zs_Class (z_Spec r)) [] = String (op_Class opts) []"

lemma errors_Join_cons [simp]: "errors_Join (Some m # es) \<noteq> None"
  by simp

lemma set_validation_server:
  assumes "condition_laws E"
  shows "cond_of (et_Conditions (e_Status (entry_SetStatusCondition E (validation_condition b) e))) ServerConditionType
    = cond_of (et_Conditions (e_Status e)) ServerConditionType"
  by (simp add: entry_SetStatusCondition_def Let_def Set_eq [OF assms] validation_condition_def
      condition_type_defs split: option.splits)

lemma entry_SetStatusCondition_simps [simp]:
  "et_RootZone (e_Status (entry_SetStatusCondition E c e)) = et_RootZone (e_Status e)"
  "et_EffectiveDomainNames (e_Status (entry_SetStatusCondition E c e)) = et_EffectiveDomainNames (e_Status e)"
  "e_Spec (entry_SetStatusCondition E c e) = e_Spec e" "e_Meta (entry_SetStatusCondition E c e) = e_Meta e"
  by (simp_all add: entry_SetStatusCondition_def Let_def)

definition server_refused :: "coredns_entry \<Rightarrow> bool" where
  "server_refused e \<longleftrightarrow> (case cond_of (et_Conditions (e_Status e)) ServerConditionType of
     None \<Rightarrow> False | Some c \<Rightarrow> c_Status c = ConditionFalse)"

lemma entry_summary_invalid:
  "entry_summary E (Some m) zone root e = Ret (''Invalid'', m)"
  by (simp add: entry_summary_def STATE_READY_def split: option.splits)

lemma entry_summary_located:
  assumes "condition_laws E"
  shows "\<exists>st msg. entry_summary E None (Some z) (Some r) e = Ret (st, msg) \<and>
    (st = STATE_READY \<longleftrightarrow> \<not> server_refused e \<and> zt_State (z_Status z) = STATE_READY \<and>
       et_RootZone (e_Status e) = zone_name r \<and> et_EffectiveDomainNames (e_Status e) \<noteq> [])"
  by (auto simp: entry_summary_def STATE_READY_def server_refused_def Find_eq [OF assms] split: option.splits)

lemma server_refused_set:
  assumes "condition_laws E"
  shows "server_refused (entry_SetStatusCondition E (validation_condition b) e) = server_refused e"
  by (simp add: server_refused_def set_validation_server [OF assms])

lemma direct_finish_invalid:
  "\<exists>e'. direct_finish E opts e (Some m) None None = Ret (e', None) \<and> et_State (e_Status e') = ''Invalid''"
  by (simp add: direct_finish_def Let_def entry_summary_invalid)

lemma direct_finish_located:
  assumes "condition_laws E" "owned opts r"
  shows "\<exists>e'. direct_finish E opts e b (Some z) (Some r) = Ret (e', None) \<and>
    (et_State (e_Status e') = STATE_READY \<longleftrightarrow> b = None \<and> \<not> server_refused e \<and> zt_State (z_Status z) = STATE_READY \<and>
       et_RootZone (e_Status e) = zone_name r \<and> et_EffectiveDomainNames (e_Status e) \<noteq> [])"
proof (cases b)
  case None
  obtain st msg where "entry_summary E None (Some z) (Some r) (entry_SetStatusCondition E (validation_condition None) e)
      = Ret (st, msg)" "st = STATE_READY \<longleftrightarrow> \<not> server_refused e \<and> zt_State (z_Status z) = STATE_READY \<and>
       et_RootZone (e_Status e) = zone_name r \<and> et_EffectiveDomainNames (e_Status e) \<noteq> []"
    using entry_summary_located [OF assms(1), of z r "entry_SetStatusCondition E (validation_condition None) e"]
    by (auto simp: server_refused_set [OF assms(1)])
  with None assms(2) show ?thesis by (simp add: direct_finish_def owned_def Let_def)
next
  case (Some m)
  with assms(2) show ?thesis
    by (simp add: direct_finish_def owned_def Let_def entry_summary_invalid STATE_READY_def)
qed

lemma direct_finish_foreign: "\<not> owned opts r \<Longrightarrow> direct_finish E opts e b z (Some r) = Ret (e, None)"
  by (auto simp: direct_finish_def owned_def)

lemma direct_entry_ready:
  assumes get: "sane get (entry_namespace e)" and E: "refkey_law E" "condition_laws E"
    and own: "\<And>zs. ref_chain get (entry_namespace e) (es_ZoneRef (e_Spec e)) zs \<Longrightarrow> zs \<noteq> [] \<Longrightarrow> owned opts (last zs)"
  shows "\<exists>e' p. direct_entry_Reconcile D E opts get e = Some (Ret (e', p)) \<and> (if p \<noteq> None then e' = e else
    (et_State (e_Status e') = STATE_READY \<longleftrightarrow> valid_entry D (e_Spec e) \<and> \<not> server_refused e \<and>
      (\<exists>zs. zs \<noteq> [] \<and> ref_chain get (entry_namespace e) (es_ZoneRef (e_Spec e)) zs \<and>
        zt_State (z_Status (hd zs)) = STATE_READY \<and> et_RootZone (e_Status e) = zone_name (last zs)) \<and>
      et_EffectiveDomainNames (e_Status e) \<noteq> []))"
proof (cases "es_ZoneRef (e_Spec e) = []")
  case True
  then have no: "\<nexists>zs. zs \<noteq> [] \<and> ref_chain get (entry_namespace e) (es_ZoneRef (e_Spec e)) zs"
    by (auto simp: neq_Nil_conv)
  obtain m where m: "errors_Join [Some ''zone reference required'', ValidateEntryData D e] = Some m"
    using errors_Join_cons by blast
  obtain e' where "direct_finish E opts e (Some m) None None = Ret (e', None)" "et_State (e_Status e') = ''Invalid''"
    using direct_finish_invalid by blast
  with True no m show ?thesis by (simp add: direct_entry_Reconcile_def STATE_READY_def) blast
next
  case False
  from get E(1) False show ?thesis
  proof (cases rule: responsible_entry_cases)
    case (1 zs)
    obtain e' where "direct_finish E opts e (ValidateEntryData D e) (Some (hd zs)) (Some (last zs)) = Ret (e', None)"
      "et_State (e_Status e') = STATE_READY \<longleftrightarrow> ValidateEntryData D e = None \<and> \<not> server_refused e \<and>
         zt_State (z_Status (hd zs)) = STATE_READY \<and> et_RootZone (e_Status e) = zone_name (last zs) \<and>
         et_EffectiveDomainNames (e_Status e) \<noteq> []"
      using direct_finish_located [OF E(2) own [OF 1(2,1)]] by blast
    moreover from ref_chain_unique [OF 1(2)] 1(1,2)
    have "(\<exists>zs. zs \<noteq> [] \<and> ref_chain get (entry_namespace e) (es_ZoneRef (e_Spec e)) zs \<and>
        zt_State (z_Status (hd zs)) = STATE_READY \<and> et_RootZone (e_Status e) = zone_name (last zs)) \<longleftrightarrow>
      zt_State (z_Status (hd zs)) = STATE_READY \<and> et_RootZone (e_Status e) = zone_name (last zs)" by blast
    ultimately show ?thesis
      using False 1 by (simp add: direct_entry_Reconcile_def ValidateEntryData_None)
  next
    case (2 r)
    obtain m where m: "errors_Join [Some (''zone error: '' @ dr_Error r), ValidateEntryData D e] = Some m"
      using errors_Join_cons by blast
    obtain e' where "direct_finish E opts e (Some m) None None = Ret (e', None)" "et_State (e_Status e') = ''Invalid''"
      using direct_finish_invalid by blast
    with False 2 m show ?thesis by (auto simp: direct_entry_Reconcile_def STATE_READY_def)
  next
    case (3 p)
    with False show ?thesis by (simp add: direct_entry_Reconcile_def)
  qed
qed

section \<open>Properties\<close>

text \<open>C31: the walk of the data plane and the walk of the server find the same responsibility:
  the server's succeeds exactly if the one of the data plane does and no zone of the chain is
  being deleted, with the same direct zone and the same root.\<close>

theorem walks_agree:
  assumes "sane get (entry_namespace e)" "refkey_law E" "es_ZoneRef (e_Spec e) \<noteq> []"
  shows "GetRootInfoForEntry E get (entry_namespace e, es_ZoneRef (e_Spec e)) = Some (Ret (Some r, True, None)) \<longleftrightarrow>
    (\<exists>zs. ref_chain get (entry_namespace e) (es_ZoneRef (e_Spec e)) zs \<and> list_all (\<lambda>z. \<not> deleted (z_Meta z)) zs \<and>
      responsibleForEntry E get e = Some (Some \<lparr>dr_Zone = Some (hd zs), dr_Root = Some (last zs), dr_Error = []\<rparr>, None) \<and>
      r = chain_resp (Some (hd zs)) (last zs))"
  using assms by (rule walks_agree_iff)

lemma store_get_sane: "sane (store_get zs) ns"
  by (simp add: sane_def store_get_honest store_get_finite)

theorem walks_agree_witness:
  "responsibleForEntry ref_ext (store_get [ZoneA, ZoneAA]) EntryAA_demo =
     Some (Some \<lparr>dr_Zone = Some ZoneAA, dr_Root = Some ZoneA, dr_Error = []\<rparr>, None)"
proof -
  have "es_ZoneRef (e_Spec EntryAA_demo) \<noteq> []" by code_simp
  note w = walks_agree [OF store_get_sane ref_refkey_law this]
  have z: "zone_chain (store_get [ZoneA, ZoneAA]) (entry_namespace EntryAA_demo) (es_ZoneRef (e_Spec EntryAA_demo)) [ZoneAA, ZoneA]"
    by code_simp
  then have "GetRootInfoForEntry ref_ext (store_get [ZoneA, ZoneAA])
      (entry_namespace EntryAA_demo, es_ZoneRef (e_Spec EntryAA_demo)) =
      Some (Ret (Some (chain_resp (Some ZoneAA) ZoneA), True, None))"
    using entry_root_iff [of "(entry_namespace EntryAA_demo, es_ZoneRef (e_Spec EntryAA_demo))" ref_ext
      "store_get [ZoneA, ZoneAA]" "chain_resp (Some ZoneAA) ZoneA"] \<open>es_ZoneRef (e_Spec EntryAA_demo) \<noteq> []\<close>
    by (auto intro!: exI [of _ "[ZoneAA, ZoneA]"])
  from w [THEN iffD1, OF this] obtain zs where
    zs: "ref_chain (store_get [ZoneA, ZoneAA]) (entry_namespace EntryAA_demo) (es_ZoneRef (e_Spec EntryAA_demo)) zs"
    "responsibleForEntry ref_ext (store_get [ZoneA, ZoneAA]) EntryAA_demo =
      Some (Some \<lparr>dr_Zone = Some (hd zs), dr_Root = Some (last zs), dr_Error = []\<rparr>, None)" by blast
  from z have "ref_chain (store_get [ZoneA, ZoneAA]) (entry_namespace EntryAA_demo) (es_ZoneRef (e_Spec EntryAA_demo)) [ZoneAA, ZoneA]"
    by (simp only: zone_chain_iff)
  from zs(2) ref_chain_unique [OF zs(1) this] show ?thesis by simp
qed

text \<open>C18: a reconciliation on the data plane always returns, without panic, and leaves an entry
  below its own root zone in the state Ready exactly if its data are valid, the server has not
  refused it, the chain of its zone reference ends in a root zone, its zone is Ready, and the
  server has recorded that root zone and at least one effective domain name. With a problem
  the entry is left alone.\<close>

theorem direct_entry_Ready_iff:
  assumes "sane get (entry_namespace e)" "refkey_law E" "condition_laws E"
    and "\<And>zs. ref_chain get (entry_namespace e) (es_ZoneRef (e_Spec e)) zs \<Longrightarrow> zs \<noteq> [] \<Longrightarrow> owned opts (last zs)"
  shows "\<exists>e' p. direct_entry_Reconcile D E opts get e = Some (Ret (e', p)) \<and> (if p \<noteq> None then e' = e else
    (et_State (e_Status e') = STATE_READY \<longleftrightarrow> valid_entry D (e_Spec e) \<and> \<not> server_refused e \<and>
      (\<exists>zs. zs \<noteq> [] \<and> ref_chain get (entry_namespace e) (es_ZoneRef (e_Spec e)) zs \<and>
        zt_State (z_Status (hd zs)) = STATE_READY \<and> et_RootZone (e_Status e) = zone_name (last zs)) \<and>
      et_EffectiveDomainNames (e_Status e) \<noteq> []))"
  using assms by (rule direct_entry_ready)

definition ready_zone :: "hosted_zone \<Rightarrow> hosted_zone" where
  "ready_zone z = z\<lparr>z_Status := zero_zone_status\<lparr>zt_State := STATE_READY\<rparr>\<rparr>"

definition served_entry :: coredns_entry where
  "served_entry = EntryAA_demo\<lparr>e_Status := zero_entry_status\<lparr>et_RootZone := ''a'',
     et_EffectiveDomainNames := [''demo.demo.mandelsoft.de.'']\<rparr>\<rparr>"

abbreviation ready_get :: zone_getter where
  "ready_get \<equiv> store_get [ready_zone ZoneA, ready_zone ZoneAA]"

theorem direct_entry_Ready_iff_witness:
  "\<exists>e' p. direct_entry_Reconcile ref_dns ref_ext \<lparr>op_Class = None, op_Runtime = None\<rparr> ready_get served_entry = Some (Ret (e', p)) \<and>
     (if p \<noteq> None then e' = served_entry else et_State (e_Status e') = STATE_READY)"
proof -
  let ?e = served_entry
  let ?opts = "\<lparr>op_Class = None, op_Runtime = None\<rparr>"
  have ch: "ref_chain ready_get (entry_namespace ?e) (es_ZoneRef (e_Spec ?e)) [ready_zone ZoneAA, ready_zone ZoneA]"
    and own: "owned ?opts (ready_zone ZoneA)"
    and rdy: "zt_State (z_Status (hd [ready_zone ZoneAA, ready_zone ZoneA])) = STATE_READY \<and>
       et_RootZone (e_Status ?e) = zone_name (last [ready_zone ZoneAA, ready_zone ZoneA])"
    and srv: "\<not> server_refused ?e" "et_EffectiveDomainNames (e_Status ?e) \<noteq> []"
    and val: "ValidateEntryData ref_dns ?e = None"
    by code_simp+
  have "owned ?opts (last zs)"
    if "ref_chain ready_get (entry_namespace ?e) (es_ZoneRef (e_Spec ?e)) zs" "zs \<noteq> []" for zs
    using ref_chain_unique [OF ch that(1)] own by auto
  from direct_entry_Ready_iff [OF store_get_sane ref_refkey_law ref_condition_laws this, where D = ref_dns]
  obtain e' p where e': "direct_entry_Reconcile ref_dns ref_ext ?opts ready_get ?e = Some (Ret (e', p))"
    "if p \<noteq> None then e' = ?e else
    (et_State (e_Status e') = STATE_READY \<longleftrightarrow> valid_entry ref_dns (e_Spec ?e) \<and> \<not> server_refused ?e \<and>
      (\<exists>zs. zs \<noteq> [] \<and> ref_chain ready_get (entry_namespace ?e) (es_ZoneRef (e_Spec ?e)) zs \<and>
        zt_State (z_Status (hd zs)) = STATE_READY \<and> et_RootZone (e_Status ?e) = zone_name (last zs)) \<and>
      et_EffectiveDomainNames (e_Status ?e) \<noteq> [])" by blast
  have "\<exists>zs. zs \<noteq> [] \<and> ref_chain ready_get (entry_namespace ?e) (es_ZoneRef (e_Spec ?e)) zs \<and>
        zt_State (z_Status (hd zs)) = STATE_READY \<and> et_RootZone (e_Status ?e) = zone_name (last zs)"
    using ch rdy by (intro exI [of _ "[ready_zone ZoneAA, ready_zone ZoneA]"]) simp
  with e' srv val show ?thesis
    by (intro exI [of _ e'] exI [of _ p]) (simp add: ValidateEntryData_None [symmetric])
qed

end
