(* ===== verification/Entry_Flow.thy ===== *)
theory Entry_Flow
  imports Server_Entry Direct_Entry
begin

text \<open>
  An entry is written by two controllers: the server's and the data plane's, which summarises. In
  slave mode the server acts as a slave, which reports its part as a condition, only for an
  object with a condition of another controller; for one without it acts as its master, which
  clears the conditions and sets the state itself. This theory composes the two controllers on
  one object, with the server's mode computed from the object each time, as its factory does.
\<close>

section \<open>The two steps\<close>

text \<open>What a slave server stores for a served entry.\<close>

definition slave_entry :: "'p ext \<Rightarrow> string \<Rightarrow> string list \<Rightarrow> coredns_entry \<Rightarrow> coredns_entry" where
  "slave_entry E root ns e = e\<lparr>e_Status := (e_Status e)\<lparr>et_RootZone := root, et_EffectiveDomainNames := ns,
     et_Conditions := fst (x_SetStatusCondition E (et_Conditions (e_Status e))
       (server_condition ConditionTrue (om_Generation (e_Meta e)) ReasonServerActive ''entry served''))\<rparr>\<rparr>"

lemma slave_updateStatus: "entry_updateStatus E False e True root ns None = (slave_entry E root ns e, None)"
  by (simp add: entry_updateStatus_eq slave_entry_def Let_def)

lemma slave_entry_sel [simp]:
  "e_Spec (slave_entry E root ns e) = e_Spec e" "e_Meta (slave_entry E root ns e) = e_Meta e"
  "et_RootZone (e_Status (slave_entry E root ns e)) = root"
  "et_EffectiveDomainNames (e_Status (slave_entry E root ns e)) = ns"
  "et_State (e_Status (slave_entry E root ns e)) = et_State (e_Status e)"
  by (simp_all add: slave_entry_def)

lemma slave_entry_server:
  assumes "condition_laws E"
  shows "cond_of (et_Conditions (e_Status (slave_entry E root ns e))) ServerConditionType =
    Some (server_condition ConditionTrue (om_Generation (e_Meta e)) ReasonServerActive ''entry served'')"
  by (simp add: slave_entry_def Set_eq [OF assms] server_condition_def)

text \<open>What a master server stores for a served entry.\<close>

definition master_entry :: "string \<Rightarrow> string list \<Rightarrow> coredns_entry \<Rightarrow> coredns_entry" where
  "master_entry root ns e = e\<lparr>e_Status := (e_Status e)\<lparr>et_RootZone := root, et_EffectiveDomainNames := ns,
     et_Conditions := [], et_Message := [], et_State := ''Ok''\<rparr>\<rparr>"

lemma master_updateStatus: "entry_updateStatus E True e True root ns None = (master_entry root ns e, None)"
  by (simp add: entry_updateStatus_eq master_entry_def Let_def)

lemma master_entry_sel [simp]:
  "e_Spec (master_entry root ns e) = e_Spec e" "e_Meta (master_entry root ns e) = e_Meta e"
  by (simp_all add: master_entry_def)

text \<open>What the data plane stores for a ready entry.\<close>

definition ready_entry :: "'p ext \<Rightarrow> coredns_entry \<Rightarrow> coredns_entry" where
  "ready_entry E e = (let e' = entry_SetStatusCondition E (validation_condition None) e
     in e'\<lparr>e_Status := (e_Status e')\<lparr>et_Message := [], et_State := STATE_READY\<rparr>\<rparr>)"

lemma ready_entry_sel [simp]:
  "e_Spec (ready_entry E e) = e_Spec e" "e_Meta (ready_entry E e) = e_Meta e"
  "et_RootZone (e_Status (ready_entry E e)) = et_RootZone (e_Status e)"
  "et_EffectiveDomainNames (e_Status (ready_entry E e)) = et_EffectiveDomainNames (e_Status e)"
  "et_State (e_Status (ready_entry E e)) = STATE_READY" "et_Message (e_Status (ready_entry E e)) = []"
  "et_Conditions (e_Status (ready_entry E e)) =
     et_Conditions (e_Status (entry_SetStatusCondition E (validation_condition None) e))"
  by (simp_all add: ready_entry_def Let_def)

lemma direct_Reconcile_chain:
  assumes "sane get (entry_namespace e)" "refkey_law E"
    and "zs \<noteq> []" "ref_chain get (entry_namespace e) (es_ZoneRef (e_Spec e)) zs"
  shows "direct_entry_Reconcile D E opts get e =
    Some (direct_finish E opts e (ValidateEntryData D e) (Some (hd zs)) (Some (last zs)))"
proof -
  have ref: "es_ZoneRef (e_Spec e) \<noteq> []" using assms(3,4) by (cases zs) auto
  from assms(1,2) ref show ?thesis
  proof (cases rule: responsible_entry_cases)
    case (1 zs')
    with ref_chain_unique [OF assms(4) 1(2)] ref show ?thesis by (simp add: direct_entry_Reconcile_def)
  qed (use assms in blast)+
qed

lemma direct_finish_ready:
  assumes E: "condition_laws E" and own: "owned opts r" and ok: "\<not> server_refused e" "zt_State (z_Status z) = STATE_READY"
    "et_RootZone (e_Status e) = zone_name r" "et_EffectiveDomainNames (e_Status e) \<noteq> []"
  shows "direct_finish E opts e None (Some z) (Some r) = Ret (ready_entry E e, None)"
proof -
  let ?e = "entry_SetStatusCondition E (validation_condition None) e"
  have "\<not> server_refused ?e" using ok(1) by (simp add: server_refused_set [OF E])
  with ok(2-) have "entry_summary E None (Some z) (Some r) ?e = Ret (STATE_READY, [])"
    by (auto simp: entry_summary_def server_refused_def Find_eq [OF E] split: option.splits)
  with own show ?thesis by (simp add: direct_finish_def owned_def ready_entry_def Let_def)
qed

section \<open>The joint fixed point\<close>

text \<open>Conditions are kept if they are stored again: the writes of one controller survive the other's.\<close>

lemma entry_SetStatusCondition_same:
  assumes "condition_laws E"
    and "cond_of (et_Conditions (e_Status e)) ValidationConditionType =
      Some ((validation_condition b)\<lparr>c_ObservedGeneration := om_Generation (e_Meta e)\<rparr>)"
  shows "entry_SetStatusCondition E (validation_condition b) e = e"
proof -
  have t: "c_Type (validation_condition b) = ValidationConditionType"
    "c_ObservedGeneration (validation_condition b) = 0"
    by (simp_all add: validation_condition_def split: option.splits)
  have "fst (x_SetStatusCondition E (et_Conditions (e_Status e))
      ((validation_condition b)\<lparr>c_ObservedGeneration := om_Generation (e_Meta e)\<rparr>)) = et_Conditions (e_Status e)"
    using assms(2) by (intro Set_same [OF assms(1)]) (simp add: t)
  then show ?thesis by (simp add: entry_SetStatusCondition_def t Let_def)
qed

lemma ready_entry_validation:
  assumes "condition_laws E"
  shows "cond_of (et_Conditions (e_Status (ready_entry E e))) ValidationConditionType =
    Some ((validation_condition None)\<lparr>c_ObservedGeneration := om_Generation (e_Meta e)\<rparr>)"
  by (simp add: entry_SetStatusCondition_def Let_def Set_eq [OF assms] validation_condition_def)

lemma ready_entry_idem:
  assumes E: "condition_laws E"
  shows "ready_entry E (ready_entry E e) = ready_entry E e"
proof -
  have "entry_SetStatusCondition E (validation_condition None) (ready_entry E e) = ready_entry E e"
    by (rule entry_SetStatusCondition_same [OF E]) (simp add: ready_entry_validation [OF E] del: ready_entry_sel(7))
  then show ?thesis
    by (subst (1) ready_entry_def) (simp add: Let_def)
qed

lemma ready_entry_server:
  assumes "condition_laws E"
  shows "cond_of (et_Conditions (e_Status (ready_entry E e))) ServerConditionType =
    cond_of (et_Conditions (e_Status e)) ServerConditionType"
  by (simp add: set_validation_server [OF assms])

text \<open>All names of the chain are products, so there is one if every zone has a domain name.\<close>

lemma names_along_nonempty:
  assumes "names_along D (Some ns) zs = Some ns'" "ns \<noteq> []" "\<forall>z \<in> set zs. zs_DomainNames (z_Spec z) \<noteq> []"
  shows "ns' \<noteq> []"
  using assms
proof (induction zs arbitrary: ns)
  case (Cons z zs)
  let ?ns = "concat (map (\<lambda>n. map (\<lambda>s. dns_Fqdn D n @ dns_Fqdn D s) (zs_DomainNames (z_Spec z))) ns)"
  have "?ns \<noteq> []" using Cons.prems(2,3) by (cases ns) auto
  with Cons.IH [of ?ns] Cons.prems(1,3) show ?case by (simp add: AggregateNames_eq)
qed simp

section \<open>Two writers of one object\<close>

text \<open>A schedule says whose turn it is; the run ends where a writer reports a problem.\<close>

datatype turn = First | Second

fun run :: "('o \<Rightarrow> 'o option) \<Rightarrow> ('o \<Rightarrow> 'o option) \<Rightarrow> turn list \<Rightarrow> 'o \<Rightarrow> 'o option" where
  "run first second [] x = Some x"
| "run first second (t # ts) x =
     (case (case t of First \<Rightarrow> first x | Second \<Rightarrow> second x) of None \<Rightarrow> None | Some y \<Rightarrow> run first second ts y)"

lemma run_append: "run first second (ts @ us) x = (case run first second ts x of None \<Rightarrow> None | Some y \<Rightarrow> run first second us y)"
  by (induction ts arbitrary: x) (auto split: option.split)

text \<open>
  What two controllers need that take turns on one object: both keep the invariant and end
  without problem. The second leaves a mark, which both keep and by which the first sees that
  it is not alone; what the first has done for a marked object survives both, the second
  completes it, and a completed object is left alone.
\<close>

locale two_writers =
  fixes first second :: "'o \<Rightarrow> 'o option" and inv seen served complete :: "'o \<Rightarrow> bool"
  assumes first: "inv x \<Longrightarrow> \<exists>y. first x = Some y \<and> inv y \<and> (seen x \<longrightarrow> seen y \<and> served y)"
    and second: "inv x \<Longrightarrow> \<exists>y. second x = Some y \<and> inv y \<and> seen y \<and> (served x \<longrightarrow> served y \<and> complete y)"
    and fixed: "inv x \<Longrightarrow> complete x \<Longrightarrow> first x = Some x \<and> second x = Some x"
begin

lemma run_seen:
  assumes "inv x"
  shows "\<exists>y. run first second ts x = Some y \<and> inv y \<and> (seen x \<or> Second \<in> set ts \<longrightarrow> seen y)"
  using assms
proof (induction ts arbitrary: x)
  case (Cons t ts)
  obtain y where y: "(case t of First \<Rightarrow> first x | Second \<Rightarrow> second x) = Some y" "inv y"
    "seen x \<or> t = Second \<longrightarrow> seen y"
    using first [OF Cons.prems] second [OF Cons.prems] by (cases t) auto
  from Cons.IH [OF y(2)] y(1,3) show ?case by auto
qed simp

lemma run_served: "inv x \<Longrightarrow> seen x \<Longrightarrow> served x \<Longrightarrow>
    \<exists>y. run first second ts x = Some y \<and> inv y \<and> seen y \<and> served y"
proof (induction ts arbitrary: x)
  case (Cons t ts)
  obtain y where "(case t of First \<Rightarrow> first x | Second \<Rightarrow> second x) = Some y" "inv y" "seen y" "served y"
    using first [OF Cons.prems(1)] second [OF Cons.prems(1)] Cons.prems(2,3) by (cases t) auto
  with Cons.IH show ?case by simp
qed simp

lemma run_complete:
  assumes "inv x" "complete x"
  shows "run first second ts x = Some x"
proof (induction ts)
  case (Cons t ts)
  then show ?case using fixed [OF assms] by (cases t) simp_all
qed simp

text \<open>Once the first has come after the second and the second after that, the object is complete for good.\<close>

lemma converges:
  assumes "inv x" "seen x \<or> Second \<in> set us"
  shows "\<exists>y. run first second (us @ First # vs @ Second # ws) x = Some y \<and> inv y \<and> served y \<and> complete y"
proof -
  obtain x1 where x1: "run first second us x = Some x1" "inv x1" "seen x1" using run_seen [OF assms(1)] assms(2) by blast
  obtain x2 where x2: "first x1 = Some x2" "inv x2" "seen x2" "served x2" using first [OF x1(2)] x1(3) by blast
  obtain x3 where x3: "run first second vs x2 = Some x3" "inv x3" "seen x3" "served x3" using run_served [OF x2(2-4)] by blast
  obtain x4 where x4: "second x3 = Some x4" "inv x4" "served x4" "complete x4" using second [OF x3(2)] x3(4) by blast
  from run_complete [OF x4(2,4)] show ?thesis using x1 x2 x3 x4 by (simp add: run_append)
qed

end

section \<open>The writers of an entry\<close>

text \<open>
  A reconciliation by the server, with the request its factory creates for the object, and one by
  the data plane, if they end without problem.
\<close>

definition server_write :: "dns_lib \<Rightarrow> 'p ext \<Rightarrow> server_options \<Rightarrow> zone_getter \<Rightarrow> coredns_entry \<Rightarrow> coredns_entry option" where
  "server_write D E sopts get e = (case entry_Reconcile D E sopts (entry_CreateRequest sopts (Some e)) get e of Some (e', None) \<Rightarrow> Some e' | _ \<Rightarrow> None)"

definition direct_write :: "dns_lib \<Rightarrow> 'p ext \<Rightarrow> options \<Rightarrow> zone_getter \<Rightarrow> coredns_entry \<Rightarrow> coredns_entry option" where
  "direct_write D E dopts get e =
     (case direct_entry_Reconcile D E dopts get e of Some (Ret (e', None)) \<Rightarrow> Some e' | _ \<Rightarrow> None)"

text \<open>
  A server in slave mode, and a valid entry below a Ready zone, whose chain of living zones ends
  in a root zone without class.
\<close>

definition entry_setting ::
    "dns_lib \<Rightarrow> 'p ext \<Rightarrow> server_options \<Rightarrow> options \<Rightarrow> zone_getter \<Rightarrow> hosted_zone \<Rightarrow> hosted_zone list \<Rightarrow> coredns_entry \<Rightarrow> bool" where
  "entry_setting D E sopts dopts get z zs e \<longleftrightarrow> so_Slave sopts \<and>
     sane get (entry_namespace e) \<and> refkey_law E \<and> condition_laws E \<and>
     zone_chain get (entry_namespace e) (es_ZoneRef (e_Spec e)) (z # zs) \<and>
     zs_Class (z_Spec (last (z # zs))) = None \<and> so_Class sopts = None \<and> owned dopts (last (z # zs)) \<and>
     valid_entry D (e_Spec e) \<and> zt_State (z_Status z) = STATE_READY \<and>
     (\<forall>x \<in> set (z # zs). zs_DomainNames (z_Spec x) \<noteq> [])"

text \<open>What makes the server a slave: the entry has a condition of another controller.\<close>

definition entry_seen :: "coredns_entry \<Rightarrow> bool" where
  "entry_seen e \<longleftrightarrow> (\<exists>c \<in> set (et_Conditions (e_Status e)). c_Type c \<noteq> ServerConditionType)"

definition entry_served :: "dns_lib \<Rightarrow> hosted_zone \<Rightarrow> hosted_zone list \<Rightarrow> coredns_entry \<Rightarrow> bool" where
  "entry_served D z zs e \<longleftrightarrow> et_RootZone (e_Status e) = zone_name (last (z # zs)) \<and>
     Some (et_EffectiveDomainNames (e_Status e)) = names_along D (Some (es_DNSNames (e_Spec e))) (z # zs) \<and>
     cond_of (et_Conditions (e_Status e)) ServerConditionType =
       Some (server_condition ConditionTrue (om_Generation (e_Meta e)) ReasonServerActive ''entry served'')"

definition entry_complete :: "dns_lib \<Rightarrow> 'p ext \<Rightarrow> hosted_zone \<Rightarrow> hosted_zone list \<Rightarrow> coredns_entry \<Rightarrow> bool" where
  "entry_complete D E z zs e \<longleftrightarrow> entry_served D z zs e \<and> ready_entry E e = e"

lemma entry_setting_cong: "e_Spec e' = e_Spec e \<Longrightarrow> e_Meta e' = e_Meta e \<Longrightarrow>
    entry_setting D E sopts dopts get z zs e' \<longleftrightarrow> entry_setting D E sopts dopts get z zs e"
  by (simp add: entry_setting_def)

lemma entry_seen_cond:
  "cond_of (et_Conditions (e_Status e)) t = Some c \<Longrightarrow> t \<noteq> ServerConditionType \<Longrightarrow> entry_seen e"
  by (auto simp: entry_seen_def dest!: find_SomeD)

lemma entry_seen_ready: "condition_laws E \<Longrightarrow> entry_seen (ready_entry E e)"
  by (rule entry_seen_cond [OF ready_entry_validation]) (simp_all add: condition_type_defs)

lemma server_is_master: "so_Slave sopts \<Longrightarrow> entry_CreateRequest sopts (Some e) \<longleftrightarrow> \<not> entry_seen e"
  by (auto simp: entry_CreateRequest_def IsMaster_iff entry_seen_def)

lemma server_write_eq:
  assumes s: "entry_setting D E sopts dopts get z zs e"
  obtains ns where "names_along D (Some (es_DNSNames (e_Spec e))) (z # zs) = Some ns"
    "server_write D E sopts get e = Some (if entry_seen e then slave_entry E (zone_name (last (z # zs))) ns e
       else master_entry (zone_name (last (z # zs))) ns e)" "ns \<noteq> []"
proof -
  have h: "honest get" and E: "refkey_law E" and chain: "zone_chain get (entry_namespace e) (es_ZoneRef (e_Spec e)) (z # zs)"
    and cls: "zs_Class (z_Spec (last (z # zs))) = None" "so_Class sopts = None"
    and valid: "valid_entry D (e_Spec e)" and state: "zt_State (z_Status z) \<in> {''Ready'', ''Ok''}"
    and doms: "\<forall>x \<in> set (z # zs). zs_DomainNames (z_Spec x) \<noteq> []"
    using s by (simp_all add: entry_setting_def sane_def STATE_READY_def)
  have ref: "es_ZoneRef (e_Spec e) \<noteq> []" and z: "get (entry_namespace e, es_ZoneRef (e_Spec e)) = Inr z"
    and rest: "zone_chain get (entry_namespace e) (zone_parent z) zs" using chain by auto
  from honestD [OF h z] have k: "zone_namespace z = entry_namespace e" "zone_name z = es_ZoneRef (e_Spec e)" by auto
  have n: "zone_name z \<notin> set (chain_names (zone_parent z) zs)"
    using zone_chain_distinct [OF chain] by (simp add: k)
  obtain ns where ns: "names_along D (Some (es_DNSNames (e_Spec e))) (z # zs) = Some ns"
    using names_along_Some by blast
  have "es_DNSNames (e_Spec e) \<noteq> []" using valid by (simp add: valid_entry_def)
  from names_along_nonempty [OF ns this doms] have ne: "ns \<noteq> []" .
  have "entry_Reconcile D E sopts master get e =
      Some (entry_updateStatus E master e True (zone_name (last (z # zs))) ns None)" for master
    by (rule entry_Reconcile_update [OF h E z ref rest [folded k(1)] n cls valid state ns])
  moreover have "so_Slave sopts" using s by (simp add: entry_setting_def)
  ultimately show ?thesis
    by (intro that [OF ns _ ne])
       (simp add: server_write_def server_is_master slave_updateStatus master_updateStatus del: last.simps)
qed

lemma direct_finish_keeps:
  assumes E: "condition_laws E" and own: "owned opts r"
  shows "\<exists>e'. direct_finish E opts e None (Some z) (Some r) = Ret (e', None) \<and> e_Spec e' = e_Spec e \<and> e_Meta e' = e_Meta e \<and>
    et_RootZone (e_Status e') = et_RootZone (e_Status e) \<and>
    et_EffectiveDomainNames (e_Status e') = et_EffectiveDomainNames (e_Status e) \<and>
    cond_of (et_Conditions (e_Status e')) ServerConditionType = cond_of (et_Conditions (e_Status e)) ServerConditionType \<and>
    entry_seen e'"
proof -
  let ?v = "entry_SetStatusCondition E (validation_condition None) e"
  have "entry_seen ?v"
    using entry_seen_ready [OF E, of e] by (simp add: entry_seen_def)
  moreover obtain st msg where "entry_summary E None (Some z) (Some r) (entry_SetStatusCondition E (validation_condition None) e) = Ret (st, msg)"
    using entry_summary_located [OF E] by blast
  ultimately show ?thesis using own
    by (simp add: direct_finish_def owned_def Let_def set_validation_server [OF E] entry_seen_def)
qed

lemma direct_write_eq:
  assumes s: "entry_setting D E sopts dopts get z zs e"
  shows "\<exists>e'. direct_write D E dopts get e = Some e' \<and> e_Spec e' = e_Spec e \<and> e_Meta e' = e_Meta e \<and> entry_seen e' \<and>
    (entry_served D z zs e \<longrightarrow> entry_served D z zs e' \<and> e' = ready_entry E e)"
proof -
  have E: "condition_laws E" and own: "owned dopts (last (z # zs))" using s by (simp_all add: entry_setting_def)
  have v: "ValidateEntryData D e = None" using s by (simp add: entry_setting_def ValidateEntryData_None)
  have rec: "direct_entry_Reconcile D E dopts get e = Some (direct_finish E dopts e None (Some z) (Some (last (z # zs))))"
    using direct_Reconcile_chain [of get e E "z # zs" D dopts] s v by (auto simp: entry_setting_def zone_chain_iff)
  obtain e' where e': "direct_finish E dopts e None (Some z) (Some (last (z # zs))) = Ret (e', None)" "e_Spec e' = e_Spec e" "e_Meta e' = e_Meta e"
    "et_RootZone (e_Status e') = et_RootZone (e_Status e)"
    "et_EffectiveDomainNames (e_Status e') = et_EffectiveDomainNames (e_Status e)"
    "cond_of (et_Conditions (e_Status e')) ServerConditionType = cond_of (et_Conditions (e_Status e)) ServerConditionType"
    "entry_seen e'"
    using direct_finish_keeps [OF E own] by blast
  have ready: "e' = ready_entry E e" if sv: "entry_served D z zs e"
  proof -
    obtain ns where ns: "names_along D (Some (es_DNSNames (e_Spec e))) (z # zs) = Some ns" "ns \<noteq> []"
      using server_write_eq [OF s] by blast
    have "\<not> server_refused e" using sv by (simp add: server_refused_def entry_served_def) (simp add: server_condition_def)
    moreover have "et_EffectiveDomainNames (e_Status e) \<noteq> []" "et_RootZone (e_Status e) = zone_name (last (z # zs))"
      using sv ns unfolding entry_served_def by simp_all
    moreover have "zt_State (z_Status z) = STATE_READY" using s by (simp add: entry_setting_def)
    ultimately have "direct_finish E dopts e None (Some z) (Some (last (z # zs))) = Ret (ready_entry E e, None)"
      by (intro direct_finish_ready [OF E own])
    with e'(1) show ?thesis by simp
  qed
  have "direct_write D E dopts get e = Some e'" by (simp add: direct_write_def rec e'(1) del: last.simps)
  moreover have "entry_served D z zs e'" if "entry_served D z zs e"
    using that unfolding entry_served_def e'(2-6) .
  ultimately show ?thesis using e'(2,3,7) ready by blast
qed

lemma slave_entry_served:
  assumes "condition_laws E" "names_along D (Some (es_DNSNames (e_Spec e))) (z # zs) = Some ns"
  shows "entry_served D z zs (slave_entry E (zone_name (last (z # zs))) ns e)"
  unfolding entry_served_def slave_entry_sel slave_entry_server [OF assms(1)] assms(2) by simp

lemma served_slave_entry:
  assumes E: "condition_laws E" and s: "entry_served D z zs e"
    and ns: "names_along D (Some (es_DNSNames (e_Spec e))) (z # zs) = Some ns"
  shows "slave_entry E (zone_name (last (z # zs))) ns e = e"
proof -
  have c: "cond_of (et_Conditions (e_Status e)) ServerConditionType =
      Some (server_condition ConditionTrue (om_Generation (e_Meta e)) ReasonServerActive ''entry served'')"
    and f: "et_RootZone (e_Status e) = zone_name (last (z # zs))" "et_EffectiveDomainNames (e_Status e) = ns"
    using s ns unfolding entry_served_def by simp_all
  from c have "fst (x_SetStatusCondition E (et_Conditions (e_Status e))
      (server_condition ConditionTrue (om_Generation (e_Meta e)) ReasonServerActive ''entry served'')) =
      et_Conditions (e_Status e)"
    by (intro Set_same [OF E]) (simp add: server_condition_def)
  then show ?thesis unfolding f(1) [symmetric] f(2) [symmetric] by (simp add: slave_entry_def)
qed

lemma slave_entry_seen:
  assumes "condition_laws E" "entry_seen e"
  shows "entry_seen (slave_entry E root ns e)"
proof -
  from assms(2) obtain c where c: "c \<in> set (et_Conditions (e_Status e))" "c_Type c \<noteq> ServerConditionType"
    by (auto simp: entry_seen_def)
  then have "cond_of (et_Conditions (e_Status e)) (c_Type c) \<noteq> None" by (auto simp: find_None_iff)
  then obtain c' where "cond_of (et_Conditions (e_Status (slave_entry E root ns e))) (c_Type c) = Some c'"
    using c(2) by (auto simp: slave_entry_def Set_eq [OF assms(1)] server_condition_def simp del: find_None_iff)
  from entry_seen_cond [OF this c(2)] show ?thesis .
qed

interpretation entry_writers: two_writers "server_write D E sopts get" "direct_write D E dopts get"
    "entry_setting D E sopts dopts get z zs" entry_seen "entry_served D z zs" "entry_complete D E z zs"
  for D :: dns_lib and E :: "'p ext" and sopts dopts get z zs
proof
  fix e assume s: "entry_setting D E sopts dopts get z zs e"
  have E: "condition_laws E" using s by (simp add: entry_setting_def)
  obtain ns where ns: "names_along D (Some (es_DNSNames (e_Spec e))) (z # zs) = Some ns"
    and w: "server_write D E sopts get e = Some (if entry_seen e then slave_entry E (zone_name (last (z # zs))) ns e
       else master_entry (zone_name (last (z # zs))) ns e)"
    using server_write_eq [OF s] by blast
  have keep: "entry_setting D E sopts dopts get z zs (slave_entry E r ns e)"
    "entry_setting D E sopts dopts get z zs (master_entry r ns e)" for r
    using s entry_setting_cong [of "slave_entry E r ns e" e D E sopts dopts get z zs]
      entry_setting_cong [of "master_entry r ns e" e D E sopts dopts get z zs] by simp_all
  show "\<exists>y. server_write D E sopts get e = Some y \<and> entry_setting D E sopts dopts get z zs y \<and>
      (entry_seen e \<longrightarrow> entry_seen y \<and> entry_served D z zs y)"
    using w keep slave_entry_seen [OF E] slave_entry_served [OF E ns] by (cases "entry_seen e") simp_all
  obtain e' where e': "direct_write D E dopts get e = Some e'" "e_Spec e' = e_Spec e" "e_Meta e' = e_Meta e" "entry_seen e'"
    "entry_served D z zs e \<longrightarrow> entry_served D z zs e' \<and> e' = ready_entry E e"
    using direct_write_eq [OF s] by blast
  moreover have "entry_setting D E sopts dopts get z zs e'" using entry_setting_cong [OF e'(2,3)] s by blast
  ultimately show "\<exists>y. direct_write D E dopts get e = Some y \<and> entry_setting D E sopts dopts get z zs y \<and> entry_seen y \<and>
      (entry_served D z zs e \<longrightarrow> entry_served D z zs y \<and> entry_complete D E z zs y)"
    using ready_entry_idem [OF E, of e] by (auto simp: entry_complete_def)
  assume c: "entry_complete D E z zs e"
  then have sv: "entry_served D z zs e" "ready_entry E e = e" by (simp_all add: entry_complete_def)
  with entry_seen_ready [OF E, of e] have "entry_seen e" by simp
  with w served_slave_entry [OF E sv(1) ns] e'(1,5) sv
  show "server_write D E sopts get e = Some e \<and> direct_write D E dopts get e = Some e" by simp
qed

section \<open>Properties\<close>

text \<open>C7: the two controllers of an entry converge. For a server in slave mode and a valid entry
  below a Ready zone, whose chain of living zones ends in a root zone without class, any
  sequence of reconciliations by the server and the data plane ends without problem in a Ready
  entry, with the root zone and the products of the names recorded, which neither of the two
  changes any more, provided that in it a turn of the server, which then acts as a slave, comes
  after one of the data plane (or the entry has a condition of another controller already) and
  is followed by one of the data plane. The server's mode is computed from the entry at each of
  its turns: before the first turn of the data plane it acts as the entry's master.\<close>

theorem entry_becomes_ready:
  assumes "entry_setting D E sopts dopts get z zs e"
    and "Second \<in> set us \<or> \<not> entry_CreateRequest sopts (Some e)"
  shows "\<exists>e'. run (server_write D E sopts get) (direct_write D E dopts get) (us @ First # vs @ Second # ws) e = Some e' \<and>
    et_State (e_Status e') = STATE_READY \<and> et_RootZone (e_Status e') = zone_name (last (z # zs)) \<and>
    Some (et_EffectiveDomainNames (e_Status e')) = names_along D (Some (es_DNSNames (e_Spec e'))) (z # zs) \<and>
    cond_of (et_Conditions (e_Status e')) ServerConditionType =
      Some (server_condition ConditionTrue (om_Generation (e_Meta e')) ReasonServerActive ''entry served'') \<and>
    server_write D E sopts get e' = Some e' \<and> direct_write D E dopts get e' = Some e'"
proof -
  obtain e' where e': "run (server_write D E sopts get) (direct_write D E dopts get) (us @ First # vs @ Second # ws) e = Some e'"
    "entry_setting D E sopts dopts get z zs e'" "entry_served D z zs e'" "entry_complete D E z zs e'"
    using entry_writers.converges [OF assms(1), of us vs ws] assms server_is_master [of sopts e]
    by (auto simp: entry_setting_def)
  have "et_State (e_Status e') = STATE_READY"
    using e'(4) ready_entry_sel(5) [of E e'] by (simp add: entry_complete_def)
  with e' entry_writers.fixed [OF e'(2,4)] show ?thesis unfolding entry_served_def by blast
qed

text \<open>
  The server first, as the master of the fresh entry, which it makes \<open>Ok\<close>, then the data plane,
  the server again, now as a slave, and the data plane again.
\<close>

theorem entry_becomes_ready_witness:
  "entry_CreateRequest \<lparr>so_Class = None, so_Slave = True\<rparr> (Some EntryAA_demo) \<and>
   (\<exists>e'. run (server_write ref_dns ref_ext \<lparr>so_Class = None, so_Slave = True\<rparr> ready_get)
      (direct_write ref_dns ref_ext \<lparr>op_Class = None, op_Runtime = None\<rparr> ready_get) [First, Second, First, Second] EntryAA_demo = Some e' \<and>
     et_State (e_Status e') = STATE_READY \<and> et_RootZone (e_Status e') = ''a'')"
proof -
  have c: "zone_chain ready_get (entry_namespace EntryAA_demo) (es_ZoneRef (e_Spec EntryAA_demo)) [ready_zone ZoneAA, ready_zone ZoneA]"
    "zs_Class (z_Spec (last [ready_zone ZoneAA, ready_zone ZoneA])) = None"
    "so_Class \<lparr>so_Class = None, so_Slave = True\<rparr> = None" "owned \<lparr>op_Class = None, op_Runtime = None\<rparr> (last [ready_zone ZoneAA, ready_zone ZoneA])"
    "zt_State (z_Status (ready_zone ZoneAA)) = STATE_READY"
    "\<forall>x \<in> set [ready_zone ZoneAA, ready_zone ZoneA]. zs_DomainNames (z_Spec x) \<noteq> []"
    "ValidateEntryData ref_dns EntryAA_demo = None" "so_Slave \<lparr>so_Class = None, so_Slave = True\<rparr>"
    and m: "entry_CreateRequest \<lparr>so_Class = None, so_Slave = True\<rparr> (Some EntryAA_demo)"
    and n: "zone_name (last [ready_zone ZoneAA, ready_zone ZoneA]) = ''a''"
    by code_simp+
  have "valid_entry ref_dns (e_Spec EntryAA_demo)" using c(7) by (simp add: ValidateEntryData_None)
  with c have s: "entry_setting ref_dns ref_ext \<lparr>so_Class = None, so_Slave = True\<rparr> \<lparr>op_Class = None, op_Runtime = None\<rparr> ready_get
      (ready_zone ZoneAA) [ready_zone ZoneA] EntryAA_demo"
    unfolding entry_setting_def by (intro conjI store_get_sane ref_refkey_law ref_condition_laws)
  from m entry_becomes_ready [OF s, of "[First, Second]" "[]" "[]"] show ?thesis unfolding n by auto
qed

end
