(* ===== verification/Direct_Status.thy ===== *)
theory Direct_Status
  imports Validation
begin

text \<open>
  The status of hosted zones on the data plane (internal/controller/direct/hostedzone,
  validation.go, conditions.go and the observers of request.go): the field setters, the
  validation, the transfer of conditions from the root zone, the summary of the conditions,
  and what the readiness of the runtime objects is taken to be. Of a Service and a Deployment
  the fields that are read are kept.
\<close>

section \<open>Strings and fields\<close>

definition hz_String :: "str_ptr \<Rightarrow> string \<Rightarrow> string" where
  "hz_String s d = (case s of None \<Rightarrow> d | Some x \<Rightarrow> x)"

definition IsASCIIAlnum :: "char \<Rightarrow> bool" where
  "IsASCIIAlnum b \<longleftrightarrow>
     (97 \<le> int_of_char b \<and> int_of_char b \<le> 122) \<or> (65 \<le> int_of_char b \<and> int_of_char b \<le> 90) \<or>
     (48 \<le> int_of_char b \<and> int_of_char b \<le> 57)"

text \<open>The empty string passes; the loop stops at the first other byte.\<close>

fun alnum_loop :: "string \<Rightarrow> bool" where
  "alnum_loop [] = True"
| "alnum_loop (b # bs) = (if \<not> IsASCIIAlnum b then False else alnum_loop bs)"

definition IsASCIIAlnumString :: "string \<Rightarrow> bool" where
  "IsASCIIAlnumString s = (if s = [] then True else alnum_loop s)"

definition SetField :: "'a \<Rightarrow> 'a \<Rightarrow> 'a \<times> bool" where
  "SetField target v = (if target = v then (target, False) else (v, True))"

text \<open>
  \<open>SetPointerField\<close> first compares the pointers; \<open>same\<close> is the result of that comparison.
  \<open>Equals\<close> is the method of the stored pointer. The new content of the field is returned.
\<close>

definition SetPointerField ::
    "('a option \<Rightarrow> 'a option \<Rightarrow> bool) \<Rightarrow> bool \<Rightarrow> 'a option \<Rightarrow> 'a option \<Rightarrow> 'a option \<times> bool" where
  "SetPointerField Equals same target v =
     (if same then (target, False)
      else if target \<noteq> None \<and> \<not> Equals target v then (target, False)
      else (v, True))"

text \<open>What pointer comparison can tell: the same pointer has the same content, two nils are the same.\<close>

definition pointer_eq :: "bool \<Rightarrow> 'a option \<Rightarrow> 'a option \<Rightarrow> bool" where
  "pointer_eq same p q \<longleftrightarrow> (same \<longrightarrow> p = q) \<and> (p = None \<and> q = None \<longrightarrow> same)"

section \<open>Conditions\<close>

definition zone_SetStatusCondition :: "'p ext \<Rightarrow> condition \<Rightarrow> hosted_zone \<Rightarrow> hosted_zone" where
  "zone_SetStatusCondition E c z =
     (let c = (if c_ObservedGeneration c = 0 then c\<lparr>c_ObservedGeneration := om_Generation (z_Meta z)\<rparr> else c)
      in z\<lparr>z_Status := (z_Status z)\<lparr>zt_Conditions := fst (x_SetStatusCondition E (zt_Conditions (z_Status z)) c)\<rparr>\<rparr>)"

definition cond :: "string \<Rightarrow> condition_status \<Rightarrow> string \<Rightarrow> string \<Rightarrow> condition" where
  "cond t s reason msg = \<lparr>c_Type = t, c_Status = s, c_Reason = reason, c_Message = msg, c_ObservedGeneration = 0\<rparr>"

definition ConditionStatus :: "bool \<Rightarrow> condition_status" where
  "ConditionStatus b = (if b then ConditionTrue else ConditionFalse)"

definition transfer_types :: "string list" where
  "transfer_types = [RuntimeConditionType, NameserverConditionType]"

definition my_types :: "string list" where
  "my_types = ValidationConditionType # transfer_types"

text \<open>The state and the message for a list of conditions.\<close>

definition summary_of :: "'p ext \<Rightarrow> condition list \<Rightarrow> string \<times> string" where
  "summary_of E cs =
     (case x_FindStatusCondition E cs ValidationConditionType of
        None \<Rightarrow> (''Failed'', ''status unknown'')
      | Some c \<Rightarrow>
          if c_Status c \<noteq> ConditionTrue then (''Failed'', c_Message c)
          else case x_FindStatusCondition E cs RuntimeConditionType of
                 None \<Rightarrow> (''Failed'', c_Message c)
               | Some c \<Rightarrow>
                   if c_Status c \<noteq> ConditionTrue then
                     (if c_Reason c = ReasonRuntimeDeploying then ''Pending'' else ''Failed'', c_Message c)
                   else case x_FindStatusCondition E cs NameserverConditionType of
                          None \<Rightarrow> (''Failed'', c_Message c)
                        | Some c \<Rightarrow>
                            if c_Status c \<noteq> ConditionTrue then (''Pending'', c_Message c)
                            else case x_FindStatusCondition E cs ServerConditionType of
                                   None \<Rightarrow> (''Failed'', c_Message c)
                                 | Some c \<Rightarrow>
                                     (if c_Status c = ConditionTrue then STATE_READY else ''Failed'', c_Message c))"

definition summary :: "'p ext \<Rightarrow> hosted_zone \<Rightarrow> hosted_zone" where
  "summary E z =
     (let (status, msg) = summary_of E (zt_Conditions (z_Status z))
      in z\<lparr>z_Status := (z_Status z)\<lparr>zt_Message := msg, zt_State := status\<rparr>\<rparr>)"

text \<open>
  Both loops range over the slices as they are when the loop starts; the second removes src
  the object the conditions of this controller that the root zone does not have.
\<close>

definition copy_condition :: "'p ext \<Rightarrow> hosted_zone \<Rightarrow> condition \<Rightarrow> hosted_zone" where
  "copy_condition E z c =
     (if c_Type c \<in> set transfer_types
      then zone_SetStatusCondition E (cond (c_Type c) (c_Status c) (c_Reason c) (c_Message c)) z else z)"

definition drop_condition :: "'p ext \<Rightarrow> condition list \<Rightarrow> hosted_zone \<Rightarrow> condition \<Rightarrow> hosted_zone" where
  "drop_condition E src z c =
     (if c_Type c \<in> set my_types \<and> x_FindStatusCondition E src (c_Type c) = None
      then z\<lparr>z_Status := (z_Status z)\<lparr>zt_Conditions := x_RemoveStatusCondition E (zt_Conditions (z_Status z)) (c_Type c)\<rparr>\<rparr>
      else z)"

definition transferConditions :: "'p ext \<Rightarrow> condition list \<Rightarrow> hosted_zone \<Rightarrow> hosted_zone" where
  "transferConditions E src z =
     (let z = foldl (copy_condition E) z src;
          z = foldl (drop_condition E src) z (zt_Conditions (z_Status z))
      in summary E z)"

section \<open>Validation\<close>

definition zone_Validate :: "'p ext \<Rightarrow> hosted_zone \<Rightarrow> responsibility \<Rightarrow> string \<times> string option" where
  "zone_Validate E z root =
     (case ValidateZone E z of
        (reason, Some err) \<Rightarrow> (reason, Some err)
      | (_, None) \<Rightarrow>
          (case rs_Parent root of
             None \<Rightarrow> (ReasonConfigurarationValid, None)
           | Some parent \<Rightarrow>
               (case x_FindStatusCondition E (zt_Conditions (z_Status parent)) ValidationConditionType of
                  None \<Rightarrow> (ReasonConfigurarationValid, None)
                | Some c \<Rightarrow>
                    if c_Status c \<noteq> ConditionTrue
                    then (ReasonInvalidParent, Some (zone_name parent @ '': '' @ c_Message c))
                    else (ReasonConfigurarationValid, None))))"

section \<open>Runtime objects\<close>

record ingress =
  in_IP :: string
  in_Hostname :: string

record service =
  sv_Type :: string
  sv_Ingress :: "ingress list"

text \<open>The addresses are \<open>net.IP\<close> slices; the nil address of a failed parse is the empty list.\<close>

definition net_ParseIP :: "string \<Rightarrow> int list" where
  "net_ParseIP s = (case ParseIP s of None \<Rightarrow> [] | Some ip \<Rightarrow> ip)"

definition add_ingress :: "int list list \<times> string list \<Rightarrow> ingress \<Rightarrow> int list list \<times> string list" where
  "add_ingress = (\<lambda>(ips, cnames) i.
     (if in_IP i \<noteq> [] \<and> length (net_ParseIP (in_IP i)) = 0 then ips @ [net_ParseIP (in_IP i)] else ips,
      if in_Hostname i \<noteq> [] then cnames @ [in_Hostname i] else cnames))"

definition isLoadBalancerReady :: "service \<Rightarrow> int list list \<times> string list" where
  "isLoadBalancerReady svc =
     (if sv_Type svc \<noteq> ''LoadBalancer'' then ([], [])
      else if length (sv_Ingress svc) = 0 then ([], [])
      else foldl add_ingress ([], []) (sv_Ingress svc))"

record deploy_condition =
  dc_Type :: string
  dc_Status :: condition_status
  dc_Message :: string

record deployment =
  dp_Conditions :: "deploy_condition list"
  dp_ReadyReplicas :: int

text \<open>The loop keeps the problem and whether an Available condition was seen.\<close>

definition deploy_step :: "'p ext \<Rightarrow> 'p option \<times> bool \<Rightarrow> deploy_condition \<Rightarrow> 'p option \<times> bool" where
  "deploy_step E = (\<lambda>(prob, avail) c.
     (let prob = (if dc_Type c = ''Progressing'' then
                    (if dc_Status c = ConditionFalse then Some (x_WatchBackedProblemf E (''no progress: '' @ dc_Message c))
                     else if \<not> avail then Some (x_WatchBackedProblemf E (''progressing: '' @ dc_Message c)) else prob)
                  else prob)
      in if dc_Type c = ''Available'' then
           (if dc_Status c = ConditionFalse
            then (case prob of None \<Rightarrow> Some (x_WatchBackedProblemf E (''unavailable: '' @ dc_Message c)) | Some p \<Rightarrow> Some p, True)
            else (None, True))
         else (prob, avail)))"

definition isDeploymentReady :: "'p ext \<Rightarrow> deployment \<Rightarrow> bool \<times> 'p option" where
  "isDeploymentReady E d =
     (let (prob, avail) = foldl (deploy_step E) (None, False) (dp_Conditions d);
          prob = (if \<not> avail \<and> prob = None then Some (x_WatchBackedProblemf E ''deployment not yet ready'') else prob)
      in (dp_ReadyReplicas d > 0, prob))"

definition checkNotModifiableError :: "go_error option \<Rightarrow> bool" where
  "checkNotModifiableError err =
     (case err of None \<Rightarrow> False
      | Some e \<Rightarrow> IsInvalid e \<and> str_contains (Error e) ''may not change once set'')"

section \<open>Field setters\<close>

lemma SetPointerField_keeps:
  assumes "pointer_eq same target v" and "target \<noteq> None"
  shows "fst (SetPointerField Observed_Equals same target v) = target"
  using assms by (auto simp: SetPointerField_def pointer_eq_def)

lemma IsASCIIAlnumString_iff: "IsASCIIAlnumString s \<longleftrightarrow> (\<forall>b \<in> set s. is_alnum b)"
proof -
  have "alnum_loop s \<longleftrightarrow> (\<forall>b \<in> set s. IsASCIIAlnum b)" by (induction s) auto
  moreover have "IsASCIIAlnum b \<longleftrightarrow> is_alnum b" for b
    by (auto simp: IsASCIIAlnum_def is_alnum_def is_alpha_def is_digit_def Let_def)
  ultimately show ?thesis by (simp add: IsASCIIAlnumString_def)
qed

section \<open>The summary\<close>

definition is_true :: "condition list \<Rightarrow> string \<Rightarrow> bool" where
  "is_true cs t \<longleftrightarrow> (case cond_of cs t of None \<Rightarrow> False | Some c \<Rightarrow> c_Status c = ConditionTrue)"

definition all_true :: "condition list \<Rightarrow> bool" where
  "all_true cs \<longleftrightarrow> list_all (is_true cs)
     [ValidationConditionType, RuntimeConditionType, NameserverConditionType, ServerConditionType]"

lemma summary_of_ready:
  assumes "condition_laws E"
  shows "fst (summary_of E cs) = STATE_READY \<longleftrightarrow> all_true cs"
  by (auto simp: summary_of_def Find_eq [OF assms] STATE_READY_def all_true_def is_true_def split: option.splits)

lemma summary_of_pending:
  assumes "condition_laws E"
  shows "fst (summary_of E cs) = ''Pending'' \<longleftrightarrow> is_true cs ValidationConditionType \<and>
    (case cond_of cs RuntimeConditionType of None \<Rightarrow> False
     | Some r \<Rightarrow> if c_Status r \<noteq> ConditionTrue then c_Reason r = ReasonRuntimeDeploying
         else case cond_of cs NameserverConditionType of None \<Rightarrow> False | Some n \<Rightarrow> c_Status n \<noteq> ConditionTrue)"
  by (auto simp: summary_of_def Find_eq [OF assms] STATE_READY_def is_true_def split: option.splits)

section \<open>Transferred conditions\<close>

definition set_cond :: "'p ext \<Rightarrow> condition \<Rightarrow> hosted_zone \<Rightarrow> hosted_zone" where
  "set_cond E c z = z\<lparr>z_Status := (z_Status z)\<lparr>zt_Conditions := fst (x_SetStatusCondition E (zt_Conditions (z_Status z)) c)\<rparr>\<rparr>"

abbreviation zcond :: "hosted_zone \<Rightarrow> string \<Rightarrow> condition option" where
  "zcond z t \<equiv> cond_of (zt_Conditions (z_Status z)) t"

text \<open>A condition up to the observed generation, which the object's own replaces.\<close>

definition core :: "condition \<Rightarrow> condition" where
  "core c = c\<lparr>c_ObservedGeneration := 0\<rparr>"

lemma zcond_set [simp]:
  assumes "condition_laws E"
  shows "map_option core (zcond (zone_SetStatusCondition E c z) t) = (if t = c_Type c then Some (core c) else map_option core (zcond z t))"
  by (simp add: zone_SetStatusCondition_def Let_def Set_eq [OF assms] core_def)

lemma zcond_set_other:
  assumes "condition_laws E" "t \<noteq> c_Type c"
  shows "zcond (zone_SetStatusCondition E c z) t = zcond z t"
  using assms(2) by (simp add: zone_SetStatusCondition_def Let_def Set_eq [OF assms(1)])

lemma copy_all:
  assumes E: "condition_laws E"
  shows "distinct (map c_Type src) \<Longrightarrow>
    map_option core (zcond (foldl (copy_condition E) z src) t) =
      (if t \<in> set transfer_types \<and> cond_of src t \<noteq> None then map_option core (cond_of src t)
       else map_option core (zcond z t))"
proof (induction src arbitrary: z)
  case (Cons c src)
  have c: "core (cond (c_Type c) (c_Status c) (c_Reason c) (c_Message c)) = core c"
    by (simp add: core_def cond_def)
  have n: "cond_of src (c_Type c) = None"
  proof (rule ccontr)
    assume "cond_of src (c_Type c) \<noteq> None"
    then obtain d where "cond_of src (c_Type c) = Some d" by blast
    from find_SomeD [OF this] have "c_Type c \<in> c_Type ` set src" by (metis imageI)
    with Cons.prems show False by simp
  qed
  show ?case
  proof (cases "c_Type c \<in> set transfer_types")
    case True
    with Cons n c show ?thesis
      by (simp add: copy_condition_def E cond_def) (auto simp: cond_def)
  next
    case False
    with Cons show ?thesis by (auto simp: copy_condition_def)
  qed
qed simp

lemma drop_all:
  assumes E: "condition_laws E"
  shows "zcond (foldl (drop_condition E src) z cs) t =
    (if t \<in> set my_types \<and> t \<in> c_Type ` set cs \<and> cond_of src t = None then None else zcond z t)"
  by (induction cs arbitrary: z) (auto simp: drop_condition_def Find_eq [OF E] Remove_eq [OF E] simp del: find_None_iff)

lemma zcond_in: "zcond z t \<noteq> None \<Longrightarrow> t \<in> c_Type ` set (zt_Conditions (z_Status z))"
  by (auto dest!: find_SomeD)

lemma transfer_cond:
  assumes E: "condition_laws E" and d: "distinct (map c_Type src)"
  shows "map_option core (zcond (transferConditions E src z) t) =
    (if t \<in> set transfer_types then map_option core (cond_of src t)
     else if t = ValidationConditionType \<and> cond_of src t = None then None
     else map_option core (zcond z t))"
proof -
  let ?z = "foldl (copy_condition E) z src"
  have s: "zcond (transferConditions E src z) t = zcond (foldl (drop_condition E src) ?z (zt_Conditions (z_Status ?z))) t"
    by (simp add: transferConditions_def summary_def Let_def split: prod.splits)
  have v: "ValidationConditionType \<notin> set transfer_types"
    by (simp add: transfer_types_def condition_type_defs)
  show ?thesis
    unfolding s drop_all [OF E]
    using copy_all [OF E d, where z = z and t = t] zcond_in [where z = ?z and t = t] v
    by (cases "zcond ?z t") (auto simp: my_types_def simp del: find_None_iff)
qed

section \<open>Readiness of the runtime objects\<close>

definition dc_ok :: "deploy_condition \<Rightarrow> bool" where
  "dc_ok c \<longleftrightarrow> dc_Type c = ''Available'' \<and> dc_Status c \<noteq> ConditionFalse"

definition dc_bad :: "deploy_condition \<Rightarrow> bool" where
  "dc_bad c \<longleftrightarrow> dc_Type c \<in> {''Progressing'', ''Available''} \<and> dc_Status c = ConditionFalse"

text \<open>The last word on the availability: an Available condition with nothing bad after it.\<close>

definition settled :: "deploy_condition list \<Rightarrow> bool" where
  "settled cs \<longleftrightarrow> (\<exists>us a vs. cs = us @ a # vs \<and> dc_ok a \<and> (\<forall>c \<in> set vs. \<not> dc_bad c))"

lemma settled_Nil [simp]: "\<not> settled []"
  by (simp add: settled_def)

lemma settled_snoc: "settled (cs @ [c]) \<longleftrightarrow> dc_ok c \<or> settled cs \<and> \<not> dc_bad c"
proof
  assume "settled (cs @ [c])"
  then obtain us a vs where eq: "cs @ [c] = us @ a # vs" and a: "dc_ok a" and vs: "\<forall>c \<in> set vs. \<not> dc_bad c"
    by (auto simp: settled_def)
  show "dc_ok c \<or> settled cs \<and> \<not> dc_bad c"
  proof (cases vs rule: rev_cases)
    case Nil
    with eq a show ?thesis by simp
  next
    case (snoc ws w)
    with eq have "cs = us @ a # ws" "c = w" by auto
    with a vs snoc show ?thesis by (auto simp: settled_def)
  qed
next
  assume "dc_ok c \<or> settled cs \<and> \<not> dc_bad c"
  then show "settled (cs @ [c])"
  proof
    assume "dc_ok c"
    then show ?thesis unfolding settled_def by (intro exI [of _ cs] exI [of _ c] exI [of _ "[]"]) simp
  next
    assume "settled cs \<and> \<not> dc_bad c"
    then obtain us a vs where "cs = us @ a # vs" "dc_ok a" "\<forall>c \<in> set (vs @ [c]). \<not> dc_bad c"
      by (auto simp: settled_def)
    then show ?thesis unfolding settled_def
      by (intro exI [of _ us] exI [of _ a] exI [of _ "vs @ [c]"]) simp
  qed
qed

lemma deploy_fold: "(\<exists>b. foldl (deploy_step E) (None, False) cs = (None, True)) \<longleftrightarrow> settled cs"
proof (induction cs rule: rev_induct)
  case (snoc c cs)
  obtain prob avail where st: "foldl (deploy_step E) (None, False) cs = (prob, avail)" by (metis surj_pair)
  have step: "deploy_step E (prob, avail) c = (None, True) \<longleftrightarrow> dc_ok c \<or> (prob = None \<and> avail) \<and> \<not> dc_bad c"
    by (auto simp: deploy_step_def dc_ok_def dc_bad_def split: option.splits)
  from snoc st have "prob = None \<and> avail \<longleftrightarrow> settled cs" by simp
  with st step show ?case by (simp add: settled_snoc)
qed simp

lemma isDeploymentReady_eq:
  "(fst (isDeploymentReady E d) \<longleftrightarrow> dp_ReadyReplicas d > 0) \<and>
   (snd (isDeploymentReady E d) = None \<longleftrightarrow> settled (dp_Conditions d))"
proof -
  obtain prob avail where st: "foldl (deploy_step E) (None, False) (dp_Conditions d) = (prob, avail)" by (metis surj_pair)
  with deploy_fold [of E "dp_Conditions d"] have "prob = None \<and> avail \<longleftrightarrow> settled (dp_Conditions d)" by simp
  then show ?thesis by (auto simp: isDeploymentReady_def st)
qed

definition unparsable :: "ingress \<Rightarrow> bool" where
  "unparsable i \<longleftrightarrow> in_IP i \<noteq> [] \<and> ParseIP (in_IP i) = None"

lemma net_ParseIP_Nil: "length (net_ParseIP s) = 0 \<longleftrightarrow> ParseIP s = None"
  using ParseIP_16 [of s] by (auto simp: net_ParseIP_def split: option.splits)

lemma add_ingress_fold:
  "foldl add_ingress (ips, cnames) is =
     (ips @ map (\<lambda>_. []) (filter unparsable is), cnames @ filter (\<lambda>h. h \<noteq> []) (map in_Hostname is))"
proof (induction "is" arbitrary: ips cnames)
  case (Cons i "is")
  have "net_ParseIP (in_IP i) = []" if "unparsable i"
    using that by (simp add: unparsable_def net_ParseIP_def)
  then have "add_ingress (ips, cnames) i =
      (if unparsable i then ips @ [[]] else ips, if in_Hostname i \<noteq> [] then cnames @ [in_Hostname i] else cnames)"
    by (auto simp: add_ingress_def unparsable_def net_ParseIP_Nil simp del: length_0_conv)
  with Cons show ?case by simp
qed simp

lemma isLoadBalancerReady_eq:
  "isLoadBalancerReady svc =
     (if sv_Type svc = ''LoadBalancer''
      then (map (\<lambda>_. []) (filter unparsable (sv_Ingress svc)), filter (\<lambda>h. h \<noteq> []) (map in_Hostname (sv_Ingress svc)))
      else ([], []))"
  by (auto simp: isLoadBalancerReady_def add_ingress_fold)

section \<open>Properties\<close>

text \<open>The summary reports Ready exactly if the Validation, Runtime, Nameserver and DNSServer
  conditions are all true, and Pending exactly if the validation is true and either the runtime
  is still being deployed or the runtime is true and the name server access is not.\<close>

theorem summary_state:
  assumes "condition_laws E"
  shows "(zt_State (z_Status (summary E z)) = STATE_READY \<longleftrightarrow> all_true (zt_Conditions (z_Status z))) \<and>
    (zt_State (z_Status (summary E z)) = ''Pending'' \<longleftrightarrow> is_true (zt_Conditions (z_Status z)) ValidationConditionType \<and>
      (case zcond z RuntimeConditionType of None \<Rightarrow> False
       | Some r \<Rightarrow> if c_Status r \<noteq> ConditionTrue then c_Reason r = ReasonRuntimeDeploying
           else case zcond z NameserverConditionType of None \<Rightarrow> False | Some n \<Rightarrow> c_Status n \<noteq> ConditionTrue))"
  using summary_of_ready [OF assms, of "zt_Conditions (z_Status z)"]
    summary_of_pending [OF assms, of "zt_Conditions (z_Status z)"]
  by (simp add: summary_def Let_def split_def)

definition ready_conditions :: "condition list" where
  "ready_conditions = map (\<lambda>t. cond t ConditionTrue ''R'' ''ok'')
     [ServerConditionType, NameserverConditionType, RuntimeConditionType, ValidationConditionType]"

theorem summary_state_witness:
  "zt_State (z_Status (summary ref_ext (ZoneA\<lparr>z_Status := zero_zone_status\<lparr>zt_Conditions := ready_conditions\<rparr>\<rparr>))) = STATE_READY"
  by (rule summary_state [OF ref_condition_laws, THEN conjunct1, THEN iffD2]) code_simp

text \<open>A nested zone mirrors its root zone: after the transfer its Runtime and Nameserver
  conditions are those of the root zone up to the observed generation (and absent if the root
  has none), its Validation condition is gone if the root has none, and every other condition
  is the one it had; the state is the summary of the result.\<close>

theorem transferConditions_mirror:
  assumes "condition_laws E" "distinct (map c_Type src)"
  shows "map_option core (zcond (transferConditions E src z) t) =
    (if t \<in> set transfer_types then map_option core (cond_of src t)
     else if t = ValidationConditionType \<and> cond_of src t = None then None
     else map_option core (zcond z t))"
  using assms by (rule transfer_cond)

theorem transferConditions_mirror_witness:
  "map_option core (zcond (transferConditions ref_ext
      [cond ServerConditionType ConditionFalse [] [], cond RuntimeConditionType ConditionTrue ''RuntimeAvailable'' ''ok'']
      (ZoneAA\<lparr>z_Status := zero_zone_status\<lparr>zt_Conditions := ready_conditions\<rparr>\<rparr>)) NameserverConditionType) = None"
proof -
  let ?src = "[cond ServerConditionType ConditionFalse [] [], cond RuntimeConditionType ConditionTrue ''RuntimeAvailable'' ''ok'']"
  have "distinct (map c_Type ?src)" by code_simp
  note m = transferConditions_mirror [OF ref_condition_laws this, where z = "ZoneAA\<lparr>z_Status := zero_zone_status\<lparr>zt_Conditions := ready_conditions\<rparr>\<rparr>" and t = NameserverConditionType]
  have "NameserverConditionType \<in> set transfer_types" "cond_of ?src NameserverConditionType = None" by code_simp+
  then show ?thesis unfolding m by simp
qed

text \<open>\<open>SetPointerField\<close> never changes a field that is set: its test of \<open>Equals\<close> is inverted,
  so that only values equal to the stored one are stored.\<close>

theorem SetPointerField_never_changes:
  assumes "pointer_eq same target v" and "target \<noteq> None"
  shows "fst (SetPointerField Observed_Equals same target v) = target"
  using assms by (rule SetPointerField_keeps)

theorem SetPointerField_never_changes_witness:
  "fst (SetPointerField Observed_Equals False (Some \<lparr>ob_Class = ''a'', ob_Runtime = []\<rparr>)
     (Some \<lparr>ob_Class = ''b'', ob_Runtime = []\<rparr>)) = Some \<lparr>ob_Class = ''a'', ob_Runtime = []\<rparr>"
  by (rule SetPointerField_never_changes) (simp_all add: pointer_eq_def)

text \<open>\<open>isLoadBalancerReady\<close> reports the host names of a load balancer, but of its addresses
  only those that do not parse, as nil addresses: a load balancer with nothing but valid
  addresses counts as not ready, one with an unparsable address as ready.\<close>

theorem load_balancer_addresses:
  "isLoadBalancerReady svc =
     (if sv_Type svc = ''LoadBalancer''
      then (map (\<lambda>_. []) (filter unparsable (sv_Ingress svc)), filter (\<lambda>h. h \<noteq> []) (map in_Hostname (sv_Ingress svc)))
      else ([], []))"
  by (rule isLoadBalancerReady_eq)

text \<open>A deployment is ready exactly if it has ready replicas, and is reported without problem
  exactly if the order of its conditions ends with a true Available after which neither
  Progressing nor Available is false; the order in which the API server lists the conditions
  therefore matters.\<close>

theorem deployment_settled:
  "(fst (isDeploymentReady E d) \<longleftrightarrow> dp_ReadyReplicas d > 0) \<and>
   (snd (isDeploymentReady E d) = None \<longleftrightarrow> settled (dp_Conditions d))"
  by (rule isDeploymentReady_eq)

end
