(* ===== verification/Cluster_API.thy ===== *)
theory Cluster_API
  imports Direct_Status
begin

text \<open>
  The clusters as the controllers of the data plane see them: the operations of the Kubernetes
  clients, the applier and the usage index of the kubecrtutils package, and the resolver of the
  host, as functions on an abstract state \<open>'w\<close> of everything outside the controller. The state
  holds both clusters, the data plane and the runtime cluster. Only the results of the
  operations are visible to the model; what a theorem relies on is one of the named hypotheses
  at the end. \<open>json\<close> are the generic values handed to the template engine.
\<close>

section \<open>Generic values\<close>

datatype json = JStr string | JInt int | JList "json list" | JMap "(string \<times> json) list"

type_synonym json_map = "(string, json) go_map"

section \<open>Objects\<close>

datatype cluster_id = Dataplane | Runtime

record obj_ref =
  or_Group :: string
  or_Kind :: string
  or_Key :: object_key

record secret =
  se_Meta :: object_meta
  se_Type :: string
  se_Data :: "(string, string) go_map"

section \<open>The operations\<close>

text \<open>
  \<open>a_Apply\<close> is the client side apply with a modifier: it decodes the manifest, applies the
  modifier to the object and stores it, and returns the object and the error. \<open>a_Get\<close> and
  \<open>a_Delete\<close> work on unstructured objects, the other getters on the typed ones. Creating an
  object returns it as the server stored it. \<open>a_PatchMeta\<close> patches the zone from the original
  to the changed metadata. The last group are the usage index, which keeps the users (zones) of a secret,
  and the host lookup.
\<close>

type_synonym modifier = "obj_ref \<times> object_meta \<Rightarrow> go_error + object_meta"

record 'w api =
  a_Id :: string
  a_Name :: "cluster_id \<Rightarrow> string"
  a_APIServerURL :: "'w \<Rightarrow> go_error + string"
  a_Decode :: "string \<Rightarrow> go_error + obj_ref"
  a_Get :: "'w \<Rightarrow> cluster_id \<Rightarrow> obj_ref \<Rightarrow> go_error + object_meta"
  a_Delete :: "'w \<Rightarrow> cluster_id \<Rightarrow> obj_ref \<Rightarrow> 'w \<times> go_error option"
  a_Apply :: "'w \<Rightarrow> cluster_id \<Rightarrow> modifier \<Rightarrow> string \<Rightarrow> 'w \<times> obj_ref \<times> go_error option"
  a_GetService :: "'w \<Rightarrow> object_key \<Rightarrow> go_error + service"
  a_GetDeployment :: "'w \<Rightarrow> object_key \<Rightarrow> go_error + deployment"
  a_GetEntry :: "'w \<Rightarrow> object_key \<Rightarrow> go_error + coredns_entry"
  a_GetZone :: "'w \<Rightarrow> zone_getter"
  a_GetSecret :: "'w \<Rightarrow> object_key \<Rightarrow> go_error + secret"
  a_CreateSecret :: "'w \<Rightarrow> secret \<Rightarrow> 'w \<times> (go_error + secret)"
  a_DeleteSecret :: "'w \<Rightarrow> object_key \<Rightarrow> 'w \<times> go_error option"
  a_GetNamespace :: "'w \<Rightarrow> string \<Rightarrow> go_error + object_meta"
  a_CreateNamespace :: "'w \<Rightarrow> string \<Rightarrow> 'w \<times> go_error option"
  a_DeleteNamespace :: "'w \<Rightarrow> string \<Rightarrow> 'w \<times> go_error option"
  a_PatchMeta :: "'w \<Rightarrow> object_meta \<Rightarrow> object_meta \<Rightarrow> 'w \<times> go_error option"
  a_UpdateStatus :: "'w \<Rightarrow> hosted_zone \<Rightarrow> 'w \<times> go_error option"
  a_IndexAdd :: "'w \<Rightarrow> string \<Rightarrow> object_key \<Rightarrow> object_key \<Rightarrow> 'w"
  a_IndexRemove :: "'w \<Rightarrow> string \<Rightarrow> object_key \<Rightarrow> object_key \<Rightarrow> 'w"
  a_UsersFor :: "'w \<Rightarrow> string \<Rightarrow> object_key \<Rightarrow> object_key list"
  a_LookupHost :: "'w \<Rightarrow> string \<Rightarrow> go_error + string list"

section \<open>Hypotheses\<close>

text \<open>
  The usage index: adding a use makes the user one of the secret's, removing it takes it away,
  and other uses stay.
\<close>

definition index_laws :: "'w api \<Rightarrow> bool" where
  "index_laws A \<longleftrightarrow>
     (\<forall>w i u k k'. set (a_UsersFor A (a_IndexAdd A w i u k) i k') =
        (if k' = k then insert u (set (a_UsersFor A w i k')) else set (a_UsersFor A w i k'))) \<and>
     (\<forall>w i u k k'. set (a_UsersFor A (a_IndexRemove A w i u k) i k') =
        (if k' = k then set (a_UsersFor A w i k') - {u} else set (a_UsersFor A w i k')))"

lemma index_lawsD:
  assumes "index_laws A"
  shows users_add: "set (a_UsersFor A (a_IndexAdd A w i u k) i k') =
        (if k' = k then insert u (set (a_UsersFor A w i k')) else set (a_UsersFor A w i k'))"
    and users_remove: "set (a_UsersFor A (a_IndexRemove A w i u k) i k') =
        (if k' = k then set (a_UsersFor A w i k') - {u} else set (a_UsersFor A w i k'))"
  using assms unfolding index_laws_def by blast+

text \<open>
  The generated names: for one base, cluster and length different names or namespaces give
  different results.
\<close>

definition unique_names :: "'p ext \<Rightarrow> bool" where
  "unique_names E \<longleftrightarrow>
     (\<forall>b c n k n' k' l. x_GenerateUniqueName E b c n k l = x_GenerateUniqueName E b c n' k' l \<longrightarrow> n = n' \<and> k = k')"

lemma unique_namesD:
  "unique_names E \<Longrightarrow> x_GenerateUniqueName E b c n k l = x_GenerateUniqueName E b c n' k' l \<Longrightarrow> n = n' \<and> k = k'"
  unfolding unique_names_def by blast

text \<open>A temporary problem is retried and carries its error, a permanent one is not retried.\<close>

definition retry_laws :: "'p ext \<Rightarrow> bool" where
  "retry_laws E \<longleftrightarrow>
     (\<forall>e p. x_TemporaryProblem E (Some e) = Some p \<longrightarrow> x_Requeue E p \<and> x_ErrorOf E p \<noteq> None)"

section \<open>An instance of the operations\<close>

text \<open>
  A world of lists: objects with their metadata by reference, services, deployments, secrets and
  namespaces by key, and the index. The data plane and the runtime are one cluster here, as the
  local mode demands, so the cluster an operation names makes no difference. A manifest is the
  name of its object, in the namespace \<open>default\<close>. Deleting removes an object at once.
\<close>

record store =
  st_objs :: "(obj_ref \<times> object_meta) list"
  st_services :: "(object_key \<times> service) list"
  st_deployments :: "(object_key \<times> deployment) list"
  st_entries :: "(object_key \<times> coredns_entry) list"
  st_zones :: "hosted_zone list"
  st_secrets :: "(object_key \<times> secret) list"
  st_namespaces :: "(string \<times> object_meta) list"
  st_index :: "(string \<times> object_key \<times> object_key) list"
  st_hosts :: "(string \<times> string list) list"

definition empty_store :: store where
  "empty_store = \<lparr>st_objs = [], st_services = [], st_deployments = [], st_entries = [], st_zones = [],
     st_secrets = [], st_namespaces = [], st_index = [], st_hosts = []\<rparr>"

definition not_found :: go_error where
  "not_found = (Errorf ''not found'')\<lparr>IsNotFound := True\<rparr>"

definition lookup :: "('k \<times> 'v) list \<Rightarrow> 'k \<Rightarrow> go_error + 'v" where
  "lookup m k = (case map_of m k of None \<Rightarrow> Inl not_found | Some v \<Rightarrow> Inr v)"

definition gone :: "('k \<times> 'v) list \<Rightarrow> 'k \<Rightarrow> go_error option" where
  "gone m k = (if map_of m k = None then Some not_found else None)"

definition manifest_ref :: "string \<Rightarrow> obj_ref" where
  "manifest_ref m =
     (if m = ''deploy'' then \<lparr>or_Group = ''apps'', or_Kind = ''Deployment'', or_Key = (''default'', m)\<rparr>
      else if m = ''svc'' then \<lparr>or_Group = [], or_Kind = ''Service'', or_Key = (''default'', m)\<rparr>
      else \<lparr>or_Group = [], or_Kind = ''ConfigMap'', or_Key = (''default'', m)\<rparr>)"

definition ref_api :: "store api" where
  "ref_api = \<lparr>a_Id = ''cluster'', a_Name = (\<lambda>c. ''cluster''), a_APIServerURL = (\<lambda>w. Inr ''https://api''),
     a_Decode = (\<lambda>m. if m = [] then Inl (Errorf ''no object'') else Inr (manifest_ref m)),
     a_Get = (\<lambda>w c r. lookup (st_objs w) r),
     a_Delete = (\<lambda>w c r. (w\<lparr>st_objs := AList.delete r (st_objs w)\<rparr>, gone (st_objs w) r)),
     a_Apply = (\<lambda>w c f m.
       (case if m = [] then Inl (Errorf ''no object'') else f (manifest_ref m, zero_meta) of
          Inl e \<Rightarrow> (w, manifest_ref m, Some e)
        | Inr meta \<Rightarrow> (w\<lparr>st_objs := AList.update (manifest_ref m) meta (st_objs w)\<rparr>, manifest_ref m, None))),
     a_GetService = (\<lambda>w. lookup (st_services w)), a_GetDeployment = (\<lambda>w. lookup (st_deployments w)),
     a_GetEntry = (\<lambda>w. lookup (st_entries w)), a_GetZone = (\<lambda>w. store_get (st_zones w)),
     a_GetSecret = (\<lambda>w. lookup (st_secrets w)),
     a_CreateSecret = (\<lambda>w s. (w\<lparr>st_secrets := AList.update (om_Namespace (se_Meta s), om_Name (se_Meta s)) s (st_secrets w)\<rparr>, Inr s)),
     a_DeleteSecret = (\<lambda>w k. (w\<lparr>st_secrets := AList.delete k (st_secrets w)\<rparr>, gone (st_secrets w) k)),
     a_GetNamespace = (\<lambda>w. lookup (st_namespaces w)),
     a_CreateNamespace = (\<lambda>w n. (w\<lparr>st_namespaces := AList.update n (named [] n) (st_namespaces w)\<rparr>, None)),
     a_DeleteNamespace = (\<lambda>w n. (w\<lparr>st_namespaces := AList.delete n (st_namespaces w)\<rparr>, gone (st_namespaces w) n)),
     a_PatchMeta = (\<lambda>w _ _. (w, None)),
     a_UpdateStatus = (\<lambda>w z. (w, None)),
     a_IndexAdd = (\<lambda>w i u k. w\<lparr>st_index := (i, u, k) # st_index w\<rparr>),
     a_IndexRemove = (\<lambda>w i u k. w\<lparr>st_index := filter (\<lambda>x. x \<noteq> (i, u, k)) (st_index w)\<rparr>),
     a_UsersFor = (\<lambda>w i k. map (\<lambda>(_, u, _). u) (filter (\<lambda>(i', u, k'). i' = i \<and> k' = k) (st_index w))),
     a_LookupHost = (\<lambda>w. lookup (st_hosts w))\<rparr>"

lemma ref_index_laws: "index_laws ref_api"
  unfolding index_laws_def ref_api_def by (auto simp: image_iff)

lemma ref_retry_laws: "retry_laws ref_ext"
  by (auto simp: retry_laws_def ref_ext_def)

text \<open>The instance \<open>ref_ext\<close> joins its parts; injective names are had by writing their lengths too.\<close>

definition unary :: "string \<Rightarrow> string" where
  "unary s = replicate (length s) CHR ''1'' @ ''0'' @ s"

lemma unary_inject: "unary s @ x = unary t @ y \<longleftrightarrow> s = t \<and> x = y"
proof
  assume eq: "unary s @ x = unary t @ y"
  have take: "length (takeWhile (\<lambda>c. c = CHR ''1'') (unary u @ z)) = length u" for u z
    by (simp add: unary_def takeWhile_append)
  from take [of s x] take [of t y] eq have "length s = length t" by simp
  with eq show "s = t \<and> x = y" by (simp add: unary_def)
qed simp

definition uniq_ext :: "ref_problem ext" where
  "uniq_ext = ref_ext\<lparr>x_GenerateUniqueName := \<lambda>b c n k l. unary b @ unary c @ unary n @ unary k\<rparr>"

lemma uniq_unique: "unique_names uniq_ext"
proof -
  have "unary k = unary k' \<Longrightarrow> k = k'" for k k' using unary_inject [of k "[]" k' "[]"] by simp
  then show ?thesis by (auto simp: unique_names_def uniq_ext_def unary_inject)
qed

end
