(* ===== verification/Direct_Modes.thy ===== *)
theory Direct_Modes
  imports Cluster_API
begin

text \<open>
  The deployment modes of the data plane controller and the values for the manifests
  (internal/controller/direct/hostedzone, modes.go, mode_local.go, mode_runtime.go, values.go,
  def.go, and the choice of the mode in factory.go): where the name server of a zone is
  deployed, how its access to the data plane is provided, and the cleanup. The interface
  \<open>Mode\<close> has two implementations, the constructors of \<open>mode\<close>; the reconcile context is the
  interface \<open>ReconcileContext\<close> with the fields its two implementations provide.
\<close>

section \<open>Options and contexts\<close>

definition BASE :: string where "BASE = ''dns-service''"
definition INDEX_SASECFRET :: string where "INDEX_SASECFRET = ''serviceaccount-secret''"
definition GENERATED :: string where
  "GENERATED = ''!!! DO NOT CHANGE MANUALLY, THIS OBJECT IS AUTOMATICALLY GENERATED BY THE HostedZOne CONTROLLER.''"

record direct_options =
  do_Runtime :: str_ptr
  do_Class :: str_ptr
  do_DNSClass :: string
  do_DNSDomain :: string
  do_DNSNamespace :: string
  do_DNSMode :: string
  do_RuntimeNamespace :: string
  do_Platform :: string

definition NewOptions :: direct_options where
  "NewOptions = \<lparr>do_Runtime = None, do_Class = None, do_DNSClass = [], do_DNSDomain = [], do_DNSNamespace = [],
     do_DNSMode = [], do_RuntimeNamespace = [], do_Platform = []\<rparr>"

text \<open>The methods of the interface that the modes and \<open>Values\<close> call.\<close>

record reconcile_context =
  cx_Id :: string
  cx_URL :: "go_error + string"
  cx_Platform :: string
  cx_Key :: object_key
  cx_Simulate :: bool

text \<open>
  The struct \<open>reconcileContext\<close>, used to render manifests outside a request: its methods fall
  back to the cluster where a field is empty. \<open>parse\<close> is \<open>url.Parse\<close>.
\<close>

record context_data =
  cd_apiServer :: string
  cd_clusterId :: string
  cd_Platform :: string
  cd_Key :: object_key
  cd_Simulate :: bool

definition NewReconcileContext :: "string \<Rightarrow> string \<Rightarrow> string \<Rightarrow> object_key \<Rightarrow> context_data" where
  "NewReconcileContext server clusterId platform key =
     \<lparr>cd_apiServer = server, cd_clusterId = clusterId, cd_Platform = platform, cd_Key = key, cd_Simulate = False\<rparr>"

definition ctx_GetId :: "'w api \<Rightarrow> context_data \<Rightarrow> string" where
  "ctx_GetId A c = (if cd_clusterId c \<noteq> [] then cd_clusterId c else a_Id A)"

definition ctx_GetAPIServerURL ::
    "'w api \<Rightarrow> (string \<Rightarrow> go_error + string) \<Rightarrow> 'w \<Rightarrow> context_data \<Rightarrow> go_error + string" where
  "ctx_GetAPIServerURL A parse w c =
     (if cd_apiServer c = [] then a_APIServerURL A w else parse (cd_apiServer c))"

definition as_context ::
    "'w api \<Rightarrow> (string \<Rightarrow> go_error + string) \<Rightarrow> 'w \<Rightarrow> context_data \<Rightarrow> reconcile_context" where
  "as_context A parse w c = \<lparr>cx_Id = ctx_GetId A c, cx_URL = ctx_GetAPIServerURL A parse w c,
     cx_Platform = cd_Platform c, cx_Key = cd_Key c, cx_Simulate = cd_Simulate c\<rparr>"

section \<open>The modes\<close>

datatype mode = LocalMode | RuntimeMode

definition IsSeparateRuntime :: "direct_options \<Rightarrow> bool \<Rightarrow> bool" where
  "IsSeparateRuntime opts same \<longleftrightarrow> do_RuntimeNamespace opts \<noteq> [] \<or> \<not> same"

fun mode_Validate :: "mode \<Rightarrow> bool \<Rightarrow> go_error option" where
  "mode_Validate LocalMode same =
     (if \<not> same then Some (Errorf ''local mode only for identical runtime and dataplane'') else None)"
| "mode_Validate RuntimeMode same = None"

text \<open>The methods of the two implementations, and the calls through the interface.\<close>

definition local_RuntimeNamespace :: "object_key \<Rightarrow> string" where
  [simp]: "local_RuntimeNamespace key = ok_Namespace key"

definition runtime_RuntimeNamespace :: "'p ext \<Rightarrow> direct_options \<Rightarrow> string \<Rightarrow> object_key \<Rightarrow> string" where
  [simp]: "runtime_RuntimeNamespace E opts cid key =
     (if do_RuntimeNamespace opts \<noteq> [] then do_RuntimeNamespace opts
      else x_GenerateUniqueName E BASE cid [] (ok_Namespace key) (x_MAX_NAMESPACELEN E))"

fun mode_RuntimeNamespace :: "mode \<Rightarrow> 'p ext \<Rightarrow> direct_options \<Rightarrow> string \<Rightarrow> object_key \<Rightarrow> string" where
  "mode_RuntimeNamespace LocalMode E opts cid key = local_RuntimeNamespace key"
| "mode_RuntimeNamespace RuntimeMode E opts cid key = runtime_RuntimeNamespace E opts cid key"

definition local_RuntimeSecretName :: "object_key \<Rightarrow> string" where
  [simp]: "local_RuntimeSecretName key = []"

definition runtime_RuntimeSecretName :: "'p ext \<Rightarrow> direct_options \<Rightarrow> string \<Rightarrow> object_key \<Rightarrow> string" where
  [simp]: "runtime_RuntimeSecretName E opts cid key =
     (if do_RuntimeNamespace opts \<noteq> []
      then x_GenerateUniqueName E BASE cid [] (ok_Namespace key) (x_MAX_NAMESPACELEN E) else BASE)"

fun mode_RuntimeSecretName :: "mode \<Rightarrow> 'p ext \<Rightarrow> direct_options \<Rightarrow> string \<Rightarrow> object_key \<Rightarrow> string" where
  "mode_RuntimeSecretName LocalMode E opts cid key = local_RuntimeSecretName key"
| "mode_RuntimeSecretName RuntimeMode E opts cid key = runtime_RuntimeSecretName E opts cid key"

definition local_RuntimeDeploymentName :: "object_key \<Rightarrow> string" where
  [simp]: "local_RuntimeDeploymentName key = BASE @ ''-'' @ ok_Name key"

definition runtime_RuntimeDeploymentName :: "'p ext \<Rightarrow> direct_options \<Rightarrow> string \<Rightarrow> object_key \<Rightarrow> string" where
  [simp]: "runtime_RuntimeDeploymentName E opts cid key =
     (if do_RuntimeNamespace opts \<noteq> []
      then x_GenerateUniqueName E BASE cid (ok_Namespace key) (ok_Name key) (x_MAX_NAMELEN E)
      else x_GenerateUniqueName E BASE cid [] (ok_Name key) (x_MAX_NAMELEN E))"

fun mode_RuntimeDeploymentName :: "mode \<Rightarrow> 'p ext \<Rightarrow> direct_options \<Rightarrow> string \<Rightarrow> object_key \<Rightarrow> string" where
  "mode_RuntimeDeploymentName LocalMode E opts cid key = local_RuntimeDeploymentName key"
| "mode_RuntimeDeploymentName RuntimeMode E opts cid key = runtime_RuntimeDeploymentName E opts cid key"

text \<open>The token and the certificate of a secret; the empty secret of the simulation has constants.\<close>

definition access_data :: "(string, string) go_map \<Rightarrow> json_map option \<times> go_error option" where
  "access_data data =
     (case map_of data ''token'' of
        None \<Rightarrow> (None, Some (Errorf ''token not yet available''))
      | Some token \<Rightarrow>
          (Some ((''token'', JStr token) #
             (case map_of data ''ca.crt'' of None \<Rightarrow> [] | Some cert \<Rightarrow> [(''cadata'', JStr cert)])), None))"

definition new_secret :: "object_key \<Rightarrow> secret" where
  "new_secret key = \<lparr>se_Meta = (named (ok_Namespace key) (ok_Name key))\<lparr>om_Annotations :=
       [(''kubernetes.io/service-account.name'', ok_Name key), (''mandelsoft.org/generated'', GENERATED)]\<rparr>,
     se_Type = ''kubernetes.io/service-account-token'', se_Data = []\<rparr>"

definition local_AccessValues ::
    "'w api \<Rightarrow> reconcile_context \<Rightarrow> string \<Rightarrow> 'w \<Rightarrow> 'w \<times> json_map option \<times> go_error option" where
  [simp]: "local_AccessValues A ctx name w =
     (let key = (ok_Namespace (cx_Key ctx), name)
      in (if cx_Simulate ctx then w else a_IndexRemove A w INDEX_SASECFRET (cx_Key ctx) key,
          Some [(''serviceaccount'', JStr name)], None))"

definition runtime_AccessValues ::
    "'w api \<Rightarrow> reconcile_context \<Rightarrow> string \<Rightarrow> bool \<Rightarrow> 'w \<Rightarrow> 'w \<times> json_map option \<times> go_error option" where
  [simp]: "runtime_AccessValues A ctx name deleting w =
     (if cx_Simulate ctx then
        (w, access_data [(''token'', ''YWNjZXNzLXRva2Vu''), (''ca.crt'', ''c2VydmVyLWNhLWNlcnQ='')])
      else
        (let key = (ok_Namespace (cx_Key ctx), name);
             w = a_IndexAdd A w INDEX_SASECFRET (cx_Key ctx) key
         in case a_GetSecret A w key of
              Inr s \<Rightarrow> (w, access_data (se_Data s))
            | Inl err \<Rightarrow>
                if IsNotFound err then
                  (if deleting then (w, None, None)
                   else (case a_CreateSecret A w (new_secret key) of
                           (w, Inl err) \<Rightarrow> (w, None, Some err)
                         | (w, Inr s) \<Rightarrow> (w, access_data (se_Data s))))
                else (w, None, Some err)))"

fun mode_AccessValues ::
    "mode \<Rightarrow> 'w api \<Rightarrow> reconcile_context \<Rightarrow> string \<Rightarrow> bool \<Rightarrow> 'w \<Rightarrow> 'w \<times> json_map option \<times> go_error option" where
  "mode_AccessValues LocalMode A ctx name deleting w = local_AccessValues A ctx name w"
| "mode_AccessValues RuntimeMode A ctx name deleting w = runtime_AccessValues A ctx name deleting w"

definition runtime_Prepare :: "'p ext \<Rightarrow> 'w api \<Rightarrow> direct_options \<Rightarrow> reconcile_context \<Rightarrow> 'w \<Rightarrow> 'w \<times> 'p option" where
  [simp]: "runtime_Prepare E A opts ctx w =
     (let namespace = mode_RuntimeNamespace RuntimeMode E opts (cx_Id ctx) (cx_Key ctx)
      in case a_GetNamespace A w namespace of
           Inr _ \<Rightarrow> (w, x_TemporaryProblem E None)
         | Inl err \<Rightarrow>
             if IsNotFound err then
               (case a_CreateNamespace A w namespace of (w, err) \<Rightarrow> (w, x_TemporaryProblem E err))
             else (w, x_TemporaryProblem E (Some err)))"

fun mode_Prepare :: "mode \<Rightarrow> 'p ext \<Rightarrow> 'w api \<Rightarrow> direct_options \<Rightarrow> reconcile_context \<Rightarrow> 'w \<Rightarrow> 'w \<times> 'p option" where
  "mode_Prepare LocalMode E A opts ctx w = (w, None)"
| "mode_Prepare RuntimeMode E A opts ctx w = runtime_Prepare E A opts ctx w"

definition base_Cleanup :: "'w api \<Rightarrow> reconcile_context \<Rightarrow> string \<Rightarrow> 'w \<Rightarrow> 'w" where
  "base_Cleanup A ctx name w =
     (if cx_Simulate ctx then w
      else a_IndexRemove A w INDEX_SASECFRET (cx_Key ctx) (ok_Namespace (cx_Key ctx), name))"

text \<open>
  The two parts of the cleanup in the runtime mode: the secret, then the namespace. The secret
  part tells whether the cleanup goes on.
\<close>

definition cleanup_secret :: "'p ext \<Rightarrow> 'w api \<Rightarrow> object_key \<Rightarrow> 'w \<Rightarrow> 'w \<times> 'p option \<times> bool" where
  "cleanup_secret E A key w =
     (case a_GetSecret A w key of
        Inl err \<Rightarrow> if \<not> IsNotFound err then (w, x_TemporaryProblem E (Some err), False) else (w, None, True)
      | Inr s \<Rightarrow>
          if \<not> deleted (se_Meta s) then
            (case a_DeleteSecret A w key of
               (w, Some err) \<Rightarrow> if \<not> IsNotFound err then (w, x_TemporaryProblem E (Some err), False) else (w, None, True)
             | (w, None) \<Rightarrow> (w, None, True))
          else (w, Some (x_Requeuef E ''waiting for secret finalizers to be removed''), False))"

definition cleanup_namespace :: "'p ext \<Rightarrow> 'w api \<Rightarrow> string \<Rightarrow> 'w \<Rightarrow> 'w \<times> 'p option" where
  "cleanup_namespace E A namespace w =
     (case a_GetNamespace A w namespace of
        Inl err \<Rightarrow> if \<not> IsNotFound err then (w, x_TemporaryProblem E (Some err)) else (w, None)
      | Inr ns \<Rightarrow>
          (let wait = (if length (om_Finalizers ns) > 0
                       then Some (x_Requeuef E ''waiting for namespace finalizers to be removed'') else None)
           in if \<not> deleted ns then
                (case a_DeleteNamespace A w namespace of
                   (w, Some err) \<Rightarrow> if \<not> IsNotFound err then (w, x_TemporaryProblem E (Some err)) else (w, wait)
                 | (w, None) \<Rightarrow> (w, wait))
              else (w, wait)))"

definition runtime_Cleanup ::
    "'p ext \<Rightarrow> 'w api \<Rightarrow> direct_options \<Rightarrow> reconcile_context \<Rightarrow> string \<Rightarrow> 'w \<Rightarrow> 'w \<times> 'p option" where
  [simp]: "runtime_Cleanup E A opts ctx name w =
     (let w = base_Cleanup A ctx name w;
          key = (ok_Namespace (cx_Key ctx), name)
      in if length (a_UsersFor A w INDEX_SASECFRET key) \<noteq> 0 then (w, None)
         else (case cleanup_secret E A key w of
                 (w, prob, go) \<Rightarrow>
                   if \<not> go then (w, prob)
                   else if do_RuntimeNamespace opts = [] then
                     cleanup_namespace E A (mode_RuntimeNamespace RuntimeMode E opts (cx_Id ctx) (cx_Key ctx)) w
                   else (w, None)))"

fun mode_Cleanup ::
    "mode \<Rightarrow> 'p ext \<Rightarrow> 'w api \<Rightarrow> direct_options \<Rightarrow> reconcile_context \<Rightarrow> string \<Rightarrow> 'w \<Rightarrow> 'w \<times> 'p option" where
  "mode_Cleanup LocalMode E A opts ctx name w = (base_Cleanup A ctx name w, None)"
| "mode_Cleanup RuntimeMode E A opts ctx name w = runtime_Cleanup E A opts ctx name w"

section \<open>The choice of the mode\<close>

text \<open>The part of \<open>CreateReconciler\<close> that computes: the field manager, which is the finalizer too, and the mode.\<close>

definition field_manager :: "string \<Rightarrow> direct_options \<Rightarrow> string" where
  "field_manager base opts =
     (let f = base;
          f = (case do_Class opts of Some c \<Rightarrow> if c \<noteq> [] then f @ ''-'' @ c else f | None \<Rightarrow> f)
      in case do_Runtime opts of Some r \<Rightarrow> if r \<noteq> [] then f @ ''--'' @ r else f | None \<Rightarrow> f)"

definition choose_mode :: "direct_options \<Rightarrow> bool \<Rightarrow> go_error + mode" where
  "choose_mode opts same =
     (let m = (if IsSeparateRuntime opts same then RuntimeMode else LocalMode)
      in case mode_Validate m same of Some err \<Rightarrow> Inl err | None \<Rightarrow> Inr m)"

section \<open>Values\<close>

definition mergeValues :: "json_map option \<Rightarrow> json_map option \<Rightarrow> json_map" where
  "mergeValues dst src =
     (let dst = (case dst of None \<Rightarrow> [] | Some d \<Rightarrow> d)
      in foldl (\<lambda>d (k, v). AList.update k v d) dst (case src of None \<Rightarrow> [] | Some s \<Rightarrow> s))"

text \<open>
  The access map is part of the values and filled afterwards, so the values are written with the
  merged map.
\<close>

definition Values ::
    "'p ext \<Rightarrow> 'w api \<Rightarrow> direct_options \<Rightarrow> mode \<Rightarrow> reconcile_context \<Rightarrow> bool \<Rightarrow> 'w
     \<Rightarrow> 'w \<times> json_map option \<times> go_error option" where
  "Values E A opts m ctx deleting w =
     (let key = cx_Key ctx;
          accname = BASE;
          depname = mode_RuntimeDeploymentName m E opts (cx_Id ctx) key
      in case cx_URL ctx of
           Inl err \<Rightarrow> (w, None, Some err)
         | Inr u \<Rightarrow>
             (case mode_AccessValues m A ctx accname deleting w of
                (w, tmp, repeat) \<Rightarrow>
                  (w, Some
                     [(''dataplane'', JMap
                        [(''namespace'', JStr (ok_Namespace key)), (''server'', JStr u),
                         (''name'', JStr accname), (''label'', JStr accname),
                         (''access'', JMap (mergeValues (Some [(''token'', JStr []), (''cadata'', JStr [])]) tmp)),
                         (''zone'', JStr (ok_Name key))]),
                      (''runtime'', JMap
                        [(''platform'', JStr (cx_Platform ctx)),
                         (''namespace'', JStr (mode_RuntimeNamespace m E opts (cx_Id ctx) key)),
                         (''secret'', JMap [(''name'', JStr (mode_RuntimeSecretName m E opts (cx_Id ctx) key))]),
                         (''name'', JStr depname), (''label'', JStr depname), (''replicas'', JInt 1)])],
                   repeat)))"

text \<open>\<open>GetAccessValues\<close>: the type assertion panics unless there is a map under \<open>dataplane\<close>.\<close>

definition GetAccessValues :: "json_map \<Rightarrow> json_map option go" where
  "GetAccessValues i =
     (case map_of i ''dataplane'' of
        Some (JMap d) \<Rightarrow>
          (case (map_of d ''token'', map_of d ''cdata'') of
             (Some t, Some c) \<Rightarrow> Ret (Some [(''token'', t), (''cdata'', c)])
           | _ \<Rightarrow> Ret None)
      | _ \<Rightarrow> Panic)"

section \<open>The trigger for secrets\<close>

definition secret_trigger :: "'w api \<Rightarrow> 'w \<Rightarrow> object_key \<Rightarrow> object_key list" where
  "secret_trigger A w key = foldl (\<lambda>t user. t @ [(ok_Namespace user, ok_Name user)]) [] (a_UsersFor A w INDEX_SASECFRET key)"

section \<open>The contract of the names\<close>

text \<open>
  A client of a mode relies on one thing: no two zones are deployed under the same name in the
  same namespace, as long as generated names are unique.
\<close>

locale deployment_names =
  fixes ns :: "'p ext \<Rightarrow> direct_options \<Rightarrow> string \<Rightarrow> object_key \<Rightarrow> string"
    and dep :: "'p ext \<Rightarrow> direct_options \<Rightarrow> string \<Rightarrow> object_key \<Rightarrow> string"
  assumes separate: "unique_names E \<Longrightarrow> ns E opts cid k = ns E opts cid k' \<Longrightarrow>
    dep E opts cid k = dep E opts cid k' \<Longrightarrow> k = k'"
begin

lemma inj_place: "unique_names E \<Longrightarrow> inj (\<lambda>k. (ns E opts cid k, dep E opts cid k))"
  by (rule injI) (blast intro: separate)

lemma distinct_places:
  "unique_names E \<Longrightarrow> distinct ks \<Longrightarrow> distinct (map (\<lambda>k. (ns E opts cid k, dep E opts cid k)) ks)"
  using inj_on_subset [OF inj_place subset_UNIV] by (simp add: distinct_map)

end

interpretation local_names: deployment_names "mode_RuntimeNamespace LocalMode" "mode_RuntimeDeploymentName LocalMode"
  by unfold_locales (auto intro: prod_eqI)

lemma runtime_places:
  assumes E: "unique_names E"
    and ns: "mode_RuntimeNamespace RuntimeMode E opts cid k = mode_RuntimeNamespace RuntimeMode E opts cid k'"
    and dep: "mode_RuntimeDeploymentName RuntimeMode E opts cid k = mode_RuntimeDeploymentName RuntimeMode E opts cid k'"
  shows "k = k'"
proof (cases "do_RuntimeNamespace opts = []")
  case True
  from ns True have "ok_Namespace k = ok_Namespace k'" by (simp only: mode_RuntimeNamespace.simps runtime_RuntimeNamespace_def) (metis unique_namesD [OF E])
  moreover from dep True have "ok_Name k = ok_Name k'" by (simp only: mode_RuntimeDeploymentName.simps runtime_RuntimeDeploymentName_def) (metis unique_namesD [OF E])
  ultimately show ?thesis by (rule prod_eqI)
next
  case False
  with dep have "ok_Namespace k = ok_Namespace k' \<and> ok_Name k = ok_Name k'"
    by (simp only: mode_RuntimeDeploymentName.simps runtime_RuntimeDeploymentName_def) (metis unique_namesD [OF E])
  then show ?thesis by (intro prod_eqI) simp_all
qed

interpretation runtime_names: deployment_names "mode_RuntimeNamespace RuntimeMode" "mode_RuntimeDeploymentName RuntimeMode"
  by unfold_locales (rule runtime_places)

lemma mode_places:
  "unique_names E \<Longrightarrow> mode_RuntimeNamespace m E opts cid k = mode_RuntimeNamespace m E opts cid k' \<Longrightarrow>
   mode_RuntimeDeploymentName m E opts cid k = mode_RuntimeDeploymentName m E opts cid k' \<Longrightarrow> k = k'"
  by (cases m) (use local_names.separate runtime_names.separate in metis)+

section \<open>The users of a secret\<close>

text \<open>Operations on objects leave the usage index alone.\<close>

definition index_frame :: "'w api \<Rightarrow> bool" where
  "index_frame A \<longleftrightarrow>
     (\<forall>w s i k. a_UsersFor A (fst (a_CreateSecret A w s)) i k = a_UsersFor A w i k) \<and>
     (\<forall>w s i k. a_UsersFor A (fst (a_DeleteSecret A w s)) i k = a_UsersFor A w i k) \<and>
     (\<forall>w n i k. a_UsersFor A (fst (a_DeleteNamespace A w n)) i k = a_UsersFor A w i k)"

lemma index_frameD:
  assumes "index_frame A"
  shows "a_UsersFor A (fst (a_CreateSecret A w s)) i k = a_UsersFor A w i k"
    and "a_UsersFor A (fst (a_DeleteSecret A w k')) i k = a_UsersFor A w i k"
    and "a_UsersFor A (fst (a_DeleteNamespace A w n)) i k = a_UsersFor A w i k"
  using assms unfolding index_frame_def by blast+

text \<open>The steps of the zones that share a controller in the runtime mode: access and cleanup.\<close>

inductive usage_step ::
    "'p ext \<Rightarrow> 'w api \<Rightarrow> direct_options \<Rightarrow> 'w \<times> object_key set \<Rightarrow> 'w \<times> object_key set \<Rightarrow> bool"
  for E :: "'p ext" and A :: "'w api" and opts :: direct_options where
  access: "\<not> cx_Simulate ctx \<Longrightarrow> mode_AccessValues RuntimeMode A ctx BASE deleting w = (w', r) \<Longrightarrow>
    usage_step E A opts (w, Z) (w', insert (cx_Key ctx) Z)"
| cleanup: "\<not> cx_Simulate ctx \<Longrightarrow> mode_Cleanup RuntimeMode E A opts ctx BASE w = (w', p) \<Longrightarrow>
    usage_step E A opts (w, Z) (w', Z - {cx_Key ctx})"

inductive usage_reachable :: "'p ext \<Rightarrow> 'w api \<Rightarrow> direct_options \<Rightarrow> 'w \<times> object_key set \<Rightarrow> bool"
  for E :: "'p ext" and A :: "'w api" and opts :: direct_options where
  start: "(\<And>k. a_UsersFor A w INDEX_SASECFRET k = []) \<Longrightarrow> usage_reachable E A opts (w, {})"
| step: "usage_reachable E A opts s \<Longrightarrow> usage_step E A opts s t \<Longrightarrow> usage_reachable E A opts t"

definition users_match :: "'w api \<Rightarrow> 'w \<times> object_key set \<Rightarrow> bool" where
  "users_match A = (\<lambda>(w, Z). \<forall>ns. set (a_UsersFor A w INDEX_SASECFRET (ns, BASE)) = {k \<in> Z. ok_Namespace k = ns})"

lemma access_users:
  assumes "index_laws A" "index_frame A" "\<not> cx_Simulate ctx"
  shows "set (a_UsersFor A (fst (mode_AccessValues RuntimeMode A ctx BASE deleting w)) INDEX_SASECFRET (ns, BASE)) =
    (if ns = ok_Namespace (cx_Key ctx) then insert (cx_Key ctx) (set (a_UsersFor A w INDEX_SASECFRET (ns, BASE)))
     else set (a_UsersFor A w INDEX_SASECFRET (ns, BASE)))"
proof -
  let ?key = "(ok_Namespace (cx_Key ctx), BASE)"
  let ?w = "a_IndexAdd A w INDEX_SASECFRET (cx_Key ctx) ?key"
  have "fst (mode_AccessValues RuntimeMode A ctx BASE deleting w) \<in> {?w, fst (a_CreateSecret A ?w (new_secret ?key))}"
    using assms(3) by (auto simp: Let_def split: sum.splits prod.splits)
  then have "a_UsersFor A (fst (mode_AccessValues RuntimeMode A ctx BASE deleting w)) INDEX_SASECFRET (ns, BASE)
      = a_UsersFor A ?w INDEX_SASECFRET (ns, BASE)"
    by (elim insertE emptyE) (simp_all only: index_frameD(1) [OF assms(2)])
  then show ?thesis using users_add [OF assms(1)] by simp
qed

lemma cleanup_parts_users:
  assumes "index_frame A"
  shows "a_UsersFor A (fst (cleanup_secret E A key w)) i k = a_UsersFor A w i k"
    and "a_UsersFor A (fst (cleanup_namespace E A n w)) i k = a_UsersFor A w i k"
proof -
  have "fst (cleanup_secret E A key w) \<in> {w, fst (a_DeleteSecret A w key)}"
    by (auto simp: cleanup_secret_def split: sum.splits prod.splits option.splits)
  then show "a_UsersFor A (fst (cleanup_secret E A key w)) i k = a_UsersFor A w i k"
    by (elim insertE emptyE) (simp_all only: index_frameD(2) [OF assms])
  have "fst (cleanup_namespace E A n w) \<in> {w, fst (a_DeleteNamespace A w n)}"
    by (auto simp: cleanup_namespace_def Let_def split: sum.splits prod.splits option.splits)
  then show "a_UsersFor A (fst (cleanup_namespace E A n w)) i k = a_UsersFor A w i k"
    by (elim insertE emptyE) (simp_all only: index_frameD(3) [OF assms])
qed

lemma cleanup_users:
  assumes "index_laws A" "index_frame A" "\<not> cx_Simulate ctx"
  shows "set (a_UsersFor A (fst (mode_Cleanup RuntimeMode E A opts ctx BASE w)) INDEX_SASECFRET (ns, BASE)) =
    (if ns = ok_Namespace (cx_Key ctx) then set (a_UsersFor A w INDEX_SASECFRET (ns, BASE)) - {cx_Key ctx}
     else set (a_UsersFor A w INDEX_SASECFRET (ns, BASE)))"
proof -
  let ?key = "(ok_Namespace (cx_Key ctx), BASE)" and ?w = "base_Cleanup A ctx BASE w"
  obtain w1 p b where cs: "cleanup_secret E A ?key ?w = (w1, p, b)" by (rule prod_cases3)
  have w1: "a_UsersFor A w1 i k = a_UsersFor A ?w i k" for i k
    using cleanup_parts_users(1) [OF assms(2), of E ?key ?w i k] cs by simp
  have "a_UsersFor A (fst (mode_Cleanup RuntimeMode E A opts ctx BASE w)) INDEX_SASECFRET (ns, BASE)
      = a_UsersFor A ?w INDEX_SASECFRET (ns, BASE)"
    by (simp add: Let_def cs w1 cleanup_parts_users(2) [OF assms(2)])
  then show ?thesis using users_remove [OF assms(1)] assms(3) by (simp add: base_Cleanup_def)
qed

lemma usage_step_match:
  assumes "index_laws A" "index_frame A"
  shows "usage_step E A opts s t \<Longrightarrow> users_match A s \<Longrightarrow> users_match A t"
proof (induction rule: usage_step.induct)
  case (access ctx deleting w w' r Z)
  then show ?case using access_users [OF assms access(1), of deleting w] by (auto simp: users_match_def)
next
  case (cleanup ctx w w' p Z)
  then show ?case using cleanup_users [OF assms cleanup(1), of E opts w] by (auto simp: users_match_def)
qed

lemma usage_reachable_match:
  assumes "index_laws A" "index_frame A" "usage_reachable E A opts s"
  shows "users_match A s"
  using assms(3) by induction (auto simp: users_match_def usage_step_match [OF assms(1,2)] dest: usage_step_match [OF assms(1,2)])

lemma shared_secret_kept:
  assumes laws: "index_laws A" "index_frame A" and r: "usage_reachable E A opts (w, Z)"
    and z: "k' \<in> Z" "k' \<noteq> cx_Key ctx" "ok_Namespace k' = ok_Namespace (cx_Key ctx)"
  shows "mode_Cleanup RuntimeMode E A opts ctx BASE w = (base_Cleanup A ctx BASE w, None)"
proof -
  let ?key = "(ok_Namespace (cx_Key ctx), BASE)"
  from usage_reachable_match [OF laws r] z have "k' \<in> set (a_UsersFor A w INDEX_SASECFRET ?key)"
    by (auto simp: users_match_def)
  then have "k' \<in> set (a_UsersFor A (base_Cleanup A ctx BASE w) INDEX_SASECFRET ?key)"
    using z users_remove [OF laws(1)] by (simp add: base_Cleanup_def)
  then show ?thesis by (auto simp: Let_def)
qed

section \<open>Values of a zone\<close>

definition field :: "json_map \<Rightarrow> string \<Rightarrow> string \<Rightarrow> json option" where
  "field v part name = (case map_of v part of Some (JMap m) \<Rightarrow> map_of m name | _ \<Rightarrow> None)"

lemma Values_fields:
  assumes "Values E A opts m ctx deleting w = (w', Some v, r)"
  shows "field v ''runtime'' ''namespace'' = Some (JStr (mode_RuntimeNamespace m E opts (cx_Id ctx) (cx_Key ctx)))"
    and "field v ''runtime'' ''name'' = Some (JStr (mode_RuntimeDeploymentName m E opts (cx_Id ctx) (cx_Key ctx)))"
    and "field v ''dataplane'' ''name'' = Some (JStr BASE)"
    and "GetAccessValues v = Ret None"
  using assms by (auto simp: Values_def Let_def field_def GetAccessValues_def split: sum.splits prod.splits)

lemma access_data_cases:
  "snd (access_data d) = None \<longleftrightarrow> map_of d ''token'' \<noteq> None"
  by (simp add: access_data_def split: option.splits)

section \<open>Properties\<close>

text \<open>C27: no two zones of a controller are deployed to the same place: in either mode the values
  of different zones differ in the namespace or in the name of the runtime, if the generated
  names are unique.\<close>

theorem Values_separate:
  assumes "unique_names E" "cx_Id ctx = cx_Id ctx'"
    and "Values E A opts m ctx d w = (w1, Some v, r)" "Values E A opts m ctx' d' w' = (w2, Some v', r')"
    and "field v ''runtime'' ''namespace'' = field v' ''runtime'' ''namespace''"
    and "field v ''runtime'' ''name'' = field v' ''runtime'' ''name''"
  shows "cx_Key ctx = cx_Key ctx'"
  using assms(2,5,6) unfolding Values_fields [OF assms(3)] Values_fields [OF assms(4)]
  by (auto intro: mode_places [OF assms(1)])

definition test_context :: "object_key \<Rightarrow> reconcile_context" where
  "test_context key = \<lparr>cx_Id = ''cluster'', cx_URL = Inr ''https://api'', cx_Platform = ''default'', cx_Key = key, cx_Simulate = False\<rparr>"

abbreviation test_values :: "object_key \<Rightarrow> json_map" where
  "test_values key \<equiv> the (fst (snd (Values uniq_ext ref_api NewOptions RuntimeMode (test_context key) True empty_store)))"

theorem Values_separate_witness:
  "(field (test_values (''default'', ''a'')) ''runtime'' ''namespace'', field (test_values (''default'', ''a'')) ''runtime'' ''name'')
    \<noteq> (field (test_values (''default'', ''b'')) ''runtime'' ''namespace'', field (test_values (''default'', ''b'')) ''runtime'' ''name'')"
proof
  let ?V = "\<lambda>k. Values uniq_ext ref_api NewOptions RuntimeMode (test_context k) True empty_store"
  assume eq: "(field (test_values (''default'', ''a'')) ''runtime'' ''namespace'', field (test_values (''default'', ''a'')) ''runtime'' ''name'')
    = (field (test_values (''default'', ''b'')) ''runtime'' ''namespace'', field (test_values (''default'', ''b'')) ''runtime'' ''name'')"
  have some: "?V k = (fst (?V k), Some (test_values k), snd (snd (?V k)))" for k
    by (simp add: Values_def test_context_def Let_def split: prod.splits)
  have "cx_Key (test_context (''default'', ''a'')) = cx_Key (test_context (''default'', ''b''))"
    by (rule Values_separate [OF uniq_unique _ some some]) (use eq in \<open>simp_all add: test_context_def\<close>)
  then show False by (simp add: test_context_def)
qed

text \<open>C26: the service account secret of a namespace is never deleted while another zone of the
  namespace uses it: whatever accesses and cleanups went before, the cleanup of one of several
  active zones only removes that zone from the usage index.\<close>

theorem Cleanup_keeps_shared:
  assumes "index_laws A" "index_frame A" "usage_reachable E A opts (w, Z)"
    and "k' \<in> Z" "k' \<noteq> cx_Key ctx" "ok_Namespace k' = ok_Namespace (cx_Key ctx)"
  shows "mode_Cleanup RuntimeMode E A opts ctx BASE w = (base_Cleanup A ctx BASE w, None)"
  using assms by (rule shared_secret_kept)

lemma ref_index_frame: "index_frame ref_api"
  by (simp add: index_frame_def ref_api_def)

abbreviation accessed :: "object_key \<Rightarrow> store \<Rightarrow> store" where
  "accessed key w \<equiv> fst (mode_AccessValues RuntimeMode ref_api (test_context key) BASE False w)"

theorem Cleanup_keeps_shared_witness:
  "let w = accessed (''default'', ''b'') (accessed (''default'', ''a'') empty_store)
   in mode_Cleanup RuntimeMode ref_ext ref_api NewOptions (test_context (''default'', ''a'')) BASE w =
        (base_Cleanup ref_api (test_context (''default'', ''a'')) BASE w, None) \<and> st_secrets w \<noteq> []"
proof -
  have start: "usage_reachable ref_ext ref_api NewOptions (empty_store, {})"
    by (rule usage_reachable.start) (simp add: ref_api_def empty_store_def)
  have acc: "usage_step ref_ext ref_api NewOptions (w, Z) (accessed k w, insert k Z)" for k w Z
    using usage_step.access [of "test_context k" ref_api False w "accessed k w"
        "snd (mode_AccessValues RuntimeMode ref_api (test_context k) BASE False w)" ref_ext NewOptions Z]
    by (simp add: test_context_def del: mode_AccessValues.simps)
  note r = usage_reachable.step [OF usage_reachable.step [OF start acc] acc, of "(''default'', ''b'')" "(''default'', ''a'')"]
  have "st_secrets (accessed (''default'', ''b'') (accessed (''default'', ''a'') empty_store)) \<noteq> []" by code_simp
  moreover note Cleanup_keeps_shared [OF ref_index_laws ref_index_frame r, of "(''default'', ''b'')" "test_context (''default'', ''a'')"]
  ultimately show ?thesis
    by (simp add: test_context_def Let_def del: mode_AccessValues.simps mode_Cleanup.simps)
qed

text \<open>The choice of the mode never fails, and the local mode is chosen exactly if both
  clusters are the same and no runtime namespace is configured.\<close>

theorem choose_mode_total:
  "choose_mode opts same = Inr (if same \<and> do_RuntimeNamespace opts = [] then LocalMode else RuntimeMode)"
  by (simp add: choose_mode_def IsSeparateRuntime_def)

text \<open>The access values are complete exactly if the secret, the existing or the newly created
  one, has a token; while deleting, a missing secret is neither an error nor created.\<close>

theorem AccessValues_outcome:
  "mode_AccessValues RuntimeMode A ctx name deleting w = (w', v, e) \<longleftrightarrow>
    (let key = (ok_Namespace (cx_Key ctx), name); w1 = a_IndexAdd A w INDEX_SASECFRET (cx_Key ctx) key
     in if cx_Simulate ctx
        then w' = w \<and> (v, e) = (Some [(''token'', JStr ''YWNjZXNzLXRva2Vu''), (''cadata'', JStr ''c2VydmVyLWNhLWNlcnQ='')], None)
        else case a_GetSecret A w1 key of
               Inr s \<Rightarrow> w' = w1 \<and> (v, e) = access_data (se_Data s)
             | Inl err \<Rightarrow>
                 if \<not> IsNotFound err then w' = w1 \<and> v = None \<and> e = Some err
                 else if deleting then w' = w1 \<and> v = None \<and> e = None
                 else w' = fst (a_CreateSecret A w1 (new_secret key)) \<and>
                   (v, e) = (case snd (a_CreateSecret A w1 (new_secret key)) of
                      Inl err \<Rightarrow> (None, Some err) | Inr s \<Rightarrow> access_data (se_Data s)))"
  by (auto simp: Let_def access_data_def split: sum.splits prod.splits)

end
