(* ===== verification/Render.thy ===== *)
theory Render
  imports Cluster_API "HOL-Library.Countable"
begin

text \<open>
  The rendering of manifests (pkg/render/spiff.go): every manifest is processed by the template
  engine, its documents are split into those for the data plane and those for the runtime
  cluster, and the hash annotations of the runtime documents are filled in. The template
  engine, the YAML library and the hash are the parameter \<open>engine\<close>; a node of the engine is
  seen through its \<open>Value()\<close>. The maps are iterated in unknown orders.
\<close>

section \<open>The engine\<close>

datatype ynode = YMap "(string \<times> ynode) list" | YList "ynode list" | YStr string | YOther

text \<open>
  \<open>en_New\<close> makes a processing context for the values, \<open>en_Unmarshal\<close> reads a named source,
  \<open>en_Cascade\<close> processes a template and \<open>en_Marshal\<close> prints a node. \<open>en_Parse\<close> and \<open>en_Print\<close> are
  the other YAML library, \<open>en_Cast\<close> is \<open>generics.Cast\<close> to a map and \<open>en_Hash\<close> the hexadecimal hash.
\<close>

record 'c engine =
  en_New :: "json_map option \<Rightarrow> go_error + 'c"
  en_Unmarshal :: "'c \<Rightarrow> string \<Rightarrow> string \<Rightarrow> go_error + ynode"
  en_Cascade :: "'c \<Rightarrow> ynode \<Rightarrow> go_error + ynode"
  en_Marshal :: "'c \<Rightarrow> ynode \<Rightarrow> go_error + string"
  en_Parse :: "string \<Rightarrow> go_error + json_map"
  en_Print :: "json_map \<Rightarrow> go_error + string"
  en_Cast :: "json option \<Rightarrow> json_map option go"
  en_Hash :: "string \<Rightarrow> string"

type_synonym manifests = "(string, string) go_map"

section \<open>Retrieving a document\<close>

definition wrap :: "string \<Rightarrow> go_error \<Rightarrow> go_error" where
  "wrap k err = err\<lparr>Error := k @ '': '' @ Error err\<rparr>"

text \<open>Whether the target label says runtime.\<close>

definition for_runtime :: "string \<Rightarrow> (string \<times> ynode) list \<Rightarrow> go_error + bool" where
  "for_runtime name manifest =
     (case map_of manifest ''metadata'' of
        None \<Rightarrow> Inr False
      | Some (YMap m) \<Rightarrow>
          (case map_of m ''labels'' of
             None \<Rightarrow> Inr False
           | Some (YMap l) \<Rightarrow>
               (case map_of l ''target'' of
                  None \<Rightarrow> Inr False
                | Some (YStr s) \<Rightarrow> Inr (s = ''runtime'')
                | Some _ \<Rightarrow> Inl (Errorf (name @ '': labels '' @ quote ''target'' @ '' must be string'')))
           | Some _ \<Rightarrow> Inl (Errorf (name @ '': invalid labels field'')))
      | Some _ \<Rightarrow> Inl (Errorf (name @ '': invalid metadata field'')))"

definition retrieve ::
    "'c engine \<Rightarrow> 'c \<Rightarrow> manifests \<times> manifests \<Rightarrow> string \<times> ynode \<Rightarrow> go_error + manifests \<times> manifests" where
  "retrieve en ctx = (\<lambda>(dataplane, runtime) (name, result).
     (case en_Marshal en ctx result of
        Inl err \<Rightarrow> Inl err
      | Inr data \<Rightarrow>
          (case result of
             YMap manifest \<Rightarrow>
               (case for_runtime name manifest of
                  Inl err \<Rightarrow> Inl err
                | Inr True \<Rightarrow> Inr (dataplane, AList.update name data runtime)
                | Inr False \<Rightarrow>
                    if map_of manifest ''kind'' \<noteq> None then Inr (AList.update name data dataplane, runtime)
                    else Inr (dataplane, runtime))
           | _ \<Rightarrow> Inl (Errorf (name @ '': no map on root level'')))))"

text \<open>A loop that stops at the first error.\<close>

fun each :: "('s \<Rightarrow> 'a \<Rightarrow> go_error + 's) \<Rightarrow> 's \<Rightarrow> 'a list \<Rightarrow> go_error + 's" where
  "each f s [] = Inr s"
| "each f s (x # xs) = (case f s x of Inl err \<Rightarrow> Inl err | Inr s' \<Rightarrow> each f s' xs)"

text \<open>The documents of a processed manifest: itself, or the elements of its field \<open>manifests\<close>.\<close>

definition documents ::
    "((string \<times> ynode) list \<Rightarrow> (string \<times> ynode) list) \<Rightarrow> string \<Rightarrow> ynode \<Rightarrow> go_error + (string \<times> ynode) list" where
  "documents ord k result =
     (case result of
        YMap m \<Rightarrow>
          (case map_of m ''manifests'' of
             None \<Rightarrow> Inr [(k, result)]
           | Some (YMap e) \<Rightarrow> Inr (map (\<lambda>(n, v). (k @ ''::'' @ n, v)) (ord e))
           | Some (YList e) \<Rightarrow> Inr (map (\<lambda>(n, v). (k @ ''::'' @ show_nat n, v)) (enumerate 0 e))
           | Some _ \<Rightarrow> Inl (Errorf (k @ '': manifests must be list or map'')))
      | _ \<Rightarrow> Inl (Errorf (k @ '': no map on root level'')))"

definition render_manifest ::
    "'c engine \<Rightarrow> ((string \<times> ynode) list \<Rightarrow> (string \<times> ynode) list) \<Rightarrow> 'c \<Rightarrow> manifests \<times> manifests \<Rightarrow> string \<times> string
     \<Rightarrow> go_error + manifests \<times> manifests" where
  "render_manifest en ord ctx out = (\<lambda>(k, v).
     (case en_Unmarshal en ctx k v of
        Inl err \<Rightarrow> Inl (wrap k err)
      | Inr templ \<Rightarrow>
          (case en_Cascade en ctx templ of
             Inl err \<Rightarrow> Inl (wrap k err)
           | Inr result \<Rightarrow>
               (case documents ord k result of
                  Inl err \<Rightarrow> Inl err
                | Inr docs \<Rightarrow> each (retrieve en ctx) out docs))))"

section \<open>Hash annotations\<close>

definition hash_key :: "string \<Rightarrow> string option" where
  "hash_key k = (if has_prefix k ''hashes.'' then Some (drop (length ''hashes.'') k) else None)"

text \<open>What becomes of an annotation; the entries of the map are treated independently.\<close>

definition new_annotation :: "'c engine \<Rightarrow> manifests \<Rightarrow> string \<times> json \<Rightarrow> (string \<times> json) list \<times> bool" where
  "new_annotation en ms = (\<lambda>(k, cur).
     (case hash_key k of
        None \<Rightarrow> ([(k, cur)], False)
      | Some ref \<Rightarrow>
          (let data = (case map_of ms ref of None \<Rightarrow> [] | Some d \<Rightarrow> d)
           in if length data > 0 then
                (if JStr (en_Hash en data) \<noteq> cur then ([(k, JStr (en_Hash en data))], True) else ([(k, cur)], False))
              else ([], True))))"

definition new_annotations :: "'c engine \<Rightarrow> manifests \<Rightarrow> json_map \<Rightarrow> json_map \<times> bool" where
  "new_annotations en ms annos =
     (concat (map (\<lambda>a. fst (new_annotation en ms a)) annos), list_ex (\<lambda>a. snd (new_annotation en ms a)) annos)"

text \<open>
  The treatment of one manifest: the parsed manifest with its new annotations if any changed,
  otherwise nothing. The annotation map is part of the metadata map, which is part of the manifest.
\<close>

definition hash_manifest :: "'c engine \<Rightarrow> manifests \<Rightarrow> json_map \<Rightarrow> json_map option go" where
  "hash_manifest en ms m =
     go_bind (en_Cast en (map_of m ''metadata'')) (\<lambda>meta.
       (case meta of
          None \<Rightarrow> Ret None
        | Some meta \<Rightarrow>
            go_bind (en_Cast en (map_of meta ''annotations'')) (\<lambda>annos.
              (case annos of
                 None \<Rightarrow> Ret None
               | Some annos \<Rightarrow>
                   (case new_annotations en ms annos of
                      (annos', changed) \<Rightarrow>
                        Ret (if changed
                             then Some (AList.update ''metadata'' (JMap (AList.update ''annotations'' (JMap annos') meta)) m)
                             else None))))))"

text \<open>One pass over the manifests: the manifests, whether one was modified, and whether an error ended it.\<close>

fun hash_pass :: "'c engine \<Rightarrow> string list \<Rightarrow> manifests \<Rightarrow> bool \<Rightarrow> (manifests \<times> bool \<times> bool) go" where
  "hash_pass en [] ms md = Ret (ms, md, False)"
| "hash_pass en (n # ns) ms md =
     (case map_of ms n of
        None \<Rightarrow> hash_pass en ns ms md
      | Some v \<Rightarrow>
          (case en_Parse en v of
             Inl err \<Rightarrow> Ret (ms, md, True)
           | Inr m \<Rightarrow>
               go_bind (hash_manifest en ms m) (\<lambda>r.
                 (case r of
                    None \<Rightarrow> hash_pass en ns ms md
                  | Some m' \<Rightarrow>
                      (case en_Print en m' of
                         Inl err \<Rightarrow> Ret (ms, True, True)
                       | Inr v' \<Rightarrow> hash_pass en ns (AList.update n v' ms) True)))))"

text \<open>Passes until nothing changes; \<open>i\<close> counts them, since every pass may see another order.\<close>

partial_function (option) apply_hashes ::
    "'c engine \<Rightarrow> (nat \<Rightarrow> string list \<Rightarrow> string list) \<Rightarrow> nat \<Rightarrow> manifests \<Rightarrow> manifests go option" where
  "apply_hashes en ord i ms =
     (case hash_pass en (ord i (map fst ms)) ms False of
        Panic \<Rightarrow> Some Panic
      | Ret (ms', md, stop) \<Rightarrow>
          if stop then Some (Ret ms') else if md then apply_hashes en ord (Suc i) ms' else Some (Ret ms'))"

declare apply_hashes.simps [code]

section \<open>Render\<close>

text \<open>The orders: of the manifests, of the documents of a map, and of the passes.\<close>

record render_order =
  ro_manifests :: "manifests \<Rightarrow> manifests"
  ro_documents :: "(string \<times> ynode) list \<Rightarrow> (string \<times> ynode) list"
  ro_passes :: "nat \<Rightarrow> string list \<Rightarrow> string list"

definition Render ::
    "'c engine \<Rightarrow> render_order \<Rightarrow> manifests \<Rightarrow> json_map option \<Rightarrow> (go_error + manifests \<times> manifests) go option" where
  "Render en ro manifests values =
     (case en_New en values of
        Inl err \<Rightarrow> Some (Ret (Inl err))
      | Inr ctx \<Rightarrow>
          (case each (render_manifest en (ro_documents ro) ctx) ([], []) (ro_manifests ro manifests) of
             Inl err \<Rightarrow> Some (Ret (Inl err))
           | Inr (dataplane, runtime) \<Rightarrow>
               map_option (\<lambda>r. go_bind r (\<lambda>runtime. Ret (Inr (dataplane, runtime))))
                 (apply_hashes en (ro_passes ro) 0 runtime)))"

section \<open>Where the documents go\<close>

text \<open>
  What rendering should do, stated without its functions. The documents of the manifests: a
  processed manifest without a field \<open>manifests\<close> is a document named like it, otherwise the
  entries of this field are, a map's named by their keys and a list's by their positions.
\<close>

inductive part_of :: "string \<Rightarrow> ynode \<Rightarrow> string \<Rightarrow> ynode \<Rightarrow> bool" where
  whole: "map_of m ''manifests'' = None \<Longrightarrow> part_of k (YMap m) k (YMap m)"
| field: "map_of m ''manifests'' = Some (YMap fs) \<Longrightarrow> (n, d) \<in> set fs \<Longrightarrow> part_of k (YMap m) (k @ ''::'' @ n) d"
| element: "map_of m ''manifests'' = Some (YList ds) \<Longrightarrow> i < length ds \<Longrightarrow>
    part_of k (YMap m) (k @ ''::'' @ show_nat i) (ds ! i)"

inductive_simps part_of_iff: "part_of k (YMap m) n d"

definition document :: "'c engine \<Rightarrow> 'c \<Rightarrow> manifests \<Rightarrow> string \<Rightarrow> ynode \<Rightarrow> bool" where
  "document en ctx ms n d \<longleftrightarrow> (\<exists>(k, v) \<in> set ms. \<exists>templ result.
     en_Unmarshal en ctx k v = Inr templ \<and> en_Cascade en ctx templ = Inr result \<and> part_of k result n d)"

definition labelled_runtime :: "ynode \<Rightarrow> bool" where
  "labelled_runtime d \<longleftrightarrow> (\<exists>m meta labels. d = YMap m \<and> map_of m ''metadata'' = Some (YMap meta) \<and>
     map_of meta ''labels'' = Some (YMap labels) \<and> map_of labels ''target'' = Some (YStr ''runtime''))"

definition has_kind :: "ynode \<Rightarrow> bool" where
  "has_kind d \<longleftrightarrow> (\<exists>m kind. d = YMap m \<and> map_of m ''kind'' = Some kind)"

text \<open>
  How the text of a runtime document may differ from the printed document: step by step, a text
  with a hash annotation is replaced by a print of the same manifest with the same annotations
  but for the hashes.
\<close>

definition rehashed :: "'c engine \<Rightarrow> string \<Rightarrow> string \<Rightarrow> bool" where
  "rehashed en t t' \<longleftrightarrow> (\<exists>m meta annos annos'. en_Parse en t = Inr m \<and>
     en_Cast en (map_of m ''metadata'') = Ret (Some meta) \<and>
     en_Cast en (map_of meta ''annotations'') = Ret (Some annos) \<and>
     (\<exists>(k, cur) \<in> set annos. has_prefix k ''hashes.'') \<and>
     (\<forall>k. \<not> has_prefix k ''hashes.'' \<longrightarrow> map_of annos' k = map_of annos k) \<and>
     en_Print en (AList.update ''metadata'' (JMap (AList.update ''annotations'' (JMap annos') meta)) m) = Inr t')"

definition keys_of :: "('k, 'v) go_map \<Rightarrow> 'k set" where
  "keys_of m = dom (map_of m)"

lemma keys_update [simp]: "keys_of (AList.update k v m) = insert k (keys_of m)"
  by (simp add: keys_of_def dom_update dom_map_of_conv_image_fst)

lemma keys_of_Nil [simp]: "keys_of [] = {}"
  by (simp add: keys_of_def)

text \<open>The texts a map has after some named documents were put into it.\<close>

definition filed :: "'c engine \<Rightarrow> 'c \<Rightarrow> (string \<times> ynode) set \<Rightarrow> manifests \<Rightarrow> manifests \<Rightarrow> bool" where
  "filed en ctx S ms ms' \<longleftrightarrow> keys_of ms' = keys_of ms \<union> fst ` S \<and>
     (\<forall>n t. map_of ms' n = Some t \<longrightarrow> map_of ms n = Some t \<or> (\<exists>d. (n, d) \<in> S \<and> en_Marshal en ctx d = Inr t))"

lemma filed_refl [simp]: "filed en ctx {} ms ms"
  by (simp add: filed_def)

lemma filed_update: "en_Marshal en ctx d = Inr t \<Longrightarrow> filed en ctx {(n, d)} ms (AList.update n t ms)"
  by (auto simp: filed_def update_conv')

lemma filed_trans: "filed en ctx S ms ms1 \<Longrightarrow> filed en ctx T ms1 ms2 \<Longrightarrow> filed en ctx (S \<union> T) ms ms2"
  unfolding filed_def by (intro conjI allI impI) (simp add: image_Un Un_assoc, meson UnCI)

lemma filed_each:
  assumes "\<And>s x s'. f s x = Inr s' \<Longrightarrow> filed en ctx (D x) (out s) (out s')"
  shows "each f s xs = Inr s' \<Longrightarrow> filed en ctx (\<Union>x \<in> set xs. D x) (out s) (out s')"
proof (induction xs arbitrary: s)
  case (Cons x xs)
  from Cons.prems obtain t where t: "f s x = Inr t" "each f t xs = Inr s'" by (cases "f s x") auto
  show ?case using filed_trans [OF assms [OF t(1)] Cons.IH [OF t(2)]] by simp
qed simp

text \<open>One document.\<close>

definition for_dataplane :: "ynode \<Rightarrow> bool" where
  "for_dataplane d \<longleftrightarrow> has_kind d \<and> \<not> labelled_runtime d"

lemma for_runtime_labelled: "for_runtime name m = Inr b \<Longrightarrow> b \<longleftrightarrow> labelled_runtime (YMap m)"
  by (auto simp: for_runtime_def labelled_runtime_def split: option.splits ynode.splits)

lemma retrieve_filed:
  assumes "retrieve en ctx out (n, d) = Inr out'"
  shows "filed en ctx (if for_dataplane d then {(n, d)} else {}) (fst out) (fst out')"
    and "filed en ctx (if labelled_runtime d then {(n, d)} else {}) (snd out) (snd out')"
proof -
  obtain dp rt where out: "out = (dp, rt)" by (rule prod.exhaust)
  from assms obtain data where data: "en_Marshal en ctx d = Inr data"
    by (cases "en_Marshal en ctx d") (simp_all add: retrieve_def out)
  with assms obtain m where m: "d = YMap m" by (cases d) (simp_all add: retrieve_def out)
  with assms data obtain b where b: "for_runtime n m = Inr b"
    by (cases "for_runtime n m") (simp_all add: retrieve_def out)
  note l = for_runtime_labelled [OF b]
  have k: "has_kind d \<longleftrightarrow> map_of m ''kind'' \<noteq> None" by (auto simp: has_kind_def m)
  have r: "out' = (if b then (dp, AList.update n data rt)
      else if map_of m ''kind'' \<noteq> None then (AList.update n data dp, rt) else (dp, rt))"
    using assms data b m by (auto simp: retrieve_def out split: bool.splits if_splits)
  show "filed en ctx (if for_dataplane d then {(n, d)} else {}) (fst out) (fst out')"
    using l filed_update [OF data] by (simp add: r out for_dataplane_def k m [symmetric])
  show "filed en ctx (if labelled_runtime d then {(n, d)} else {}) (snd out) (snd out')"
    using l filed_update [OF data] by (simp add: r out m [symmetric])
qed

text \<open>The documents of one manifest, and of all.\<close>

lemma documents_parts:
  assumes "iteration_order ord" "documents ord k r = Inr docs"
  shows "(n, d) \<in> set docs \<longleftrightarrow> part_of k r n d"
proof -
  from assms(2) obtain m where m: "r = YMap m" by (cases r) (simp_all add: documents_def)
  have o: "(a, b) \<in> set (ord e) \<longleftrightarrow> (a, b) \<in> set e" for a b e using assms(1) by simp
  have i: "(a, b) \<in> set (enumerate 0 e) \<longleftrightarrow> a < length e \<and> b = e ! a" for a b and e :: "ynode list"
    by (auto simp: in_set_enumerate_eq)
  have img: "(n, d) \<in> set (map (\<lambda>(a, v). (f a, v)) l) \<longleftrightarrow> (\<exists>a. (a, d) \<in> set l \<and> n = f a)"
    for f :: "'i \<Rightarrow> string" and l by force
  show ?thesis
  proof (cases "map_of m ''manifests''")
    case None
    with assms(2) show ?thesis by (auto simp: documents_def m part_of_iff)
  next
    case (Some e)
    show ?thesis
    proof (cases e)
      case (YMap fs)
      with assms(2) Some have "docs = map (\<lambda>(n, v). (k @ ''::'' @ n, v)) (ord fs)" by (simp add: documents_def m)
      with Some YMap show ?thesis
        unfolding m by (simp only: img o part_of_iff) auto
    next
      case (YList ds)
      with assms(2) Some have "docs = map (\<lambda>(n, v). (k @ ''::'' @ show_nat n, v)) (enumerate 0 ds)"
        by (simp add: documents_def m)
      with Some YList show ?thesis
        unfolding m by (simp only: img i part_of_iff) auto
    qed (use assms(2) Some in \<open>simp_all add: documents_def m\<close>)
  qed
qed

lemma render_manifest_filed:
  assumes ord: "iteration_order ord" and r: "render_manifest en ord ctx out kv = Inr out'"
  shows "filed en ctx {(n, d). document en ctx [kv] n d \<and> for_dataplane d} (fst out) (fst out')"
    and "filed en ctx {(n, d). document en ctx [kv] n d \<and> labelled_runtime d} (snd out) (snd out')"
proof -
  obtain k v where kv: "kv = (k, v)" by (rule prod.exhaust)
  from r obtain templ result docs where u: "en_Unmarshal en ctx k v = Inr templ" "en_Cascade en ctx templ = Inr result"
    "documents ord k result = Inr docs" and e: "each (retrieve en ctx) out docs = Inr out'"
    by (auto simp: render_manifest_def kv split: sum.splits)
  have doc: "document en ctx [kv] n d \<longleftrightarrow> (n, d) \<in> set docs" for n d
    by (simp add: document_def kv u documents_parts [OF ord u(3)])
  have sets: "(\<Union>x \<in> set docs. if P (snd x) then {x} else {}) = {(n, d). document en ctx [kv] n d \<and> P d}" for P
    unfolding doc by (auto split: if_splits)
  show "filed en ctx {(n, d). document en ctx [kv] n d \<and> for_dataplane d} (fst out) (fst out')"
    unfolding sets [symmetric]
    by (rule filed_each [OF _ e]) (use retrieve_filed(1) in \<open>metis prod.collapse\<close>)
  show "filed en ctx {(n, d). document en ctx [kv] n d \<and> labelled_runtime d} (snd out) (snd out')"
    unfolding sets [symmetric]
    by (rule filed_each [OF _ e]) (use retrieve_filed(2) in \<open>metis prod.collapse\<close>)
qed

lemma documents_union:
  "(\<Union>kv \<in> set ms. {(n, d). document en ctx [kv] n d \<and> P d}) = {(n, d). document en ctx ms n d \<and> P d}"
  by (auto simp: document_def)

lemma new_annotations_other:
  "\<not> has_prefix k ''hashes.'' \<Longrightarrow> map_of (fst (new_annotations en ms annos)) k = map_of annos k"
  by (induction annos) (auto simp: new_annotations_def new_annotation_def hash_key_def Let_def split: if_splits)

lemma new_annotations_hash:
  "snd (new_annotations en ms annos) \<Longrightarrow> \<exists>(k, cur) \<in> set annos. has_prefix k ''hashes.''"
  by (fastforce simp: new_annotations_def new_annotation_def hash_key_def list_ex_iff split: if_splits)

lemma hash_manifest_rehashed:
  assumes "en_Parse en t = Inr m" "hash_manifest en ms m = Ret (Some m')" "en_Print en m' = Inr t'"
  shows "rehashed en t t'"
proof -
  let ?new = "\<lambda>meta annos. AList.update ''metadata''
      (JMap (AList.update ''annotations'' (JMap (fst (new_annotations en ms annos))) meta)) m"
  from assms(2) obtain x where c1: "en_Cast en (map_of m ''metadata'') = Ret x"
    by (cases "en_Cast en (map_of m ''metadata'')") (auto simp: hash_manifest_def)
  with assms(2) obtain meta where x: "x = Some meta" by (cases x) (auto simp: hash_manifest_def)
  with assms(2) c1 obtain y where c2: "en_Cast en (map_of meta ''annotations'') = Ret y"
    by (cases "en_Cast en (map_of meta ''annotations'')") (auto simp: hash_manifest_def)
  with assms(2) c1 x obtain annos where y: "y = Some annos" by (cases y) (auto simp: hash_manifest_def)
  have r: "(if snd (new_annotations en ms annos) then Some (?new meta annos) else None) = Some m'"
    using assms(2) by (simp add: hash_manifest_def c1 x c2 y case_prod_beta)
  then have ch: "snd (new_annotations en ms annos)" and m': "m' = ?new meta annos"
    by (simp_all split: if_splits)
  note c = c1 [unfolded x] c2 [unfolded y]
  show ?thesis
    unfolding rehashed_def
    using assms(1,3) c m' new_annotations_other new_annotations_hash [OF ch] by blast
qed

lemma hash_pass_keys: "hash_pass en ns ms md = Ret (ms', md', stop) \<Longrightarrow> keys_of ms' = keys_of ms"
proof (induction en ns ms md rule: hash_pass.induct)
  case (2 en n ns ms md)
  show ?case
  proof (cases "map_of ms n")
    case None
    with 2 show ?thesis by simp
  next
    case (Some v)
    then have n: "n \<in> keys_of ms" by (auto simp: keys_of_def)
    show ?thesis
    proof (cases "en_Parse en v")
      case (Inl err)
      with 2 Some show ?thesis by simp
    next
      case (Inr m)
      from 2(4) Some Inr obtain r where r: "hash_manifest en ms m = Ret r"
        by (cases "hash_manifest en ms m") auto
      show ?thesis
      proof (cases r)
        case None
        with 2 Some Inr r show ?thesis by simp
      next
        case (Some m')
        show ?thesis
        proof (cases "en_Print en m'")
          case (Inl err)
          with 2(4) \<open>map_of ms n = Some v\<close> Inr r Some show ?thesis by simp
        next
          case (Inr v')
          with 2(4) \<open>map_of ms n = Some v\<close> \<open>en_Parse en v = Inr m\<close> r Some
          have "hash_pass en ns (AList.update n v' ms) True = Ret (ms', md', stop)" by simp
          from 2(3) [OF \<open>map_of ms n = Some v\<close> \<open>en_Parse en v = Inr m\<close> Inr this] n show ?thesis by auto
        qed
      qed
    qed
  qed
qed simp

lemma apply_hashes_keys:
  assumes "apply_hashes en ord i ms = Some r"
  shows "\<forall>ms'. r = Ret ms' \<longrightarrow> keys_of ms' = keys_of ms"
proof (rule apply_hashes.raw_induct [where P = "\<lambda>en ord i ms r. \<forall>ms'. r = Ret ms' \<longrightarrow> keys_of ms' = keys_of ms", OF _ assms])
  fix W :: "'a engine \<Rightarrow> (nat \<Rightarrow> string list \<Rightarrow> string list) \<Rightarrow> nat \<Rightarrow> manifests \<Rightarrow> manifests go option"
  fix en ord i ms r
  assume IH: "\<And>en ord i ms r. W en ord i ms = Some r \<Longrightarrow> \<forall>ms'. r = Ret ms' \<longrightarrow> keys_of ms' = keys_of ms"
    and eq: "(case hash_pass en (ord i (map fst ms)) ms False of
        Panic \<Rightarrow> Some Panic
      | Ret (ms', md, stop) \<Rightarrow>
          if stop then Some (Ret ms') else if md then W en ord (Suc i) ms' else Some (Ret ms')) = Some r"
  show "\<forall>ms'. r = Ret ms' \<longrightarrow> keys_of ms' = keys_of ms"
  proof (cases "hash_pass en (ord i (map fst ms)) ms False")
    case Panic
    with eq show ?thesis by simp
  next
    case (Ret x)
    then obtain ms1 md stop where p: "hash_pass en (ord i (map fst ms)) ms False = Ret (ms1, md, stop)"
      by (cases x) auto
    with eq IH [of en ord "Suc i" ms1 r] hash_pass_keys [OF p] show ?thesis by (auto split: if_splits)
  qed
qed

section \<open>What the passes reach\<close>

text \<open>
  What is relied on: a printed map is read back as it was, and the cast gives the map of a map
  value and nil for anything else.
\<close>

definition yaml_laws :: "'c engine \<Rightarrow> bool" where
  "yaml_laws en \<longleftrightarrow> (\<forall>m. \<exists>v. en_Print en m = Inr v \<and> en_Parse en v = Inr m) \<and>
     (\<forall>j. en_Cast en j = Ret (case j of Some (JMap m) \<Rightarrow> Some m | _ \<Rightarrow> None))"

lemma yaml_lawsD:
  assumes "yaml_laws en"
  shows print_parse: "\<exists>v. en_Print en m = Inr v \<and> en_Parse en v = Inr m"
    and cast_eq: "en_Cast en j = Ret (case j of Some (JMap m) \<Rightarrow> Some m | _ \<Rightarrow> None)"
  using assms unfolding yaml_laws_def by blast+

text \<open>The annotations of a manifest and the names they refer to.\<close>

definition annos_of :: "json_map \<Rightarrow> json_map" where
  "annos_of m =
     (case map_of m ''metadata'' of
        Some (JMap meta) \<Rightarrow> (case map_of meta ''annotations'' of Some (JMap a) \<Rightarrow> a | _ \<Rightarrow> [])
      | _ \<Rightarrow> [])"

definition refs_of :: "json_map \<Rightarrow> string set" where
  "refs_of m = {ref. \<exists>(k, cur) \<in> set (annos_of m). hash_key k = Some ref}"

definition hashes_right :: "'c engine \<Rightarrow> manifests \<Rightarrow> string \<Rightarrow> bool" where
  "hashes_right en ms v \<longleftrightarrow>
     (\<forall>m k cur ref. en_Parse en v = Inr m \<longrightarrow> (k, cur) \<in> set (annos_of m) \<longrightarrow> hash_key k = Some ref \<longrightarrow>
        (\<exists>data. map_of ms ref = Some data \<and> data \<noteq> [] \<and> cur = JStr (en_Hash en data)))"

lemma new_annotations_Nil [simp]: "new_annotations en ms [] = ([], False)"
  by (simp add: new_annotations_def)

lemma hash_manifest_eq:
  assumes "yaml_laws en"
  shows "\<exists>m'. hash_manifest en ms m = Ret (if snd (new_annotations en ms (annos_of m)) then Some m' else None) \<and>
    annos_of m' = fst (new_annotations en ms (annos_of m))"
proof (cases "\<exists>meta annos. map_of m ''metadata'' = Some (JMap meta) \<and> map_of meta ''annotations'' = Some (JMap annos)")
  case True
  then obtain meta annos where m: "map_of m ''metadata'' = Some (JMap meta)" "map_of meta ''annotations'' = Some (JMap annos)"
    by blast
  then have a: "annos_of m = annos" by (simp add: annos_of_def)
  obtain annos' changed where na: "new_annotations en ms annos = (annos', changed)" by (rule prod.exhaust)
  let ?m' = "AList.update ''metadata'' (JMap (AList.update ''annotations'' (JMap annos') meta)) m"
  from m na have "hash_manifest en ms m = Ret (if changed then Some ?m' else None)"
    by (simp add: hash_manifest_def cast_eq [OF assms])
  moreover have "annos_of ?m' = annos'" by (simp add: annos_of_def update_conv')
  ultimately show ?thesis by (intro exI [of _ ?m']) (simp add: a na)
next
  case False
  then have "annos_of m = []" and "hash_manifest en ms m = Ret None"
    by (auto simp: annos_of_def hash_manifest_def cast_eq [OF assms] split: option.splits json.splits)
  then show ?thesis by (intro exI [of _ m]) simp
qed

lemma new_annotations_same:
  assumes "\<not> snd (new_annotations en ms annos)" "(k, cur) \<in> set annos" "hash_key k = Some ref"
  shows "\<exists>data. map_of ms ref = Some data \<and> data \<noteq> [] \<and> cur = JStr (en_Hash en data)"
proof -
  from assms(1,2) have "\<not> snd (new_annotation en ms (k, cur))"
    by (auto simp: new_annotations_def list_ex_iff)
  then show ?thesis using assms(3) by (auto simp: new_annotation_def Let_def split: option.splits if_splits)
qed

lemma hash_manifest_None:
  assumes laws: "yaml_laws en" and "en_Parse en v = Inr m" "hash_manifest en ms m = Ret None"
  shows "hashes_right en ms v"
proof -
  have "\<not> snd (new_annotations en ms (annos_of m))"
    using hash_manifest_eq [OF laws, of ms m] assms(3) by (auto split: if_splits)
  then show ?thesis using assms(2) by (auto simp: hashes_right_def dest: new_annotations_same)
qed

lemma hash_pass_cases:
  assumes "hash_pass en (n # ns) ms md = Ret (ms', md', stop)"
  obtains "hash_pass en ns ms md = Ret (ms', md', stop)"
      "\<And>v. map_of ms n = Some v \<Longrightarrow> \<exists>m. en_Parse en v = Inr m \<and> hash_manifest en ms m = Ret None"
  | v m m' v' where "map_of ms n = Some v" "en_Parse en v = Inr m" "hash_manifest en ms m = Ret (Some m')"
      "en_Print en m' = Inr v'" "hash_pass en ns (AList.update n v' ms) True = Ret (ms', md', stop)"
  | v where "stop" "md \<longrightarrow> md'" "map_of ms n = Some v" "ms' = ms"
      "(\<exists>err. en_Parse en v = Inl err) \<or> (\<exists>m err. en_Print en m = Inl err)"
proof (cases "map_of ms n")
  case None
  with assms that(1) show ?thesis by simp
next
  case (Some v)
  note v = Some
  show ?thesis
  proof (cases "en_Parse en v")
    case (Inl err)
    with assms v have "stop" "md \<longrightarrow> md'" "ms' = ms" by simp_all
    from that(3) [OF this(1,2) v this(3)] Inl show ?thesis by simp
  next
    case (Inr m)
    with assms v obtain r where r: "hash_manifest en ms m = Ret r" by (cases "hash_manifest en ms m") auto
    show ?thesis
    proof (cases r)
      case None
      with assms v Inr r have "hash_pass en ns ms md = Ret (ms', md', stop)" by simp
      from that(1) [OF this] v Inr r None show ?thesis by simp
    next
      case (Some m')
      show ?thesis
      proof (cases "en_Print en m'")
        case (Inl err)
        with assms v \<open>en_Parse en v = Inr m\<close> r Some have "stop" "md \<longrightarrow> md'" "ms' = ms" by simp_all
        from that(3) [OF this(1,2) v this(3)] Inl show ?thesis by blast
      next
        case (Inr v')
        with assms v \<open>en_Parse en v = Inr m\<close> r Some
        have "hash_pass en ns (AList.update n v' ms) True = Ret (ms', md', stop)" by simp
        from that(2) [OF v \<open>en_Parse en v = Inr m\<close> _ Inr this] r Some show ?thesis by simp
      qed
    qed
  qed
qed

lemma hash_pass_rehashed:
  "hash_pass en ns ms md = Ret (ms', md', stop) \<Longrightarrow> map_of ms' n = Some t' \<Longrightarrow>
   \<exists>t. map_of ms n = Some t \<and> (rehashed en)\<^sup>*\<^sup>* t t'"
proof (induction ns arbitrary: ms md)
  case (Cons k ns)
  from Cons.prems(1) show ?case
  proof (cases rule: hash_pass_cases)
    case 1
    from Cons.IH [OF 1(1) Cons.prems(2)] show ?thesis .
  next
    case (2 v m m' v')
    from Cons.IH [OF 2(5) Cons.prems(2)] obtain t where
      t: "map_of (AList.update k v' ms) n = Some t" "(rehashed en)\<^sup>*\<^sup>* t t'" by blast
    with 2(1) hash_manifest_rehashed [OF 2(2-4)] show ?thesis
      by (cases "n = k") (auto simp: update_conv' intro: converse_rtranclp_into_rtranclp)
  next
    case (3 v)
    with Cons.prems(2) show ?thesis by auto
  qed
qed auto

lemma apply_hashes_rehashed:
  assumes "apply_hashes en ord i ms = Some r"
  shows "\<forall>ms' n t'. r = Ret ms' \<longrightarrow> map_of ms' n = Some t' \<longrightarrow> (\<exists>t. map_of ms n = Some t \<and> (rehashed en)\<^sup>*\<^sup>* t t')"
proof (rule apply_hashes.raw_induct [where P = "\<lambda>en ord i ms r. \<forall>ms' n t'. r = Ret ms' \<longrightarrow> map_of ms' n = Some t' \<longrightarrow>
    (\<exists>t. map_of ms n = Some t \<and> (rehashed en)\<^sup>*\<^sup>* t t')", OF _ assms])
  fix W :: "'a engine \<Rightarrow> (nat \<Rightarrow> string list \<Rightarrow> string list) \<Rightarrow> nat \<Rightarrow> manifests \<Rightarrow> manifests go option"
  fix en ord i ms r
  let ?Q = "\<lambda>en ms (r :: manifests go). \<forall>ms' n t'. r = Ret ms' \<longrightarrow> map_of ms' n = Some t' \<longrightarrow>
    (\<exists>t. map_of ms n = Some t \<and> (rehashed en)\<^sup>*\<^sup>* t t')"
  assume IH: "\<And>en ord i ms r. W en ord i ms = Some r \<Longrightarrow> ?Q en ms r"
    and eq: "(case hash_pass en (ord i (map fst ms)) ms False of
        Panic \<Rightarrow> Some Panic
      | Ret (ms', md, stop) \<Rightarrow>
          if stop then Some (Ret ms') else if md then W en ord (Suc i) ms' else Some (Ret ms')) = Some r"
  show "?Q en ms r"
  proof (cases "hash_pass en (ord i (map fst ms)) ms False")
    case (Ret x)
    then obtain ms1 md stop where p: "hash_pass en (ord i (map fst ms)) ms False = Ret (ms1, md, stop)"
      by (cases x) auto
    note pass = hash_pass_rehashed [OF p]
    show ?thesis
    proof (cases "\<not> stop \<and> md")
      case True
      with eq p have "W en ord (Suc i) ms1 = Some r" by simp
      from IH [OF this] pass show ?thesis by (metis rtranclp_trans)
    next
      case False
      with eq p pass show ?thesis by (auto split: if_splits)
    qed
  qed (use eq in simp)
qed

lemma Render_filed:
  assumes ord: "iteration_order (ro_manifests ro)" "iteration_order (ro_documents ro)"
    and ctx: "en_New en values = Inr ctx"
    and r: "Render en ro manifests values = Some (Ret (Inr (dataplane, runtime)))"
  obtains rt where "filed en ctx {(n, d). document en ctx manifests n d \<and> for_dataplane d} [] dataplane"
    and "filed en ctx {(n, d). document en ctx manifests n d \<and> labelled_runtime d} [] rt"
    and "keys_of runtime = keys_of rt"
    and "\<And>n t'. map_of runtime n = Some t' \<Longrightarrow> \<exists>t. map_of rt n = Some t \<and> (rehashed en)\<^sup>*\<^sup>* t t'"
proof -
  from r ctx obtain rt where e: "each (render_manifest en (ro_documents ro) ctx) ([], []) (ro_manifests ro manifests) = Inr (dataplane, rt)"
    and a: "apply_hashes en (ro_passes ro) 0 rt = Some (Ret runtime)"
    by (auto simp: Render_def go_bind_Ret_iff split: sum.splits)
  have set: "set (ro_manifests ro manifests) = set manifests" using ord(1) by simp
  have "filed en ctx {(n, d). document en ctx manifests n d \<and> for_dataplane d} [] dataplane"
    using filed_each [where out = fst and D = "\<lambda>kv. {(n, d). document en ctx [kv] n d \<and> for_dataplane d}",
      OF render_manifest_filed(1) [OF ord(2)] e]
    by (simp only: set documents_union fst_conv)
  moreover have "filed en ctx {(n, d). document en ctx manifests n d \<and> labelled_runtime d} [] rt"
    using filed_each [where out = snd and D = "\<lambda>kv. {(n, d). document en ctx [kv] n d \<and> labelled_runtime d}",
      OF render_manifest_filed(2) [OF ord(2)] e]
    by (simp only: set documents_union snd_conv)
  ultimately show ?thesis using that apply_hashes_keys [OF a] apply_hashes_rehashed [OF a] by blast
qed

lemma hash_pass_md: "hash_pass en ns ms True = Ret (ms', md', stop) \<Longrightarrow> md'"
proof (induction ns arbitrary: ms)
  case (Cons n ns)
  from Cons.prems show ?case by (cases rule: hash_pass_cases) (auto dest: Cons.IH)
qed simp

lemma hash_pass_unchanged:
  assumes laws: "yaml_laws en"
  shows "hash_pass en ns ms md = Ret (ms', False, False) \<Longrightarrow>
   ms' = ms \<and> (\<forall>n \<in> set ns. \<forall>v. map_of ms n = Some v \<longrightarrow> hashes_right en ms v)"
proof (induction ns arbitrary: ms)
  case (Cons n ns)
  from Cons.prems show ?case
  proof (cases rule: hash_pass_cases)
    case 1
    have "hashes_right en ms v" if "map_of ms n = Some v" for v
      using 1(2) [OF that] hash_manifest_None [OF laws] by blast
    with Cons.IH [OF 1(1)] show ?thesis by auto
  qed (auto dest: hash_pass_md)
qed simp

lemma hash_pass_stop:
  assumes laws: "yaml_laws en"
  shows "hash_pass en ns ms md = Ret (ms', md', True) \<Longrightarrow> \<exists>n v err. map_of ms' n = Some v \<and> en_Parse en v = Inl err"
proof (induction ns arbitrary: ms md)
  case (Cons n ns)
  from Cons.prems show ?case
  proof (cases rule: hash_pass_cases)
    case (3 v)
    have "en_Print en m \<noteq> Inl err" for m err using print_parse [OF laws, of m] by auto
    with 3(5) obtain err where "en_Parse en v = Inl err" by blast
    with 3(3,4) show ?thesis by (intro exI [of _ n] exI [of _ v] exI [of _ err]) simp
  qed (rule Cons.IH; assumption)+
qed simp

lemma hash_pass_Ret:
  assumes laws: "yaml_laws en"
  shows "\<exists>x. hash_pass en ns ms md = Ret x"
proof (induction ns arbitrary: ms md)
  case (Cons n ns)
  show ?case
  proof (cases "map_of ms n")
    case (Some v)
    show ?thesis
    proof (cases "en_Parse en v")
      case (Inr m)
      obtain m' where "hash_manifest en ms m = Ret (if snd (new_annotations en ms (annos_of m)) then Some m' else None)"
        using hash_manifest_eq [OF laws] by blast
      moreover obtain v' where "en_Print en m' = Inr v'" using print_parse [OF laws] by blast
      ultimately show ?thesis using Some Inr Cons.IH by simp
    qed (use Some in auto)
  qed (use Cons.IH in simp)
qed auto

lemma apply_hashes_right:
  assumes laws: "yaml_laws en" and ord: "\<forall>i. iteration_order (ord i)" and a: "apply_hashes en ord i ms = Some r"
  shows "\<exists>ms'. r = Ret ms' \<and> ((\<forall>n v. map_of ms' n = Some v \<longrightarrow> hashes_right en ms' v) \<or>
    (\<exists>n v err. map_of ms' n = Some v \<and> en_Parse en v = Inl err))"
proof (rule apply_hashes.raw_induct [where P = "\<lambda>en ord i ms r. yaml_laws en \<longrightarrow> (\<forall>i. iteration_order (ord i)) \<longrightarrow>
    (\<exists>ms'. r = Ret ms' \<and> ((\<forall>n v. map_of ms' n = Some v \<longrightarrow> hashes_right en ms' v) \<or>
      (\<exists>n v err. map_of ms' n = Some v \<and> en_Parse en v = Inl err)))", OF _ a, THEN mp, THEN mp])
  fix W :: "'a engine \<Rightarrow> (nat \<Rightarrow> string list \<Rightarrow> string list) \<Rightarrow> nat \<Rightarrow> manifests \<Rightarrow> manifests go option"
  fix en ord i ms r
  let ?P = "\<lambda>en (r :: manifests go). \<exists>ms'. r = Ret ms' \<and> ((\<forall>n v. map_of ms' n = Some v \<longrightarrow> hashes_right en ms' v) \<or>
      (\<exists>n v err. map_of ms' n = Some v \<and> en_Parse en v = Inl err))"
  assume IH: "\<And>en ord i ms r. W en ord i ms = Some r \<Longrightarrow> yaml_laws en \<longrightarrow> (\<forall>i. iteration_order (ord i)) \<longrightarrow> ?P en r"
    and eq: "(case hash_pass en (ord i (map fst ms)) ms False of
        Panic \<Rightarrow> Some Panic
      | Ret (ms', md, stop) \<Rightarrow>
          if stop then Some (Ret ms') else if md then W en ord (Suc i) ms' else Some (Ret ms')) = Some r"
  show "yaml_laws en \<longrightarrow> (\<forall>i. iteration_order (ord i)) \<longrightarrow> ?P en r"
  proof (intro impI)
    assume laws: "yaml_laws en" and ord: "\<forall>i. iteration_order (ord i)"
    obtain ms' md stop where p: "hash_pass en (ord i (map fst ms)) ms False = Ret (ms', md, stop)"
      using hash_pass_Ret [OF laws] by (metis prod_cases3)
    consider "stop" | "\<not> stop" "md" | "\<not> stop" "\<not> md" by blast
    then show "?P en r"
    proof cases
      case 1
      with eq p hash_pass_stop [OF laws, of "ord i (map fst ms)" ms False ms' md] show ?thesis by auto
    next
      case 2
      with eq p have "W en ord (Suc i) ms' = Some r" by simp
      from IH [OF this] laws ord show ?thesis by blast
    next
      case 3
      with p have "hash_pass en (ord i (map fst ms)) ms False = Ret (ms', False, False)" by simp
      note u = conjunct1 [OF hash_pass_unchanged [OF laws this]] conjunct2 [OF hash_pass_unchanged [OF laws this]]
      have "n \<in> set (ord i (map fst ms))" if "map_of ms n = Some v" for n v
        using map_of_SomeD [OF that] ord by force
      moreover from eq p 3 u(1) have "r = Ret ms" by simp
      ultimately show ?thesis using u(2) by blast
    qed
  qed
qed (use laws ord in auto)

section \<open>Termination\<close>

text \<open>
  A ranking of the manifests in which every manifest lies above those its hash annotations refer
  to, that is, the references are acyclic.
\<close>

definition hash_ranked :: "'c engine \<Rightarrow> (string \<Rightarrow> nat) \<Rightarrow> manifests \<Rightarrow> bool" where
  "hash_ranked en rank ms \<longleftrightarrow> (\<forall>n v m ref. map_of ms n = Some v \<longrightarrow> en_Parse en v = Inr m \<longrightarrow> ref \<in> refs_of m \<longrightarrow>
     ref \<in> keys_of ms \<longrightarrow> rank ref < rank n)"

definition hash_stable :: "'c engine \<Rightarrow> manifests \<Rightarrow> string \<Rightarrow> bool" where
  "hash_stable en ms n \<longleftrightarrow> (\<forall>v m. map_of ms n = Some v \<longrightarrow> en_Parse en v = Inr m \<longrightarrow> \<not> snd (new_annotations en ms (annos_of m)))"

lemma new_annotation_cong:
  "(\<And>ref. hash_key k = Some ref \<Longrightarrow> map_of ms ref = map_of ms' ref) \<Longrightarrow>
   new_annotation en ms (k, cur) = new_annotation en ms' (k, cur)"
  by (auto simp: new_annotation_def split: option.splits)

lemma new_annotations_cong:
  assumes "\<And>ref. ref \<in> refs_of m \<Longrightarrow> map_of ms ref = map_of ms' ref"
  shows "new_annotations en ms (annos_of m) = new_annotations en ms' (annos_of m)"
proof -
  have "new_annotation en ms a = new_annotation en ms' a" if "a \<in> set (annos_of m)" for a
  proof -
    obtain k cur where a: "a = (k, cur)" by (rule prod.exhaust)
    show ?thesis unfolding a
    proof (rule new_annotation_cong)
      fix ref
      assume "hash_key k = Some ref"
      with that a have "ref \<in> refs_of m" unfolding refs_of_def by blast
      then show "map_of ms ref = map_of ms' ref" by (rule assms)
    qed
  qed
  then show ?thesis by (auto simp: new_annotations_def list_ex_iff intro!: arg_cong [of _ _ concat])
qed

lemma new_annotations_refs:
  "annos_of m' = fst (new_annotations en ms (annos_of m)) \<Longrightarrow> refs_of m' \<subseteq> refs_of m"
  by (auto simp: refs_of_def new_annotations_def new_annotation_def Let_def split: option.splits if_splits; force)

lemma new_annotations_idem: "\<not> snd (new_annotations en ms (fst (new_annotations en ms annos)))"
  by (auto simp: new_annotations_def new_annotation_def list_ex_iff Let_def split: option.splits if_splits)

text \<open>
  One manifest is treated: the ranking is kept, the manifests below its rank are untouched and
  stay stable, and it is stable itself afterwards if everything below it was.
\<close>

lemma stable_cong:
  assumes "map_of ms n = map_of ms' n"
    and "\<And>v m ref. map_of ms n = Some v \<Longrightarrow> en_Parse en v = Inr m \<Longrightarrow> ref \<in> refs_of m \<Longrightarrow> map_of ms ref = map_of ms' ref"
  shows "hash_stable en ms n \<longleftrightarrow> hash_stable en ms' n"
proof -
  have "new_annotations en ms (annos_of m) = new_annotations en ms' (annos_of m)"
    if "map_of ms n = Some v" "en_Parse en v = Inr m" for v m
    using assms(2) [OF that] by (rule new_annotations_cong)
  then show ?thesis unfolding hash_stable_def assms(1) [symmetric] by metis
qed

lemma ref_other:
  assumes "hash_ranked en rank ms" "map_of ms k = Some w" "en_Parse en w = Inr mk" "ref \<in> refs_of mk"
    and "n \<in> keys_of ms" "rank k \<le> rank n"
  shows "ref \<noteq> n"
  using assms unfolding hash_ranked_def by fastforce

lemma treat_stable:
  assumes laws: "yaml_laws en" and rk: "hash_ranked en rank ms" and n: "map_of ms n = Some v" "en_Parse en v = Inr m"
    and m': "annos_of m' = fst (new_annotations en ms (annos_of m))" "en_Parse en v' = Inr m'"
  shows "hash_ranked en rank (AList.update n v' ms)"
    and "hash_stable en (AList.update n v' ms) n"
    and "k \<noteq> n \<Longrightarrow> rank k \<le> rank n \<Longrightarrow> hash_stable en (AList.update n v' ms) k \<longleftrightarrow> hash_stable en ms k"
proof -
  let ?ms = "AList.update n v' ms"
  have nk: "n \<in> keys_of ms" using n(1) by (auto simp: keys_of_def)
  have sub: "refs_of m' \<subseteq> refs_of m" using new_annotations_refs [OF m'(1)] .
  have look: "map_of ?ms k = (if k = n then Some v' else map_of ms k)" for k by (simp add: update_conv')
  show "hash_ranked en rank ?ms"
    unfolding hash_ranked_def
  proof (intro allI impI)
    fix k w mk ref
    assume k: "map_of ?ms k = Some w" "en_Parse en w = Inr mk" "ref \<in> refs_of mk" "ref \<in> keys_of ?ms"
    have "ref \<in> keys_of ms" using k(4) nk by auto
    show "rank ref < rank k"
    proof (cases "k = n")
      case True
      with k m'(2) look have "mk = m'" by simp
      with k(3) sub have "ref \<in> refs_of m" by blast
      with rk n \<open>ref \<in> keys_of ms\<close> True show ?thesis unfolding hash_ranked_def by blast
    next
      case False
      with k look rk \<open>ref \<in> keys_of ms\<close> show ?thesis unfolding hash_ranked_def by (metis (full_types))
    qed
  qed
  have "new_annotations en ?ms (annos_of m') = new_annotations en ms (annos_of m')"
  proof (rule new_annotations_cong)
    fix ref
    assume "ref \<in> refs_of m'"
    with sub have "ref \<in> refs_of m" by blast
    from ref_other [OF rk n this nk] look show "map_of ?ms ref = map_of ms ref" by simp
  qed
  then have "\<not> snd (new_annotations en ?ms (annos_of m'))"
    using new_annotations_idem [of en ms "annos_of m"] m'(1) by simp
  then show "hash_stable en ?ms n" unfolding hash_stable_def by (simp add: look m'(2))
  assume k: "k \<noteq> n" "rank k \<le> rank n"
  then have lk: "map_of ms k = map_of ?ms k" by (simp add: look)
  have "hash_stable en ms k \<longleftrightarrow> hash_stable en ?ms k"
  proof (rule stable_cong [OF lk])
    fix w mk ref
    assume "map_of ms k = Some w" "en_Parse en w = Inr mk" "ref \<in> refs_of mk"
    from ref_other [OF rk this nk k(2)] show "map_of ms ref = map_of ?ms ref" by (simp add: look)
  qed
  then show "hash_stable en ?ms k \<longleftrightarrow> hash_stable en ms k" by blast
qed

text \<open>
  A pass without error: if everything below a rank is stable before, everything up to it that
  the pass visits is stable afterwards, and nothing changes once all is stable.
\<close>

lemma hash_pass_stable:
  assumes laws: "yaml_laws en"
  shows "hash_pass en ns ms md = Ret (ms', md', False) \<Longrightarrow> hash_ranked en rank ms \<Longrightarrow>
    (\<And>k. rank k < r \<Longrightarrow> hash_stable en ms k) \<Longrightarrow> (\<And>k. k \<in> S \<Longrightarrow> rank k = r \<and> hash_stable en ms k) \<Longrightarrow>
    hash_ranked en rank ms' \<and> (\<forall>k. rank k < r \<or> k \<in> S \<or> k \<in> set ns \<and> rank k = r \<longrightarrow> hash_stable en ms' k)"
proof (induction ns arbitrary: ms md S)
  case (Cons n ns)
  let ?S = "if rank n = r then insert n S else S"
  have goal: "\<forall>k. rank k < r \<or> k \<in> ?S \<or> k \<in> set ns \<and> rank k = r \<longrightarrow> hash_stable en ms' k \<Longrightarrow>
      \<forall>k. rank k < r \<or> k \<in> S \<or> k \<in> set (n # ns) \<and> rank k = r \<longrightarrow> hash_stable en ms' k" by auto
  from Cons.prems(1) show ?case
  proof (cases rule: hash_pass_cases)
    case 1
    have "hash_stable en ms n"
      unfolding hash_stable_def
    proof (intro allI impI)
      fix v m
      assume v: "map_of ms n = Some v" "en_Parse en v = Inr m"
      with 1(2) [OF v(1)] have "hash_manifest en ms m = Ret None" by simp
      then show "\<not> snd (new_annotations en ms (annos_of m))"
        using hash_manifest_eq [OF laws, of ms m] by (auto split: if_splits)
    qed
    then have S: "k \<in> ?S \<Longrightarrow> rank k = r \<and> hash_stable en ms k" for k
      using Cons.prems(4) [of k] by (auto split: if_splits)
    from Cons.IH [OF 1(1) Cons.prems(2,3) S] goal show ?thesis by blast
  next
    case (2 v m m' v')
    obtain m1 where m1: "hash_manifest en ms m = Ret (if snd (new_annotations en ms (annos_of m)) then Some m1 else None)"
      "annos_of m1 = fst (new_annotations en ms (annos_of m))" using hash_manifest_eq [OF laws] by blast
    with 2(3) have m': "annos_of m' = fst (new_annotations en ms (annos_of m))" and ch: "snd (new_annotations en ms (annos_of m))"
      by (auto split: if_splits)
    have v': "en_Parse en v' = Inr m'" using print_parse [OF laws, of m'] 2(4) by auto
    note t = treat_stable [OF laws Cons.prems(2) 2(1,2) m' v']
    have "\<not> hash_stable en ms n" using 2(1,2) ch by (auto simp: hash_stable_def)
    with Cons.prems(3) have rn: "r \<le> rank n" by (meson not_le)
    have below: "hash_stable en (AList.update n v' ms) k" if "rank k < r" for k
      using t(3) [of k] that rn Cons.prems(3) [OF that] by (cases "k = n") auto
    have S: "rank k = r \<and> hash_stable en (AList.update n v' ms) k" if "k \<in> ?S" for k
    proof (cases "k = n")
      case True
      with that t(2) Cons.prems(4) [of n] show ?thesis by (auto split: if_splits)
    next
      case False
      with that have "k \<in> S" by (auto split: if_splits)
      with Cons.prems(4) t(3) [OF False] rn show ?thesis by auto
    qed
    from Cons.IH [OF 2(5) t(1) below S] goal show ?thesis by blast
  qed simp
qed auto

lemma hash_pass_all_stable:
  assumes laws: "yaml_laws en"
  shows "(\<And>k. hash_stable en ms k) \<Longrightarrow> hash_pass en ns ms md = Ret (ms', md', False) \<Longrightarrow> md' = md"
proof (induction ns)
  case (Cons n ns)
  from Cons.prems(2) show ?case
  proof (cases rule: hash_pass_cases)
    case (2 v m m' v')
    from Cons.prems(1) 2(1,2) have "\<not> snd (new_annotations en ms (annos_of m))" by (auto simp: hash_stable_def)
    with 2(3) hash_manifest_eq [OF laws, of ms m] show ?thesis by auto
  qed (use Cons in auto)
qed simp

lemma apply_hashes_returns:
  assumes laws: "yaml_laws en" and ord: "\<And>i. iteration_order (ord i)" and bound: "\<And>k. rank k < R"
  shows "hash_ranked en rank ms \<Longrightarrow> (\<And>k. rank k < r \<Longrightarrow> hash_stable en ms k) \<Longrightarrow>
    \<exists>ms'. apply_hashes en ord i ms = Some (Ret ms')"
proof (induction "R - r" arbitrary: r ms i rule: less_induct)
  case less
  obtain ms' md stop where p: "hash_pass en (ord i (map fst ms)) ms False = Ret (ms', md, stop)"
    using hash_pass_Ret [OF laws] by (metis prod_cases3)
  consider "stop" | "\<not> stop" "\<not> md" | "\<not> stop" "md" by blast
  then show ?case
  proof cases
    case 1
    with p show ?thesis by (subst apply_hashes.simps) simp
  next
    case 2
    with p show ?thesis by (subst apply_hashes.simps) simp
  next
    case 3
    have "r < R"
    proof (rule ccontr)
      assume "\<not> r < R"
      with bound less.prems(2) have "hash_stable en ms k" for k by (meson less_le_trans not_le)
      from hash_pass_all_stable [OF laws this] p 3 show False by auto
    qed
    have q: "hash_pass en (ord i (map fst ms)) ms False = Ret (ms', md, False)" using p 3 by simp
    from hash_pass_stable [OF laws q less.prems(1,2), where S = "{}"]
    have rk: "hash_ranked en rank ms'" and st: "\<forall>k. rank k < r \<or> k \<in> set (ord i (map fst ms)) \<and> rank k = r \<longrightarrow> hash_stable en ms' k"
      by auto
    have "hash_stable en ms' k" if k: "rank k < Suc r" for k
    proof (cases "k \<in> set (ord i (map fst ms))")
      case False
      with ord have "k \<notin> keys_of ms" by (simp add: keys_of_def dom_map_of_conv_image_fst)
      with hash_pass_keys [OF p] have "map_of ms' k = None" by (auto simp: keys_of_def)
      then show ?thesis by (simp add: hash_stable_def)
    qed (use st k in \<open>auto simp: less_Suc_eq\<close>)
    moreover have "R - Suc r < R - r" using \<open>r < R\<close> by simp
    ultimately obtain ms2 where "apply_hashes en ord (Suc i) ms' = Some (Ret ms2)"
      using less.hyps rk by blast
    with p 3 show ?thesis by (subst apply_hashes.simps) simp
  qed
qed

text \<open>A manifest that refers to itself, when no document contains its own hash.\<close>

definition self_ref :: "'c engine \<Rightarrow> string \<Rightarrow> string \<Rightarrow> bool" where
  "self_ref en n v \<longleftrightarrow> v \<noteq> [] \<and> (\<exists>m cur. en_Parse en v = Inr m \<and> annos_of m = [(''hashes.'' @ n, cur)])"

definition no_own_hash :: "'c engine \<Rightarrow> string \<Rightarrow> bool" where
  "no_own_hash en n \<longleftrightarrow> (\<forall>v m. en_Parse en v = Inr m \<longrightarrow> annos_of m \<noteq> [(''hashes.'' @ n, JStr (en_Hash en v))])"

definition prints_text :: "'c engine \<Rightarrow> bool" where
  "prints_text en \<longleftrightarrow> (\<forall>m v. en_Print en m = Inr v \<longrightarrow> v \<noteq> [])"

lemma hash_key_prefix [simp]: "hash_key (''hashes.'' @ n) = Some n"
proof -
  have p: "has_prefix (''hashes.'' @ n) ''hashes.''" by (rule has_prefix_append)
  show ?thesis unfolding hash_key_def using p by simp
qed

lemma self_pass:
  assumes laws: "yaml_laws en" and no: "no_own_hash en n" and pt: "prints_text en" and v: "self_ref en n v"
  shows "\<exists>v'. hash_pass en [n] [(n, v)] False = Ret ([(n, v')], True, False) \<and> self_ref en n v'"
proof -
  from v obtain m cur where m: "en_Parse en v = Inr m" "annos_of m = [(''hashes.'' @ n, cur)]" "v \<noteq> []"
    by (auto simp: self_ref_def)
  have ne: "JStr (en_Hash en v) \<noteq> cur" using no m(1,2) unfolding no_own_hash_def by metis
  have na: "new_annotations en [(n, v)] (annos_of m) = ([(''hashes.'' @ n, JStr (en_Hash en v))], True)"
    using ne m(3) unfolding m(2) new_annotations_def new_annotation_def by (simp del: append.simps)
  from hash_manifest_eq [OF laws, of "[(n, v)]" m] na obtain m' where
    m': "hash_manifest en [(n, v)] m = Ret (Some m')" "annos_of m' = [(''hashes.'' @ n, JStr (en_Hash en v))]" by auto
  obtain v' where v': "en_Print en m' = Inr v'" "en_Parse en v' = Inr m'" using print_parse [OF laws] by blast
  have "hash_pass en [n] [(n, v)] False = Ret ([(n, v')], True, False)" by (simp add: m(1) m'(1) v'(1))
  moreover have "self_ref en n v'" using v' m'(2) pt unfolding self_ref_def prints_text_def by blast
  ultimately show ?thesis by blast
qed

lemma self_diverges:
  assumes laws: "yaml_laws en" and no: "no_own_hash en n" and pt: "prints_text en" and v: "self_ref en n v"
    and ord: "\<forall>i. ord i [n] = [n]"
  shows "apply_hashes en ord i [(n, v)] = None"
proof (rule ccontr)
  assume "apply_hashes en ord i [(n, v)] \<noteq> None"
  then obtain r where r: "apply_hashes en ord i [(n, v)] = Some r" by blast
  have "yaml_laws en \<and> no_own_hash en n \<and> prints_text en \<and> (\<forall>i. ord i [n] = [n]) \<longrightarrow>
      (\<forall>v'. [(n, v)] = [(n, v')] \<longrightarrow> self_ref en n v' \<longrightarrow> False)"
  proof (rule apply_hashes.raw_induct [where P = "\<lambda>en ord i ms r.
      yaml_laws en \<and> no_own_hash en n \<and> prints_text en \<and> (\<forall>i. ord i [n] = [n]) \<longrightarrow>
      (\<forall>v'. ms = [(n, v')] \<longrightarrow> self_ref en n v' \<longrightarrow> False)", OF _ r])
    fix W :: "'a engine \<Rightarrow> (nat \<Rightarrow> string list \<Rightarrow> string list) \<Rightarrow> nat \<Rightarrow> manifests \<Rightarrow> manifests go option"
    fix en ord i ms r
    assume IH: "\<And>en ord i ms r. W en ord i ms = Some r \<Longrightarrow>
        yaml_laws en \<and> no_own_hash en n \<and> prints_text en \<and> (\<forall>i. ord i [n] = [n]) \<longrightarrow>
        (\<forall>v'. ms = [(n, v')] \<longrightarrow> self_ref en n v' \<longrightarrow> False)"
      and eq: "(case hash_pass en (ord i (map fst ms)) ms False of
        Panic \<Rightarrow> Some Panic
      | Ret (ms', md, stop) \<Rightarrow>
          if stop then Some (Ret ms') else if md then W en ord (Suc i) ms' else Some (Ret ms')) = Some r"
    show "yaml_laws en \<and> no_own_hash en n \<and> prints_text en \<and> (\<forall>i. ord i [n] = [n]) \<longrightarrow>
        (\<forall>v'. ms = [(n, v')] \<longrightarrow> self_ref en n v' \<longrightarrow> False)"
    proof (intro impI allI)
      fix v'
      assume h: "yaml_laws en \<and> no_own_hash en n \<and> prints_text en \<and> (\<forall>i. ord i [n] = [n])"
        and ms: "ms = [(n, v')]" and s: "self_ref en n v'"
      from self_pass [of en n v'] h s obtain v2 where
        v2: "hash_pass en [n] [(n, v')] False = Ret ([(n, v2)], True, False)" "self_ref en n v2" by blast
      have o: "ord i [n] = [n]" using h by blast
      have "hash_pass en (ord i (map fst ms)) ms False = Ret ([(n, v2)], True, False)"
        unfolding ms using v2(1) o by simp
      with eq have "W en ord (Suc i) [(n, v2)] = Some r" by simp
      from IH [OF this] h v2(2) show False by blast
    qed
  qed
  with assms show False by blast
qed

section \<open>An instance of the engine\<close>

text \<open>
  Maps are countable, so printing can write the number of the map in unary. A source is the name
  of one of two kinds of documents; the hash of a text differs from the annotation of the
  document the text is.
\<close>

instance json :: countable by countable_datatype

definition ref_hash :: "string \<Rightarrow> string" where
  "ref_hash v = (if snd ` set (annos_of (from_nat (length v - 1))) = {JStr ''a''} then ''b'' else ''a'')"

definition ref_node :: "string \<Rightarrow> ynode" where
  "ref_node data = YMap [(''kind'', YStr data),
     (''metadata'', YMap [(''labels'', YMap [(''target'', YStr (if data = ''Deployment'' then ''runtime'' else ''dataplane''))])])]"

definition ref_engine :: "unit engine" where
  "ref_engine = \<lparr>en_New = (\<lambda>_. Inr ()), en_Unmarshal = (\<lambda>_ k data. Inr (ref_node data)), en_Cascade = (\<lambda>_ n. Inr n),
     en_Marshal = (\<lambda>_ n. Inr ''x''),
     en_Parse = (\<lambda>v. Inr (from_nat (length v - 1))),
     en_Print = (\<lambda>m. Inr (replicate (Suc (to_nat m)) CHR ''x'')),
     en_Cast = (\<lambda>j. Ret (case j of Some (JMap m) \<Rightarrow> Some m | _ \<Rightarrow> None)),
     en_Hash = ref_hash\<rparr>"

definition printed :: "json_map \<Rightarrow> string" where
  "printed m = replicate (Suc (to_nat m)) CHR ''x''"

lemma ref_engine_parse [simp]: "en_Parse ref_engine (printed m) = Inr m"
  by (simp add: ref_engine_def printed_def)

lemma ref_yaml_laws: "yaml_laws ref_engine"
  by (simp add: yaml_laws_def ref_engine_def)

lemma ref_prints_text: "prints_text ref_engine"
  by (auto simp: prints_text_def ref_engine_def)

lemma ref_no_own_hash: "no_own_hash ref_engine n"
  by (auto simp: no_own_hash_def ref_engine_def ref_hash_def)

definition annotated :: "json_map \<Rightarrow> json_map" where
  "annotated annos = [(''metadata'', JMap [(''annotations'', JMap annos)])]"

lemma annos_of_annotated [simp]: "annos_of (annotated a) = a"
  by (simp add: annos_of_def annotated_def)

abbreviation id_order :: "nat \<Rightarrow> string list \<Rightarrow> string list" where
  "id_order \<equiv> \<lambda>_ xs. xs"

section \<open>Properties\<close>

text \<open>C25: rendering splits the documents of the manifests by their target, whatever the
  orders of the maps: the data plane gets exactly the documents with a kind that are not
  labelled for the runtime, the runtime exactly those that are. The text of a document of the
  data plane is the printed document of this name; that of a runtime document, too, up to the
  hash annotations filled in, so it is the printed document if that has none.\<close>

theorem Render_split:
  assumes "iteration_order (ro_manifests ro)" "iteration_order (ro_documents ro)"
    and "en_New en values = Inr ctx"
    and "Render en ro manifests values = Some (Ret (Inr (dataplane, runtime)))"
  shows "keys_of dataplane = {n. \<exists>d. document en ctx manifests n d \<and> has_kind d \<and> \<not> labelled_runtime d} \<and>
    keys_of runtime = {n. \<exists>d. document en ctx manifests n d \<and> labelled_runtime d} \<and>
    (\<forall>n t. map_of dataplane n = Some t \<longrightarrow>
      (\<exists>d. document en ctx manifests n d \<and> has_kind d \<and> \<not> labelled_runtime d \<and> en_Marshal en ctx d = Inr t)) \<and>
    (\<forall>n t. map_of runtime n = Some t \<longrightarrow>
      (\<exists>d t0. document en ctx manifests n d \<and> labelled_runtime d \<and> en_Marshal en ctx d = Inr t0 \<and>
        (rehashed en)\<^sup>*\<^sup>* t0 t))"
proof -
  from Render_filed [OF assms] obtain rt where
    d: "filed en ctx {(n, d). document en ctx manifests n d \<and> for_dataplane d} [] dataplane"
    and r: "filed en ctx {(n, d). document en ctx manifests n d \<and> labelled_runtime d} [] rt"
    and k: "keys_of runtime = keys_of rt"
    and t: "\<And>n t'. map_of runtime n = Some t' \<Longrightarrow> \<exists>t. map_of rt n = Some t \<and> (rehashed en)\<^sup>*\<^sup>* t t'" by blast
  have f: "fst ` {(n, d). document en ctx manifests n d \<and> P d} = {n. \<exists>d. document en ctx manifests n d \<and> P d}" for P
    by force
  show ?thesis
  proof (intro conjI)
    show "\<forall>n t. map_of runtime n = Some t \<longrightarrow> (\<exists>d t0. document en ctx manifests n d \<and> labelled_runtime d \<and>
        en_Marshal en ctx d = Inr t0 \<and> (rehashed en)\<^sup>*\<^sup>* t0 t)"
      using r t unfolding filed_def by fastforce
  qed (use d r k in \<open>auto simp: filed_def for_dataplane_def f\<close>)
qed

definition id_orders :: render_order where
  "id_orders = \<lparr>ro_manifests = (\<lambda>x. x), ro_documents = (\<lambda>x. x), ro_passes = id_order\<rparr>"

definition eager_engine :: "unit engine" where
  "eager_engine = ref_engine\<lparr>en_Parse := \<lambda>v. Inr []\<rparr>"

text \<open>A source may also be a list of two documents, printed as their kind.\<close>

definition split_engine :: "unit engine" where
  "split_engine = eager_engine\<lparr>
     en_Unmarshal := (\<lambda>_ k data. Inr (if data = ''List''
       then YMap [(''manifests'', YList [ref_node ''Service'', ref_node ''Deployment''])] else ref_node data)),
     en_Marshal := (\<lambda>_ n. Inr (case n of YMap ((_, YStr s) # _) \<Rightarrow> s | _ \<Rightarrow> []))\<rparr>"

theorem Render_split_witness:
  "let ms = [(''l'', ''List''), (''c'', ''ConfigMap'')] in
   \<exists>dp rt. Render split_engine id_orders ms None = Some (Ret (Inr (dp, rt))) \<and>
     map_of dp ''l::0'' = Some ''Service'' \<and> map_of dp ''c'' = Some ''ConfigMap'' \<and>
     keys_of rt = {n. \<exists>d. document split_engine () ms n d \<and> labelled_runtime d} \<and>
     (\<exists>d. document split_engine () ms ''l::1'' d \<and> labelled_runtime d) \<and>
     (\<exists>d. document split_engine () ms ''c'' d \<and> has_kind d \<and> \<not> labelled_runtime d \<and>
        en_Marshal split_engine () d = Inr ''ConfigMap'')"
proof -
  let ?ms = "[(''l'', ''List''), (''c'', ''ConfigMap'')]"
  let ?dp = "[(''l::0'', ''Service''), (''c'', ''ConfigMap'')]" and ?rt = "[(''l::1'', ''Deployment'')]"
  have r: "Render split_engine id_orders ?ms None = Some (Ret (Inr (?dp, ?rt)))" by code_simp
  have new: "en_New split_engine None = Inr ()" by code_simp
  have "iteration_order (ro_manifests id_orders)" "iteration_order (ro_documents id_orders)"
    by (simp_all add: id_orders_def iteration_order_id)
  note s = Render_split [OF this new r]
  have k: "''l::1'' \<in> keys_of ?rt" by (simp add: keys_of_def)
  have dp: "map_of ?dp ''l::0'' = Some ''Service''" "map_of ?dp ''c'' = Some ''ConfigMap''" by simp_all
  from s k have "\<exists>d. document split_engine () ?ms ''l::1'' d \<and> labelled_runtime d" by blast
  moreover from s dp(2) have "\<exists>d. document split_engine () ?ms ''c'' d \<and> has_kind d \<and> \<not> labelled_runtime d \<and>
      en_Marshal split_engine () d = Inr ''ConfigMap''" by blast
  ultimately show ?thesis
    unfolding Let_def using r s dp by (intro exI [of _ ?dp] exI [of _ ?rt] conjI) blast+
qed

text \<open>C20: when the passes over the runtime documents end, every hash annotation of every document
  names a document of the runtime and carries the hash of its final text, unless a document
  could not be parsed; references to documents that do not exist are gone.\<close>

theorem apply_hashes_fixpoint:
  assumes "yaml_laws en" "\<forall>i. iteration_order (ord i)" "apply_hashes en ord i ms = Some r"
  shows "\<exists>ms'. r = Ret ms' \<and> ((\<forall>n v. map_of ms' n = Some v \<longrightarrow> hashes_right en ms' v) \<or>
    (\<exists>n v err. map_of ms' n = Some v \<and> en_Parse en v = Inl err))"
  using assms by (rule apply_hashes_right)

text \<open>C19: the passes end for acyclic references: if the documents can be ranked so that each lies
  above those its hash annotations refer to, the loop returns, whatever the orders of the map.\<close>

theorem apply_hashes_terminates:
  assumes "yaml_laws en" "\<And>i. iteration_order (ord i)" "\<And>k. rank k < R" "hash_ranked en rank ms"
  shows "\<exists>ms'. apply_hashes en ord i ms = Some (Ret ms')"
  using apply_hashes_returns [OF assms, of 0] by simp

definition two_docs :: manifests where
  "two_docs = [(''deploy'', printed (annotated [(''hashes.config'', JStr []), (''hashes.gone'', JStr [])])),
     (''config'', printed (annotated []))]"

lemma two_docs_ranked: "hash_ranked ref_engine (\<lambda>k. if k = ''deploy'' then 1 else 0) two_docs"
proof -
  have "hash_key ''hashes.config'' = Some ''config''" "hash_key ''hashes.gone'' = Some ''gone''" by code_simp+
  then show ?thesis by (auto simp: hash_ranked_def two_docs_def refs_of_def split: if_splits)
qed

theorem apply_hashes_terminates_witness:
  "\<exists>ms'. apply_hashes ref_engine id_order 0 two_docs = Some (Ret ms')"
  by (rule apply_hashes_terminates [OF ref_yaml_laws iteration_order_id, of "\<lambda>k. if k = ''deploy'' then 1 else 0" 2])
    (use two_docs_ranked in simp_all)

theorem apply_hashes_fixpoint_witness:
  "\<exists>ms'. apply_hashes ref_engine id_order 0 two_docs = Some (Ret ms') \<and>
     ((\<forall>n v. map_of ms' n = Some v \<longrightarrow> hashes_right ref_engine ms' v) \<or>
      (\<exists>n v err. map_of ms' n = Some v \<and> en_Parse ref_engine v = Inl err))"
proof -
  have "(if k = ''deploy'' then 1 else 0) < (2 :: nat)" for k by simp
  from apply_hashes_returns [OF ref_yaml_laws iteration_order_id this two_docs_ranked, of 0 0]
  obtain ms' where r: "apply_hashes ref_engine id_order 0 two_docs = Some (Ret ms')" by auto
  have "\<forall>i. iteration_order (id_order i)" by (simp add: iteration_order_id)
  from apply_hashes_fixpoint [OF ref_yaml_laws this r] r show ?thesis by auto
qed

text \<open>The loop does not end for a document that refers to its own hash, as no document
  contains its own hash.\<close>

theorem apply_hashes_self_diverges:
  assumes "yaml_laws en" "no_own_hash en n" "prints_text en" "self_ref en n v" "\<forall>i. ord i [n] = [n]"
  shows "apply_hashes en ord i [(n, v)] = None"
  using assms by (rule self_diverges)

theorem apply_hashes_self_diverges_witness:
  "apply_hashes ref_engine id_order 0 [(''cm'', printed (annotated [(''hashes.cm'', JStr [])]))] = None"
proof -
  have "printed m \<noteq> []" for m by (simp add: printed_def)
  moreover have "annos_of (annotated [(''hashes.cm'', JStr [])]) = [(''hashes.'' @ ''cm'', JStr [])]"
    unfolding annos_of_annotated by simp
  ultimately have "self_ref ref_engine ''cm'' (printed (annotated [(''hashes.cm'', JStr [])]))"
    unfolding self_ref_def using ref_engine_parse by blast
  then show ?thesis by (rule apply_hashes_self_diverges [OF ref_yaml_laws ref_no_own_hash ref_prints_text]) simp
qed

end
