(* ===== verification/Direct_DNS.thy ===== *)
theory Direct_DNS
  imports Direct_Modes Render
begin

text \<open>
  The DNS modes of the data plane controller (internal/controller/direct/hostedzone, dns.go,
  dns-loadbalancer.go, dns-gardener.go, dns-kubedns.go), which provide the names under which the
  name server of a zone is reached, the embedded manifests (assets.go, assets_kubedns.go), and
  the validation of the options (options.go). The interface \<open>DNSHandler\<close> has three
  implementations, the constructors of \<open>dns_handler\<close>.
\<close>

section \<open>Embedded manifests\<close>

text \<open>The embedded file system: the entries of a directory with their kind, and the files.\<close>

record embed_fs =
  fs_ReadDir :: "string \<Rightarrow> go_error + (string \<times> bool) list"
  fs_ReadFile :: "string \<Rightarrow> go_error + string"

definition manifestsDir :: string where "manifestsDir = ''assets/manifests''"
definition kubeDNSDir :: string where "kubeDNSDir = ''assets/dns/kubedns''"

fun read_entries :: "embed_fs \<Rightarrow> string \<Rightarrow> (string \<times> bool) list \<Rightarrow> manifests \<Rightarrow> go_error + manifests" where
  "read_entries fs dir [] ms = Inr ms"
| "read_entries fs dir ((name, is_dir) # es) ms =
     (if \<not> is_dir \<and> (has_suffix name ''.yaml'' \<or> has_suffix name ''.yml'') then
        (case fs_ReadFile fs (dir @ ''/'' @ name) of
           Inl err \<Rightarrow> Inl err
         | Inr data \<Rightarrow> read_entries fs dir es (AList.update name data ms))
      else read_entries fs dir es ms)"

definition GetManifests :: "embed_fs \<Rightarrow> go_error + manifests" where
  "GetManifests fs =
     (case fs_ReadDir fs manifestsDir of Inl err \<Rightarrow> Inl err | Inr entries \<Rightarrow> read_entries fs manifestsDir entries [])"

definition GetKubeDNSManifests :: "embed_fs \<Rightarrow> go_error + manifests" where
  "GetKubeDNSManifests fs =
     (case fs_ReadDir fs kubeDNSDir of Inl err \<Rightarrow> Inl err | Inr entries \<Rightarrow> read_entries fs kubeDNSDir entries [])"

section \<open>Addresses\<close>

text \<open>\<open>net.IP.String\<close>: dotted decimal, or hexadecimal groups with the first longest run of zeros cut out.\<close>

definition hex4 :: "int \<Rightarrow> string" where
  "hex4 v = (let ds = map (\<lambda>i. nat (v div 16 ^ i mod 16)) [3, 2, 1, 0]
    in map hex_digit (case dropWhile (\<lambda>d. d = 0) ds of [] \<Rightarrow> [0] | d # r \<Rightarrow> d # r))"

fun groups :: "int list \<Rightarrow> int list" where
  "groups (a # b # r) = (a * 256 + b) # groups r"
| "groups _ = []"

definition zero_run :: "int list \<Rightarrow> nat \<Rightarrow> nat" where
  "zero_run gs i = length (takeWhile (\<lambda>g. g = 0) (drop i gs))"

definition best_run :: "int list \<Rightarrow> (nat \<times> nat) option" where
  "best_run gs = foldl (\<lambda>b i. if zero_run gs i > 1 \<and> (case b of None \<Rightarrow> True | Some (_, l) \<Rightarrow> zero_run gs i > l)
     then Some (i, zero_run gs i) else b) None [0..<length gs]"

definition IP_String :: "int list \<Rightarrow> string" where
  "IP_String ip =
     (if length ip = 0 then ''<nil>''
      else if length ip \<noteq> 4 \<and> length ip \<noteq> 16 then ''?'' @ concat (map (\<lambda>b. [hex_digit (nat (b div 16)), hex_digit (nat (b mod 16))]) ip)
      else case (if length ip = 4 then Some ip else To4 ip) of
             Some v4 \<Rightarrow> str_join ''.'' (map (\<lambda>b. show_nat (nat b)) v4)
           | None \<Rightarrow>
               (let gs = groups ip
                in case best_run gs of
                     None \<Rightarrow> str_join '':'' (map hex4 gs)
                   | Some (i, l) \<Rightarrow> str_join '':'' (map hex4 (take i gs)) @ ''::'' @ str_join '':'' (map hex4 (drop (i + l) gs))))"

section \<open>Handlers\<close>

datatype dns_handler =
  DnsLoadbalancer
| DnsGardener (dg_domain: string) (dg_class: string)
| DnsKubedns (dk_domain: string) (dk_class: string) (dk_namespace: string)

definition NewDNSByLoadBalancer :: "direct_options \<Rightarrow> go_error + dns_handler" where
  "NewDNSByLoadBalancer opts = Inr DnsLoadbalancer"

definition NewDNSByGardener :: "direct_options \<Rightarrow> go_error + dns_handler" where
  "NewDNSByGardener opts =
     (let class' = (if do_DNSClass opts = [] then ''garden'' else do_DNSClass opts)
      in if do_DNSDomain opts = [] then Inl (Errorf ''DNS domain required'')
         else Inr (DnsGardener (do_DNSDomain opts) class'))"

definition NewDNSByKubedns :: "direct_options \<Rightarrow> go_error + dns_handler" where
  "NewDNSByKubedns opts =
     (if do_DNSDomain opts = [] then Inl (Errorf ''DNS domain required'')
      else if do_DNSClass opts = [] then Inl (Errorf ''DNS class required'')
      else if do_DNSNamespace opts = [] then Inl (Errorf ''DNS namespace required'')
      else Inr (DnsKubedns (do_DNSDomain opts) (do_DNSClass opts) (do_DNSNamespace opts)))"

text \<open>The registry with the three registrations; \<open>unknown\<close> is the registry's error for other names.\<close>

definition DNSModes :: "(string \<times> (direct_options \<Rightarrow> go_error + dns_handler)) list" where
  "DNSModes = [(''loadbalancer'', NewDNSByLoadBalancer), (''gardener'', NewDNSByGardener), (''kubedns'', NewDNSByKubedns)]"

definition dns_Create :: "(string \<Rightarrow> go_error) \<Rightarrow> string \<Rightarrow> direct_options \<Rightarrow> go_error + dns_handler" where
  "dns_Create unknown name opts = (case map_of DNSModes name of None \<Rightarrow> Inl (unknown name) | Some f \<Rightarrow> f opts)"

record dns_context =
  dx_Key :: object_key
  dx_Service :: "service option"
  dx_Delete :: bool

text \<open>Both handlers with a domain compute the one name the same way and never fail.\<close>

definition getCNames :: "string \<Rightarrow> object_key \<Rightarrow> string list" where
  "getCNames domain key = [ok_Name key @ ''.'' @ ok_Namespace key @ ''.'' @ domain]"

definition getEntryName :: "object_key \<Rightarrow> string" where
  "getEntryName key = ok_Namespace key @ ''-'' @ ok_Name key"

definition isResolvable :: "'w api \<Rightarrow> 'w \<Rightarrow> string \<Rightarrow> bool" where
  "isResolvable A w domain = (case a_LookupHost A w domain of Inl err \<Rightarrow> False | Inr ips \<Rightarrow> length ips > 0)"

subsection \<open>Modify\<close>

definition dummy_Modify :: modifier where
  [simp]: "dummy_Modify = (\<lambda>(gvk, obj). Inr obj)"

definition gardener_Modify :: "string \<Rightarrow> string \<Rightarrow> dns_context \<Rightarrow> modifier" where
  [simp]: "gardener_Modify domain dclass ctx = (\<lambda>(gvk, obj).
     if or_Kind gvk \<noteq> ''Service'' then Inr obj
      else if or_Group gvk \<noteq> [] then Inr obj
      else Inr (set_annotation ''dns.gardener.cloud/ttl'' ''60''
             (set_annotation ''dns.gardener.cloud/class'' dclass
             (set_annotation ''dns.gardener.cloud/dnsnames'' (str_join '','' (getCNames domain (dx_Key ctx))) obj))))"

fun dns_Modify :: "dns_handler \<Rightarrow> dns_context \<Rightarrow> modifier" where
  "dns_Modify DnsLoadbalancer ctx = dummy_Modify"
| "dns_Modify (DnsGardener domain dclass) ctx = gardener_Modify domain dclass ctx"
| "dns_Modify (DnsKubedns domain dclass ns) ctx = dummy_Modify"

subsection \<open>Manifests\<close>

type_synonym 'p manifests_result = "manifests \<times> manifests \<times> 'p option"

definition dns_values :: "string \<Rightarrow> string \<Rightarrow> string \<Rightarrow> object_key \<Rightarrow> int list list \<Rightarrow> string list \<Rightarrow> json_map" where
  "dns_values domain dclass ns key ips cnames =
     [(''name'', JStr (getEntryName key)), (''namespace'', JStr ns),
      (''dnsnames'', JList (map JStr (getCNames domain key)))] @
     (if dclass \<noteq> [] then [(''class'', JStr dclass)] else []) @
     (if length ips > 0 then [(''ips'', JList (map (\<lambda>ip. JStr (IP_String ip)) ips))] else []) @
     (case cnames of [] \<Rightarrow> [] | c # _ \<Rightarrow> [(''cname'', JStr c)])"

text \<open>
  The load balancer of a missing service panics, and so does a missing map of values, which is
  cloned and written to.
\<close>

definition kubedns_render ::
    "'p ext \<Rightarrow> 'c engine \<Rightarrow> render_order \<Rightarrow> embed_fs \<Rightarrow> string \<Rightarrow> string \<Rightarrow> string \<Rightarrow> dns_context \<Rightarrow> json_map option
     \<Rightarrow> int list list \<Rightarrow> string list \<Rightarrow> 'p manifests_result go option" where
  "kubedns_render E en ro fs domain dclass ns ctx values ips cnames =
     (let finish = (\<lambda>manifests. case values of
            None \<Rightarrow> Some Panic
          | Some v \<Rightarrow>
              map_option (\<lambda>r. go_bind r (\<lambda>r. Ret (case r of
                  Inl err \<Rightarrow> ([], [], Some (x_Failedf E (''cannot get dns manifests: '' @ Error err)))
                | Inr (dataplane, runtime) \<Rightarrow> (dataplane, runtime, None))))
                (Render en ro manifests
                  (Some (AList.update ''dns'' (JMap (dns_values domain dclass ns (dx_Key ctx) ips cnames)) v))))
      in case GetKubeDNSManifests fs of
           Inl err \<Rightarrow>
             if \<not> dx_Delete ctx then Some (Ret ([], [], Some (x_Failedf E (''cannot get dns manifests: '' @ Error err))))
             else finish []
         | Inr manifests \<Rightarrow> finish manifests)"

definition dummy_Manifests :: "'p manifests_result go option" where
  [simp]: "dummy_Manifests = Some (Ret ([], [], None))"

definition kubedns_Manifests ::
    "'p ext \<Rightarrow> 'c engine \<Rightarrow> render_order \<Rightarrow> embed_fs \<Rightarrow> string \<Rightarrow> string \<Rightarrow> string \<Rightarrow> dns_context \<Rightarrow> json_map option
     \<Rightarrow> 'p manifests_result go option" where
  [simp]: "kubedns_Manifests E en ro fs domain dclass ns ctx values =
     (if \<not> dx_Delete ctx then
        (case dx_Service ctx of
           None \<Rightarrow> Some Panic
         | Some svc \<Rightarrow>
             (case isLoadBalancerReady svc of
                (ips, cnames) \<Rightarrow>
                  if length cnames = 0 \<and> length ips = 0 then
                    Some (Ret ([], [], Some (x_WatchBackedProblemf E ''load balancer not yet available'')))
                  else kubedns_render E en ro fs domain dclass ns ctx values ips cnames))
      else kubedns_render E en ro fs domain dclass ns ctx values [] [])"

fun dns_Manifests ::
    "dns_handler \<Rightarrow> 'p ext \<Rightarrow> 'c engine \<Rightarrow> render_order \<Rightarrow> embed_fs \<Rightarrow> dns_context \<Rightarrow> json_map option
     \<Rightarrow> 'p manifests_result go option" where
  "dns_Manifests DnsLoadbalancer E en ro fs ctx values = dummy_Manifests"
| "dns_Manifests (DnsGardener domain dclass) E en ro fs ctx values = dummy_Manifests"
| "dns_Manifests (DnsKubedns domain dclass ns) E en ro fs ctx values =
     kubedns_Manifests E en ro fs domain dclass ns ctx values"

subsection \<open>GetCNames\<close>

definition first_resolvable :: "'p ext \<Rightarrow> 'w api \<Rightarrow> 'w \<Rightarrow> string list \<Rightarrow> string list \<times> 'p option" where
  "first_resolvable E A w cnames =
     (if list_ex (isResolvable A w) cnames then (cnames, None)
      else ([], Some (x_Requeuef E ''cnames not reachable, so far'')))"

definition loadbalancer_GetCNames :: "'p ext \<Rightarrow> service \<Rightarrow> string list \<times> 'p option" where
  [simp]: "loadbalancer_GetCNames E svc =
     (case isLoadBalancerReady svc of
        (ips, cnames) \<Rightarrow>
          if length cnames > 0 then (cnames, None)
          else if length ips > 0 then ([], Some (x_WatchBackedProblemf E ''no cnames available for load balancer''))
          else ([], Some (x_WatchBackedProblemf E ''load balancer not yet available'')))"

definition gardener_GetCNames ::
    "string \<Rightarrow> 'p ext \<Rightarrow> 'w api \<Rightarrow> 'w \<Rightarrow> object_key \<Rightarrow> service \<Rightarrow> string list \<times> 'p option" where
  [simp]: "gardener_GetCNames domain E A w key svc =
     (case isLoadBalancerReady svc of
        (ips, cnames) \<Rightarrow>
          if length cnames = 0 \<and> length ips = 0 then ([], Some (x_WatchBackedProblemf E ''load balancer not yet available''))
          else first_resolvable E A w (getCNames domain key))"

definition kubedns_GetCNames ::
    "string \<Rightarrow> 'p ext \<Rightarrow> 'w api \<Rightarrow> 'w \<Rightarrow> object_key \<Rightarrow> service \<Rightarrow> string list \<times> 'p option" where
  [simp]: "kubedns_GetCNames domain E A w key svc =
     (case isLoadBalancerReady svc of
        (ips, cnames) \<Rightarrow>
          if length cnames = 0 \<and> length ips = 0 then ([], Some (x_WatchBackedProblemf E ''load balancer not yet available''))
          else case a_GetEntry A w (''dns-system'', getEntryName key) of
                 Inl err \<Rightarrow> ([], x_TemporaryProblem E (Some err))
               | Inr entry \<Rightarrow>
                   if et_State (e_Status entry) \<noteq> STATE_READY \<and> et_State (e_Status entry) \<noteq> STATE_OK then
                     ([], Some (x_TemporaryProblemf E (''dns entry for nameserver not yet ready: '' @ et_Message (e_Status entry))))
                   else first_resolvable E A w (getCNames domain key))"

fun dns_GetCNames ::
    "dns_handler \<Rightarrow> 'p ext \<Rightarrow> 'w api \<Rightarrow> 'w \<Rightarrow> object_key \<Rightarrow> service \<Rightarrow> string list \<times> 'p option" where
  "dns_GetCNames DnsLoadbalancer E A w key svc = loadbalancer_GetCNames E svc"
| "dns_GetCNames (DnsGardener domain dclass) E A w key svc = gardener_GetCNames domain E A w key svc"
| "dns_GetCNames (DnsKubedns domain dclass ns) E A w key svc = kubedns_GetCNames domain E A w key svc"

section \<open>Options\<close>

text \<open>The options as the flags leave them where none is given.\<close>

definition direct_AddFlags :: direct_options where
  "direct_AddFlags = NewOptions\<lparr>do_RuntimeNamespace := [], do_DNSMode := ''loadbalancer'', do_DNSDomain := [],
     do_DNSClass := ''dns-system'', do_DNSNamespace := ''dns-system'', do_Platform := ''default''\<rparr>"

text \<open>
  The validation of the options: \<open>copt\<close> are the common options of the option set, \<open>clusters\<close> the
  names of the configured clusters or the error of their validation.
\<close>

definition options_Validate ::
    "(string \<Rightarrow> go_error) \<Rightarrow> options option \<Rightarrow> (go_error + string list) \<Rightarrow> direct_options
     \<Rightarrow> go_error + direct_options \<times> dns_handler" where
  "options_Validate unknown copt clusters opts =
     (case copt of
        None \<Rightarrow> Inl (Errorf ''class option not found in option definitions'')
      | Some c \<Rightarrow>
          (let opts = opts\<lparr>do_Class := op_Class c, do_Runtime := op_Runtime c\<rparr>
           in case clusters of
                Inl err \<Rightarrow> Inl err
              | Inr cs \<Rightarrow>
                  if ''dataplane'' \<notin> set cs then Inl (Errorf ''dataplane cluster is required'')
                  else if ''runtime'' \<notin> set cs then Inl (Errorf ''dataplane cluster is required'')
                  else case dns_Create unknown (do_DNSMode opts) opts of
                         Inl err \<Rightarrow> Inl (wrap (''dns mode '' @ quote (do_DNSMode opts)) err)
                       | Inr h \<Rightarrow> Inr (opts, h)))"

definition options_Configure :: "direct_options \<Rightarrow> string \<Rightarrow> string" where
  "options_Configure opts i =
     (let i = (case do_Runtime opts of Some r \<Rightarrow> if r \<noteq> [] then r @ ''-'' @ i else i | None \<Rightarrow> i)
      in case do_Class opts of Some c \<Rightarrow> if c \<noteq> [] then c @ ''-'' @ i else ''default-'' @ i | None \<Rightarrow> i)"

section \<open>The contract of the handlers\<close>

text \<open>
  The controller relies on two things: a handler reports names or a problem, not both and not
  neither, and no names before the service has an external access.
\<close>

locale dns_provider =
  fixes get :: "'h \<Rightarrow> 'p ext \<Rightarrow> 'w api \<Rightarrow> 'w \<Rightarrow> object_key \<Rightarrow> service \<Rightarrow> string list \<times> 'p option"
  assumes names_or_problem: "problem_laws E \<Longrightarrow> snd (get h E A w key svc) = None \<longleftrightarrow> fst (get h E A w key svc) \<noteq> []"
    and needs_access: "isLoadBalancerReady svc = ([], []) \<Longrightarrow> fst (get h E A w key svc) = []"
begin

lemma access_problem:
  assumes "problem_laws E" "isLoadBalancerReady svc = ([], [])"
  shows "snd (get h E A w key svc) \<noteq> None"
  using names_or_problem [OF assms(1)] needs_access [OF assms(2)] by metis

text \<open>A load balancer with valid addresses only never gives names.\<close>

lemma addresses_only:
  assumes E: "problem_laws E" and ip: "\<And>i. i \<in> set (sv_Ingress svc) \<Longrightarrow> in_Hostname i = [] \<and> (\<exists>ip. ParseIP (in_IP i) = Some ip)"
  shows "fst (get h E A w key svc) = [] \<and> snd (get h E A w key svc) \<noteq> None"
proof -
  have "filter unparsable (sv_Ingress svc) = []" "filter (\<lambda>h. h \<noteq> []) (map in_Hostname (sv_Ingress svc)) = []"
    using ip by (auto simp: filter_empty_conv unparsable_def)
  then have "isLoadBalancerReady svc = ([], [])" unfolding isLoadBalancerReady_eq by simp
  then show ?thesis using access_problem [OF E] needs_access by blast
qed

end

interpretation dns: dns_provider dns_GetCNames
proof
  fix E :: "'a ext" and A :: "'b api" and w h key svc
  obtain ips cnames where lb: "isLoadBalancerReady svc = (ips, cnames)" by (rule prod.exhaust)
  show "snd (dns_GetCNames h E A w key svc) = None \<longleftrightarrow> fst (dns_GetCNames h E A w key svc) \<noteq> []" if "problem_laws E"
    using Temp_Some [OF that]
    by (cases h) (auto simp: lb first_resolvable_def getCNames_def split: sum.splits)
  show "fst (dns_GetCNames h E A w key svc) = []" if "isLoadBalancerReady svc = ([], [])"
    using that by (cases h) auto
qed

lemma options_Validate_eq:
  "options_Validate unknown (Some c) (Inr cs) opts = Inr (opts', h) \<longleftrightarrow>
     ''dataplane'' \<in> set cs \<and> ''runtime'' \<in> set cs \<and> opts' = opts\<lparr>do_Class := op_Class c, do_Runtime := op_Runtime c\<rparr> \<and>
     (case h of
        DnsLoadbalancer \<Rightarrow> do_DNSMode opts = ''loadbalancer''
      | DnsGardener d cl \<Rightarrow> do_DNSMode opts = ''gardener'' \<and> d = do_DNSDomain opts \<and> d \<noteq> [] \<and>
          cl = (if do_DNSClass opts = [] then ''garden'' else do_DNSClass opts)
      | DnsKubedns d cl ns \<Rightarrow> do_DNSMode opts = ''kubedns'' \<and> d = do_DNSDomain opts \<and> cl = do_DNSClass opts \<and>
          ns = do_DNSNamespace opts \<and> d \<noteq> [] \<and> cl \<noteq> [] \<and> ns \<noteq> [])"
  by (cases h)
    (auto simp: options_Validate_def dns_Create_def DNSModes_def NewDNSByLoadBalancer_def NewDNSByGardener_def
      NewDNSByKubedns_def Let_def split: sum.splits option.splits if_splits)

text \<open>The default of the flag for the class keeps the gardener mode from its own default.\<close>

lemma gardener_default_class:
  assumes "d \<noteq> []"
  shows "NewDNSByGardener (direct_AddFlags\<lparr>do_DNSMode := ''gardener'', do_DNSDomain := d\<rparr>) = Inr (DnsGardener d ''dns-system'')"
  using assms by (simp add: NewDNSByGardener_def direct_AddFlags_def)

lemma first_resolvable_entry: "first_resolvable E (A\<lparr>a_GetEntry := f\<rparr>) w cs = first_resolvable E A w cs"
proof -
  have "isResolvable (A\<lparr>a_GetEntry := f\<rparr>) w = isResolvable A w" by (rule ext) (simp add: isResolvable_def)
  then show ?thesis by (simp add: first_resolvable_def)
qed

section \<open>Properties\<close>

text \<open>A load balancer that is reached by valid addresses only, without a host name, never gives
  a zone its name server names: in every DNS mode the names are empty and a problem is
  reported, however long one waits.\<close>

theorem addresses_never_ready:
  assumes "problem_laws E" "\<And>i. i \<in> set (sv_Ingress svc) \<Longrightarrow> in_Hostname i = [] \<and> (\<exists>ip. ParseIP (in_IP i) = Some ip)"
  shows "fst (dns_GetCNames h E A w key svc) = [] \<and> snd (dns_GetCNames h E A w key svc) \<noteq> None"
  using assms by (rule dns.addresses_only)

definition ip_service :: service where
  "ip_service = \<lparr>sv_Type = ''LoadBalancer'', sv_Ingress = [\<lparr>in_IP = ''8.8.8.8'', in_Hostname = []\<rparr>]\<rparr>"

theorem addresses_never_ready_witness:
  "\<forall>h key. fst (dns_GetCNames h ref_ext ref_api empty_store key ip_service) = [] \<and>
     snd (dns_GetCNames h ref_ext ref_api empty_store key ip_service) \<noteq> None"
proof (intro allI, rule addresses_never_ready [OF ref_problem_laws])
  have "ParseIP ''8.8.8.8'' = Some [0, 0, 0, 0, 0, 0, 0, 0, 0, 0, 255, 255, 8, 8, 8, 8]" by code_simp
  then show "in_Hostname i = [] \<and> (\<exists>ip. ParseIP (in_IP i) = Some ip)" if "i \<in> set (sv_Ingress ip_service)" for i
    using that by (simp add: ip_service_def)
qed

text \<open>The names of the entries that publish the name servers are unique only for namespaces
  without a dash: below that the name determines the zone, but the zones of two namespaces can
  have the same entry name, although their name server names differ.\<close>

theorem getEntryName_unique:
  assumes "CHR ''-'' \<notin> set (ok_Namespace k)" "CHR ''-'' \<notin> set (ok_Namespace k')"
  shows "(getEntryName k = getEntryName k' \<longleftrightarrow> k = k') \<and>
    getEntryName (''a-b'', ''c'') = getEntryName (''a'', ''b-c'') \<and>
    getCNames domain (''a-b'', ''c'') \<noteq> getCNames domain (''a'', ''b-c'')"
  using append_sep_inject [OF assms, of "ok_Name k" "ok_Name k'"]
  by (auto simp: getEntryName_def getCNames_def prod_eq_iff)

theorem getEntryName_unique_witness:
  "getEntryName (''default'', ''b-c'') \<noteq> getEntryName (''dns'', ''b-c'')"
  using getEntryName_unique [of "(''default'', ''b-c'')" "(''dns'', ''b-c'')" "[]"] by simp

text \<open>In the kubedns mode the entry of the name server is written to the configured namespace
  but looked up in \<open>dns-system\<close>: what \<open>GetCNames\<close> reports does not depend on the configuration,
  and nothing but \<open>dns-system\<close> is ever read.\<close>

theorem kubedns_namespace_ignored:
  "map_of (dns_values d c ns key ips cnames) ''namespace'' = Some (JStr ns) \<and>
   dns_GetCNames (DnsKubedns d c ns) E A w key svc = dns_GetCNames (DnsKubedns d c ''dns-system'') E A w key svc \<and>
   dns_GetCNames (DnsKubedns d c ns) E (A\<lparr>a_GetEntry := \<lambda>w (n, k). if n = ''dns-system'' then a_GetEntry A w (n, k) else g w (n, k)\<rparr>) w key svc =
     dns_GetCNames (DnsKubedns d c ns) E A w key svc"
  by (cases "isLoadBalancerReady svc") (auto simp: dns_values_def first_resolvable_entry split: sum.split)

text \<open>The options are accepted exactly if both clusters are configured and the DNS mode is one of
  the three with the options it needs; the handler has the domain, class and namespace of the
  options, with the default class for the gardener mode.\<close>

theorem options_Validate_iff:
  "options_Validate unknown (Some c) (Inr cs) opts = Inr (opts', h) \<longleftrightarrow>
     ''dataplane'' \<in> set cs \<and> ''runtime'' \<in> set cs \<and> opts' = opts\<lparr>do_Class := op_Class c, do_Runtime := op_Runtime c\<rparr> \<and>
     (case h of
        DnsLoadbalancer \<Rightarrow> do_DNSMode opts = ''loadbalancer''
      | DnsGardener d cl \<Rightarrow> do_DNSMode opts = ''gardener'' \<and> d = do_DNSDomain opts \<and> d \<noteq> [] \<and>
          cl = (if do_DNSClass opts = [] then ''garden'' else do_DNSClass opts)
      | DnsKubedns d cl ns \<Rightarrow> do_DNSMode opts = ''kubedns'' \<and> d = do_DNSDomain opts \<and> cl = do_DNSClass opts \<and>
          ns = do_DNSNamespace opts \<and> d \<noteq> [] \<and> cl \<noteq> [] \<and> ns \<noteq> [])"
  by (rule options_Validate_eq)

end
