(* ===== verification/Direct_Resources.thy ===== *)
theory Direct_Resources
  imports Direct_DNS
begin

text \<open>
  The external resources of a root zone (internal/controller/direct/hostedzone, request.go and
  delete.go): applying and deleting manifests, the deployment of the name server with the
  report of its status, and the deletion of everything deployed. An operation works on the
  world and the zone, and returns them with a problem; rendering may not return and a few
  operations can panic, so the large ones return a \<open>go option\<close>.
\<close>

section \<open>The reconciler\<close>

record reconciler =
  rc_Options :: direct_options
  rc_Handler :: dns_handler
  rc_Mode :: mode
  rc_Finalizer :: string
  rc_Manifests :: manifests
  rc_Files :: embed_fs

text \<open>
  What a request runs in: the libraries, the clusters, the template engine with its orders, the
  modifier that sets the owner of an object, and the reconciler.
\<close>

record ('p, 'w, 'c) env =
  ev_D :: dns_lib
  ev_E :: "'p ext"
  ev_A :: "'w api"
  ev_en :: "'c engine"
  ev_ro :: render_order
  ev_Owner :: "hosted_zone \<Rightarrow> modifier"
  ev_rc :: reconciler

text \<open>The reconcile context of a request: the request is never a simulation.\<close>

definition request_context :: "('p, 'w, 'c) env \<Rightarrow> object_key \<Rightarrow> 'w \<Rightarrow> reconcile_context" where
  "request_context V key w = \<lparr>cx_Id = a_Id (ev_A V), cx_URL = a_APIServerURL (ev_A V) w,
     cx_Platform = do_Platform (rc_Options (ev_rc V)), cx_Key = key, cx_Simulate = False\<rparr>"

definition request_Values ::
    "('p, 'w, 'c) env \<Rightarrow> object_key \<Rightarrow> bool \<Rightarrow> 'w \<Rightarrow> 'w \<times> json_map option \<times> go_error option" where
  "request_Values V key deleting w =
     Values (ev_E V) (ev_A V) (rc_Options (ev_rc V)) (rc_Mode (ev_rc V)) (request_context V key w) deleting w"

definition show_key :: "object_key \<Rightarrow> string" where
  "show_key key = ok_Namespace key @ ''/'' @ ok_Name key"

section \<open>Deleting\<close>

definition DeleteManifest :: "('p, 'w, 'c) env \<Rightarrow> cluster_id \<Rightarrow> string \<Rightarrow> 'w \<Rightarrow> 'w \<times> 'p option" where
  "DeleteManifest V cl manifest w =
     (case a_Decode (ev_A V) manifest of
        Inl err \<Rightarrow> (w, Some (x_Failedf (ev_E V) (''error decoding manifest: '' @ Error err)))
      | Inr obj \<Rightarrow>
          (case a_Get (ev_A V) w cl obj of
             Inl err \<Rightarrow>
               if IsNotFound err then (w, None)
               else (w, Some (x_TemporaryProblemf (ev_E V) (''error getting object '' @ show_key (or_Key obj) @ '' from '' @
                      a_Name (ev_A V) cl @ '': '' @ Error err)))
           | Inr current \<Rightarrow>
               if deleted current then
                 (w, Some (x_Requeuef (ev_E V) (''resource '' @ quote (show_key (or_Key obj)) @ '' is still being deleted'')))
               else
                 (case a_Delete (ev_A V) w cl obj of
                    (w, err) \<Rightarrow>
                      if (case err of None \<Rightarrow> False | Some e \<Rightarrow> IsNotFound e) then (w, None)
                      else (w, x_TemporaryProblem (ev_E V) err))))"

text \<open>A loop over manifests that deletes them all and aggregates the problems.\<close>

fun delete_all :: "('p, 'w, 'c) env \<Rightarrow> cluster_id \<Rightarrow> string list \<Rightarrow> 'w \<times> 'p option \<Rightarrow> 'w \<times> 'p option" where
  "delete_all V cl [] (w, prob) = (w, prob)"
| "delete_all V cl (m # ms) (w, prob) =
     (case DeleteManifest V cl m w of
        (w', p) \<Rightarrow> delete_all V cl ms (w', x_AggregateProblem (ev_E V) prob p))"

text \<open>The data of a map of manifests in the order of an iteration.\<close>

definition data_of :: "('p, 'w, 'c) env \<Rightarrow> manifests \<Rightarrow> string list" where
  "data_of V ms = map snd (ro_manifests (ev_ro V) ms)"

text \<open>
  The two blocks that should delete the resources of the DNS mode iterate over the standard
  manifests. The name for the cleanup is read from the values, which panics without values.
\<close>

definition delete_rendered ::
    "('p, 'w, 'c) env \<Rightarrow> object_key \<Rightarrow> json_map option \<Rightarrow> manifests \<Rightarrow> manifests \<Rightarrow> manifests \<Rightarrow> manifests \<Rightarrow> 'w
     \<Rightarrow> ('w \<times> 'p option) go" where
  "delete_rendered V key values dataplane runtime dnsdataplane dnsruntime w =
     (let s = (w, None);
          s = (if length dnsruntime > 0 then delete_all V Runtime (data_of V runtime) s else s);
          s = (if length dnsdataplane > 0 then delete_all V Dataplane (data_of V dataplane) s else s)
      in if snd s \<noteq> None then Ret s
         else (let s = delete_all V Runtime (data_of V runtime) s;
                   s = delete_all V Dataplane (data_of V dataplane) s
               in if snd s = None then
                    (case values of
                       Some v \<Rightarrow>
                         (case field v ''dataplane'' ''name'' of
                            Some (JStr name) \<Rightarrow> Ret (mode_Cleanup (rc_Mode (ev_rc V)) (ev_E V) (ev_A V) (rc_Options (ev_rc V))
                              (request_context V key (fst s)) name (fst s))
                          | _ \<Rightarrow> Panic)
                     | None \<Rightarrow> Panic)
                  else Ret s))"

definition DeleteExternalResources ::
    "('p, 'w, 'c) env \<Rightarrow> object_key \<Rightarrow> 'w \<times> hosted_zone option \<Rightarrow> (('w \<times> hosted_zone option) \<times> 'p option) go option" where
  "DeleteExternalResources V key = (\<lambda>(w, z).
     (case request_Values V key True w of
        (w, values, _) \<Rightarrow>
          (case Render (ev_en V) (ev_ro V) (rc_Manifests (ev_rc V)) values of
             None \<Rightarrow> None
           | Some Panic \<Rightarrow> Some Panic
           | Some (Ret (Inl err)) \<Rightarrow>
               Some (case z of
                 None \<Rightarrow> Panic
               | Some z \<Rightarrow> Ret ((w, Some (zone_SetStatusCondition (ev_E V)
                   (cond RuntimeConditionType ConditionFalse ReasonRuntimeInternalError (Error err)) z)),
                   Some (x_Failed (ev_E V) err)))
           | Some (Ret (Inr (dataplane, runtime))) \<Rightarrow>
               (case dns_Manifests (rc_Handler (ev_rc V)) (ev_E V) (ev_en V) (ev_ro V) (rc_Files (ev_rc V))
                       \<lparr>dx_Key = key, dx_Service = None, dx_Delete = True\<rparr> values of
                  None \<Rightarrow> None
                | Some Panic \<Rightarrow> Some Panic
                | Some (Ret (dnsdataplane, dnsruntime, Some prob)) \<Rightarrow> Some (Ret ((w, z), Some prob))
                | Some (Ret (dnsdataplane, dnsruntime, None)) \<Rightarrow>
                    Some (go_bind (delete_rendered V key values dataplane runtime dnsdataplane dnsruntime w)
                      (\<lambda>(w, prob). Ret ((w, z), prob)))))))"

section \<open>Applying\<close>

definition no_modifier :: modifier where
  "no_modifier = (\<lambda>(gvk, obj). Inr obj)"

definition runtime_modifier :: "('p, 'w, 'c) env \<Rightarrow> object_key \<Rightarrow> hosted_zone \<Rightarrow> modifier" where
  "runtime_modifier V key z = (\<lambda>(gvk, obj).
     (case ev_Owner V z (gvk, obj) of
        Inl err \<Rightarrow> Inl err
      | Inr obj \<Rightarrow> dns_Modify (rc_Handler (ev_rc V)) \<lparr>dx_Key = key, dx_Service = None, dx_Delete = False\<rparr> (gvk, obj)))"

text \<open>\<open>ApplyData\<close> stores a failure in the Runtime condition, without an observed generation.\<close>

definition ApplyData ::
    "('p, 'w, 'c) env \<Rightarrow> object_key \<Rightarrow> string \<Rightarrow> 'w \<times> hosted_zone \<Rightarrow> ('w \<times> hosted_zone) \<times> obj_ref \<times> go_error option" where
  "ApplyData V key data = (\<lambda>(w, z).
     (case a_Apply (ev_A V) w Runtime (runtime_modifier V key z) data of
        (w, obj, None) \<Rightarrow> ((w, z), obj, None)
      | (w, obj, Some err) \<Rightarrow>
          ((w, set_cond (ev_E V) (cond RuntimeConditionType ConditionFalse ReasonUpdateFailed
             (show_key (or_Key obj) @ '': '' @ Error err)) z), obj, Some err)))"

fun apply_dataplane :: "('p, 'w, 'c) env \<Rightarrow> string \<Rightarrow> string list \<Rightarrow> 'w \<Rightarrow> 'w \<times> 'p option" where
  "apply_dataplane V msg [] w = (w, None)"
| "apply_dataplane V msg (data # ds) w =
     (case a_Apply (ev_A V) w Dataplane no_modifier data of
        (w, _, Some err) \<Rightarrow> (w, Some (x_TemporaryProblemf (ev_E V) (msg @ Error err)))
      | (w, _, None) \<Rightarrow> apply_dataplane V msg ds w)"

text \<open>The names of the deployment and the service found on the way, and the service itself.\<close>

record applied =
  fd_Deployment :: object_key
  fd_Service :: "service option"

text \<open>What is noted of an applied object: a deployment's name, and a service that can be read.\<close>

definition note_object :: "('p, 'w, 'c) env \<Rightarrow> 'w \<Rightarrow> obj_ref \<Rightarrow> applied \<Rightarrow> 'p option + applied" where
  "note_object V w obj f =
     (let f = (if or_Kind obj = ''Deployment'' \<and> or_Group obj = ''apps'' then f\<lparr>fd_Deployment := or_Key obj\<rparr> else f)
      in if or_Kind obj = ''Service'' \<and> (or_Group obj = ''core'' \<or> or_Group obj = []) then
           (case a_GetService (ev_A V) w (or_Key obj) of
              Inr svc \<Rightarrow> Inr (f\<lparr>fd_Service := Some svc\<rparr>)
            | Inl err \<Rightarrow> if \<not> IsNotFound err then Inl (x_TemporaryProblem (ev_E V) (Some err)) else Inr f)
         else Inr f)"

fun apply_runtime ::
    "('p, 'w, 'c) env \<Rightarrow> object_key \<Rightarrow> string list \<Rightarrow> 'w \<times> hosted_zone \<Rightarrow> applied \<Rightarrow> ('w \<times> hosted_zone) \<times> ('p option + applied)" where
  "apply_runtime V key [] s f = (s, Inr f)"
| "apply_runtime V key (data # ds) s f =
     (case ApplyData V key data s of
        ((w, z), obj, Some err) \<Rightarrow>
          (if checkNotModifiableError (Some err) then (fst (DeleteManifest V Runtime data w), z) else (w, z),
           Inl (Some (x_TemporaryProblemf (ev_E V) (''error deploying runtime: '' @ Error err))))
      | ((w, z), obj, None) \<Rightarrow>
          (case note_object V w obj f of
             Inl p \<Rightarrow> ((w, z), Inl p)
           | Inr f \<Rightarrow> apply_runtime V key ds (w, z) f))"

fun apply_dns_runtime ::
    "('p, 'w, 'c) env \<Rightarrow> object_key \<Rightarrow> string list \<Rightarrow> 'w \<times> hosted_zone \<Rightarrow> ('w \<times> hosted_zone) \<times> 'p option" where
  "apply_dns_runtime V key [] s = (s, None)"
| "apply_dns_runtime V key (data # ds) s =
     (case ApplyData V key data s of
        (s, _, Some err) \<Rightarrow> (s, Some (x_TemporaryProblemf (ev_E V) (''error deploying nameserver dns runtime: '' @ Error err)))
      | (s, _, None) \<Rightarrow> apply_dns_runtime V key ds s)"

section \<open>The report of the status\<close>

definition report_deployment :: "('p, 'w, 'c) env \<Rightarrow> 'w \<Rightarrow> object_key \<Rightarrow> hosted_zone \<Rightarrow> hosted_zone \<times> 'p option" where
  "report_deployment V w key z =
     (case a_GetDeployment (ev_A V) w key of
        Inr d \<Rightarrow>
          (case isDeploymentReady (ev_E V) d of
             (ok, prob) \<Rightarrow>
               (let msg = (case prob of None \<Rightarrow> ''Deployment serving requests'' | Some p \<Rightarrow> x_Message (ev_E V) p);
                    reason = (if \<not> ok then ReasonRuntimeUnavailable
                              else if prob \<noteq> None then ReasonRuntimeDeploying else ReasonRuntimeAvailable)
                in (zone_SetStatusCondition (ev_E V) (cond RuntimeConditionType (ConditionStatus ok) reason msg) z, None)))
      | Inl err \<Rightarrow>
          (if IsNotFound err
           then zone_SetStatusCondition (ev_E V) (cond RuntimeConditionType ConditionFalse ReasonRuntimeUnavailable (Error err)) z
           else z,
           x_AggregateProblem (ev_E V) None (x_TemporaryProblem (ev_E V) (Some err))))"

definition report_nameserver ::
    "('p, 'w, 'c) env \<Rightarrow> 'w \<Rightarrow> object_key \<Rightarrow> service option \<Rightarrow> hosted_zone \<times> 'p option \<Rightarrow> hosted_zone \<times> 'p option" where
  "report_nameserver V w key service = (\<lambda>(z, sm).
     (case service of
        Some svc \<Rightarrow>
          (case dns_GetCNames (rc_Handler (ev_rc V)) (ev_E V) (ev_A V) w key svc of
             (cnames, prob) \<Rightarrow>
               (let sm = x_AggregateProblem (ev_E V) sm prob;
                    z' = (if prob = None \<and> length cnames > 0 then z\<lparr>z_Status := (z_Status z)\<lparr>zt_NameServers := cnames\<rparr>\<rparr> else z);
                    (reason, msg, ok) =
                      (case prob of
                         Some p \<Rightarrow> (ReasonNameserverPending, x_Message (ev_E V) p, False)
                       | None \<Rightarrow> if length cnames > 0 then (ReasonNameserverAvailable, ''nameserver access ready'', True)
                           else (ReasonNameserverPending, ''nameserver access still pending'', False))
                in (zone_SetStatusCondition (ev_E V) (cond NameserverConditionType (ConditionStatus ok) reason msg) z', sm)))
      | None \<Rightarrow>
          (zone_SetStatusCondition (ev_E V)
             (cond NameserverConditionType ConditionFalse ReasonRuntimeUnavailable ''no Service for DNS server found'') z,
           x_AggregateProblem (ev_E V) sm (Some (x_Requeuef (ev_E V) ''service not found'')))))"

definition report_status ::
    "('p, 'w, 'c) env \<Rightarrow> 'w \<Rightarrow> object_key \<Rightarrow> applied \<Rightarrow> hosted_zone \<Rightarrow> hosted_zone \<times> 'p option" where
  "report_status V w key f z =
     (case report_nameserver V w key (fd_Service f) (report_deployment V w (fd_Deployment f) z) of
        (z, sm) \<Rightarrow> (summary (ev_E V) z, sm))"

section \<open>HandleExternalResources\<close>

type_synonym ('p, 'w) handled = "('w \<times> hosted_zone) \<times> 'p option"

text \<open>After the standard manifests: the manifests of the DNS mode and the status.\<close>

definition handle_dns ::
    "('p, 'w, 'c) env \<Rightarrow> object_key \<Rightarrow> json_map option \<Rightarrow> applied \<Rightarrow> 'w \<times> hosted_zone \<Rightarrow> ('p, 'w) handled go option" where
  "handle_dns V key values f = (\<lambda>(w, z).
     (case dns_Manifests (rc_Handler (ev_rc V)) (ev_E V) (ev_en V) (ev_ro V) (rc_Files (ev_rc V))
             \<lparr>dx_Key = key, dx_Service = fd_Service f, dx_Delete = False\<rparr> values of
        None \<Rightarrow> None
      | Some Panic \<Rightarrow> Some Panic
      | Some (Ret (dnsdataplane, dnsruntime, Some prob)) \<Rightarrow> Some (Ret ((w, z), Some prob))
      | Some (Ret (dnsdataplane, dnsruntime, None)) \<Rightarrow>
          Some (Ret
            (case apply_dataplane V ''error deploying nameserver dns dataplane: '' (data_of V dnsdataplane) w of
               (w, Some p) \<Rightarrow> ((w, z), Some p)
             | (w, None) \<Rightarrow>
                 (case apply_dns_runtime V key (data_of V dnsruntime) (w, z) of
                    (s, Some p) \<Rightarrow> (s, Some p)
                  | ((w, z), None) \<Rightarrow>
                      (case report_status V w key f z of (z, sm) \<Rightarrow> ((w, z), sm)))))))"

definition handle_rendered ::
    "('p, 'w, 'c) env \<Rightarrow> object_key \<Rightarrow> json_map option \<Rightarrow> go_error option \<Rightarrow> manifests \<Rightarrow> manifests \<Rightarrow> 'w \<times> hosted_zone
     \<Rightarrow> ('p, 'w) handled go option" where
  "handle_rendered V key values repeat dataplane runtime = (\<lambda>(w, z).
     (case apply_dataplane V ''error deploying dataplane: '' (data_of V dataplane) w of
        (w, Some p) \<Rightarrow> Some (Ret ((w, z), Some p))
      | (w, None) \<Rightarrow>
          if repeat \<noteq> None then Some (Ret ((w, z), None))
          else (case apply_runtime V key (data_of V runtime) (w, z) \<lparr>fd_Deployment = ([], []), fd_Service = None\<rparr> of
                  (s, Inl p) \<Rightarrow> Some (Ret (s, p))
                | (s, Inr f) \<Rightarrow> handle_dns V key values f s)))"

definition HandleExternalResources ::
    "('p, 'w, 'c) env \<Rightarrow> object_key \<Rightarrow> 'w \<times> hosted_zone \<Rightarrow> ('p, 'w) handled go option" where
  "HandleExternalResources V key = (\<lambda>(w, z).
     (case mode_Prepare (rc_Mode (ev_rc V)) (ev_E V) (ev_A V) (rc_Options (ev_rc V)) (request_context V key w) w of
        (w, Some p) \<Rightarrow> Some (Ret ((w, z), Some p))
      | (w, None) \<Rightarrow>
          (case a_APIServerURL (ev_A V) w of
             Inl err \<Rightarrow> Some (Ret ((w, z), Some (x_Failed (ev_E V)
                 (err\<lparr>Error := ''cannot determine api server URL: '' @ Error err\<rparr>))))
           | Inr url \<Rightarrow>
               (case request_Values V key False w of
                  (w, values, repeat) \<Rightarrow>
                    (case Render (ev_en V) (ev_ro V) (rc_Manifests (ev_rc V)) values of
                       None \<Rightarrow> None
                     | Some Panic \<Rightarrow> Some Panic
                     | Some (Ret (Inl err)) \<Rightarrow>
                         Some (Ret ((w, z), Some (x_Failedf (ev_E V) (''error rendering manifests: '' @ Error err))))
                     | Some (Ret (Inr (dataplane, runtime))) \<Rightarrow>
                         handle_rendered V key values repeat dataplane runtime (w, z))))))"

section \<open>What a deletion reaches\<close>

text \<open>An object is going if it does not exist any more or its deletion has been requested.\<close>

definition going :: "'w api \<Rightarrow> 'w \<Rightarrow> cluster_id \<Rightarrow> obj_ref \<Rightarrow> bool" where
  "going A w c r \<longleftrightarrow> (case a_Get A w c r of Inl err \<Rightarrow> IsNotFound err | Inr m \<Rightarrow> deleted m)"

text \<open>
  The clusters: a deletion that succeeds or finds nothing makes its object go, and no deletion
  brings an object back; reading the index or creating nothing changes no object.
\<close>

definition accepted :: "go_error option \<Rightarrow> bool" where
  "accepted e \<longleftrightarrow> (case e of None \<Rightarrow> True | Some x \<Rightarrow> IsNotFound x)"

definition deletion_laws :: "'w api \<Rightarrow> bool" where
  "deletion_laws A \<longleftrightarrow>
     (\<forall>w c r. accepted (snd (a_Delete A w c r)) \<longrightarrow> going A (fst (a_Delete A w c r)) c r) \<and>
     (\<forall>w c r c' r'. going A w c' r' \<longrightarrow> going A (fst (a_Delete A w c r)) c' r') \<and>
     (\<forall>w k c r. going A w c r \<longrightarrow> going A (fst (a_DeleteSecret A w k)) c r) \<and>
     (\<forall>w n c r. going A w c r \<longrightarrow> going A (fst (a_DeleteNamespace A w n)) c r) \<and>
     (\<forall>w i u k c r. going A w c r \<longrightarrow> going A (a_IndexRemove A w i u k) c r)"

lemma delete_going: "deletion_laws A \<Longrightarrow> accepted (snd (a_Delete A w c r)) \<Longrightarrow> going A (fst (a_Delete A w c r)) c r"
  unfolding deletion_laws_def by metis

lemma delete_keeps: "deletion_laws A \<Longrightarrow> going A w c' r' \<Longrightarrow> going A (fst (a_Delete A w c r)) c' r'"
  unfolding deletion_laws_def by metis

lemma secret_keeps: "deletion_laws A \<Longrightarrow> going A w c r \<Longrightarrow> going A (fst (a_DeleteSecret A w k)) c r"
  unfolding deletion_laws_def by metis

lemma namespace_keeps: "deletion_laws A \<Longrightarrow> going A w c r \<Longrightarrow> going A (fst (a_DeleteNamespace A w n)) c r"
  unfolding deletion_laws_def by metis

lemma index_keeps: "deletion_laws A \<Longrightarrow> going A w c r \<Longrightarrow> going A (a_IndexRemove A w i u k) c r"
  unfolding deletion_laws_def by metis

lemma DeleteManifest_world:
  "fst (DeleteManifest V cl m w) \<in> insert w {fst (a_Delete (ev_A V) w cl r) | r. a_Decode (ev_A V) m = Inr r}"
  by (auto simp: DeleteManifest_def split: sum.splits prod.splits)

lemma temp_None_iff: "problem_laws E \<Longrightarrow> x_TemporaryProblem E e = None \<longleftrightarrow> e = None"
  using Temp_None Temp_Some by (cases e) auto

lemma DeleteManifest_keeps:
  assumes "deletion_laws (ev_A V)" "going (ev_A V) w c r"
  shows "going (ev_A V) (fst (DeleteManifest V cl m w)) c r"
  using DeleteManifest_world [of V cl m w] assms(2) delete_keeps [OF assms] by auto

lemma DeleteManifest_None:
  assumes laws: "deletion_laws (ev_A V)" and P: "problem_laws (ev_E V)"
    and none: "snd (DeleteManifest V cl m w) = None"
  shows "\<exists>r. a_Decode (ev_A V) m = Inr r \<and> going (ev_A V) (fst (DeleteManifest V cl m w)) cl r"
proof (cases "a_Decode (ev_A V) m")
  case (Inl err)
  with none show ?thesis by (simp add: DeleteManifest_def)
next
  case (Inr r)
  show ?thesis
  proof (cases "a_Get (ev_A V) w cl r")
    case (Inl err)
    with none Inr show ?thesis by (auto simp: DeleteManifest_def going_def split: if_splits)
  next
    case get: (Inr cur)
    obtain w' e where d: "a_Delete (ev_A V) w cl r = (w', e)" by (rule prod.exhaust)
    have "accepted e"
      using none Inr get d
      by (auto simp: DeleteManifest_def accepted_def temp_None_iff [OF P] split: if_splits option.splits)
    with delete_going [OF laws, of w cl r] d have "going (ev_A V) w' cl r" by simp
    with none Inr get d show ?thesis by (auto simp: DeleteManifest_def split: if_splits)
  qed
qed

lemma delete_all_keeps:
  assumes "deletion_laws (ev_A V)"
  shows "going (ev_A V) (fst s) c r \<Longrightarrow> going (ev_A V) (fst (delete_all V cl ms s)) c r"
proof (induction ms arbitrary: s)
  case Nil
  then show ?case by (cases s) simp
next
  case (Cons m ms)
  obtain w p where s: "s = (w, p)" by (rule prod.exhaust)
  obtain w' q where d: "DeleteManifest V cl m w = (w', q)" by (rule prod.exhaust)
  with DeleteManifest_keeps [OF assms, of w c r cl m] Cons.prems s have "going (ev_A V) w' c r" by simp
  with Cons.IH show ?case by (simp add: s d)
qed

lemma delete_all_None:
  assumes laws: "deletion_laws (ev_A V)" and P: "problem_laws (ev_E V)"
  shows "snd (delete_all V cl ms s) = None \<Longrightarrow>
    snd s = None \<and> (\<forall>m \<in> set ms. \<exists>r. a_Decode (ev_A V) m = Inr r \<and> going (ev_A V) (fst (delete_all V cl ms s)) cl r)"
proof (induction ms arbitrary: s)
  case Nil
  then show ?case by (cases s) simp
next
  case (Cons m ms)
  obtain w p where s: "s = (w, p)" by (rule prod.exhaust)
  obtain w' q where d: "DeleteManifest V cl m w = (w', q)" by (rule prod.exhaust)
  let ?s = "(w', x_AggregateProblem (ev_E V) p q)"
  have e: "delete_all V cl (m # ms) s = delete_all V cl ms ?s" by (simp add: s d)
  from Cons.IH [of ?s] Cons.prems e have IH: "x_AggregateProblem (ev_E V) p q = None"
    "\<forall>m \<in> set ms. \<exists>r. a_Decode (ev_A V) m = Inr r \<and> going (ev_A V) (fst (delete_all V cl ms ?s)) cl r" by auto
  then have pq: "p = None" "q = None" using Aggr_None [OF P] by auto
  with DeleteManifest_None [OF laws P, of cl m w] d obtain r where
    r: "a_Decode (ev_A V) m = Inr r" "going (ev_A V) w' cl r" by auto
  with delete_all_keeps [OF laws, of ?s cl r cl ms] have "going (ev_A V) (fst (delete_all V cl ms ?s)) cl r" by simp
  with IH(2) pq r(1) s show ?case unfolding e by auto
qed

lemma Cleanup_keeps:
  assumes laws: "deletion_laws A" and g: "going A w c r"
  shows "going A (fst (mode_Cleanup m E A opts ctx name w)) c r"
proof -
  have b: "going A (base_Cleanup A ctx name w) c r"
    using g index_keeps [OF laws g] by (simp add: base_Cleanup_def)
  have s: "going A (fst (cleanup_secret E A k x)) c r" if "going A x c r" for k x
  proof -
    have "fst (cleanup_secret E A k x) \<in> {x, fst (a_DeleteSecret A x k)}"
      by (auto simp: cleanup_secret_def split: sum.splits prod.splits option.splits)
    then show ?thesis using that secret_keeps [OF laws that] by (elim insertE emptyE) simp_all
  qed
  have n: "going A (fst (cleanup_namespace E A ns x)) c r" if "going A x c r" for ns x
  proof -
    have "fst (cleanup_namespace E A ns x) \<in> {x, fst (a_DeleteNamespace A x ns)}"
      by (auto simp: cleanup_namespace_def Let_def split: sum.splits prod.splits option.splits)
    then show ?thesis using that namespace_keeps [OF laws that] by (elim insertE emptyE) simp_all
  qed
  show ?thesis
  proof (cases m)
    case LocalMode
    with b show ?thesis by simp
  next
    case RuntimeMode
    let ?key = "(ok_Namespace (cx_Key ctx), name)" and ?w = "base_Cleanup A ctx name w"
    obtain w1 p b' where cs: "cleanup_secret E A ?key ?w = (w1, p, b')" by (rule prod_cases3)
    with s [OF b, of ?key] have "going A w1 c r" by simp
    with b n [OF this] RuntimeMode cs show ?thesis by (simp add: Let_def)
  qed
qed

lemma delete_rendered_None:
  assumes laws: "deletion_laws (ev_A V)" and P: "problem_laws (ev_E V)"
    and r: "delete_rendered V key values dataplane runtime dd dr w = Ret (w', None)"
  shows "(\<forall>m \<in> set (data_of V runtime). \<exists>r. a_Decode (ev_A V) m = Inr r \<and> going (ev_A V) w' Runtime r) \<and>
    (\<forall>m \<in> set (data_of V dataplane). \<exists>r. a_Decode (ev_A V) m = Inr r \<and> going (ev_A V) w' Dataplane r)"
proof -
  let ?s00 = "if length dr > 0 then delete_all V Runtime (data_of V runtime) (w, None) else (w, None)"
  let ?s0 = "if length dd > 0 then delete_all V Dataplane (data_of V dataplane) ?s00 else ?s00"
  let ?s1 = "delete_all V Runtime (data_of V runtime) ?s0"
  let ?s2 = "delete_all V Dataplane (data_of V dataplane) ?s1"
  let ?clean = "\<lambda>name. mode_Cleanup (rc_Mode (ev_rc V)) (ev_E V) (ev_A V) (rc_Options (ev_rc V))
      (request_context V key (fst ?s2)) name (fst ?s2)"
  have eq: "delete_rendered V key values dataplane runtime dd dr w =
      (if snd ?s0 \<noteq> None then Ret ?s0 else if snd ?s2 = None then
        (case values of
           Some v \<Rightarrow> (case field v ''dataplane'' ''name'' of Some (JStr name) \<Rightarrow> Ret (?clean name) | _ \<Rightarrow> Panic)
         | None \<Rightarrow> Panic) else Ret ?s2)"
    unfolding delete_rendered_def Let_def ..
  obtain s0 where s0: "?s0 = s0" by blast
  obtain s1 where s1: "delete_all V Runtime (data_of V runtime) s0 = s1" by blast
  obtain s2 where s2: "delete_all V Dataplane (data_of V dataplane) s1 = s2" by blast
  note eq' = eq [unfolded s0 s1 s2]
  from r eq' have n2: "snd s2 = None" by (auto split: if_splits)
  with r eq' obtain name where "mode_Cleanup (rc_Mode (ev_rc V)) (ev_E V) (ev_A V) (rc_Options (ev_rc V))
      (request_context V key (fst s2)) name (fst s2) = (w', None)"
    by (auto split: if_splits option.splits json.splits)
  then have w': "w' = fst (mode_Cleanup (rc_Mode (ev_rc V)) (ev_E V) (ev_A V) (rc_Options (ev_rc V))
      (request_context V key (fst s2)) name (fst s2))" by simp
  have d2: "snd s1 = None \<and> (\<forall>m \<in> set (data_of V dataplane). \<exists>r. a_Decode (ev_A V) m = Inr r \<and> going (ev_A V) (fst s2) Dataplane r)"
    using delete_all_None [OF laws P, of Dataplane "data_of V dataplane" s1] unfolding s2 using n2 .
  have d1: "\<forall>m \<in> set (data_of V runtime). \<exists>r. a_Decode (ev_A V) m = Inr r \<and> going (ev_A V) (fst s1) Runtime r"
    using conjunct2 [OF delete_all_None [OF laws P, of Runtime "data_of V runtime" s0, unfolded s1, OF conjunct1 [OF d2]]] .
  have keep2: "going (ev_A V) (fst s2) c r \<Longrightarrow> going (ev_A V) w' c r" for c r
    unfolding w' by (rule Cleanup_keeps [OF laws])
  have keep1: "going (ev_A V) (fst s1) c r \<Longrightarrow> going (ev_A V) w' c r" for c r
    using keep2 delete_all_keeps [OF laws, of s1] unfolding s2 [symmetric] by blast
  from d1 d2 keep1 keep2 show ?thesis by meson
qed

lemma DeleteExternalResources_None:
  assumes laws: "deletion_laws (ev_A V)" and P: "problem_laws (ev_E V)"
    and r: "DeleteExternalResources V key (w, z) = Some (Ret ((w', z'), None))"
  shows "\<exists>w0 v e dataplane runtime. request_Values V key True w = (w0, Some v, e) \<and>
    Render (ev_en V) (ev_ro V) (rc_Manifests (ev_rc V)) (Some v) = Some (Ret (Inr (dataplane, runtime))) \<and> z' = z \<and>
    (\<forall>m \<in> set (data_of V runtime). \<exists>r. a_Decode (ev_A V) m = Inr r \<and> going (ev_A V) w' Runtime r) \<and>
    (\<forall>m \<in> set (data_of V dataplane). \<exists>r. a_Decode (ev_A V) m = Inr r \<and> going (ev_A V) w' Dataplane r)"
proof -
  obtain w0 vals e where v: "request_Values V key True w = (w0, vals, e)" by (rule prod_cases3)
  from r v obtain dataplane runtime where
    rd: "Render (ev_en V) (ev_ro V) (rc_Manifests (ev_rc V)) vals = Some (Ret (Inr (dataplane, runtime)))"
    by (auto simp: DeleteExternalResources_def split: option.splits go.splits sum.splits)
  with r v obtain dd dr where "delete_rendered V key vals dataplane runtime dd dr w0 = Ret (w', None)" "z' = z"
    by (auto simp: DeleteExternalResources_def go_bind_Ret_iff split: option.splits go.splits prod.splits)
  note dr = this
  from dr(1) obtain v' where "vals = Some v'"
    by (cases vals) (auto simp: delete_rendered_def Let_def split: if_splits)
  with v rd dr delete_rendered_None [OF laws P dr(1)] show ?thesis by auto
qed

section \<open>What a deletion leaves alone\<close>

text \<open>
  A deletion changes the object only, the deletion of a secret no object of another kind and
  that of a namespace no object outside of it; the index and the creation of a secret change
  no object that is there. \<open>same\<close> says whether the data plane and the runtime are one cluster:
  then an object deleted in the one is deleted in the other.
\<close>

definition deletion_frame :: "bool \<Rightarrow> 'w api \<Rightarrow> bool" where
  "deletion_frame same A \<longleftrightarrow>
     (\<forall>w c r c' r'. \<not> (r' = r \<and> (c' = c \<or> same)) \<longrightarrow> a_Get A (fst (a_Delete A w c r)) c' r' = a_Get A w c' r') \<and>
     (\<forall>w k c r. or_Kind r \<noteq> ''Secret'' \<longrightarrow> a_Get A (fst (a_DeleteSecret A w k)) c r = a_Get A w c r) \<and>
     (\<forall>w s c r. or_Kind r \<noteq> ''Secret'' \<longrightarrow> a_Get A (fst (a_CreateSecret A w s)) c r = a_Get A w c r) \<and>
     (\<forall>w n c r. or_Kind r \<noteq> ''Namespace'' \<longrightarrow> ok_Namespace (or_Key r) \<noteq> n \<longrightarrow>
        a_Get A (fst (a_DeleteNamespace A w n)) c r = a_Get A w c r) \<and>
     (\<forall>w i u k c r. a_Get A (a_IndexAdd A w i u k) c r = a_Get A w c r) \<and>
     (\<forall>w i u k c r. a_Get A (a_IndexRemove A w i u k) c r = a_Get A w c r)"

lemma frame_delete: "deletion_frame same A \<Longrightarrow> \<not> (r' = r \<and> (c' = c \<or> same)) \<Longrightarrow> a_Get A (fst (a_Delete A w c r)) c' r' = a_Get A w c' r'"
  unfolding deletion_frame_def by metis

lemma frame_secret: "deletion_frame same A \<Longrightarrow> or_Kind r \<noteq> ''Secret'' \<Longrightarrow> a_Get A (fst (a_DeleteSecret A w k)) c r = a_Get A w c r"
  unfolding deletion_frame_def by metis

lemma frame_create: "deletion_frame same A \<Longrightarrow> or_Kind r \<noteq> ''Secret'' \<Longrightarrow> a_Get A (fst (a_CreateSecret A w s)) c r = a_Get A w c r"
  unfolding deletion_frame_def by metis

lemma frame_namespace: "deletion_frame same A \<Longrightarrow> or_Kind r \<noteq> ''Namespace'' \<Longrightarrow> ok_Namespace (or_Key r) \<noteq> n \<Longrightarrow>
    a_Get A (fst (a_DeleteNamespace A w n)) c r = a_Get A w c r"
  unfolding deletion_frame_def by metis

lemma frame_index:
  "deletion_frame same A \<Longrightarrow> a_Get A (a_IndexAdd A w i u k) c r = a_Get A w c r"
  "deletion_frame same A \<Longrightarrow> a_Get A (a_IndexRemove A w i u k) c r = a_Get A w c r"
  unfolding deletion_frame_def by metis+

lemma DeleteManifest_frame:
  assumes "deletion_frame same (ev_A V)" "c = cl \<or> same \<Longrightarrow> a_Decode (ev_A V) m \<noteq> Inr r"
  shows "a_Get (ev_A V) (fst (DeleteManifest V cl m w)) c r = a_Get (ev_A V) w c r"
proof -
  have "a_Get (ev_A V) (fst (a_Delete (ev_A V) w cl x)) c r = a_Get (ev_A V) w c r" if "a_Decode (ev_A V) m = Inr x" for x
    by (rule frame_delete [OF assms(1)]) (use that assms(2) in auto)
  then show ?thesis using DeleteManifest_world [of V cl m w] by (elim insertE) auto
qed

lemma delete_all_frame:
  assumes F: "deletion_frame same (ev_A V)"
  shows "(\<And>m. m \<in> set ms \<Longrightarrow> c = cl \<or> same \<Longrightarrow> a_Decode (ev_A V) m \<noteq> Inr r) \<Longrightarrow>
    a_Get (ev_A V) (fst (delete_all V cl ms s)) c r = a_Get (ev_A V) (fst s) c r"
proof (induction ms arbitrary: s)
  case Nil
  then show ?case by (cases s) simp
next
  case (Cons m ms)
  obtain w p where s: "s = (w, p)" by (rule prod.exhaust)
  obtain w' q where d: "DeleteManifest V cl m w = (w', q)" by (rule prod.exhaust)
  with DeleteManifest_frame [OF F, of c cl m r w] Cons.prems [of m] have "a_Get (ev_A V) w' c r = a_Get (ev_A V) w c r" by simp
  with Cons.IH [of "(w', x_AggregateProblem (ev_E V) p q)"] Cons.prems show ?case by (simp add: s d)
qed

lemma Cleanup_frame:
  assumes F: "deletion_frame same A" and k: "or_Kind r \<noteq> ''Secret''" "or_Kind r \<noteq> ''Namespace''"
    and n: "ok_Namespace (or_Key r) \<noteq> mode_RuntimeNamespace m E opts (cx_Id ctx) (cx_Key ctx)"
  shows "a_Get A (fst (mode_Cleanup m E A opts ctx name w)) c r = a_Get A w c r"
proof (cases m)
  case LocalMode
  then show ?thesis by (simp add: base_Cleanup_def frame_index [OF F])
next
  case RuntimeMode
  let ?key = "(ok_Namespace (cx_Key ctx), name)" and ?w = "base_Cleanup A ctx name w"
  have s: "a_Get A (fst (cleanup_secret E A ?key x)) c r = a_Get A x c r" for x
  proof -
    have "fst (cleanup_secret E A ?key x) \<in> {x, fst (a_DeleteSecret A x ?key)}"
      by (auto simp: cleanup_secret_def split: sum.splits prod.splits option.splits)
    then show ?thesis by (elim insertE emptyE) (simp_all only: frame_secret [OF F k(1)])
  qed
  have ns: "a_Get A (fst (cleanup_namespace E A ns x)) c r = a_Get A x c r" if "ok_Namespace (or_Key r) \<noteq> ns" for ns x
  proof -
    have "fst (cleanup_namespace E A ns x) \<in> {x, fst (a_DeleteNamespace A x ns)}"
      by (auto simp: cleanup_namespace_def Let_def split: sum.splits prod.splits option.splits)
    then show ?thesis by (elim insertE emptyE) (simp_all only: frame_namespace [OF F k(2) that])
  qed
  obtain w1 p b where cs: "cleanup_secret E A ?key ?w = (w1, p, b)" by (rule prod_cases3)
  have b: "a_Get A ?w c r = a_Get A w c r" by (simp add: base_Cleanup_def frame_index [OF F])
  with s [of ?w] cs have w1: "a_Get A w1 c r = a_Get A w c r" by simp
  have "fst (mode_Cleanup m E A opts ctx name w) \<in> {?w, w1,
      fst (cleanup_namespace E A (mode_RuntimeNamespace RuntimeMode E opts (cx_Id ctx) (cx_Key ctx)) w1)}"
    by (simp add: RuntimeMode Let_def cs del: mode_RuntimeNamespace.simps)
  then show ?thesis
    using b w1 ns [OF n [unfolded RuntimeMode], of w1] by (elim insertE emptyE) (simp_all only:)
qed

lemma Values_frame:
  assumes F: "deletion_frame same A" and k: "or_Kind r \<noteq> ''Secret''"
  shows "a_Get A (fst (Values E A opts m ctx d w)) c r = a_Get A w c r"
proof -
  let ?key = "(ok_Namespace (cx_Key ctx), BASE)"
  let ?a = "a_IndexAdd A w INDEX_SASECFRET (cx_Key ctx) ?key"
  have "fst (mode_AccessValues m A ctx BASE d w) \<in> {w, a_IndexRemove A w INDEX_SASECFRET (cx_Key ctx) ?key, ?a, fst (a_CreateSecret A ?a (new_secret ?key))}"
    by (cases m) (auto simp: Let_def split: sum.splits prod.splits)
  then have "a_Get A (fst (mode_AccessValues m A ctx BASE d w)) c r = a_Get A w c r"
    by (elim insertE emptyE) (simp_all only: frame_index [OF F] frame_create [OF F k])
  then show ?thesis by (auto simp: Values_def Let_def split: sum.splits prod.splits)
qed

lemma delete_rendered_frame:
  assumes F: "deletion_frame same (ev_A V)" and k: "or_Kind r \<noteq> ''Secret''" "or_Kind r \<noteq> ''Namespace''"
    and n: "ok_Namespace (or_Key r) \<noteq>
      mode_RuntimeNamespace (rc_Mode (ev_rc V)) (ev_E V) (rc_Options (ev_rc V)) (a_Id (ev_A V)) key"
    and run: "\<And>m. m \<in> set (data_of V runtime) \<Longrightarrow> c = Runtime \<or> same \<Longrightarrow> a_Decode (ev_A V) m \<noteq> Inr r"
    and dat: "\<And>m. m \<in> set (data_of V dataplane) \<Longrightarrow> c = Dataplane \<or> same \<Longrightarrow> a_Decode (ev_A V) m \<noteq> Inr r"
    and d: "delete_rendered V key vals dataplane runtime dd dr w = Ret (w', p)"
  shows "a_Get (ev_A V) w' c r = a_Get (ev_A V) w c r"
proof -
  let ?G = "\<lambda>w. a_Get (ev_A V) w c r"
  have R: "?G (fst (delete_all V Runtime (data_of V runtime) s)) = ?G (fst s)" for s
    by (rule delete_all_frame [OF F]) (use run in blast)
  have D: "?G (fst (delete_all V Dataplane (data_of V dataplane) s)) = ?G (fst s)" for s
    by (rule delete_all_frame [OF F]) (use dat in blast)
  have C: "?G (fst (mode_Cleanup (rc_Mode (ev_rc V)) (ev_E V) (ev_A V) (rc_Options (ev_rc V)) (request_context V key w0) name w1)) = ?G w1" for name w0 w1
    by (rule Cleanup_frame [OF F k]) (use n in \<open>simp add: request_context_def\<close>)
  let ?s00 = "if length dr > 0 then delete_all V Runtime (data_of V runtime) (w, None) else (w, None)"
  let ?s0 = "if length dd > 0 then delete_all V Dataplane (data_of V dataplane) ?s00 else ?s00"
  let ?s2 = "delete_all V Dataplane (data_of V dataplane) (delete_all V Runtime (data_of V runtime) ?s0)"
  have "w' = fst ?s0 \<or> w' = fst ?s2 \<or> (\<exists>w0 name. w' = fst (mode_Cleanup (rc_Mode (ev_rc V)) (ev_E V) (ev_A V)
      (rc_Options (ev_rc V)) (request_context V key w0) name (fst ?s2)))"
    using d unfolding delete_rendered_def Let_def
    by (auto split: if_splits option.splits json.splits intro: fst_eqD [symmetric] simp del: length_greater_0_conv) (metis fst_conv)+
  moreover have "?G (fst ?s0) = ?G w" using R D by simp
  ultimately show ?thesis using R D C by metis
qed

lemma DeleteExternalResources_frame:
  assumes F: "deletion_frame same (ev_A V)" and k: "or_Kind r \<noteq> ''Secret''" "or_Kind r \<noteq> ''Namespace''"
    and n: "ok_Namespace (or_Key r) \<noteq>
      mode_RuntimeNamespace (rc_Mode (ev_rc V)) (ev_E V) (rc_Options (ev_rc V)) (a_Id (ev_A V)) key"
    and rd: "Render (ev_en V) (ev_ro V) (rc_Manifests (ev_rc V)) (fst (snd (request_Values V key True w))) =
        Some (Ret (Inr (dataplane, runtime)))"
    and run: "\<And>m. m \<in> set (data_of V runtime) \<Longrightarrow> c = Runtime \<or> same \<Longrightarrow> a_Decode (ev_A V) m \<noteq> Inr r"
    and dat: "\<And>m. m \<in> set (data_of V dataplane) \<Longrightarrow> c = Dataplane \<or> same \<Longrightarrow> a_Decode (ev_A V) m \<noteq> Inr r"
    and d: "DeleteExternalResources V key (w, z) = Some (Ret ((w', z'), p))"
  shows "a_Get (ev_A V) w' c r = a_Get (ev_A V) w c r"
proof -
  obtain w0 vals e where v: "request_Values V key True w = (w0, vals, e)" by (rule prod_cases3)
  have w0: "a_Get (ev_A V) w0 c r = a_Get (ev_A V) w c r"
    using Values_frame [OF F k(1)] v unfolding request_Values_def by (metis fst_conv)
  from rd v have rd': "Render (ev_en V) (ev_ro V) (rc_Manifests (ev_rc V)) vals = Some (Ret (Inr (dataplane, runtime)))" by simp
  from d v rd' consider "w' = w0" |
    dd dr where "delete_rendered V key vals dataplane runtime dd dr w0 = Ret (w', p)"
    by (auto simp: DeleteExternalResources_def go_bind_Ret_iff split: option.splits go.splits prod.splits)
  then show ?thesis
  proof cases
    case 1
    with w0 show ?thesis by simp
  next
    case 2
    from delete_rendered_frame [OF F k n run dat this] w0 show ?thesis by simp
  qed
qed

lemma data_of_set: "iteration_order (ro_manifests (ev_ro V)) \<Longrightarrow> m \<in> set (data_of V ms) \<longleftrightarrow> (\<exists>n. (n, m) \<in> set ms)"
  by (force simp: data_of_def iteration_order_def)

lemma data_of_Nil: "iteration_order (ro_manifests (ev_ro V)) \<Longrightarrow> data_of V [] = []"
  using data_of_set [of V _ "[]"] by (metis empty_iff empty_set list.set_intros(1) neq_Nil_conv)

lemma data_of_all: "iteration_order (ro_manifests (ev_ro V)) \<Longrightarrow>
    (\<forall>m \<in> set (data_of V ms). P m) \<longleftrightarrow> (\<forall>(n, m) \<in> set ms. P m)"
  by (force simp: data_of_set)

section \<open>What the report says\<close>

lemma status_of_set [simp]: "map_option c_Status (zcond (zone_SetStatusCondition E c z) t) =
    (if t = c_Type c then Some (c_Status c) else map_option c_Status (zcond z t))" if "condition_laws E"
  by (simp add: zone_SetStatusCondition_def Let_def Set_eq [OF that])

lemma is_true_status: "is_true cs t \<longleftrightarrow> map_option c_Status (cond_of cs t) = Some ConditionTrue"
  by (auto simp: is_true_def split: option.splits)

abbreviation ztrue :: "hosted_zone \<Rightarrow> string \<Rightarrow> bool" where
  "ztrue z t \<equiv> is_true (zt_Conditions (z_Status z)) t"

lemma ztrue_set: "condition_laws E \<Longrightarrow> ztrue (zone_SetStatusCondition E c z) t \<longleftrightarrow>
    (if t = c_Type c then c_Status c = ConditionTrue else ztrue z t)"
  by (simp add: is_true_status)

lemma ztrue_NameServers [simp]: "ztrue (z\<lparr>z_Status := (z_Status z)\<lparr>zt_NameServers := n\<rparr>\<rparr>) t = ztrue z t"
  by simp

text \<open>When the deployment counts as running: ready replicas, or an unreadable deployment that did before.\<close>

definition running :: "'w api \<Rightarrow> 'w \<Rightarrow> object_key \<Rightarrow> hosted_zone \<Rightarrow> bool" where
  "running A w k z = (case a_GetDeployment A w k of
     Inr d \<Rightarrow> dp_ReadyReplicas d > 0 | Inl err \<Rightarrow> \<not> IsNotFound err \<and> ztrue z RuntimeConditionType)"

lemma report_deployment_true:
  assumes E: "condition_laws (ev_E V)"
  shows "ztrue (fst (report_deployment V w k z)) t \<longleftrightarrow>
    (if t = RuntimeConditionType then running (ev_A V) w k z else ztrue z t)"
  by (auto simp: report_deployment_def running_def isDeploymentReady_def ztrue_set [OF E] cond_def ConditionStatus_def Let_def
      split: sum.splits prod.splits)

definition names_of :: "('p, 'w, 'c) env \<Rightarrow> 'w \<Rightarrow> object_key \<Rightarrow> service option \<Rightarrow> string list" where
  "names_of V w key s = (case s of None \<Rightarrow> []
     | Some svc \<Rightarrow> fst (dns_GetCNames (rc_Handler (ev_rc V)) (ev_E V) (ev_A V) w key svc))"

lemma report_nameserver_true:
  assumes E: "condition_laws (ev_E V)" and P: "problem_laws (ev_E V)"
  shows "ztrue (fst (report_nameserver V w key s (z, sm))) t \<longleftrightarrow>
    (if t = NameserverConditionType then names_of V w key s \<noteq> [] else ztrue z t)"
proof (cases s)
  case None
  then show ?thesis by (simp add: report_nameserver_def names_of_def ztrue_set [OF E] cond_def)
next
  case (Some svc)
  obtain ns p where g: "dns_GetCNames (rc_Handler (ev_rc V)) (ev_E V) (ev_A V) w key svc = (ns, p)" by (rule prod.exhaust)
  with dns.names_or_problem [OF P, of "rc_Handler (ev_rc V)" "ev_A V" w key svc] have "p = None \<longleftrightarrow> ns \<noteq> []" by simp
  with Some g show ?thesis
    by (cases p) (auto simp: report_nameserver_def names_of_def ztrue_set [OF E] cond_def ConditionStatus_def Let_def)
qed

lemma report_nameserver_names:
  assumes P: "problem_laws (ev_E V)"
  shows "zt_NameServers (z_Status (fst (report_nameserver V w key s (z, sm)))) =
      (if names_of V w key s \<noteq> [] then names_of V w key s else zt_NameServers (z_Status z)) \<and>
    (snd (report_nameserver V w key s (z, sm)) = None \<longleftrightarrow> sm = None \<and> names_of V w key s \<noteq> [])"
proof (cases s)
  case None
  then show ?thesis
    by (simp add: report_nameserver_def names_of_def zone_SetStatusCondition_def Let_def Aggr_None [OF P])
next
  case (Some svc)
  obtain ns p where g: "dns_GetCNames (rc_Handler (ev_rc V)) (ev_E V) (ev_A V) w key svc = (ns, p)" by (rule prod.exhaust)
  with dns.names_or_problem [OF P, of "rc_Handler (ev_rc V)" "ev_A V" w key svc] have "p = None \<longleftrightarrow> ns \<noteq> []" by simp
  with Some g show ?thesis
    by (cases p) (auto simp: report_nameserver_def names_of_def zone_SetStatusCondition_def Let_def Aggr_None [OF P])
qed

lemma report_status_facts:
  assumes E: "condition_laws (ev_E V)" and P: "problem_laws (ev_E V)"
    and r: "report_status V w key f z = (z', sm)"
  shows "zt_State (z_Status z') = STATE_READY \<longleftrightarrow>
      ztrue z ValidationConditionType \<and> ztrue z ServerConditionType \<and>
      running (ev_A V) w (fd_Deployment f) z \<and> names_of V w key (fd_Service f) \<noteq> []"
    and "sm = None \<longleftrightarrow> (\<exists>d. a_GetDeployment (ev_A V) w (fd_Deployment f) = Inr d) \<and> names_of V w key (fd_Service f) \<noteq> []"
    and "names_of V w key (fd_Service f) \<noteq> [] \<Longrightarrow> zt_NameServers (z_Status z') = names_of V w key (fd_Service f)"
proof -
  obtain z1 s1 where d: "report_deployment V w (fd_Deployment f) z = (z1, s1)" by (rule prod.exhaust)
  obtain z2 s2 where n: "report_nameserver V w key (fd_Service f) (z1, s1) = (z2, s2)" by (rule prod.exhaust)
  from r d n have z': "z' = summary (ev_E V) z2" and sm: "sm = s2" by (simp_all add: report_status_def)
  have t1: "ztrue z1 t \<longleftrightarrow> (if t = RuntimeConditionType then running (ev_A V) w (fd_Deployment f) z else ztrue z t)" for t
    using report_deployment_true [OF E, of w "fd_Deployment f" z t] d by simp
  have t2: "ztrue z2 t \<longleftrightarrow> (if t = NameserverConditionType then names_of V w key (fd_Service f) \<noteq> [] else ztrue z1 t)" for t
    using report_nameserver_true [OF E P, of w key "fd_Service f" z1 s1 t] n by simp
  have "zt_State (z_Status z') = fst (summary_of (ev_E V) (zt_Conditions (z_Status z2)))"
    by (simp add: z' summary_def Let_def split_def)
  then show "zt_State (z_Status z') = STATE_READY \<longleftrightarrow> ztrue z ValidationConditionType \<and> ztrue z ServerConditionType \<and>
      running (ev_A V) w (fd_Deployment f) z \<and> names_of V w key (fd_Service f) \<noteq> []"
    by (simp add: summary_of_ready [OF E] all_true_def t2 t1) (auto simp: condition_type_defs)
  have "s1 = None \<longleftrightarrow> (\<exists>d. a_GetDeployment (ev_A V) w (fd_Deployment f) = Inr d)"
    using d Aggr_None [OF P] temp_None_iff [OF P]
    by (cases "a_GetDeployment (ev_A V) w (fd_Deployment f)") (auto simp: report_deployment_def Let_def split: prod.splits if_splits)
  with report_nameserver_names [OF P, of w key "fd_Service f" z1 s1] n sm
  show "sm = None \<longleftrightarrow> (\<exists>d. a_GetDeployment (ev_A V) w (fd_Deployment f) = Inr d) \<and> names_of V w key (fd_Service f) \<noteq> []" by simp
  show "zt_NameServers (z_Status z') = names_of V w key (fd_Service f)" if "names_of V w key (fd_Service f) \<noteq> []"
    using report_nameserver_names [OF P, of w key "fd_Service f" z1 s1] n that
    by (simp add: z' summary_def Let_def split_def)
qed

section \<open>Properties\<close>

text \<open>The external cleanup succeeds only if everything it rendered is gone or going: when
  \<open>DeleteExternalResources\<close> reports no problem, the values were complete, every standard manifest
  could be decoded and its object is gone or marked for deletion, in the runtime cluster for
  the runtime manifests and in the data plane for the others; the zone is not changed.\<close>

theorem deletion_complete:
  assumes "deletion_laws (ev_A V)" "problem_laws (ev_E V)" "iteration_order (ro_manifests (ev_ro V))"
    and "DeleteExternalResources V key (w, z) = Some (Ret ((w', z'), None))"
  shows "z' = z \<and> (\<exists>w0 v e dataplane runtime. request_Values V key True w = (w0, Some v, e) \<and>
    Render (ev_en V) (ev_ro V) (rc_Manifests (ev_rc V)) (Some v) = Some (Ret (Inr (dataplane, runtime))) \<and>
    (\<forall>(n, m) \<in> set runtime. \<exists>r. a_Decode (ev_A V) m = Inr r \<and> going (ev_A V) w' Runtime r) \<and>
    (\<forall>(n, m) \<in> set dataplane. \<exists>r. a_Decode (ev_A V) m = Inr r \<and> going (ev_A V) w' Dataplane r))"
  using DeleteExternalResources_None [OF assms(1,2,4)] unfolding data_of_all [OF assms(3)]
  by (elim exE conjE) (intro conjI exI, assumption+)

text \<open>
  A test environment: a manifest is the name of its object, and the standard manifests are a
  deployment, a service and a configuration.
\<close>

definition test_engine :: "unit engine" where
  "test_engine = eager_engine\<lparr>
     en_Unmarshal := \<lambda>_ k data. Inr (YMap [(''kind'', YStr data), (''metadata'', YMap [(''labels'',
       YMap [(''target'', YStr (if data = ''config'' then ''dataplane'' else ''runtime''))])])]),
     en_Marshal := \<lambda>_ n. Inr (case n of YMap ((_, YStr k) # _) \<Rightarrow> k | _ \<Rightarrow> [])\<rparr>"

definition test_fs :: embed_fs where
  "test_fs = \<lparr>fs_ReadDir = \<lambda>_. Inr [(''entry.yaml'', False)], fs_ReadFile = \<lambda>_. Inr ''entry''\<rparr>"

definition test_env :: "dns_handler \<Rightarrow> (ref_problem, store, unit) env" where
  "test_env h = \<lparr>ev_D = ref_dns, ev_E = ref_ext, ev_A = ref_api, ev_en = test_engine, ev_ro = id_orders,
     ev_Owner = \<lambda>_. no_modifier,
     ev_rc = \<lparr>rc_Options = NewOptions, rc_Handler = h, rc_Mode = LocalMode, rc_Finalizer = ''fin'',
       rc_Manifests = [(''a'', ''deploy''), (''b'', ''svc''), (''c'', ''config'')], rc_Files = test_fs\<rparr>\<rparr>"

definition deployed_store :: store where
  "deployed_store = empty_store\<lparr>st_objs := map (\<lambda>m. (manifest_ref m, named ''default'' m))
     [''deploy'', ''svc'', ''config'', ''entry'']\<rparr>"

lemma map_of_AList_delete: "map_of (AList.delete k m) j = (if j = k then None else map_of m j)"
  by (simp add: delete_conv')

lemma ref_deletion_laws: "deletion_laws ref_api"
  by (simp add: deletion_laws_def ref_api_def going_def lookup_def map_of_AList_delete not_found_def)

lemma ref_deletion_frame: "deletion_frame True ref_api"
  by (simp add: deletion_frame_def ref_api_def lookup_def map_of_AList_delete)

lemma test_env_sel [simp]: "ev_A (test_env h) = ref_api" "ev_E (test_env h) = ref_ext" "ev_ro (test_env h) = id_orders"
  by (simp_all add: test_env_def)

lemma test_order: "iteration_order (ro_manifests id_orders)"
  by (simp add: id_orders_def iteration_order_id)

theorem deletion_complete_witness:
  "\<exists>s. DeleteExternalResources (test_env DnsLoadbalancer) (''default'', ''z'') (deployed_store, None) = Some (Ret ((s, None), None)) \<and>
     going ref_api s Runtime (manifest_ref ''svc'') \<and> \<not> going ref_api deployed_store Runtime (manifest_ref ''svc'')"
proof -
  let ?V = "test_env DnsLoadbalancer"
  let ?r = "DeleteExternalResources ?V (''default'', ''z'') (deployed_store, None)"
  let ?s = "case ?r of Some (Ret ((s, _), _)) \<Rightarrow> s"
  have r: "?r = Some (Ret ((?s, None), None))" by code_simp
  have v: "Render (ev_en ?V) (ev_ro ?V) (rc_Manifests (ev_rc ?V)) (fst (snd (request_Values ?V (''default'', ''z'') True deployed_store)))
      = Some (Ret (Inr ([(''c'', ''config'')], [(''a'', ''deploy''), (''b'', ''svc'')])))" by code_simp
  have n: "\<not> going ref_api deployed_store Runtime (manifest_ref ''svc'')" by code_simp
  have "a_Decode ref_api ''svc'' = Inr (manifest_ref ''svc'')" by code_simp
  with deletion_complete [of ?V, OF _ _ _ r] v n r show ?thesis
    by (auto simp: ref_deletion_laws ref_problem_laws test_order)
qed

text \<open>C28: the resources of the DNS mode outlive the zone: whatever a deletion returns, an object
  that no standard manifest describes is left as it was (unless it is a secret or a namespace or
  lies in the namespace generated for the runtime), so also every object of the manifests the
  DNS mode rendered for the deletion. For two clusters the standard manifests meant are those of
  the object's cluster; if the data plane and the runtime are one cluster, as the local mode
  demands, those of both kinds.\<close>

theorem deletion_leaves_others:
  assumes "deletion_frame same (ev_A V)" "iteration_order (ro_manifests (ev_ro V))"
    and "or_Kind r \<notin> {''Secret'', ''Namespace''}"
    and "ok_Namespace (or_Key r) \<noteq> mode_RuntimeNamespace (rc_Mode (ev_rc V)) (ev_E V) (rc_Options (ev_rc V)) (a_Id (ev_A V)) key"
    and "Render (ev_en V) (ev_ro V) (rc_Manifests (ev_rc V)) (fst (snd (request_Values V key True w))) =
        Some (Ret (Inr (dataplane, runtime)))"
    and "c = Runtime \<or> same \<longrightarrow> (\<forall>(n, m) \<in> set runtime. a_Decode (ev_A V) m \<noteq> Inr r)"
    and "c = Dataplane \<or> same \<longrightarrow> (\<forall>(n, m) \<in> set dataplane. a_Decode (ev_A V) m \<noteq> Inr r)"
    and "DeleteExternalResources V key (w, z) = Some (Ret ((w', z'), p))"
  shows "a_Get (ev_A V) w' c r = a_Get (ev_A V) w c r"
  by (rule DeleteExternalResources_frame [OF assms(1) _ _ assms(4,5) _ _ assms(8)])
    (use assms(3,6,7) in \<open>auto simp: data_of_set [OF assms(2)]\<close>)

definition entry_handler :: dns_handler where
  "entry_handler = DnsKubedns ''example.org'' ''dns'' ''dns-system''"

theorem deletion_leaves_others_witness:
  "(\<exists>dr. dns_Manifests entry_handler ref_ext test_engine id_orders test_fs \<lparr>dx_Key = (''zones'', ''z''), dx_Service = None, dx_Delete = True\<rparr>
      (Some []) = Some (Ret ([], dr, None)) \<and> map snd dr = [''entry'']) \<and>
   mode_Validate (rc_Mode (ev_rc (test_env entry_handler))) True = None \<and>
   (\<exists>s. DeleteExternalResources (test_env entry_handler) (''zones'', ''z'') (deployed_store, None) = Some (Ret ((s, None), None)) \<and>
     a_Get ref_api s Runtime (manifest_ref ''entry'') = a_Get ref_api deployed_store Runtime (manifest_ref ''entry''))"
proof (intro conjI)
  show "mode_Validate (rc_Mode (ev_rc (test_env entry_handler))) True = None" by code_simp
  show "\<exists>dr. dns_Manifests entry_handler ref_ext test_engine id_orders test_fs \<lparr>dx_Key = (''zones'', ''z''), dx_Service = None, dx_Delete = True\<rparr>
      (Some []) = Some (Ret ([], dr, None)) \<and> map snd dr = [''entry'']"
    by (intro exI [of _ "[(''entry.yaml'', ''entry'')]"]) code_simp
  let ?V = "test_env entry_handler"
  let ?r = "DeleteExternalResources ?V (''zones'', ''z'') (deployed_store, None)"
  let ?s = "case ?r of Some (Ret ((s, _), _)) \<Rightarrow> s"
  have r: "?r = Some (Ret ((?s, None), None))" by code_simp
  have v: "Render (ev_en ?V) (ev_ro ?V) (rc_Manifests (ev_rc ?V)) (fst (snd (request_Values ?V (''zones'', ''z'') True deployed_store)))
      = Some (Ret (Inr ([(''c'', ''config'')], [(''a'', ''deploy''), (''b'', ''svc'')])))" by code_simp
  have d: "\<forall>(n, m) \<in> set [(''a'', ''deploy''), (''b'', ''svc'')]. a_Decode ref_api m \<noteq> Inr (manifest_ref ''entry'')"
    "\<forall>(n, m) \<in> set [(''c'', ''config'')]. a_Decode ref_api m \<noteq> Inr (manifest_ref ''entry'')" by code_simp+
  have k: "or_Kind (manifest_ref ''entry'') \<notin> {''Secret'', ''Namespace''}"
    "ok_Namespace (or_Key (manifest_ref ''entry'')) \<noteq> mode_RuntimeNamespace (rc_Mode (ev_rc ?V)) (ev_E ?V) (rc_Options (ev_rc ?V)) (a_Id (ev_A ?V)) (''zones'', ''z'')"
    by code_simp+
  have "a_Get (ev_A ?V) ?s Runtime (manifest_ref ''entry'') = a_Get (ev_A ?V) deployed_store Runtime (manifest_ref ''entry'')"
    by (rule deletion_leaves_others [OF _ _ k v _ _ r, where same = True]) (use d in \<open>simp_all add: ref_deletion_frame test_order\<close>)
  with r show "\<exists>s. ?r = Some (Ret ((s, None), None)) \<and>
      a_Get ref_api s Runtime (manifest_ref ''entry'') = a_Get ref_api deployed_store Runtime (manifest_ref ''entry'')" by auto
qed

text \<open>C17: the report at the end of a reconciliation calls the zone Ready exactly if the validation
  and the DNS server conditions were true before, the deployment has ready replicas (or cannot
  be read for another reason than its absence, while the Runtime condition was true before) and
  the DNS mode gives name server names for a service that was found; these names are then
  stored, and no problem is left exactly if also the deployment could be read.\<close>

theorem report_status_ready:
  assumes "condition_laws (ev_E V)" "problem_laws (ev_E V)" "report_status V w key f z = (z', sm)"
  shows "(zt_State (z_Status z') = STATE_READY \<longleftrightarrow>
      ztrue z ValidationConditionType \<and> ztrue z ServerConditionType \<and>
      running (ev_A V) w (fd_Deployment f) z \<and> names_of V w key (fd_Service f) \<noteq> []) \<and>
    (sm = None \<longleftrightarrow> (\<exists>d. a_GetDeployment (ev_A V) w (fd_Deployment f) = Inr d) \<and> names_of V w key (fd_Service f) \<noteq> []) \<and>
    (names_of V w key (fd_Service f) \<noteq> [] \<longrightarrow> zt_NameServers (z_Status z') = names_of V w key (fd_Service f))"
  using report_status_facts [OF assms] by blast

definition lb_service :: service where
  "lb_service = \<lparr>sv_Type = ''LoadBalancer'', sv_Ingress = [\<lparr>in_IP = [], in_Hostname = ''lb.example.org''\<rparr>]\<rparr>"

definition running_store :: store where
  "running_store = empty_store\<lparr>st_deployments := [((''default'', ''deploy''), \<lparr>dp_Conditions = [], dp_ReadyReplicas = 1\<rparr>)],
     st_services := [((''default'', ''svc''), lb_service)]\<rparr>"

definition found_both :: applied where
  "found_both = \<lparr>fd_Deployment = (''default'', ''deploy''), fd_Service = Some lb_service\<rparr>"

theorem report_status_ready_witness:
  "zt_State (z_Status (fst (report_status (test_env DnsLoadbalancer) running_store (''default'', ''z'') found_both
     (ZoneA\<lparr>z_Status := zero_zone_status\<lparr>zt_Conditions := ready_conditions\<rparr>\<rparr>)))) = STATE_READY"
proof -
  let ?V = "test_env DnsLoadbalancer" and ?z = "ZoneA\<lparr>z_Status := zero_zone_status\<lparr>zt_Conditions := ready_conditions\<rparr>\<rparr>"
  have p: "ztrue ?z ValidationConditionType" "ztrue ?z ServerConditionType"
    "running (ev_A ?V) running_store (fd_Deployment found_both) ?z"
    "names_of ?V running_store (''default'', ''z'') (fd_Service found_both) \<noteq> []" by code_simp+
  show ?thesis
    using report_status_ready [OF _ _ prod.collapse [symmetric], of ?V running_store "(''default'', ''z'')" found_both ?z] p
    by (simp add: ref_condition_laws ref_problem_laws)
qed

text \<open>With the kubedns mode a reconciliation panics whenever it applied the standard manifests
  without having read a service, for instance because the service just created is not in the
  cache yet; the other modes report the missing service as a condition.\<close>

theorem service_missing:
  assumes "iteration_order (ro_manifests (ev_ro V))" "fd_Service f = None"
  shows "handle_dns V key values f (w, z) =
     (case rc_Handler (ev_rc V) of
        DnsKubedns _ _ _ \<Rightarrow> Some Panic
      | _ \<Rightarrow> Some (Ret ((w, fst (report_status V w key f z)), snd (report_status V w key f z))))"
  using assms(2) data_of_Nil [OF assms(1)]
  by (cases "rc_Handler (ev_rc V)") (simp_all add: handle_dns_def split: prod.splits)

theorem service_missing_witness:
  "handle_dns (test_env entry_handler) (''default'', ''z'') (Some []) \<lparr>fd_Deployment = ([], []), fd_Service = None\<rparr>
     (empty_store, ZoneA) = Some Panic"
proof -
  have h: "rc_Handler (ev_rc (test_env entry_handler)) = entry_handler" by (simp add: test_env_def)
  show ?thesis
    by (subst service_missing) (simp_all add: test_order h, simp add: entry_handler_def)
qed

end
