(* ===== verification/Direct_Zone.thy ===== *)
theory Direct_Zone
  imports Direct_Resources
begin

text \<open>
  The requests of the data plane controller for hosted zones (request.go and reconciler.go in
  internal/controller/direct/hostedzone, reconciler.go in internal/controller/direct/common): the
  decision whether the controller is responsible, the handling of the finalizer, the validation,
  the registration of the responsibility in the status, and the triggers. An object is a zone
  or, for a deleted one, nothing; the result has the world, the object and a problem.
\<close>

section \<open>Indices and triggers\<close>

record direct_indices =
  di_ParentIndex :: "string \<Rightarrow> string \<Rightarrow> go_error + hosted_zone list"
  di_EntryIndex :: "string \<Rightarrow> string \<Rightarrow> go_error + coredns_entry list"

text \<open>The reconcilers are created with both indices, or not at all (common.NewReconciler).\<close>

definition NewReconciler ::
    "(go_error + (string \<Rightarrow> string \<Rightarrow> go_error + hosted_zone list)) \<Rightarrow> (go_error + (string \<Rightarrow> string \<Rightarrow> go_error + coredns_entry list))
     \<Rightarrow> go_error + direct_indices" where
  "NewReconciler pidx eidx =
     (case pidx of
        Inl err \<Rightarrow> Inl err
      | Inr p \<Rightarrow> (case eidx of Inl err \<Rightarrow> Inl err | Inr e \<Rightarrow> Inr \<lparr>di_ParentIndex = p, di_EntryIndex = e\<rparr>))"

definition direct_GetNestedZones :: "direct_indices \<Rightarrow> string \<Rightarrow> string \<Rightarrow> go_error + hosted_zone list" where
  "direct_GetNestedZones r ns n = di_ParentIndex r ns n"

definition direct_GetEntriesForZone :: "direct_indices \<Rightarrow> string \<Rightarrow> string \<Rightarrow> go_error + coredns_entry list" where
  "direct_GetEntriesForZone r ns n = di_EntryIndex r ns n"

definition direct_TriggerChildren :: "direct_indices \<Rightarrow> object_key \<Rightarrow> queued list \<Rightarrow> queued list \<times> go_error option" where
  "direct_TriggerChildren r obj q =
     (case direct_GetNestedZones r (ok_Namespace obj) (ok_Name obj) of
        Inl err \<Rightarrow> (q, Some err)
      | Inr children \<Rightarrow> (foldl (\<lambda>q c. q @ [QZone (zone_namespace c, zone_name c)]) q children, None))"

definition direct_TriggerEntries :: "direct_indices \<Rightarrow> object_key \<Rightarrow> queued list \<Rightarrow> queued list \<times> go_error option" where
  "direct_TriggerEntries r obj q =
     (case direct_GetEntriesForZone r (ok_Namespace obj) (ok_Name obj) of
        Inl err \<Rightarrow> (q, Some err)
      | Inr entries \<Rightarrow> (foldl (\<lambda>q c. q @ [QEntry (entry_namespace c, entry_name c)]) q entries, None))"

text \<open>The requests drop the errors of the triggers.\<close>

definition direct_trigger :: "direct_indices \<Rightarrow> object_key \<Rightarrow> queued list \<Rightarrow> queued list" where
  "direct_trigger r key q = fst (direct_TriggerEntries r key (fst (direct_TriggerChildren r key q)))"

text \<open>\<open>p\<close> is the result of the update of the status by the framework's request.\<close>

definition direct_UpdateStatus :: "direct_indices \<Rightarrow> object_key \<Rightarrow> 'p option \<Rightarrow> queued list \<Rightarrow> queued list \<times> 'p option" where
  "direct_UpdateStatus r key p q = (if p = None then direct_trigger r key q else q, p)"

text \<open>An unset original stands for an object created by the request.\<close>

definition direct_UpdateObject ::
    "'w api \<Rightarrow> direct_indices \<Rightarrow> object_key \<Rightarrow> hosted_zone option \<Rightarrow> hosted_zone \<Rightarrow> 'w \<Rightarrow> queued list
     \<Rightarrow> 'w \<times> queued list \<times> go_error option" where
  "direct_UpdateObject A r key orig obj w q =
     (if (case orig of None \<Rightarrow> False | Some orig \<Rightarrow> z_Status obj \<noteq> z_Status orig) then
        (case a_UpdateStatus A w obj of
           (w, Some err) \<Rightarrow> (w, q, Some (err\<lparr>Error := ''failed to update changed status: '' @ Error err\<rparr>))
         | (w, None) \<Rightarrow> (w, direct_trigger r key q, None))
      else
        (w, if (case orig of None \<Rightarrow> True | Some orig \<Rightarrow> deleted (z_Meta orig)) then direct_trigger r key q else q, None))"

section \<open>Deleting\<close>

text \<open>The patch takes the change of the metadata from the original to the object.\<close>

definition zone_delete ::
    "('p, 'w, 'c) env \<Rightarrow> object_key \<Rightarrow> 'w \<times> hosted_zone option \<Rightarrow> (('w \<times> hosted_zone option) \<times> 'p option) go option" where
  "zone_delete V key = (\<lambda>(w, obj).
     (if (case obj of None \<Rightarrow> True | Some z \<Rightarrow> x_ContainsFinalizer (ev_E V) (z_Meta z) (rc_Finalizer (ev_rc V))) then
        (case DeleteExternalResources V key (w, obj) of
           None \<Rightarrow> None
         | Some Panic \<Rightarrow> Some Panic
         | Some (Ret ((w, obj), Some prob)) \<Rightarrow> Some (Ret ((w, obj), Some prob))
         | Some (Ret ((w, obj), None)) \<Rightarrow>
             Some (Ret
               (case obj of
                  None \<Rightarrow> ((w, None), None)
                | Some z \<Rightarrow>
                    (case x_RemoveFinalizer (ev_E V) (z_Meta z) (rc_Finalizer (ev_rc V)) of
                       (m, False) \<Rightarrow> ((w, Some z), None)
                     | (m, True) \<Rightarrow>
                         (case a_PatchMeta (ev_A V) w (z_Meta z) m of
                            (w, Some err) \<Rightarrow> ((w, Some (z\<lparr>z_Meta := m\<rparr>)),
                              x_TemporaryProblem (ev_E V) (IgnoreNotFound (Some err)))
                          | (w, None) \<Rightarrow> ((w, Some (z\<lparr>z_Meta := m\<rparr>)), None))))))
      else Some (Ret ((w, obj), None))))"

definition direct_ReconcileDeleting ::
    "('p, 'w, 'c) env \<Rightarrow> object_key \<Rightarrow> 'w \<times> hosted_zone option \<Rightarrow> (('w \<times> hosted_zone option) \<times> 'p option) go option" where
  "direct_ReconcileDeleting V key s = zone_delete V key s"

definition direct_ReconcileDeleted ::
    "('p, 'w, 'c) env \<Rightarrow> direct_indices \<Rightarrow> object_key \<Rightarrow> 'w \<Rightarrow> queued list
     \<Rightarrow> queued list \<times> (('w \<times> hosted_zone option) \<times> 'p option) go option" where
  "direct_ReconcileDeleted V r key w q = (fst (direct_TriggerEntries r key q), zone_delete V key (w, None))"

section \<open>Responsibility\<close>

definition ChangedResponsibility :: "('p, 'w, 'c) env \<Rightarrow> hosted_zone option \<Rightarrow> bool" where
  "ChangedResponsibility V obj =
     (case obj of
        None \<Rightarrow> True
      | Some z \<Rightarrow>
          if \<not> x_ContainsFinalizer (ev_E V) (z_Meta z) (rc_Finalizer (ev_rc V)) then False
          else if zone_parent z \<noteq> [] then True
          else case zt_Observed (z_Status z) of
                 None \<Rightarrow> False
               | Some ob \<Rightarrow> ob_Runtime ob \<noteq> hz_String (zs_Runtime (z_Spec z)) [] \<or>
                   ob_Class ob \<noteq> hz_String (zs_Class (z_Spec z)) [])"

text \<open>The decision and the object, whose Validation condition tells of a dangling reference.\<close>

type_synonym 'p decision = "bool \<times> responsibility option \<times> 'p option"

definition IsResponsibile ::
    "('p, 'w, 'c) env \<Rightarrow> 'w \<Rightarrow> hosted_zone option \<Rightarrow> ('p decision \<times> hosted_zone option) go option" where
  "IsResponsibile V w obj =
     (case obj of
        None \<Rightarrow> Some (Ret ((True, None, None), None))
      | Some z \<Rightarrow>
          (let force = x_ContainsFinalizer (ev_E V) (z_Meta z) (rc_Finalizer (ev_rc V))
           in case GetRootInfo (ev_D V) (ev_E V) (a_GetZone (ev_A V) w) z None of
                None \<Rightarrow> None
              | Some ((info, ok, prob), _) \<Rightarrow>
                  Some
                    (case (case prob of None \<Rightarrow> None | Some p \<Rightarrow> map_option (Pair p) (x_ErrorOf (ev_E V) p)) of
                       Some (p, err) \<Rightarrow>
                         Ret (if x_Requeue (ev_E V) p then ((False, None, prob), Some z)
                              else if ok then ((False, None, None), Some (zone_SetStatusCondition (ev_E V)
                                (cond ValidationConditionType ConditionFalse ReasonInvalidParent (Error err)) z))
                              else ((False, None, prob), Some z))
                     | None \<Rightarrow>
                         (case info of
                            None \<Rightarrow> Panic
                          | Some info \<Rightarrow>
                              (case rs_Root info of
                                 None \<Rightarrow> Panic
                               | Some root \<Rightarrow>
                                   Ret ((if force then True
                                         else case zt_Observed (z_Status root) of
                                                None \<Rightarrow> Check info (do_Class (rc_Options (ev_rc V))) (do_Runtime (rc_Options (ev_rc V)))
                                              | Some ob \<Rightarrow>
                                                  ob_Class ob = hz_String (do_Class (rc_Options (ev_rc V))) [] \<and>
                                                  ob_Runtime ob = hz_String (do_Runtime (rc_Options (ev_rc V))) [],
                                         Some info, None), Some z))))))"

section \<open>Reconcile\<close>

text \<open>
  The pointer comparison of \<open>SetPointerField\<close>: without a parent the field's own pointer is
  written back, or a new one where there was none; with a parent a nil pointer is written.
\<close>

definition registered :: "('p, 'w, 'c) env \<Rightarrow> hosted_zone \<Rightarrow> observed option \<times> bool" where
  "registered V z =
     (if zone_parent z = [] then
        (case zt_Observed (z_Status z) of
           None \<Rightarrow> (Some \<lparr>ob_Class = hz_String (do_Class (rc_Options (ev_rc V))) [],
             ob_Runtime = hz_String (do_Runtime (rc_Options (ev_rc V))) []\<rparr>, False)
         | Some ob \<Rightarrow> (Some ob, True))
      else (None, zt_Observed (z_Status z) = None))"

definition handleObject ::
    "('p, 'w, 'c) env \<Rightarrow> object_key \<Rightarrow> responsibility \<Rightarrow> 'w \<times> hosted_zone \<Rightarrow> ('p, 'w) handled go option" where
  "handleObject V key root = (\<lambda>(w, z).
     (case zone_Validate (ev_E V) z root of
        (reason, Some err) \<Rightarrow>
          Some (Ret ((w, if reason \<noteq> [] then zone_SetStatusCondition (ev_E V)
               (cond ValidationConditionType ConditionFalse reason err) z else z), Some (x_Failed (ev_E V) (Errorf err))))
      | (reason, None) \<Rightarrow>
          (case registered V z of
             (ob, same) \<Rightarrow>
               (let z = zone_SetStatusCondition (ev_E V) (cond ValidationConditionType ConditionTrue reason
                      ''The HostedZone specification passed all validation checks.'') z;
                    z = z\<lparr>z_Status := (z_Status z)\<lparr>zt_Observed :=
                      fst (SetPointerField Observed_Equals same (zt_Observed (z_Status z)) ob)\<rparr>\<rparr>
                in if zone_parent z \<noteq> [] then
                     Some (case rs_Root root of
                       None \<Rightarrow> Panic
                     | Some r \<Rightarrow> Ret ((w, transferConditions (ev_E V) (zt_Conditions (z_Status r)) z), None))
                   else HandleExternalResources V key (w, z)))))"

text \<open>The metadata after the step for the finalizer, which a root zone gets and a nested one loses.\<close>

definition finalizer_step :: "('p, 'w, 'c) env \<Rightarrow> hosted_zone \<Rightarrow> object_meta \<times> bool" where
  "finalizer_step V z =
     (if zone_parent z \<noteq> [] then x_RemoveFinalizer (ev_E V) (z_Meta z) (rc_Finalizer (ev_rc V))
      else x_AddFinalizer (ev_E V) (z_Meta z) (rc_Finalizer (ev_rc V)))"

definition lift_zone :: "('p, 'w) handled go option \<Rightarrow> (('w \<times> hosted_zone option) \<times> 'p option) go option" where
  "lift_zone r = map_option (\<lambda>r. go_bind r (\<lambda>((w, z), p). Ret ((w, Some z), p))) r"

definition direct_Reconcile ::
    "('p, 'w, 'c) env \<Rightarrow> object_key \<Rightarrow> 'w \<times> hosted_zone \<Rightarrow> (('w \<times> hosted_zone option) \<times> 'p option) go option" where
  "direct_Reconcile V key = (\<lambda>(w, z).
     (if \<not> IsASCIIAlnumString (hz_String (zs_Runtime (z_Spec z)) []) \<or> \<not> IsASCIIAlnumString (hz_String (zs_Class (z_Spec z)) []) then
        Some (Ret ((w, Some (zone_SetStatusCondition (ev_E V)
          ((cond ValidationConditionType ConditionFalse ReasonInvalidParent
             ''class and runtime must use ASCII alphanumeric characters, only.'')\<lparr>c_ObservedGeneration := om_Generation (z_Meta z)\<rparr>) z)), None))
      else
        (case IsResponsibile V w (Some z) of
           None \<Rightarrow> None
         | Some Panic \<Rightarrow> Some Panic
         | Some (Ret ((ok, root, prob), obj)) \<Rightarrow>
             if \<not> ok \<or> prob \<noteq> None then Some (Ret ((w, obj), prob))
             else if ChangedResponsibility V obj then zone_delete V key (w, obj)
             else
               (case (obj, root) of
                  (Some z, Some root) \<Rightarrow>
                    (case finalizer_step V z of
                       (m, True) \<Rightarrow>
                         (case a_PatchMeta (ev_A V) w (z_Meta z) m of
                            (w, Some err) \<Rightarrow> Some (Ret ((w, Some (z\<lparr>z_Meta := m\<rparr>)),
                              x_TemporaryProblem (ev_E V) (IgnoreNotFound (Some err))))
                          | (w, None) \<Rightarrow> lift_zone (handleObject V key root (w, z\<lparr>z_Meta := m\<rparr>)))
                     | (m, False) \<Rightarrow> lift_zone (handleObject V key root (w, z)))
                | _ \<Rightarrow> Some Panic))))"

section \<open>What a request leaves of a zone\<close>

text \<open>Everything but the reported status: spec, metadata and the registered responsibility.\<close>

definition zframe :: "hosted_zone \<Rightarrow> hosted_zone \<Rightarrow> bool" where
  "zframe z z' \<longleftrightarrow> z_Spec z' = z_Spec z \<and> z_Meta z' = z_Meta z \<and> zt_Observed (z_Status z') = zt_Observed (z_Status z)"

lemma zframe_refl [simp]: "zframe z z"
  by (simp add: zframe_def)

lemma zframe_trans: "zframe x y \<Longrightarrow> zframe y z \<Longrightarrow> zframe x z"
  by (simp add: zframe_def)

lemma zframe_cond [simp]: "zframe x (zone_SetStatusCondition E c z) \<longleftrightarrow> zframe x z"
  by (simp add: zframe_def zone_SetStatusCondition_def Let_def)

lemma zframe_set_cond [simp]: "zframe x (set_cond E c z) \<longleftrightarrow> zframe x z"
  by (simp add: zframe_def set_cond_def)

lemma zframe_names [simp]: "zframe x (z\<lparr>z_Status := (z_Status z)\<lparr>zt_NameServers := n\<rparr>\<rparr>) \<longleftrightarrow> zframe x z"
  by (simp add: zframe_def)

lemma zframe_summary [simp]: "zframe x (summary E z) \<longleftrightarrow> zframe x z"
  by (simp add: zframe_def summary_def split: prod.splits)

lemma zframe_copy [simp]: "zframe x (foldl (copy_condition E) z cs) \<longleftrightarrow> zframe x z"
  by (induction cs arbitrary: z) (simp_all add: copy_condition_def)

lemma zframe_drop [simp]: "zframe x (foldl (drop_condition E src) z cs) \<longleftrightarrow> zframe x z"
  by (induction cs arbitrary: z) (simp_all add: drop_condition_def zframe_def)

lemma zframe_transfer [simp]: "zframe x (transferConditions E src z) \<longleftrightarrow> zframe x z"
  by (simp add: transferConditions_def Let_def)

lemma zframe_report_deployment: "zframe z (fst (report_deployment V w k z))"
  by (auto simp: report_deployment_def Let_def split: sum.splits prod.splits)

lemma zframe_report_nameserver: "zframe z (fst (report_nameserver V w key s (z, sm)))"
  by (auto simp: report_nameserver_def Let_def split: option.splits prod.splits if_splits)

lemma zframe_report: "report_status V w key f z = (z', sm) \<Longrightarrow> zframe z z'"
  unfolding report_status_def
  using zframe_report_deployment [of z V w "fd_Deployment f"]
    zframe_report_nameserver [where V = V and w = w and key = key and s = "fd_Service f"
      and z = "fst (report_deployment V w (fd_Deployment f) z)" and sm = "snd (report_deployment V w (fd_Deployment f) z)"]
  by (auto elim: zframe_trans split: prod.splits)

lemma zframe_ApplyData: "ApplyData V key data (w, z) = ((w', z'), o', e) \<Longrightarrow> zframe z z'"
  by (auto simp: ApplyData_def split: prod.splits option.splits)

lemma zframe_apply_runtime: "apply_runtime V key ds (w, z) f = ((w', z'), r) \<Longrightarrow> zframe z z'"
proof (induction ds arbitrary: w z f)
  case (Cons d ds)
  obtain w1 z1 ob e where a: "ApplyData V key d (w, z) = ((w1, z1), ob, e)" by (metis surj_pair)
  with Cons show ?case
    by (auto split: option.splits sum.splits if_splits dest!: zframe_ApplyData elim: zframe_trans)
qed simp

lemma zframe_apply_dns_runtime: "apply_dns_runtime V key ds (w, z) = ((w', z'), r) \<Longrightarrow> zframe z z'"
proof (induction ds arbitrary: w z)
  case (Cons d ds)
  obtain w1 z1 ob e where a: "ApplyData V key d (w, z) = ((w1, z1), ob, e)" by (metis surj_pair)
  with Cons show ?case
    by (auto split: option.splits dest!: zframe_ApplyData elim: zframe_trans)
qed simp

lemma zframe_handle_dns: "handle_dns V key vals f (w, z) = Some (Ret ((w', z'), p)) \<Longrightarrow> zframe z z'"
  by (auto simp: handle_dns_def split: option.splits go.splits prod.splits
      dest!: zframe_apply_dns_runtime zframe_report elim: zframe_trans)

lemma zframe_handle_rendered:
  "handle_rendered V key vals rep dp rt (w, z) = Some (Ret ((w', z'), p)) \<Longrightarrow> zframe z z'"
  by (auto simp: handle_rendered_def split: option.splits prod.splits sum.splits if_splits
      dest!: zframe_apply_runtime zframe_handle_dns elim: zframe_trans)

lemma zframe_HandleExternalResources:
  "HandleExternalResources V key (w, z) = Some (Ret ((w', z'), p)) \<Longrightarrow> zframe z z'"
  by (auto simp: HandleExternalResources_def split: option.splits prod.splits sum.splits go.splits
      dest!: zframe_handle_rendered)

lemma zframe_DeleteExternalResources:
  "DeleteExternalResources V key (w, Some z) = Some (Ret ((w', z'), p)) \<Longrightarrow> \<exists>y. z' = Some y \<and> zframe z y"
  by (auto simp: DeleteExternalResources_def go_bind_Ret_iff
      split: option.splits prod.splits sum.splits go.splits)

section \<open>The steps of a reconciliation\<close>

definition fin_of :: "('p, 'w, 'c) env \<Rightarrow> string" where
  "fin_of V = rc_Finalizer (ev_rc V)"

definition finalizers :: "hosted_zone \<Rightarrow> string list" where
  "finalizers z = om_Finalizers (z_Meta z)"

text \<open>What a controller is configured with, as it is registered in the status.\<close>

definition config :: "('p, 'w, 'c) env \<Rightarrow> observed" where
  "config V = \<lparr>ob_Class = hz_String (do_Class (rc_Options (ev_rc V))) [], ob_Runtime = hz_String (do_Runtime (rc_Options (ev_rc V))) []\<rparr>"

text \<open>What a zone asks for.\<close>

definition wanted :: "hosted_zone \<Rightarrow> observed" where
  "wanted z = \<lparr>ob_Class = hz_String (zs_Class (z_Spec z)) [], ob_Runtime = hz_String (zs_Runtime (z_Spec z)) []\<rparr>"

text \<open>The change of a zone by one controller: its own finalizer, and the first registration.\<close>

definition touched :: "string \<Rightarrow> hosted_zone \<Rightarrow> hosted_zone \<Rightarrow> bool" where
  "touched f z z' \<longleftrightarrow> z_Spec z' = z_Spec z \<and>
     z_Meta z' = (z_Meta z)\<lparr>om_Finalizers := finalizers z'\<rparr> \<and>
     set (finalizers z') - {f} = set (finalizers z) - {f} \<and>
     (\<forall>ob. zt_Observed (z_Status z) = Some ob \<longrightarrow> zt_Observed (z_Status z') = Some ob)"

lemma touched_zframe: "zframe z z' \<Longrightarrow> touched f z z'"
  by (simp add: zframe_def touched_def finalizers_def)

lemma touched_refl [simp]: "touched f z z"
  by (simp add: touched_zframe)

lemma touched_trans: "touched f x y \<Longrightarrow> touched f y z \<Longrightarrow> touched f x z"
  by (simp add: touched_def)

lemma observed_kept: "fst (SetPointerField Observed_Equals same (zt_Observed (z_Status z)) ob) = Some o'"
  if "registered V z = (ob, same)" "zt_Observed (z_Status z) = Some o'"
  using that by (auto simp: registered_def SetPointerField_def split: if_splits)

lemma touched_handleObject:
  assumes "handleObject V key root (w, z) = Some (Ret ((w', z'), p))"
  shows "touched f z z' \<and> z_Meta z' = z_Meta z"
proof -
  obtain reason err where v: "zone_Validate (ev_E V) z root = (reason, err)" by (rule prod.exhaust)
  obtain ob same where r: "registered V z = (ob, same)" by (rule prod.exhaust)
  let ?z1 = "zone_SetStatusCondition (ev_E V) (cond ValidationConditionType ConditionTrue reason
      ''The HostedZone specification passed all validation checks.'') z"
  let ?z2 = "?z1\<lparr>z_Status := (z_Status ?z1)\<lparr>zt_Observed := fst (SetPointerField Observed_Equals same (zt_Observed (z_Status ?z1)) ob)\<rparr>\<rparr>"
  have z1: "zframe z ?z1" by simp
  show ?thesis
  proof (cases err)
    case None
    from z1 have "touched f z ?z2 \<and> z_Meta ?z2 = z_Meta z"
      using observed_kept [OF r] by (auto simp: touched_def zframe_def finalizers_def)
    moreover have "zframe ?z2 z'"
      using assms None v r
      by (auto simp: handleObject_def Let_def split: if_splits option.splits dest: zframe_HandleExternalResources)
    ultimately show ?thesis using touched_trans [OF _ touched_zframe, of f z ?z2 z'] unfolding zframe_def by auto
  next
    case (Some e)
    with assms v have "zframe z z'" by (auto simp: handleObject_def)
    then show ?thesis using touched_zframe by (auto simp: zframe_def)
  qed
qed

lemma finalizer_step_meta:
  assumes "finalizer_laws (ev_E V)" "finalizer_step V z = (m, b)"
  shows "m = (z_Meta z)\<lparr>om_Finalizers := om_Finalizers m\<rparr>" "set (om_Finalizers m) - {fin_of V} = set (finalizers z) - {fin_of V}"
    and "\<not> b \<Longrightarrow> m = z_Meta z" and "zone_parent z = [] \<Longrightarrow> fin_of V \<in> set (om_Finalizers m)"
  using assms(2)
  by (auto simp: finalizer_step_def Add_eq [OF assms(1)] RemoveFin_eq [OF assms(1)] finalizers_def fin_of_def split: if_splits)

lemma touched_meta:
  assumes "finalizer_laws (ev_E V)" "finalizer_step V z = (m, b)"
  shows "touched (fin_of V) z (z\<lparr>z_Meta := m\<rparr>)"
  using finalizer_step_meta(1,2) [OF assms] by (simp add: touched_def finalizers_def)

lemma touched_delete:
  assumes F: "finalizer_laws (ev_E V)" and d: "zone_delete V key (w, Some z) = Some (Ret ((w', obj), p))"
  shows "\<exists>z'. obj = Some z' \<and> touched (fin_of V) z z'"
proof -
  have meta: "touched (fin_of V) z (y\<lparr>z_Meta := m\<rparr>)" if "zframe z y" "x_RemoveFinalizer (ev_E V) (z_Meta y) (rc_Finalizer (ev_rc V)) = (m, b)" for y m b
    using that by (auto simp: touched_def zframe_def finalizers_def fin_of_def RemoveFin_eq [OF F] split: if_splits)
  from d show ?thesis
    by (auto simp: zone_delete_def split: if_splits option.splits go.splits prod.splits bool.splits
        dest!: zframe_DeleteExternalResources intro: touched_zframe meta)
qed

lemma IsResponsibile_object:
  "IsResponsibile V w (Some z) = Some (Ret (r, obj)) \<Longrightarrow> \<exists>z'. obj = Some z' \<and> zframe z z' \<and> (fst r \<longrightarrow> z' = z)"
  by (auto simp: IsResponsibile_def Let_def split: option.splits prod.splits if_splits)

lemma touched_Reconcile:
  assumes F: "finalizer_laws (ev_E V)" and r: "direct_Reconcile V key (w, z) = Some (Ret ((w', obj), p))"
  shows "\<exists>z'. obj = Some z' \<and> touched (fin_of V) z z'"
proof (cases "IsASCIIAlnumString (hz_String (zs_Runtime (z_Spec z)) []) \<and> IsASCIIAlnumString (hz_String (zs_Class (z_Spec z)) [])")
  case False
  with r show ?thesis
    by (auto simp: direct_Reconcile_def intro!: touched_zframe)
next
  case True
  then have alnum: "IsASCIIAlnumString (hz_String (zs_Runtime (z_Spec z)) [])" "IsASCIIAlnumString (hz_String (zs_Class (z_Spec z)) [])" by auto
  from r True obtain ok root prob obj1 where i: "IsResponsibile V w (Some z) = Some (Ret ((ok, root, prob), obj1))"
    by (auto simp: direct_Reconcile_def split: option.splits go.splits)
  from IsResponsibile_object [OF i] obtain z1 where z1: "obj1 = Some z1" "zframe z z1" "ok \<longrightarrow> z1 = z" by auto
  show ?thesis
  proof (cases "\<not> ok \<or> prob \<noteq> None")
    case True
    with r alnum i z1 show ?thesis by (auto simp: direct_Reconcile_def intro: touched_zframe)
  next
    case False
    then have ok: "ok" "prob = None" "z1 = z" using z1 by auto
    show ?thesis
    proof (cases "ChangedResponsibility V (Some z)")
      case True
      with r alnum i z1 ok show ?thesis using touched_delete [OF F] by (auto simp: direct_Reconcile_def)
    next
      case c: False
      obtain m b where m: "finalizer_step V z = (m, b)" by (rule prod.exhaust)
      note tm = touched_meta [OF F m]
      have h: "\<exists>z'. obj = Some z' \<and> touched (fin_of V) z z'"
        if "lift_zone (handleObject V key root' (wx, y)) = Some (Ret ((w', obj), p))" "touched (fin_of V) z y" for root' wx y
      proof -
        from that(1) obtain z' where "handleObject V key root' (wx, y) = Some (Ret ((w', z'), p))" "obj = Some z'"
          by (auto simp: lift_zone_def go_bind_Ret_iff)
        with touched_trans [OF that(2)] conjunct1 [OF touched_handleObject, of V key root' wx y w' z' p "fin_of V"] show ?thesis by simp
      qed
      from r alnum i z1 ok c have eq: "(case root of Some root \<Rightarrow>
          (case finalizer_step V z of
             (m, True) \<Rightarrow>
               (case a_PatchMeta (ev_A V) w (z_Meta z) m of
                  (w, Some err) \<Rightarrow> Some (Ret ((w, Some (z\<lparr>z_Meta := m\<rparr>)), x_TemporaryProblem (ev_E V) (IgnoreNotFound (Some err))))
                | (w, None) \<Rightarrow> lift_zone (handleObject V key root (w, z\<lparr>z_Meta := m\<rparr>)))
           | (m, False) \<Rightarrow> lift_zone (handleObject V key root (w, z)))
        | None \<Rightarrow> Some Panic) = Some (Ret ((w', obj), p))"
        by (simp add: direct_Reconcile_def)
      obtain w2 e where pm: "a_PatchMeta (ev_A V) w (z_Meta z) m = (w2, e)" by (rule prod.exhaust)
      from eq obtain root' where root: "root = Some root'" by (cases root) auto
      show ?thesis
      proof (cases b)
        case False
        with eq m root have "lift_zone (handleObject V key root' (w, z)) = Some (Ret ((w', obj), p))" by simp
        then show ?thesis by (rule h) simp
      next
        case True
        show ?thesis
        proof (cases e)
          case None
          with True eq m root pm have "lift_zone (handleObject V key root' (w2, z\<lparr>z_Meta := m\<rparr>)) = Some (Ret ((w', obj), p))" by simp
          then show ?thesis using tm by (rule h)
        next
          case (Some err)
          with True eq m root pm tm show ?thesis by auto
        qed
      qed
    qed
  qed
qed

section \<open>Who takes a root zone\<close>

definition takes :: "('p, 'w, 'c) env \<Rightarrow> hosted_zone \<Rightarrow> bool" where
  "takes V z \<longleftrightarrow> fin_of V \<in> set (finalizers z) \<or>
     (case zt_Observed (z_Status z) of
        None \<Rightarrow> zs_Class (z_Spec z) = None \<and> do_Class (rc_Options (ev_rc V)) = None
      | Some ob \<Rightarrow> ob = config V)"

lemma Check_eq: "Check r class runtime \<longleftrightarrow> rs_Class r = None \<and> class = None"
  by (auto simp: Check_def split: option.splits)

lemma IsResponsibile_root:
  assumes F: "finalizer_laws (ev_E V)" and p: "zone_parent z = []"
  shows "IsResponsibile V w (Some z) = Some (Ret ((takes V z, Some (chain_resp None z), None), Some z))"
proof -
  have "GetRootInfo (ev_D V) (ev_E V) (a_GetZone (ev_A V) w) z None = Some ((Some (chain_resp None z), True, None), None)"
    using p by (subst GetRootInfo_def, subst zone_walk.simps) (simp add: chain_resp_def AggregateNames_def)
  then show ?thesis
    by (auto simp: IsResponsibile_def takes_def Contains_eq [OF F] finalizers_def fin_of_def config_def chain_resp_def Check_eq
        split: option.splits)
qed

definition alnum :: "hosted_zone \<Rightarrow> bool" where
  "alnum z \<longleftrightarrow> IsASCIIAlnumString (hz_String (zs_Runtime (z_Spec z)) []) \<and> IsASCIIAlnumString (hz_String (zs_Class (z_Spec z)) [])"

lemma Reconcile_not_taken:
  assumes F: "finalizer_laws (ev_E V)" and p: "zone_parent z = []" and n: "\<not> takes V z"
  shows "\<exists>z'. direct_Reconcile V key (w, z) = Some (Ret ((w, Some z'), None)) \<and> zframe z z' \<and> (alnum z \<longrightarrow> z' = z)"
  using n by (auto simp: direct_Reconcile_def IsResponsibile_root [OF F p] alnum_def)

lemma Reconcile_takes:
  assumes F: "finalizer_laws (ev_E V)" and p: "zone_parent z = []" and t: "takes V z" and n: "fin_of V \<notin> set (finalizers z)"
    and a: "alnum z" and r: "direct_Reconcile V key (w, z) = Some (Ret ((w', Some z'), pr))"
  shows "fin_of V \<in> set (finalizers z')"
proof -
  let ?m = "(z_Meta z)\<lparr>om_Finalizers := finalizers z @ [fin_of V]\<rparr>"
  from n have c: "\<not> ChangedResponsibility V (Some z)"
    by (simp add: ChangedResponsibility_def Contains_eq [OF F] finalizers_def fin_of_def)
  from n p have m: "finalizer_step V z = (?m, True)"
    by (simp add: finalizer_step_def Add_eq [OF F] finalizers_def fin_of_def)
  obtain w2 e where pm: "a_PatchMeta (ev_A V) w (z_Meta z) ?m = (w2, e)" by (rule prod.exhaust)
  show ?thesis
  proof (cases e)
    case (Some err)
    with r a t c m pm have "z' = z\<lparr>z_Meta := ?m\<rparr>"
      by (simp add: direct_Reconcile_def IsResponsibile_root [OF F p] alnum_def)
    then show ?thesis by (simp add: finalizers_def)
  next
    case None
    with r a t c m pm have "lift_zone (handleObject V key (chain_resp None z) (w2, z\<lparr>z_Meta := ?m\<rparr>)) = Some (Ret ((w', Some z'), pr))"
      by (simp add: direct_Reconcile_def IsResponsibile_root [OF F p] alnum_def)
    then have "handleObject V key (chain_resp None z) (w2, z\<lparr>z_Meta := ?m\<rparr>) = Some (Ret ((w', z'), pr))"
      by (auto simp: lift_zone_def go_bind_Ret_iff)
    from touched_handleObject [OF this] show ?thesis by (simp add: finalizers_def)
  qed
qed

text \<open>A nested zone never gets a finalizer.\<close>

lemma Reconcile_nested:
  assumes F: "finalizer_laws (ev_E V)" and p: "zone_parent z \<noteq> []" and n: "fin_of V \<notin> set (finalizers z)"
    and r: "direct_Reconcile V key (w, z) = Some (Ret ((w', Some z'), pr))"
  shows "z_Meta z' = z_Meta z"
proof (cases "alnum z")
  case False
  with r show ?thesis by (auto simp: direct_Reconcile_def alnum_def zone_SetStatusCondition_def Let_def)
next
  case al: True
  from n have c: "\<not> ChangedResponsibility V (Some z)"
    by (simp add: ChangedResponsibility_def Contains_eq [OF F] finalizers_def fin_of_def)
  from n p have m: "finalizer_step V z = (z_Meta z, False)"
    by (simp add: finalizer_step_def RemoveFin_eq [OF F] finalizers_def fin_of_def)
  from r al obtain ok root prob obj1 where i: "IsResponsibile V w (Some z) = Some (Ret ((ok, root, prob), obj1))"
    by (auto simp: direct_Reconcile_def alnum_def split: option.splits go.splits)
  from IsResponsibile_object [OF i] obtain z1 where z1: "obj1 = Some z1" "zframe z z1" "ok \<longrightarrow> z1 = z" by auto
  show ?thesis
  proof (cases "\<not> ok \<or> prob \<noteq> None")
    case True
    with r al i z1 show ?thesis by (auto simp: direct_Reconcile_def alnum_def zframe_def)
  next
    case False
    with r al i z1 c m obtain root' where "lift_zone (handleObject V key root' (w, z)) = Some (Ret ((w', Some z'), pr))"
      by (auto simp: direct_Reconcile_def alnum_def split: option.splits)
    then have "handleObject V key root' (w, z) = Some (Ret ((w', z'), pr))"
      by (auto simp: lift_zone_def go_bind_Ret_iff)
    from touched_handleObject [OF this] show ?thesis by simp
  qed
qed

lemma Reconcile_adds:
  assumes F: "finalizer_laws (ev_E V)" and r: "direct_Reconcile V key (w, z) = Some (Ret ((w', Some z'), pr))"
    and n: "fin_of V \<notin> set (finalizers z)" and y: "fin_of V \<in> set (finalizers z')"
  shows "zone_parent z = [] \<and> takes V z"
proof (rule conjI)
  show p: "zone_parent z = []"
  proof (rule ccontr)
    assume "zone_parent z \<noteq> []"
    from Reconcile_nested [OF F this n r] n y show False by (simp add: finalizers_def)
  qed
  show "takes V z"
  proof (rule ccontr)
    assume "\<not> takes V z"
    from Reconcile_not_taken [OF F p this, of key w] r n y show False by (simp add: zframe_def finalizers_def)
  qed
qed

section \<open>Controllers that share a zone\<close>

text \<open>
  Several controllers, each with its own configuration and finalizer, work on one stored zone.
  The spec is changed by the user, the conditions by the server controllers. A request works on
  the stored zone; what becomes stored is its result, its metadata only (the update of the
  status failed), or nothing (the patch failed).
\<close>

inductive zone_step ::
    "('p, 'w, 'c) env set \<Rightarrow> object_key \<Rightarrow> 'w \<times> hosted_zone \<Rightarrow> 'w \<times> hosted_zone \<Rightarrow> bool"
  for Vs :: "('p, 'w, 'c) env set" and key :: object_key where
  user: "zone_step Vs key (w, z) (w', z\<lparr>z_Spec := sp, z_Meta := (z_Meta z)\<lparr>om_Generation := g, om_DeletionTimestamp := d\<rparr>\<rparr>)"
| server: "zone_step Vs key (w, z) (w', z\<lparr>z_Status := (z_Status z)\<lparr>zt_Conditions := cs, zt_State := st, zt_Message := msg\<rparr>\<rparr>)"
| reconcile: "V \<in> Vs \<Longrightarrow> direct_Reconcile V key (w, z) = Some (Ret ((w', Some z'), p)) \<Longrightarrow>
    s \<in> {z, z', z'\<lparr>z_Status := z_Status z\<rparr>} \<Longrightarrow> zone_step Vs key (w, z) (w', s)"
| deleting: "V \<in> Vs \<Longrightarrow> direct_ReconcileDeleting V key (w, Some z) = Some (Ret ((w', Some z'), p)) \<Longrightarrow>
    s \<in> {z, z', z'\<lparr>z_Status := z_Status z\<rparr>} \<Longrightarrow> zone_step Vs key (w, z) (w', s)"

inductive zone_run ::
    "('p, 'w, 'c) env set \<Rightarrow> object_key \<Rightarrow> 'w \<times> hosted_zone \<Rightarrow> 'w \<times> hosted_zone \<Rightarrow> bool"
  for Vs :: "('p, 'w, 'c) env set" and key :: object_key where
  start: "zone_run Vs key s s"
| step: "zone_run Vs key s t \<Longrightarrow> zone_step Vs key t u \<Longrightarrow> zone_run Vs key s u"

text \<open>Controllers of different configurations have different finalizers.\<close>

definition separate :: "('p, 'w, 'c) env set \<Rightarrow> bool" where
  "separate Vs \<longleftrightarrow> (\<forall>V \<in> Vs. finalizer_laws (ev_E V)) \<and> (\<forall>V \<in> Vs. \<forall>V' \<in> Vs. fin_of V = fin_of V' \<longrightarrow> config V = config V')"

definition kept_by :: "('p, 'w, 'c) env set \<Rightarrow> observed \<Rightarrow> hosted_zone \<Rightarrow> bool" where
  "kept_by Vs ob z \<longleftrightarrow> zt_Observed (z_Status z) = Some ob \<and>
     (\<forall>V \<in> Vs. config V \<noteq> ob \<longrightarrow> fin_of V \<notin> set (finalizers z))"

lemma separate_laws: "separate Vs \<Longrightarrow> V \<in> Vs \<Longrightarrow> finalizer_laws (ev_E V)"
  by (simp add: separate_def)

lemma separate_config: "separate Vs \<Longrightarrow> V \<in> Vs \<Longrightarrow> V' \<in> Vs \<Longrightarrow> fin_of V' = fin_of V \<Longrightarrow> config V' = config V"
  unfolding separate_def by metis

lemma kept_by_new: "kept_by Vs ob z \<Longrightarrow> V \<in> Vs \<Longrightarrow> config V \<noteq> ob \<Longrightarrow> fin_of V \<notin> set (finalizers z)"
  by (simp add: kept_by_def)

lemma kept_by_touched:
  assumes "kept_by Vs ob z" "touched f z z'" "\<And>V. V \<in> Vs \<Longrightarrow> config V \<noteq> ob \<Longrightarrow> fin_of V = f \<Longrightarrow> f \<notin> set (finalizers z')"
    and "s \<in> {z, z', z'\<lparr>z_Status := z_Status z\<rparr>}"
  shows "kept_by Vs ob s"
proof -
  have "fin_of V \<notin> set (finalizers z')" if V: "V \<in> Vs" "config V \<noteq> ob" for V
  proof (cases "fin_of V = f")
    case True
    with assms(3) V show ?thesis by simp
  next
    case False
    with assms(1,2) V show ?thesis by (auto simp: kept_by_def touched_def)
  qed
  with assms(1,2,4) show ?thesis by (auto simp: kept_by_def touched_def finalizers_def)
qed

lemma zone_step_kept:
  assumes sep: "separate Vs"
  shows "zone_step Vs key s t \<Longrightarrow> kept_by Vs ob (snd s) \<Longrightarrow> kept_by Vs ob (snd t)"
proof (induction rule: zone_step.induct)
  case (user w z w' sp g d)
  then show ?case by (simp add: kept_by_def finalizers_def)
next
  case (server w z w' cs st msg)
  then show ?case by (simp add: kept_by_def finalizers_def)
next
  case (reconcile V w z w' z' p s)
  note F = separate_laws [OF sep reconcile(1)]
  from touched_Reconcile [OF F reconcile(2)] have t: "touched (fin_of V) z z'" by simp
  have k: "kept_by Vs ob z" using reconcile.prems by simp
  have "fin_of V \<notin> set (finalizers z')" if V': "V' \<in> Vs" "config V' \<noteq> ob" "fin_of V' = fin_of V" for V'
  proof
    assume y: "fin_of V \<in> set (finalizers z')"
    have c: "config V \<noteq> ob" using separate_config [OF sep reconcile(1) V'(1,3)] V'(2) by simp
    note n = kept_by_new [OF k reconcile(1) c]
    from Reconcile_adds [OF F reconcile(2) n y] k n c show False by (simp add: takes_def kept_by_def)
  qed
  from kept_by_touched [OF k t this reconcile(3)] show ?case by simp
next
  case (deleting V w z w' z' p s)
  note F = separate_laws [OF sep deleting(1)]
  have d: "zone_delete V key (w, Some z) = Some (Ret ((w', Some z'), p))" using deleting(2) by (simp add: direct_ReconcileDeleting_def)
  from touched_delete [OF F d] have t: "touched (fin_of V) z z'" by simp
  have k: "kept_by Vs ob z" using deleting.prems by simp
  have "fin_of V \<notin> set (finalizers z')" if V': "V' \<in> Vs" "config V' \<noteq> ob" "fin_of V' = fin_of V" for V'
  proof -
    have c: "config V \<noteq> ob" using separate_config [OF sep deleting(1) V'(1,3)] V'(2) by simp
    note n = kept_by_new [OF k deleting(1) c]
    from n have "zone_delete V key (w, Some z) = Some (Ret ((w, Some z), None))"
      by (simp add: zone_delete_def Contains_eq [OF F] finalizers_def fin_of_def)
    with d n show ?thesis by simp
  qed
  from kept_by_touched [OF k t this deleting(3)] show ?case by simp
qed

lemma zone_run_kept:
  assumes "separate Vs"
  shows "zone_run Vs key s t \<Longrightarrow> kept_by Vs ob (snd s) \<Longrightarrow> kept_by Vs ob (snd t)"
proof (induction rule: zone_run.induct)
  case (step s t u)
  from zone_step_kept [OF assms step.hyps(2) step.IH [OF step.prems]] show ?case .
qed

section \<open>Removing the finalizer\<close>

lemma delete_finalizer:
  assumes F: "finalizer_laws (ev_E V)" and d: "zone_delete V key (w, Some z) = Some (Ret ((w', Some z'), p))"
    and y: "fin_of V \<in> set (finalizers z)" and n: "fin_of V \<notin> set (finalizers z')"
  shows "\<exists>w1. DeleteExternalResources V key (w, Some z) = Some (Ret ((w1, Some z), None)) \<and>
    z' = z\<lparr>z_Meta := (z_Meta z)\<lparr>om_Finalizers := filter (\<lambda>f. f \<noteq> fin_of V) (finalizers z)\<rparr>\<rparr> \<and>
    w' = fst (a_PatchMeta (ev_A V) w1 (z_Meta z) (z_Meta z'))"
proof -
  have c: "x_ContainsFinalizer (ev_E V) (z_Meta z) (rc_Finalizer (ev_rc V))"
    using y by (simp add: Contains_eq [OF F] finalizers_def fin_of_def)
  from d c obtain w1 o1 p1 where x: "DeleteExternalResources V key (w, Some z) = Some (Ret ((w1, o1), p1))"
    by (auto simp: zone_delete_def split: option.splits go.splits)
  from zframe_DeleteExternalResources [OF this] obtain z1 where z1: "o1 = Some z1" "zframe z z1" by blast
  have p1: "p1 = None"
  proof (rule ccontr)
    assume "p1 \<noteq> None"
    with d c x z1 have "z' = z1" by (auto simp: zone_delete_def)
    with z1 y n show False by (simp add: zframe_def finalizers_def)
  qed
  with x z1 have x': "DeleteExternalResources V key (w, Some z) = Some (Ret ((w1, Some z1), None))" by simp
  have "Some z1 = Some z"
    using x' by (auto simp: DeleteExternalResources_def go_bind_Ret_iff split: option.splits prod.splits sum.splits go.splits)
  then have z: "z1 = z" by simp
  let ?m = "(z_Meta z)\<lparr>om_Finalizers := filter (\<lambda>f. f \<noteq> fin_of V) (finalizers z)\<rparr>"
  have m: "x_RemoveFinalizer (ev_E V) (z_Meta z) (rc_Finalizer (ev_rc V)) = (?m, True)"
    using y by (simp add: RemoveFin_eq [OF F] finalizers_def fin_of_def)
  obtain w2 e where pm: "a_PatchMeta (ev_A V) w1 (z_Meta z) ?m = (w2, e)" by (rule prod.exhaust)
  have "z' = z\<lparr>z_Meta := ?m\<rparr> \<and> w' = w2"
    using d c x' z m pm by (cases e) (auto simp: zone_delete_def)
  with x' z pm show ?thesis by auto
qed

section \<open>The decision along a chain\<close>

lemma IsResponsibile_chain:
  assumes F: "finalizer_laws (ev_E V)" and get: "honest (a_GetZone (ev_A V) w)" and E: "refkey_law (ev_E V)"
    and ch: "zone_chain (a_GetZone (ev_A V) w) (zone_namespace z) (zone_parent z) zs"
    "zone_name z \<notin> set (chain_names (zone_parent z) zs)"
  shows "IsResponsibile V w (Some z) =
    Some (Ret ((fin_of V \<in> set (finalizers z) \<or>
        (case zt_Observed (z_Status (last (z # zs))) of
           None \<Rightarrow> zs_Class (z_Spec (last (z # zs))) = None \<and> do_Class (rc_Options (ev_rc V)) = None
         | Some ob \<Rightarrow> ob = config V),
      Some (chain_resp (if zs = [] then None else Some (hd zs)) (last (z # zs))), None), Some z))"
proof -
  have "\<exists>names'. GetRootInfo (ev_D V) (ev_E V) (a_GetZone (ev_A V) w) z None =
      Some ((Some (chain_resp (if zs = [] then None else Some (hd zs)) (last (z # zs))), True, None), names')"
    using zone_root_iff [OF get E, of "ev_D V" z None] ch by blast
  then obtain names' where "GetRootInfo (ev_D V) (ev_E V) (a_GetZone (ev_A V) w) z None =
      Some ((Some (chain_resp (if zs = [] then None else Some (hd zs)) (last (z # zs))), True, None), names')" ..
  then show ?thesis
    by (auto simp: IsResponsibile_def Contains_eq [OF F] finalizers_def fin_of_def config_def chain_resp_def Check_eq
        split: option.splits)
qed

section \<open>Nested zones\<close>

lemma registered_nested: "zone_parent z \<noteq> [] \<Longrightarrow>
    fst (SetPointerField Observed_Equals (snd (registered V z)) (zt_Observed (z_Status z)) (fst (registered V z))) = zt_Observed (z_Status z)"
  by (auto simp: registered_def SetPointerField_def)

lemma core_Status: "map_option core x = Some (core c) \<Longrightarrow> map_option c_Status x = Some (c_Status c)"
proof (cases x)
  case (Some a)
  assume "map_option core x = Some (core c)"
  with Some have "c_Status (core a) = c_Status (core c)" by simp
  with Some show ?thesis by (simp add: core_def)
qed simp

lemma handleObject_nested:
  assumes E: "condition_laws (ev_E V)" and p: "zone_parent z \<noteq> []" and r: "rs_Root root = Some rz"
    and d: "distinct (map c_Type (zt_Conditions (z_Status rz)))"
    and v: "zone_Validate (ev_E V) z root = (reason, None)"
  shows "\<exists>z'. handleObject V key root (w, z) = Some (Ret ((w, z'), None)) \<and> zframe z z' \<and>
    (\<forall>t \<in> set transfer_types. map_option core (zcond z' t) = map_option core (zcond rz t)) \<and>
    (zcond rz ValidationConditionType \<noteq> None \<longrightarrow> ztrue z' ValidationConditionType)"
proof -
  let ?z1 = "zone_SetStatusCondition (ev_E V) (cond ValidationConditionType ConditionTrue reason
      ''The HostedZone specification passed all validation checks.'') z"
  let ?z2 = "?z1\<lparr>z_Status := (z_Status ?z1)\<lparr>zt_Observed := zt_Observed (z_Status z)\<rparr>\<rparr>"
  let ?z' = "transferConditions (ev_E V) (zt_Conditions (z_Status rz)) ?z2"
  have z1: "zframe z ?z1" by simp
  obtain ob same where rg: "registered V z = (ob, same)" by (rule prod.exhaust)
  have "handleObject V key root (w, z) = Some (Ret ((w, ?z'), None))"
    using v r p z1 rg registered_nested [OF p, of V]
    by (simp add: handleObject_def Let_def zframe_def)
  moreover have "zframe z ?z2" using z1 by (simp add: zframe_def)
  then have "zframe z ?z'" by (simp only: zframe_transfer)
  moreover have "map_option core (zcond ?z' t) = map_option core (zcond rz t)" if "t \<in> set transfer_types" for t
    using that by (simp add: transfer_cond [OF E d])
  moreover have "ztrue ?z' ValidationConditionType" if "zcond rz ValidationConditionType \<noteq> None"
  proof -
    from that obtain c where "zcond rz ValidationConditionType = Some c" by blast
    moreover have "ValidationConditionType \<notin> set transfer_types" by (simp add: transfer_types_def condition_type_defs)
    ultimately have "map_option core (zcond ?z' ValidationConditionType) = map_option core (zcond ?z2 ValidationConditionType)"
      by (simp add: transfer_cond [OF E d])
    also have "\<dots> = Some (core (cond ValidationConditionType ConditionTrue reason
      ''The HostedZone specification passed all validation checks.''))" by (simp add: E) (simp add: cond_def)
    finally have "map_option c_Status (zcond ?z' ValidationConditionType) = Some ConditionTrue"
      by (rule core_Status [THEN trans]) (simp add: cond_def)
    then show ?thesis by (simp add: is_true_status)
  qed
  ultimately show ?thesis by blast
qed

section \<open>Triggers\<close>

definition listed :: "go_error + 'a list \<Rightarrow> 'a list" where
  "listed r = (case r of Inl _ \<Rightarrow> [] | Inr xs \<Rightarrow> xs)"

lemma direct_trigger_eq:
  "direct_trigger r key q = q @
     map (\<lambda>c. QZone (zone_namespace c, zone_name c)) (listed (di_ParentIndex r (ok_Namespace key) (ok_Name key))) @
     map (\<lambda>c. QEntry (entry_namespace c, entry_name c)) (listed (di_EntryIndex r (ok_Namespace key) (ok_Name key)))"
  by (auto simp: direct_trigger_def direct_TriggerEntries_def direct_TriggerChildren_def direct_GetNestedZones_def
      direct_GetEntriesForZone_def listed_def foldl_snoc split: sum.splits)

section \<open>Properties\<close>

text \<open>C24: a reconciliation writes nothing of a zone but its own part: the result is a zone with the
  same spec and the same metadata up to the list of finalizers, in which only the controller's
  own finalizer can appear or vanish, and a registered responsibility is never changed.\<close>

theorem Reconcile_writes:
  assumes "finalizer_laws (ev_E V)" "direct_Reconcile V key (w, z) = Some (Ret ((w', obj), p))"
  shows "\<exists>z'. obj = Some z' \<and> z_Spec z' = z_Spec z \<and>
    z_Meta z' = (z_Meta z)\<lparr>om_Finalizers := finalizers z'\<rparr> \<and>
    set (finalizers z') - {fin_of V} = set (finalizers z) - {fin_of V} \<and>
    (\<forall>ob. zt_Observed (z_Status z) = Some ob \<longrightarrow> zt_Observed (z_Status z') = Some ob)"
  using touched_Reconcile [OF assms] by (simp add: touched_def)

definition zone_with :: "str_ptr \<Rightarrow> observed option \<Rightarrow> string list \<Rightarrow> hosted_zone" where
  "zone_with c ob fs = ZoneA\<lparr>z_Spec := (z_Spec ZoneA)\<lparr>zs_Class := c, zs_EMail := ''a@b'', zs_Expire := 1, zs_Refresh := 1, zs_Retry := 1, zs_MinimumTTL := 1\<rparr>,
     z_Status := zero_zone_status\<lparr>zt_Observed := ob\<rparr>, z_Meta := (z_Meta ZoneA)\<lparr>om_Finalizers := fs\<rparr>\<rparr>"

text \<open>The test environment for a class.\<close>

definition class_env :: "string \<Rightarrow> (ref_problem, store, unit) env" where
  "class_env c = (test_env DnsLoadbalancer)\<lparr>ev_rc := (ev_rc (test_env DnsLoadbalancer))\<lparr>
     rc_Options := NewOptions\<lparr>do_Class := Some c\<rparr>, rc_Finalizer := field_manager ''kubedns'' (NewOptions\<lparr>do_Class := Some c\<rparr>)\<rparr>\<rparr>"

lemma class_env_sel [simp]: "ev_A (class_env c) = ref_api" "ev_E (class_env c) = ref_ext" "ev_ro (class_env c) = id_orders"
  by (simp_all add: class_env_def)

definition registered_a :: "observed option" where
  "registered_a = Some \<lparr>ob_Class = ''a'', ob_Runtime = []\<rparr>"

abbreviation key_a :: object_key where "key_a \<equiv> (''default'', ''a'')"

theorem Reconcile_writes_witness:
  "\<exists>s z'. direct_Reconcile (class_env ''a'') key_a (running_store, zone_with (Some ''b'') registered_a []) =
      Some (Ret ((s, Some z'), None)) \<and> zt_Observed (z_Status z') = registered_a \<and> finalizers z' \<noteq> []"
proof -
  let ?r = "direct_Reconcile (class_env ''a'') key_a (running_store, zone_with (Some ''b'') registered_a [])"
  let ?s = "case ?r of Some (Ret ((s, _), _)) \<Rightarrow> s" and ?z = "case ?r of Some (Ret ((_, Some z), _)) \<Rightarrow> z"
  have r: "?r = Some (Ret ((?s, Some ?z), None))" by code_simp
  have f: "finalizers ?z \<noteq> []" by code_simp
  have o: "zt_Observed (z_Status (zone_with (Some ''b'') registered_a [])) = registered_a" by code_simp
  from Reconcile_writes [OF _ r] o have "zt_Observed (z_Status ?z) = registered_a"
    by (auto simp: ref_finalizer_laws registered_a_def)
  with r f show ?thesis by blast
qed


definition both_classes :: "(ref_problem, store, unit) env set" where
  "both_classes = {class_env ''a'', class_env ''b''}"

lemma both_separate: "separate both_classes"
proof -
  have "fin_of (class_env ''a'') \<noteq> fin_of (class_env ''b'')" by code_simp
  then show ?thesis by (auto simp: separate_def both_classes_def ref_finalizer_laws)
qed


text \<open>C29: a controller that gave a zone up takes it again: a root zone that is registered for the
  configuration of a controller and does not have its finalizer gets it in the next
  reconciliation of that controller that returns, whatever valid class and runtime the spec asks
  for now; after the change of a class the old controller deletes and deploys the zone in turn.\<close>

theorem registered_controller_returns:
  assumes "finalizer_laws (ev_E V)" "zone_parent z = []" "zt_Observed (z_Status z) = Some (config V)"
    and "fin_of V \<notin> set (finalizers z)" "alnum z"
    and "direct_Reconcile V key (w, z) = Some (Ret ((w', Some z'), pr))"
  shows "fin_of V \<in> set (finalizers z') \<and> zt_Observed (z_Status z') = Some (config V) \<and> z_Spec z' = z_Spec z"
proof -
  have "takes V z" using assms(3) by (simp add: takes_def)
  from Reconcile_takes [OF assms(1,2) this assms(4-6)] touched_Reconcile [OF assms(1,6)] assms(3)
  show ?thesis by (auto simp: touched_def)
qed

theorem registered_controller_returns_witness:
  "\<exists>s z'. direct_Reconcile (class_env ''a'') key_a (running_store, zone_with (Some ''b'') registered_a []) =
      Some (Ret ((s, Some z'), None)) \<and> fin_of (class_env ''a'') \<in> set (finalizers z') \<and> zs_Class (z_Spec z') = Some ''b''"
proof -
  let ?z = "zone_with (Some ''b'') registered_a []"
  let ?r = "direct_Reconcile (class_env ''a'') key_a (running_store, ?z)"
  have "?r = Some (Ret ((case ?r of Some (Ret ((s, _), _)) \<Rightarrow> s, Some (case ?r of Some (Ret ((_, Some z), _)) \<Rightarrow> z)), None))" by code_simp
  then obtain s z' where r: "?r = Some (Ret ((s, Some z'), None))" by blast
  have "zone_parent ?z = []" "zt_Observed (z_Status ?z) = Some (config (class_env ''a''))"
    "fin_of (class_env ''a'') \<notin> set (finalizers ?z)" "alnum ?z" and c: "zs_Class (z_Spec ?z) = Some ''b''" by code_simp+
  from registered_controller_returns [OF _ this(1-4) r] c
  have "fin_of (class_env ''a'') \<in> set (finalizers z') \<and> zs_Class (z_Spec z') = Some ''b''" by (simp add: ref_finalizer_laws)
  with r show ?thesis by blast
qed

text \<open>A new zone with a class is never served: without a registration and a finalizer a root zone
  with a class is left alone by every controller, also by those of its own class.\<close>

theorem fresh_class_ignored:
  assumes "finalizer_laws (ev_E V)" "zone_parent z = []" "zs_Class (z_Spec z) \<noteq> None"
    and "zt_Observed (z_Status z) = None" "fin_of V \<notin> set (finalizers z)" "alnum z"
  shows "direct_Reconcile V key (w, z) = Some (Ret ((w, Some z), None))"
  using Reconcile_not_taken [OF assms(1,2), of key w] assms(3-6) by (auto simp: takes_def)

theorem fresh_class_ignored_witness:
  "direct_Reconcile (class_env ''a'') key_a (running_store, zone_with (Some ''a'') None []) =
     Some (Ret ((running_store, Some (zone_with (Some ''a'') None [])), None))"
proof -
  let ?z = "zone_with (Some ''a'') None []"
  have "zone_parent ?z = []" "zs_Class (z_Spec ?z) \<noteq> None" "zt_Observed (z_Status ?z) = None"
    "fin_of (class_env ''a'') \<notin> set (finalizers ?z)" "alnum ?z" by code_simp+
  from fresh_class_ignored [OF _ this] show ?thesis by (simp add: ref_finalizer_laws)
qed

text \<open>C16: the finalizer of a zone is removed only after a complete deletion: if a deletion returns a
  zone that lost its finalizer, every standard manifest was rendered with the very values the
  mode gives for this zone's key and decoded, and its object was gone or going when the metadata
  were patched; nothing else of the zone changed.\<close>

theorem finalizer_after_cleanup:
  assumes "finalizer_laws (ev_E V)" "deletion_laws (ev_A V)" "problem_laws (ev_E V)" "iteration_order (ro_manifests (ev_ro V))"
    and "zone_delete V key (w, Some z) = Some (Ret ((w', Some z'), p))"
    and "fin_of V \<in> set (finalizers z)" "fin_of V \<notin> set (finalizers z')"
  shows "\<exists>w0 e w1 v dataplane runtime. request_Values V key True w = (w0, Some v, e) \<and>
    Render (ev_en V) (ev_ro V) (rc_Manifests (ev_rc V)) (Some v) = Some (Ret (Inr (dataplane, runtime))) \<and>
    (\<forall>(n, m) \<in> set runtime. \<exists>r. a_Decode (ev_A V) m = Inr r \<and> going (ev_A V) w1 Runtime r) \<and>
    (\<forall>(n, m) \<in> set dataplane. \<exists>r. a_Decode (ev_A V) m = Inr r \<and> going (ev_A V) w1 Dataplane r) \<and>
    z' = z\<lparr>z_Meta := (z_Meta z)\<lparr>om_Finalizers := filter (\<lambda>f. f \<noteq> fin_of V) (finalizers z)\<rparr>\<rparr> \<and>
    w' = fst (a_PatchMeta (ev_A V) w1 (z_Meta z) (z_Meta z'))"
proof -
  from delete_finalizer [OF assms(1,5-7)] obtain w1 where
    d: "DeleteExternalResources V key (w, Some z) = Some (Ret ((w1, Some z), None))" and
    z': "z' = z\<lparr>z_Meta := (z_Meta z)\<lparr>om_Finalizers := filter (\<lambda>f. f \<noteq> fin_of V) (finalizers z)\<rparr>\<rparr>"
    "w' = fst (a_PatchMeta (ev_A V) w1 (z_Meta z) (z_Meta z'))" by blast
  from DeleteExternalResources_None [OF assms(2,3) d] z' show ?thesis
    unfolding data_of_all [OF assms(4)] by (elim exE conjE) (intro exI conjI, assumption+)
qed

theorem finalizer_after_cleanup_witness:
  "\<exists>s z'. zone_delete (class_env ''a'') key_a (deployed_store, Some (zone_with (Some ''b'') registered_a [''f'', ''kubedns-a'', ''g''])) =
     Some (Ret ((s, Some z'), None)) \<and> finalizers z' = [''f'', ''g''] \<and> going ref_api s Runtime (manifest_ref ''svc'')"
proof -
  let ?z = "zone_with (Some ''b'') registered_a [''f'', ''kubedns-a'', ''g'']"
  let ?V = "class_env ''a''"
  let ?r = "zone_delete ?V key_a (deployed_store, Some ?z)"
  let ?s = "case ?r of Some (Ret ((s, _), _)) \<Rightarrow> s" and ?z' = "case ?r of Some (Ret ((_, Some z), _)) \<Rightarrow> z"
  have r: "?r = Some (Ret ((?s, Some ?z'), None))" by code_simp
  have f: "fin_of ?V \<in> set (finalizers ?z)" "fin_of ?V \<notin> set (finalizers ?z')"
    "filter (\<lambda>f. f \<noteq> fin_of ?V) (finalizers ?z) = [''f'', ''g'']" by code_simp+
  have v: "Render (ev_en ?V) (ev_ro ?V) (rc_Manifests (ev_rc ?V)) (Some x) = Some (Ret (Inr ([(''c'', ''config'')], [(''a'', ''deploy''), (''b'', ''svc'')])))" for x
    by code_simp
  have d: "a_Decode ref_api ''svc'' = Inr (manifest_ref ''svc'')" by code_simp
  have pm: "fst (a_PatchMeta ref_api s m m') = s" for s m m' by (simp add: ref_api_def)
  obtain w1 where w1: "going ref_api w1 Runtime (manifest_ref ''svc'')" "?s = w1"
    "?z' = ?z\<lparr>z_Meta := (z_Meta ?z)\<lparr>om_Finalizers := filter (\<lambda>f. f \<noteq> fin_of ?V) (finalizers ?z)\<rparr>\<rparr>"
    using finalizer_after_cleanup [OF _ _ _ _ r f(1,2)] v d pm
    by (auto simp: ref_finalizer_laws ref_deletion_laws ref_problem_laws test_order)
  have "finalizers ?z' = [''f'', ''g'']" unfolding w1(3) using f(3) by (simp add: finalizers_def)
  with r w1 show ?thesis by metis
qed

text \<open>C30: a nested zone without errors mirrors its root zone: a valid nested zone is reconciled without
  problem and without a change of the world, its Runtime and Nameserver conditions are those of
  the root up to the observed generation, its registration, spec and metadata stay, and its
  validation is true unless the root zone has no validation yet.\<close>

theorem nested_zone_mirrors:
  assumes "condition_laws (ev_E V)" "zone_parent z \<noteq> []" "rs_Root root = Some rz"
    and "distinct (map c_Type (zt_Conditions (z_Status rz)))" "zone_Validate (ev_E V) z root = (reason, None)"
  shows "\<exists>z'. handleObject V key root (w, z) = Some (Ret ((w, z'), None)) \<and> zframe z z' \<and>
    (\<forall>t \<in> set transfer_types. map_option core (zcond z' t) = map_option core (zcond rz t)) \<and>
    (zcond rz ValidationConditionType \<noteq> None \<longrightarrow> ztrue z' ValidationConditionType)"
  using assms by (rule handleObject_nested)

definition nested_zone :: hosted_zone where
  "nested_zone = ZoneAA\<lparr>z_Spec := (z_Spec ZoneAA)\<lparr>zs_EMail := ''a@b'', zs_Expire := 1, zs_Refresh := 1, zs_Retry := 1, zs_MinimumTTL := 1\<rparr>\<rparr>"

definition ready_root :: hosted_zone where
  "ready_root = ZoneA\<lparr>z_Status := zero_zone_status\<lparr>zt_Conditions := ready_conditions\<rparr>\<rparr>"

theorem nested_zone_mirrors_witness:
  "\<exists>z'. handleObject (class_env ''a'') (''default'', ''aa'') (chain_resp (Some ready_root) ready_root) (empty_store, nested_zone) =
     Some (Ret ((empty_store, z'), None)) \<and> ztrue z' ValidationConditionType"
proof -
  have "zone_parent nested_zone \<noteq> []" "rs_Root (chain_resp (Some ready_root) ready_root) = Some ready_root"
    "distinct (map c_Type (zt_Conditions (z_Status ready_root)))"
    "zone_Validate (ev_E (class_env ''a'')) nested_zone (chain_resp (Some ready_root) ready_root) = (ReasonConfigurarationValid, None)"
    by code_simp+
  note m = nested_zone_mirrors [OF _ this, of "(''default'', ''aa'')" empty_store]
  have "zcond ready_root ValidationConditionType \<noteq> None" by code_simp
  with m show ?thesis by (auto simp: ref_condition_laws simp del: find_None_iff)
qed

text \<open>C23: a controller decides by the root zone: along a chain of existing zones the controller is
  responsible exactly if the zone has its finalizer, or the root is registered for its
  configuration, or the root is not registered and neither has a class.\<close>

theorem IsResponsibile_iff:
  assumes "finalizer_laws (ev_E V)" "honest (a_GetZone (ev_A V) w)" "refkey_law (ev_E V)"
    and "zone_chain (a_GetZone (ev_A V) w) (zone_namespace z) (zone_parent z) zs"
    and "zone_name z \<notin> set (chain_names (zone_parent z) zs)"
  shows "IsResponsibile V w (Some z) =
    Some (Ret ((fin_of V \<in> set (finalizers z) \<or>
        (case zt_Observed (z_Status (last (z # zs))) of
           None \<Rightarrow> zs_Class (z_Spec (last (z # zs))) = None \<and> do_Class (rc_Options (ev_rc V)) = None
         | Some ob \<Rightarrow> ob = config V),
      Some (chain_resp (if zs = [] then None else Some (hd zs)) (last (z # zs))), None), Some z))"
  using assms by (rule IsResponsibile_chain)

theorem IsResponsibile_iff_witness:
  "IsResponsibile (class_env ''a'') (empty_store\<lparr>st_zones := [zone_with (Some ''b'') registered_a []]\<rparr>) (Some nested_zone) =
     Some (Ret ((True, Some (chain_resp (Some (zone_with (Some ''b'') registered_a [])) (zone_with (Some ''b'') registered_a [])), None), Some nested_zone))"
proof -
  let ?w = "empty_store\<lparr>st_zones := [zone_with (Some ''b'') registered_a []]\<rparr>"
  have g: "honest (a_GetZone ref_api ?w)" by (simp add: ref_api_def store_get_honest)
  have "zone_chain (a_GetZone ref_api ?w) (zone_namespace nested_zone) (zone_parent nested_zone) [zone_with (Some ''b'') registered_a []]"
    "zone_name nested_zone \<notin> set (chain_names (zone_parent nested_zone) [zone_with (Some ''b'') registered_a []])"
    "zt_Observed (z_Status (zone_with (Some ''b'') registered_a [])) = Some (config (class_env ''a''))" by code_simp+
  with IsResponsibile_iff [of "class_env ''a''" ?w nested_zone "[zone_with (Some ''b'') registered_a []]"] g
  show ?thesis by (simp add: ref_finalizer_laws ref_refkey_law)
qed

text \<open>The status is written and others are notified only on a change: \<open>UpdateObject\<close> updates the
  status exactly if it differs from the original; the children and entries the indices list are
  enqueued after a successful update, and otherwise only for a new or a deleted zone.\<close>

theorem UpdateObject_notifies:
  "direct_UpdateObject A r key orig obj w q =
     (let notified = q @
        map (\<lambda>c. QZone (zone_namespace c, zone_name c)) (listed (di_ParentIndex r (ok_Namespace key) (ok_Name key))) @
        map (\<lambda>c. QEntry (entry_namespace c, entry_name c)) (listed (di_EntryIndex r (ok_Namespace key) (ok_Name key)))
      in case orig of
           None \<Rightarrow> (w, notified, None)
         | Some old \<Rightarrow>
             if z_Status obj = z_Status old then (w, if deleted (z_Meta old) then notified else q, None)
             else case a_UpdateStatus A w obj of
                    (w', None) \<Rightarrow> (w', notified, None)
                  | (w', Some err) \<Rightarrow> (w', q, Some (err\<lparr>Error := ''failed to update changed status: '' @ Error err\<rparr>)))"
  unfolding direct_trigger_eq [symmetric]
  by (auto simp: direct_UpdateObject_def Let_def split: option.splits prod.splits)

end
