(* ===== verification/Direct_Deploy.thy ===== *)
theory Direct_Deploy
  imports Direct_Zone
begin

text \<open>
  What a deployment that reports no problem has achieved: the counterpart of the theorems on
  deletions. An object is present if the cluster returns it.
\<close>

section \<open>Applying manifests\<close>

definition present :: "'w api \<Rightarrow> 'w \<Rightarrow> cluster_id \<Rightarrow> obj_ref \<Rightarrow> bool" where
  "present A w c r \<longleftrightarrow> (\<exists>m. a_Get A w c r = Inr m)"

text \<open>A successful apply makes the object of the manifest present, and no apply removes one.\<close>

definition apply_laws :: "'w api \<Rightarrow> bool" where
  "apply_laws A \<longleftrightarrow>
     (\<forall>w c f m w' r. a_Apply A w c f m = (w', r, None) \<longrightarrow> a_Decode A m = Inr r \<and> present A w' c r) \<and>
     (\<forall>w c f m c' r. present A w c' r \<longrightarrow> present A (fst (a_Apply A w c f m)) c' r)"

lemma apply_present: "apply_laws A \<Longrightarrow> a_Apply A w c f m = (w', r, None) \<Longrightarrow> a_Decode A m = Inr r \<and> present A w' c r"
  unfolding apply_laws_def by blast

lemma apply_keeps: "apply_laws A \<Longrightarrow> a_Apply A w c f m = (w', x) \<Longrightarrow> present A w c' r \<Longrightarrow> present A w' c' r"
  unfolding apply_laws_def by (metis fst_conv)

text \<open>All manifests of a list are deployed.\<close>

definition deployed :: "'w api \<Rightarrow> 'w \<Rightarrow> cluster_id \<Rightarrow> string list \<Rightarrow> bool" where
  "deployed A w c ms \<longleftrightarrow> (\<forall>m \<in> set ms. \<exists>r. a_Decode A m = Inr r \<and> present A w c r)"

lemma deployed_Nil [simp]: "deployed A w c []"
  by (simp add: deployed_def)

lemma deployed_Cons [simp]:
  "deployed A w c (m # ms) \<longleftrightarrow> (\<exists>r. a_Decode A m = Inr r \<and> present A w c r) \<and> deployed A w c ms"
  by (simp add: deployed_def)

text \<open>One world has all objects of another.\<close>

definition extends :: "'w api \<Rightarrow> 'w \<Rightarrow> 'w \<Rightarrow> bool" where
  "extends A w w' \<longleftrightarrow> (\<forall>c r. present A w c r \<longrightarrow> present A w' c r)"

lemma extends_refl [simp]: "extends A w w"
  by (simp add: extends_def)

lemma extends_trans: "extends A u v \<Longrightarrow> extends A v w \<Longrightarrow> extends A u w"
  by (simp add: extends_def)

lemma extends_present: "extends A w w' \<Longrightarrow> present A w c r \<Longrightarrow> present A w' c r"
  by (simp add: extends_def)

lemma extends_deployed: "extends A w w' \<Longrightarrow> deployed A w c ms \<Longrightarrow> deployed A w' c ms"
  unfolding deployed_def extends_def by blast

lemma extends_apply: "apply_laws A \<Longrightarrow> a_Apply A w c f m = (w', x) \<Longrightarrow> extends A w w'"
  unfolding extends_def by (blast intro: apply_keeps)

lemma apply_dataplane_None:
  assumes "apply_laws (ev_A V)"
  shows "apply_dataplane V msg ds w = (w', None) \<Longrightarrow> deployed (ev_A V) w' Dataplane ds \<and> extends (ev_A V) w w'"
proof (induction ds arbitrary: w)
  case (Cons d ds)
  obtain w1 r e where a: "a_Apply (ev_A V) w Dataplane no_modifier d = (w1, r, e)" by (rule prod_cases3)
  with Cons.prems have e: "e = None" and rest: "apply_dataplane V msg ds w1 = (w', None)" by (cases e; simp)+
  from Cons.IH [OF rest] apply_present [OF assms a [unfolded e]] extends_apply [OF assms a] show ?case
    using extends_present extends_trans by fastforce
qed simp

lemma ApplyData_None:
  assumes "apply_laws (ev_A V)" "ApplyData V key d (w, z) = ((w', z'), r, None)"
  shows "z' = z" "a_Decode (ev_A V) d = Inr r" "present (ev_A V) w' Runtime r" "extends (ev_A V) w w'"
proof -
  obtain w1 r1 e where a: "a_Apply (ev_A V) w Runtime (runtime_modifier V key z) d = (w1, r1, e)" by (rule prod_cases3)
  with assms(2) have e: "e = None" "w1 = w'" "z' = z" "r1 = r" by (cases e; simp add: ApplyData_def)+
  from apply_present [OF assms(1) a [unfolded e]] extends_apply [OF assms(1) a [unfolded e]] e(3)
  show "z' = z" "a_Decode (ev_A V) d = Inr r" "present (ev_A V) w' Runtime r" "extends (ev_A V) w w'" by blast+
qed

lemma apply_runtime_Inr:
  assumes "apply_laws (ev_A V)"
  shows "apply_runtime V key ds (w, z) f = ((w', z'), Inr f') \<Longrightarrow>
    z' = z \<and> deployed (ev_A V) w' Runtime ds \<and> extends (ev_A V) w w'"
proof (induction ds arbitrary: w z f)
  case (Cons d ds)
  obtain w1 z1 r e where a: "ApplyData V key d (w, z) = ((w1, z1), r, e)" by (metis prod.exhaust)
  show ?case
  proof (cases e)
    case None
    note A = ApplyData_None [OF assms a [unfolded None]]
    from Cons.prems a None obtain f1 where rest: "apply_runtime V key ds (w1, z1) f1 = ((w', z'), Inr f')"
      by (cases "note_object V w1 r f") auto
    from Cons.IH [OF rest] A show ?thesis using extends_present extends_trans by fastforce
  next
    case (Some err)
    with Cons.prems a show ?thesis by simp
  qed
qed simp

text \<open>
  The deployment whose state is reported is the last of the manifests that describes one (the
  empty key if none does), so one that was applied.
\<close>

definition deployment_of :: "'w api \<Rightarrow> object_key \<Rightarrow> string list \<Rightarrow> object_key" where
  "deployment_of A = foldl (\<lambda>k m. case a_Decode A m of
     Inl _ \<Rightarrow> k
   | Inr r \<Rightarrow> if or_Kind r = ''Deployment'' \<and> or_Group r = ''apps'' then or_Key r else k)"

definition applied_deployment :: "'w api \<Rightarrow> string list \<Rightarrow> object_key \<Rightarrow> bool" where
  "applied_deployment A ms k \<longleftrightarrow> (\<exists>m \<in> set ms. \<exists>r. a_Decode A m = Inr r \<and> or_Kind r = ''Deployment'' \<and> or_Group r = ''apps'' \<and> or_Key r = k)"

lemma deployment_of_applied: "deployment_of A k ms = k \<or> applied_deployment A ms (deployment_of A k ms)"
proof (induction ms arbitrary: k)
  case (Cons m ms)
  let ?k = "deployment_of A k [m]"
  have "deployment_of A k (m # ms) = deployment_of A ?k ms" by (simp add: deployment_of_def)
  moreover have "?k = k \<or> applied_deployment A [m] ?k"
    by (auto simp: deployment_of_def applied_deployment_def split: sum.splits)
  ultimately show ?case using Cons.IH [of ?k] by (auto simp: applied_deployment_def)
qed (simp add: deployment_of_def)

lemma note_object_deployment:
  "note_object V w r f = Inr f' \<Longrightarrow>
   fd_Deployment f' = (if or_Kind r = ''Deployment'' \<and> or_Group r = ''apps'' then or_Key r else fd_Deployment f)"
  by (auto simp: note_object_def Let_def split: if_splits sum.splits)

lemma apply_runtime_deployment:
  assumes "apply_laws (ev_A V)"
  shows "apply_runtime V key ds (w, z) f = ((w', z'), Inr f') \<Longrightarrow>
    fd_Deployment f' = deployment_of (ev_A V) (fd_Deployment f) ds"
proof (induction ds arbitrary: w z f)
  case (Cons d ds)
  obtain w1 z1 r e where a: "ApplyData V key d (w, z) = ((w1, z1), r, e)" by (metis prod.exhaust)
  show ?case
  proof (cases e)
    case None
    note A = ApplyData_None [OF assms a [unfolded None]]
    from Cons.prems a None obtain f1 where n: "note_object V w1 r f = Inr f1"
      and rest: "apply_runtime V key ds (w1, z1) f1 = ((w', z'), Inr f')"
      by (cases "note_object V w1 r f") auto
    from Cons.IH [OF rest] note_object_deployment [OF n] A(2) show ?thesis by (simp add: deployment_of_def)
  next
    case (Some err)
    with Cons.prems a show ?thesis by simp
  qed
qed (simp add: deployment_of_def)

lemma apply_runtime_Inl:
  assumes "problem_laws (ev_E V)"
  shows "apply_runtime V key ds (w, z) f = (s, Inl p) \<Longrightarrow> p \<noteq> None"
proof (induction ds arbitrary: w z f)
  case (Cons d ds)
  obtain w1 z1 r e where a: "ApplyData V key d (w, z) = ((w1, z1), r, e)" by (metis prod.exhaust)
  show ?case
  proof (cases e)
    case None
    show ?thesis
    proof (cases "note_object V w1 r f")
      case (Inl q)
      then have "q \<noteq> None" using temp_None_iff [OF assms]
        by (auto simp: note_object_def Let_def split: if_splits sum.splits)
      with Cons.prems a None Inl show ?thesis by simp
    next
      case (Inr f1)
      with Cons.prems a None have "apply_runtime V key ds (w1, z1) f1 = (s, Inl p)" by simp
      from Cons.IH [OF this] show ?thesis .
    qed
  next
    case (Some err)
    with Cons.prems a show ?thesis by auto
  qed
qed simp

lemma apply_dns_runtime_None:
  assumes "apply_laws (ev_A V)"
  shows "apply_dns_runtime V key ds (w, z) = ((w', z'), None) \<Longrightarrow>
    z' = z \<and> deployed (ev_A V) w' Runtime ds \<and> extends (ev_A V) w w'"
proof (induction ds arbitrary: w z)
  case (Cons d ds)
  obtain w1 z1 r e where a: "ApplyData V key d (w, z) = ((w1, z1), r, e)" by (metis prod.exhaust)
  show ?case
  proof (cases e)
    case None
    note A = ApplyData_None [OF assms a [unfolded None]]
    from Cons.prems a None have rest: "apply_dns_runtime V key ds (w1, z1) = ((w', z'), None)" by simp
    from Cons.IH [OF rest] A show ?thesis using extends_present extends_trans by fastforce
  next
    case (Some err)
    with Cons.prems a show ?thesis by simp
  qed
qed simp

section \<open>A deployment without problem\<close>

lemma handle_dns_None:
  assumes A: "apply_laws (ev_A V)" and h: "handle_dns V key values f (w, z) = Some (Ret ((w', z'), None))"
  shows "\<exists>dd dr. dns_Manifests (rc_Handler (ev_rc V)) (ev_E V) (ev_en V) (ev_ro V) (rc_Files (ev_rc V))
      \<lparr>dx_Key = key, dx_Service = fd_Service f, dx_Delete = False\<rparr> values = Some (Ret (dd, dr, None)) \<and>
    deployed (ev_A V) w' Dataplane (data_of V dd) \<and> deployed (ev_A V) w' Runtime (data_of V dr)"
    and "extends (ev_A V) w w'" and "report_status V w' key f z = (z', None)"
proof -
  let ?M = "dns_Manifests (rc_Handler (ev_rc V)) (ev_E V) (ev_en V) (ev_ro V) (rc_Files (ev_rc V))
      \<lparr>dx_Key = key, dx_Service = fd_Service f, dx_Delete = False\<rparr> values"
  obtain g where g: "?M = Some g" using h by (cases ?M) (simp_all add: handle_dns_def)
  obtain x where x: "g = Ret x" using h g by (cases g) (simp_all add: handle_dns_def)
  obtain dd dr p where y: "x = (dd, dr, p)" by (rule prod_cases3)
  have m0: "?M = Some (Ret (dd, dr, p))" by (simp only: g x y)
  have p: "p = None"
  proof (rule ccontr)
    assume "p \<noteq> None"
    then obtain pr where "p = Some pr" by blast
    with h show False by (simp add: handle_dns_def m0)
  qed
  have m: "?M = Some (Ret (dd, dr, None))" by (simp only: m0 p)
  obtain w1 q where d: "apply_dataplane V ''error deploying nameserver dns dataplane: '' (data_of V dd) w = (w1, q)" by (rule prod.exhaust)
  have q: "q = None" using h by (cases q) (simp_all add: handle_dns_def m d)
  obtain w2 z2 q2 where r: "apply_dns_runtime V key (data_of V dr) (w1, z) = ((w2, z2), q2)" by (metis prod.exhaust)
  have q2: "q2 = None" using h by (cases q2) (simp_all add: handle_dns_def m d q r)
  note D = apply_dataplane_None [OF A d [unfolded q]] and R = apply_dns_runtime_None [OF A r [unfolded q2]]
  obtain z3 sm where s: "report_status V w2 key f z2 = (z3, sm)" by (rule prod.exhaust)
  have rep: "z3 = z'" "sm = None" "w2 = w'" using h by (simp_all add: handle_dns_def m d q r q2 s)
  from R rep(3) have R': "z2 = z" "deployed (ev_A V) w' Runtime (data_of V dr)" "extends (ev_A V) w1 w'" by simp_all
  with D have "deployed (ev_A V) w' Dataplane (data_of V dd)" "deployed (ev_A V) w' Runtime (data_of V dr)"
    by (simp_all add: extends_deployed [OF R'(3)])
  with m show "\<exists>dd dr. ?M = Some (Ret (dd, dr, None)) \<and>
    deployed (ev_A V) w' Dataplane (data_of V dd) \<and> deployed (ev_A V) w' Runtime (data_of V dr)" by blast
  show "extends (ev_A V) w w'" using extends_trans [OF _ R'(3)] D by simp
  from R rep s show "report_status V w' key f z = (z', None)" by simp
qed

text \<open>The whole of \<open>HandleExternalResources\<close>; the values may be incomplete (an error \<open>e\<close>).\<close>

lemma HandleExternalResources_None:
  assumes A: "apply_laws (ev_A V)" and P: "problem_laws (ev_E V)" and h: "HandleExternalResources V key (w, z) = Some (Ret ((w', z'), None))"
  shows "\<exists>w1 v e dataplane runtime. mode_Prepare (rc_Mode (ev_rc V)) (ev_E V) (ev_A V) (rc_Options (ev_rc V)) (request_context V key w) w = (w1, None) \<and>
    fst (snd (request_Values V key False w1)) = v \<and> snd (snd (request_Values V key False w1)) = e \<and>
    Render (ev_en V) (ev_ro V) (rc_Manifests (ev_rc V)) v = Some (Ret (Inr (dataplane, runtime))) \<and>
    deployed (ev_A V) w' Dataplane (data_of V dataplane) \<and>
    (if e \<noteq> None then z' = z
     else deployed (ev_A V) w' Runtime (data_of V runtime) \<and> (\<exists>f. report_status V w' key f z = (z', None) \<and>
       fd_Deployment f = deployment_of (ev_A V) ([], []) (data_of V runtime) \<and>
       (\<exists>dd dr. dns_Manifests (rc_Handler (ev_rc V)) (ev_E V) (ev_en V) (ev_ro V) (rc_Files (ev_rc V))
          \<lparr>dx_Key = key, dx_Service = fd_Service f, dx_Delete = False\<rparr> v = Some (Ret (dd, dr, None)) \<and>
        deployed (ev_A V) w' Dataplane (data_of V dd) \<and> deployed (ev_A V) w' Runtime (data_of V dr))))"
proof -
  obtain w1 p where prep: "mode_Prepare (rc_Mode (ev_rc V)) (ev_E V) (ev_A V) (rc_Options (ev_rc V)) (request_context V key w) w = (w1, p)"
    by (rule prod.exhaust)
  have p: "p = None" using h by (cases p) (simp_all add: HandleExternalResources_def prep)
  obtain url where url: "a_APIServerURL (ev_A V) w1 = Inr url"
    using h by (cases "a_APIServerURL (ev_A V) w1") (simp_all add: HandleExternalResources_def prep p)
  obtain w2 v e where val: "request_Values V key False w1 = (w2, v, e)" by (rule prod_cases3)
  let ?R = "Render (ev_en V) (ev_ro V) (rc_Manifests (ev_rc V)) v"
  obtain g where g: "?R = Some g" using h by (cases ?R) (simp_all add: HandleExternalResources_def prep p url val)
  obtain x where x: "g = Ret x" using h by (cases g) (simp_all add: HandleExternalResources_def prep p url val g)
  obtain dr where dr: "x = Inr dr" using h by (cases x) (simp_all add: HandleExternalResources_def prep p url val g x)
  obtain dp rt where y: "dr = (dp, rt)" by (rule prod.exhaust)
  have R: "?R = Some (Ret (Inr (dp, rt)))" using g x dr y by simp
  have hr: "handle_rendered V key v e dp rt (w2, z) = Some (Ret ((w', z'), None))"
    using h by (simp add: HandleExternalResources_def prep p url val R)
  obtain w3 q where d: "apply_dataplane V ''error deploying dataplane: '' (data_of V dp) w2 = (w3, q)" by (rule prod.exhaust)
  have q: "q = None" using hr by (cases q) (simp_all add: handle_rendered_def d)
  note D = apply_dataplane_None [OF A d [unfolded q]]
  show ?thesis
  proof (cases e)
    case (Some err)
    with hr have "w3 = w'" "z' = z" by (simp_all add: handle_rendered_def d q)
    with D R prep p val Some show ?thesis by (intro exI conjI) (assumption | simp)+
  next
    case None
    let ?f = "\<lparr>fd_Deployment = ([], []), fd_Service = None\<rparr>"
    obtain w4 z4 pf where r: "apply_runtime V key (data_of V rt) (w3, z) ?f = ((w4, z4), pf)" by (metis prod.exhaust)
    obtain f where pf: "pf = Inr f" and hd: "handle_dns V key v f (w4, z4) = Some (Ret ((w', z'), None))"
    proof (cases pf)
      case (Inl p)
      with hr None have "p = None" by (simp add: handle_rendered_def d q r)
      with apply_runtime_Inl [OF P r [unfolded Inl]] show ?thesis by simp
    next
      case (Inr f)
      with hr None show ?thesis by (intro that [of f]) (simp_all add: handle_rendered_def d q r)
    qed
    note A' = apply_runtime_Inr [OF A r [unfolded pf]] and H = handle_dns_None [OF A hd]
    have "extends (ev_A V) w3 w'" using A' extends_trans [OF _ H(2)] by simp
    with D A' have dep: "deployed (ev_A V) w' Dataplane (data_of V dp)" "deployed (ev_A V) w' Runtime (data_of V rt)"
      by (simp_all add: extends_deployed [OF H(2)] extends_deployed [of _ w3 w'])
    have k: "fd_Deployment f = deployment_of (ev_A V) ([], []) (data_of V rt)"
      using apply_runtime_deployment [OF A r [unfolded pf]] by simp
    have st: "report_status V w' key f z = (z', None)" using H(3) A' by simp
    from None have e: "\<not> e \<noteq> None" by simp
    show ?thesis
      unfolding if_not_P [OF e]
      by (rule exI [of _ w1], rule exI [of _ v], rule exI [of _ e], rule exI [of _ dp], rule exI [of _ rt])
         (use prep p val R dep st k H(1) e in \<open>simp, blast\<close>)
  qed
qed

lemma deployed_data:
  "iteration_order (ro_manifests (ev_ro V)) \<Longrightarrow>
   deployed A w c (data_of V ms) \<longleftrightarrow> (\<forall>(n, m) \<in> set ms. \<exists>r. a_Decode A m = Inr r \<and> present A w c r)"
  unfolding deployed_def by (rule data_of_all)

section \<open>Properties\<close>

text \<open>C8: a deployment that reports no problem is complete: every standard data plane manifest was
  rendered, decoded and its object exists; and unless the access values are still missing, so
  it is for the runtime manifests, name servers are recorded, the deployment whose state is
  reported is one of the manifests (or the empty key) and can be read, and the zone is called
  Ready exactly if it runs and validation and DNS server were true before.\<close>

theorem deployment_complete:
  assumes "apply_laws (ev_A V)" "problem_laws (ev_E V)" "condition_laws (ev_E V)" "iteration_order (ro_manifests (ev_ro V))"
    and "HandleExternalResources V key (w, z) = Some (Ret ((w', z'), None))"
  shows "\<exists>w1 w2 v e dataplane runtime. request_Values V key False w1 = (w2, v, e) \<and>
    Render (ev_en V) (ev_ro V) (rc_Manifests (ev_rc V)) v = Some (Ret (Inr (dataplane, runtime))) \<and>
    (\<forall>(n, m) \<in> set dataplane. \<exists>r. a_Decode (ev_A V) m = Inr r \<and> present (ev_A V) w' Dataplane r) \<and>
    (if e \<noteq> None then z' = z
     else (\<forall>(n, m) \<in> set runtime. \<exists>r. a_Decode (ev_A V) m = Inr r \<and> present (ev_A V) w' Runtime r) \<and>
       zt_NameServers (z_Status z') \<noteq> [] \<and>
       (\<exists>k d. a_GetDeployment (ev_A V) w' k = Inr d \<and>
         (k = ([], []) \<or> applied_deployment (ev_A V) (map snd runtime) k) \<and>
         (zt_State (z_Status z') = STATE_READY \<longleftrightarrow>
           ztrue z ValidationConditionType \<and> ztrue z ServerConditionType \<and> running (ev_A V) w' k z)))"
proof -
  from HandleExternalResources_None [OF assms(1,2,5)] obtain w1 v e dataplane runtime where
    v: "fst (snd (request_Values V key False w1)) = v" "snd (snd (request_Values V key False w1)) = e"
    and r: "Render (ev_en V) (ev_ro V) (rc_Manifests (ev_rc V)) v = Some (Ret (Inr (dataplane, runtime)))"
    and d: "deployed (ev_A V) w' Dataplane (data_of V dataplane)"
    and rest: "if e \<noteq> None then z' = z
      else deployed (ev_A V) w' Runtime (data_of V runtime) \<and> (\<exists>f. report_status V w' key f z = (z', None) \<and>
       fd_Deployment f = deployment_of (ev_A V) ([], []) (data_of V runtime) \<and>
       (\<exists>dd dr. dns_Manifests (rc_Handler (ev_rc V)) (ev_E V) (ev_en V) (ev_ro V) (rc_Files (ev_rc V))
          \<lparr>dx_Key = key, dx_Service = fd_Service f, dx_Delete = False\<rparr> v = Some (Ret (dd, dr, None)) \<and>
        deployed (ev_A V) w' Dataplane (data_of V dd) \<and> deployed (ev_A V) w' Runtime (data_of V dr)))" by metis
  have val: "request_Values V key False w1 = (fst (request_Values V key False w1), v, e)" by (simp add: v [symmetric])
  note dp = d [unfolded deployed_data [OF assms(4)]]
  show ?thesis
  proof (cases "e = None")
    case False
    with rest have "z' = z" by simp
    with val r dp False show ?thesis by (intro exI conjI) (assumption | simp)+
  next
    case True
    with rest obtain f where rt: "deployed (ev_A V) w' Runtime (data_of V runtime)" and st: "report_status V w' key f z = (z', None)"
      and key: "fd_Deployment f = deployment_of (ev_A V) ([], []) (data_of V runtime)" by auto
    have k: "fd_Deployment f = ([], []) \<or> applied_deployment (ev_A V) (data_of V runtime) (fd_Deployment f)"
      unfolding key by (rule deployment_of_applied)
    note facts = report_status_facts [OF assms(3,2) st]
    from facts(2) obtain dpl where dpl: "a_GetDeployment (ev_A V) w' (fd_Deployment f) = Inr dpl"
      and n: "names_of V w' key (fd_Service f) \<noteq> []" by auto
    have k': "fd_Deployment f = ([], []) \<or> applied_deployment (ev_A V) (map snd runtime) (fd_Deployment f)"
      using k by (auto simp: applied_deployment_def data_of_set [OF assms(4)] image_iff) force?
    have "(\<exists>k d. a_GetDeployment (ev_A V) w' k = Inr d \<and> (k = ([], []) \<or> applied_deployment (ev_A V) (map snd runtime) k) \<and>
         (zt_State (z_Status z') = STATE_READY \<longleftrightarrow>
           ztrue z ValidationConditionType \<and> ztrue z ServerConditionType \<and> running (ev_A V) w' k z))"
      using facts(1) n dpl k' by (intro exI [of _ "fd_Deployment f"]) simp
    moreover have "zt_NameServers (z_Status z') \<noteq> []" using facts(3) n by simp
    ultimately show ?thesis
      using val r dp rt [unfolded deployed_data [OF assms(4)]] True
      by (intro exI [of _ w1] exI [of _ "fst (request_Values V key False w1)"] exI [of _ v] exI [of _ e]
          exI [of _ dataplane] exI [of _ runtime]) simp
  qed
qed

lemma ref_apply_laws: "apply_laws ref_api"
  by (auto simp: apply_laws_def present_def ref_api_def lookup_def update_conv' split: sum.splits if_splits)

theorem deployment_complete_witness:
  "\<exists>s z'. HandleExternalResources (test_env DnsLoadbalancer) (''default'', ''z'') (running_store, ZoneA) = Some (Ret ((s, z'), None)) \<and>
     present ref_api s Runtime (manifest_ref ''deploy'') \<and> \<not> present ref_api running_store Runtime (manifest_ref ''deploy'') \<and>
     zt_NameServers (z_Status z') \<noteq> []"
proof -
  let ?V = "test_env DnsLoadbalancer"
  let ?r = "HandleExternalResources ?V (''default'', ''z'') (running_store, ZoneA)"
  let ?s = "case ?r of Some (Ret ((s, _), _)) \<Rightarrow> s" and ?z = "case ?r of Some (Ret ((_, z), _)) \<Rightarrow> z"
  have "?r = Some (Ret ((?s, ?z), None))" by code_simp
  then obtain s z where r: "?r = Some (Ret ((s, z), None))" by blast
  have e: "snd (snd (request_Values ?V (''default'', ''z'') False x)) = None" for x
    by (simp add: request_Values_def test_env_def Values_def request_context_def ref_api_def Let_def)
  have v: "Render (ev_en ?V) (ev_ro ?V) (rc_Manifests (ev_rc ?V)) x = Some (Ret (Inr ([(''c'', ''config'')], [(''a'', ''deploy''), (''b'', ''svc'')])))" for x
    by code_simp
  have d: "a_Decode ref_api ''deploy'' = Inr (manifest_ref ''deploy'')" by code_simp
  have n: "\<not> present ref_api running_store Runtime (manifest_ref ''deploy'')"
    by (simp add: present_def ref_api_def running_store_def empty_store_def lookup_def)
  have l: "apply_laws (ev_A ?V)" "problem_laws (ev_E ?V)" "condition_laws (ev_E ?V)" "iteration_order (ro_manifests (ev_ro ?V))"
    by (simp_all add: ref_apply_laws ref_problem_laws ref_condition_laws test_order)
  from deployment_complete [OF l r] have "present ref_api s Runtime (manifest_ref ''deploy'') \<and> zt_NameServers (z_Status z) \<noteq> []"
  proof (elim exE conjE)
    fix w1 w2 vals er dp rt
    assume q: "request_Values ?V (''default'', ''z'') False w1 = (w2, vals, er)"
      and R: "Render (ev_en ?V) (ev_ro ?V) (rc_Manifests (ev_rc ?V)) vals = Some (Ret (Inr (dp, rt)))"
      and f: "if er \<noteq> None then z = ZoneA else (\<forall>(n, m) \<in> set rt. \<exists>r. a_Decode (ev_A ?V) m = Inr r \<and> present (ev_A ?V) s Runtime r) \<and>
        zt_NameServers (z_Status z) \<noteq> [] \<and> (\<exists>k d. a_GetDeployment (ev_A ?V) s k = Inr d \<and>
         (k = ([], []) \<or> applied_deployment (ev_A ?V) (map snd rt) k) \<and>
         (zt_State (z_Status z) = STATE_READY \<longleftrightarrow>
           ztrue ZoneA ValidationConditionType \<and> ztrue ZoneA ServerConditionType \<and> running (ev_A ?V) s k ZoneA))"
    from q e [of w1] have er: "er = None" by simp
    from R v have rt: "rt = [(''a'', ''deploy''), (''b'', ''svc'')]" by simp
    from f have "\<exists>r. a_Decode (ev_A ?V) ''deploy'' = Inr r \<and> present (ev_A ?V) s Runtime r" "zt_NameServers (z_Status z) \<noteq> []"
      by (simp_all add: er rt)
    with d show ?thesis by simp
  qed
  with r n show ?thesis by blast
qed

end
