(* ===== verification/Zone_Flow.thy ===== *)
theory Zone_Flow
  imports Server_Zone Direct_Deploy
begin

text \<open>
  A root zone is written by two controllers as well: the server loads it into its model and, as
  a slave, reports so; the data plane deploys the server for it and sums up. The server's mode
  is the one its factory computes from the conditions of the zone: in slave mode it acts as a
  slave once the data plane's controller has reconciled the zone.
\<close>

section \<open>The report of the server\<close>

definition slave_zone :: "'p ext \<Rightarrow> hosted_zone \<Rightarrow> hosted_zone" where
  "slave_zone E z = z\<lparr>z_Status := (z_Status z)\<lparr>zt_Conditions := fst (x_SetStatusCondition E (zt_Conditions (z_Status z))
     (server_condition ConditionTrue (om_Generation (z_Meta z)) ReasonServerActive ''hosted zone served''))\<rparr>\<rparr>"

lemma slave_zone_sel [simp]:
  "z_Spec (slave_zone E z) = z_Spec z" "z_Meta (slave_zone E z) = z_Meta z"
  "zt_Observed (z_Status (slave_zone E z)) = zt_Observed (z_Status z)"
  by (simp_all add: slave_zone_def)

lemma slave_zone_server: "condition_laws E \<Longrightarrow> ztrue (slave_zone E z) ServerConditionType"
  by (simp add: is_true_def slave_zone_def Set_eq) (simp add: server_condition_def)

lemma zone_updateStatus_slave: "zone_updateStatus E False z force None reason = slave_zone E z"
  by (simp add: zone_updateStatus_def slave_zone_def Let_def)

lemma root_zone_info:
  "zone_parent z = [] \<Longrightarrow> GetRootInfo D E get z None = Some ((Some (chain_resp None z), True, None), None)"
  by (subst GetRootInfo_def, subst zone_walk.simps) (simp add: chain_resp_def AggregateNames_def)

lemma slave_Reconcile:
  assumes root: "zone_parent z = []" "zs_Class (z_Spec z) = None" "so_Class opts = None" and v: "snd (ValidateZone E z) = None"
    and r: "zone_Reconcile D E ord opts False cluster get m z = Some (m', z', p)"
  shows "p = None" "z' = slave_zone E z"
proof -
  obtain reason where v: "ValidateZone E z = (reason, None)" using v by (cases "ValidateZone E z") auto
  have c: "Check (chain_resp None z) (so_Class opts) None" using root by (simp add: Check_def chain_resp_def)
  let ?zk = "ZoneKeyFromObject cluster (z_Meta z)"
  have "zone_Reconcile D E ord opts False cluster get m z =
      map_option (\<lambda>(m', _). (m', slave_zone E z, None)) (AddZone D E ord cluster ?zk z m)"
    using c v by (simp add: zone_Reconcile_def root_zone_info [OF root(1)] zone_updateStatus_slave)
  with r show "p = None" "z' = slave_zone E z" by auto
qed

text \<open>In slave mode a condition of the data plane makes the server a slave.\<close>

lemma slave_CreateRequest:
  assumes "so_Slave opts" "ztrue z t" "t \<noteq> ServerConditionType" "zone_CreateRequest opts (Some z) = Ret master"
  shows "\<not> master"
proof -
  from assms(2) obtain c where "c \<in> set (zt_Conditions (z_Status z))" "c_Type c = t"
    by (auto simp: is_true_def split: option.splits dest: find_SomeD)
  with assms show ?thesis by (auto simp: zone_CreateRequest_def IsMaster_iff)
qed

lemma root_served:
  assumes "zone_parent z = []" "zs_Class (z_Spec z) = None" "so_Class opts = None" "snd (ValidateZone E z) = None"
  shows "served E opts get z"
  unfolding served_def using assms by (intro conjI exI [of _ "[]"]) simp_all

section \<open>The part of the data plane\<close>

text \<open>The controller of a zone which has its finalizer, or a new one which may register.\<close>

definition manages :: "('p, 'w, 'c) env \<Rightarrow> 'w \<Rightarrow> hosted_zone \<Rightarrow> bool" where
  "manages V w z \<longleftrightarrow> alnum z \<and>
     (if fin_of V \<in> set (finalizers z) then \<not> ChangedResponsibility V (Some z)
      else takes V z \<and> (\<forall>m. snd (a_PatchMeta (ev_A V) w (z_Meta z) m) = None))"

lemma manages_status:
  "z_Spec z' = z_Spec z \<Longrightarrow> z_Meta z' = z_Meta z \<Longrightarrow> zt_Observed (z_Status z') = zt_Observed (z_Status z) \<Longrightarrow>
   manages V w z' \<longleftrightarrow> manages V w z"
  by (simp add: manages_def alnum_def takes_def ChangedResponsibility_def finalizers_def split: option.split)

lemma manages_Reconcile:
  assumes F: "finalizer_laws (ev_E V)" and p: "zone_parent z = []" and m: "manages V w z"
  obtains w1 meta where "direct_Reconcile V key (w, z) = lift_zone (handleObject V key (chain_resp None z) (w1, z\<lparr>z_Meta := meta\<rparr>))"
    "fin_of V \<in> set (om_Finalizers meta)" "fin_of V \<in> set (finalizers z) \<Longrightarrow> w1 = w \<and> meta = z_Meta z"
proof (cases "fin_of V \<in> set (finalizers z)")
  case True
  with m have c: "\<not> ChangedResponsibility V (Some z)" and a: "alnum z" by (simp_all add: manages_def)
  from True have t: "takes V z" by (simp add: takes_def)
  from True p have f: "finalizer_step V z = (z_Meta z, False)"
    by (simp add: finalizer_step_def Add_eq [OF F] finalizers_def fin_of_def)
  show ?thesis
    by (rule that [of w "z_Meta z"])
       (use True a t c f in \<open>simp_all add: direct_Reconcile_def IsResponsibile_root [OF F p] alnum_def finalizers_def\<close>)
next
  case False
  with m have a: "alnum z" and t: "takes V z" and pm: "\<And>x. snd (a_PatchMeta (ev_A V) w (z_Meta z) x) = None"
    by (simp_all add: manages_def)
  from False have c: "\<not> ChangedResponsibility V (Some z)"
    by (simp add: ChangedResponsibility_def Contains_eq [OF F] finalizers_def fin_of_def)
  let ?m = "(z_Meta z)\<lparr>om_Finalizers := finalizers z @ [fin_of V]\<rparr>"
  from False p have f: "finalizer_step V z = (?m, True)"
    by (simp add: finalizer_step_def Add_eq [OF F] finalizers_def fin_of_def)
  obtain w1 where pm: "a_PatchMeta (ev_A V) w (z_Meta z) ?m = (w1, None)"
    using pm [of ?m] by (cases "a_PatchMeta (ev_A V) w (z_Meta z) ?m") auto
  show ?thesis
    by (rule that [of w1 ?m])
       (use False a t c f pm in \<open>simp_all add: direct_Reconcile_def IsResponsibile_root [OF F p] alnum_def\<close>)
qed

lemma ValidateZone_spec: "z_Spec z' = z_Spec z \<Longrightarrow> ValidateZone E z' = ValidateZone E z"
  by (simp add: ValidateZone_def)

text \<open>A valid root zone is handed to the deployment with the validation recorded.\<close>

lemma handleObject_root:
  assumes E: "condition_laws (ev_E V)" and p: "zone_parent z = []" and v: "snd (ValidateZone (ev_E V) z) = None"
    and info: "rs_Parent info = None"
  obtains z' where "handleObject V key info (w, z) = HandleExternalResources V key (w, z')"
    "zt_State (z_Status z') = zt_State (z_Status z)" "z_Meta z' = z_Meta z"
    "ztrue z' ValidationConditionType" "ztrue z' ServerConditionType \<longleftrightarrow> ztrue z ServerConditionType"
proof -
  obtain reason where "zone_Validate (ev_E V) z info = (reason, None)"
    using v info by (cases "ValidateZone (ev_E V) z") (auto simp: zone_Validate_def)
  moreover obtain ob same where "registered V z = (ob, same)" by (rule prod.exhaust)
  moreover define z1 where "z1 = zone_SetStatusCondition (ev_E V) (cond ValidationConditionType ConditionTrue reason
      ''The HostedZone specification passed all validation checks.'') z"
  moreover have "zframe z z1" by (simp add: z1_def)
  ultimately have h: "handleObject V key info (w, z) = HandleExternalResources V key (w, z1\<lparr>z_Status := (z_Status z1)\<lparr>zt_Observed :=
      fst (SetPointerField Observed_Equals same (zt_Observed (z_Status z1)) ob)\<rparr>\<rparr>)"
    using p by (simp add: handleObject_def Let_def zframe_def)
  have "ztrue z1 ValidationConditionType" "ztrue z1 ServerConditionType \<longleftrightarrow> ztrue z ServerConditionType"
    by (simp_all add: z1_def ztrue_set [OF E]) (simp_all add: cond_def condition_type_defs)
  moreover have "zt_State (z_Status z1) = zt_State (z_Status z)" "z_Meta z1 = z_Meta z"
    by (simp_all add: z1_def zone_SetStatusCondition_def Let_def)
  ultimately show ?thesis by (intro that [OF h]) simp_all
qed

lemma lift_zone_Ret: "lift_zone r = Some (Ret ((w, Some z), p)) \<longleftrightarrow> r = Some (Ret ((w, z), p))"
  by (auto simp: lift_zone_def go_bind_Ret_iff)

text \<open>
  A problem-free reconciliation by the data plane whose zone it is or may become: what it hands
  to the deployment, and that the validation stays recorded.
\<close>

lemma report_status_keeps:
  assumes E: "condition_laws (ev_E V)" and P: "problem_laws (ev_E V)"
    and r: "report_status V w key f z = (z', sm)" and t: "t \<noteq> RuntimeConditionType" "t \<noteq> NameserverConditionType"
  shows "ztrue z' t \<longleftrightarrow> ztrue z t"
proof -
  obtain z1 s1 where d: "report_deployment V w (fd_Deployment f) z = (z1, s1)" by (rule prod.exhaust)
  obtain z2 s2 where n: "report_nameserver V w key (fd_Service f) (z1, s1) = (z2, s2)" by (rule prod.exhaust)
  from r d n have "z' = summary (ev_E V) z2" by (simp add: report_status_def)
  moreover have "ztrue (summary (ev_E V) x) t \<longleftrightarrow> ztrue x t" for x by (simp add: summary_def Let_def split_def)
  ultimately show ?thesis
    using report_deployment_true [OF E, of w "fd_Deployment f" z t] d
      report_nameserver_true [OF E P, of w key "fd_Service f" z1 s1 t] n t by simp
qed

lemma managed_turn:
  assumes A: "apply_laws (ev_A V)" and E: "problem_laws (ev_E V)" "condition_laws (ev_E V)" "finalizer_laws (ev_E V)"
    and root: "zone_parent z = []" and v: "snd (ValidateZone (ev_E V) z) = None" and m: "manages V w z"
    and d: "direct_Reconcile V key (w, z) = Some (Ret ((w', Some z'), None))"
  obtains w1 z1 where "HandleExternalResources V key (w1, z1) = Some (Ret ((w', z'), None))"
    "zt_State (z_Status z1) = zt_State (z_Status z)" "ztrue z1 ValidationConditionType"
    "ztrue z1 ServerConditionType \<longleftrightarrow> ztrue z ServerConditionType"
    "fin_of V \<in> set (finalizers z)  \<Longrightarrow> w1 = w" "fin_of V \<in> set (finalizers z')" "ztrue z' ValidationConditionType"
proof -
  from manages_Reconcile [OF E(3) root m, of key] obtain w1 meta where
    r: "direct_Reconcile V key (w, z) = lift_zone (handleObject V key (chain_resp None z) (w1, z\<lparr>z_Meta := meta\<rparr>))"
    and fin: "fin_of V \<in> set (om_Finalizers meta)" "fin_of V \<in> set (finalizers z) \<Longrightarrow> w1 = w \<and> meta = z_Meta z" by blast
  let ?z = "z\<lparr>z_Meta := meta\<rparr>"
  have v': "snd (ValidateZone (ev_E V) ?z) = None" using v ValidateZone_spec [of ?z z "ev_E V"] by simp
  have pz: "zone_parent ?z = []" using root by simp
  obtain z1 where z1: "handleObject V key (chain_resp None z) (w1, ?z) = HandleExternalResources V key (w1, z1)"
    "zt_State (z_Status z1) = zt_State (z_Status z)" "z_Meta z1 = meta" "ztrue z1 ValidationConditionType"
    "ztrue z1 ServerConditionType \<longleftrightarrow> ztrue z ServerConditionType"
    by (rule handleObject_root [OF E(2) pz v', of "chain_resp None z" key w1]) (auto simp: chain_resp_def)
  from d r z1(1) have h: "HandleExternalResources V key (w1, z1) = Some (Ret ((w', z'), None))"
    by (simp add: lift_zone_Ret)
  from HandleExternalResources_None [OF A E(1) h] have "z' = z1 \<or> (\<exists>f. report_status V w' key f z1 = (z', None))"
    by (auto split: if_splits)
  then have val: "ztrue z' ValidationConditionType"
    using z1(4) report_status_keeps [OF E(2,1), of w' key _ z1 z' None ValidationConditionType]
    by (auto simp: condition_type_defs)
  have "zframe z1 z'" using zframe_HandleExternalResources [OF h] .
  then have f': "fin_of V \<in> set (finalizers z')" using fin(1) z1(3) by (simp add: zframe_def finalizers_def)
  show ?thesis by (rule that [OF h z1(2,4,5) _ f' val]) (use fin(2) in blast)
qed

text \<open>
  What a turn of the data plane that starts in \<open>w\<close> with \<open>z\<close> and ends in \<open>w'\<close> with \<open>z'\<close> leaves of a
  zone that validation and server approved of: the runtime manifests are rendered with the
  values of the zone's key; if the values are incomplete the state stays, otherwise name
  servers are recorded and the zone is Ready exactly if the deployment its manifests describe
  has ready replicas.
\<close>

definition deployed_state :: "('p, 'w, 'c) env \<Rightarrow> object_key \<Rightarrow> 'w \<Rightarrow> hosted_zone_status \<Rightarrow> 'w \<Rightarrow> hosted_zone_status \<Rightarrow> bool" where
  "deployed_state V key w st w' st' \<longleftrightarrow> (\<exists>w1 w2 v e dataplane runtime.
     mode_Prepare (rc_Mode (ev_rc V)) (ev_E V) (ev_A V) (rc_Options (ev_rc V)) (request_context V key w) w = (w1, None) \<and>
     request_Values V key False w1 = (w2, v, e) \<and>
     Render (ev_en V) (ev_ro V) (rc_Manifests (ev_rc V)) v = Some (Ret (Inr (dataplane, runtime))) \<and>
     (if e \<noteq> None then zt_State st' = zt_State st
      else zt_NameServers st' \<noteq> [] \<and>
        (\<exists>d. a_GetDeployment (ev_A V) w' (deployment_of (ev_A V) ([], []) (data_of V runtime)) = Inr d \<and>
          (zt_State st' = STATE_READY \<longleftrightarrow> dp_ReadyReplicas d > 0))))"

lemma HandleExternalResources_state:
  assumes A: "apply_laws (ev_A V)" and E: "problem_laws (ev_E V)" "condition_laws (ev_E V)"
    and h: "HandleExternalResources V key (w, z) = Some (Ret ((w', z'), None))"
    and t: "ztrue z ValidationConditionType" "ztrue z ServerConditionType"
  shows "deployed_state V key w (z_Status z) w' (z_Status z')"
proof -
  from HandleExternalResources_None [OF A E(1) h] obtain w1 v e dataplane runtime where
    prep: "mode_Prepare (rc_Mode (ev_rc V)) (ev_E V) (ev_A V) (rc_Options (ev_rc V)) (request_context V key w) w = (w1, None)"
    and v: "fst (snd (request_Values V key False w1)) = v" "snd (snd (request_Values V key False w1)) = e"
    and R: "Render (ev_en V) (ev_ro V) (rc_Manifests (ev_rc V)) v = Some (Ret (Inr (dataplane, runtime)))"
    and rest: "e \<noteq> None \<Longrightarrow> z' = z" "e = None \<Longrightarrow> \<exists>f. report_status V w' key f z = (z', None) \<and>
       fd_Deployment f = deployment_of (ev_A V) ([], []) (data_of V runtime)" by (metis (no_types, lifting))
  have val: "request_Values V key False w1 = (fst (request_Values V key False w1), v, e)" by (simp add: v [symmetric])
  have "if e \<noteq> None then zt_State (z_Status z') = zt_State (z_Status z)
      else zt_NameServers (z_Status z') \<noteq> [] \<and>
        (\<exists>d. a_GetDeployment (ev_A V) w' (deployment_of (ev_A V) ([], []) (data_of V runtime)) = Inr d \<and>
          (zt_State (z_Status z') = STATE_READY \<longleftrightarrow> dp_ReadyReplicas d > 0))"
  proof (cases "e = None")
    case True
    from rest(2) [OF this] obtain f where f: "report_status V w' key f z = (z', None)"
      and k: "fd_Deployment f = deployment_of (ev_A V) ([], []) (data_of V runtime)" by blast
    note facts = report_status_facts [OF E(2,1) f, unfolded k]
    from facts(2) obtain dp where dp: "a_GetDeployment (ev_A V) w' (deployment_of (ev_A V) ([], []) (data_of V runtime)) = Inr dp"
      and n: "names_of V w' key (fd_Service f) \<noteq> []" by auto
    have "zt_State (z_Status z') = STATE_READY \<longleftrightarrow> dp_ReadyReplicas dp > 0"
      using facts(1) t n dp by (simp add: running_def)
    with facts(3) n dp True show ?thesis by simp
  qed (use rest(1) in simp)
  with prep val R show ?thesis
    unfolding deployed_state_def by (intro exI conjI) (assumption+)
qed

text \<open>
  The three turns: the data plane's, by which the server becomes a slave, the server's, and the
  data plane's again.
\<close>

lemma zone_flow:
  assumes A: "apply_laws (ev_A V)" and E: "problem_laws (ev_E V)" "condition_laws (ev_E V)" "finalizer_laws (ev_E V)"
    and root: "zone_parent z = []" "zs_Class (z_Spec z) = None" "snd (ValidateZone (ev_E V) z) = None"
    and so: "so_Class sopts = None" "so_Slave sopts"
    and d1: "manages V w z" "direct_Reconcile V key (w, z) = Some (Ret ((w1, Some z1), None))"
    and s: "zone_CreateRequest sopts (Some z1) = Ret master"
      "zone_Reconcile D (ev_E V) ord sopts master cluster get m z1 = Some (m', z2, p)"
    and d2: "manages V w2 z2" "direct_Reconcile V key (w2, z2) = Some (Ret ((w3, Some z3), None))"
  shows "\<not> master" "p = None" "touched (fin_of V) z z1" "z_Spec z3 = z_Spec z"
    "served (ev_E V) sopts get z1" "deployed_state V key w2 (z_Status z1) w3 (z_Status z3)"
proof -
  have t: "touched (fin_of V) z z1" using touched_Reconcile [OF E(3) d1(2)] by simp
  then have spec: "z_Spec z1 = z_Spec z" by (simp add: touched_def)
  obtain u x where one: "fin_of V \<in> set (finalizers z1)" "ztrue z1 ValidationConditionType"
    by (rule managed_turn [OF A E root(1,3) d1])
  have master: "\<not> master"
    by (rule slave_CreateRequest [OF so(2) one(2) _ s(1)]) (simp add: condition_type_defs)
  have root1: "zone_parent z1 = []" "zs_Class (z_Spec z1) = None" "snd (ValidateZone (ev_E V) z1) = None"
    using root spec ValidateZone_spec [OF spec, of "ev_E V"] by simp_all
  note slave = slave_Reconcile [OF root1(1,2) so(1) root1(3), of D ord cluster get m m' z2 p]
  have p: "p = None" and z2: "z2 = slave_zone (ev_E V) z1" using s(2) master by (auto intro: slave)
  have root2: "zone_parent z2 = []" "snd (ValidateZone (ev_E V) z2) = None"
    using root1 ValidateZone_spec [of z2 z1 "ev_E V"] by (simp_all add: z2)
  have srv: "ztrue z2 ServerConditionType" unfolding z2 by (rule slave_zone_server [OF E(2)])
  have fin2: "fin_of V \<in> set (finalizers z2)" using one(1) by (simp add: z2 finalizers_def)
  have st2: "zt_State (z_Status z2) = zt_State (z_Status z1)" by (simp add: z2 slave_zone_def)
  obtain y where h: "HandleExternalResources V key (w2, y) = Some (Ret ((w3, z3), None))"
    "zt_State (z_Status y) = zt_State (z_Status z2)" "ztrue y ValidationConditionType" "ztrue y ServerConditionType"
    by (rule managed_turn [OF A E root2 d2]) (use srv fin2 in auto)
  from HandleExternalResources_state [OF A E(1,2) h(1,3,4)]
  show "deployed_state V key w2 (z_Status z1) w3 (z_Status z3)"
    unfolding deployed_state_def h(2) st2 .
  have "touched (fin_of V) z2 z3" using touched_Reconcile [OF E(3) d2(2)] by simp
  then show "z_Spec z3 = z_Spec z" by (simp add: touched_def z2 spec)
  show "\<not> master" "p = None" "touched (fin_of V) z z1" "served (ev_E V) sopts get z1"
    using master p t root_served [OF root1(1,2) so(1) root1(3)] by simp_all
qed

section \<open>Properties\<close>

text \<open>C9: a valid root zone without class becomes Ready by the two controllers together. A problem-free
  turn of the data plane's controller, whose zone it is or may become, makes the server, which
  runs in slave mode, a slave for the zone; the server's turn then ends without problem and
  loads the zone's declaration into the model; and after a further problem-free turn of the data
  plane either the access values are still missing and the state stays, or name servers are
  recorded and the zone is Ready exactly if its own deployment, the one described by the
  runtime manifests rendered for its key, has ready replicas. The server's mode is the one
  its factory computes; the cluster may change in any way before the last turn.\<close>

theorem zone_becomes_ready:
  assumes "apply_laws (ev_A V)" "problem_laws (ev_E V)" "condition_laws (ev_E V)" "finalizer_laws (ev_E V)" "refkey_law (ev_E V)"
    and "honest get" "finite_zones get (zone_namespace z)" "wf_model m" "iteration_order ord"
    and "zone_parent z = []" "zs_Class (z_Spec z) = None" "snd (ValidateZone (ev_E V) z) = None"
    and "so_Class sopts = None" "so_Slave sopts"
    and "manages V w z" "direct_Reconcile V key (w, z) = Some (Ret ((w1, Some z1), None))"
    and "zone_CreateRequest sopts (Some z1) = Ret master"
    and "zone_Reconcile D (ev_E V) ord sopts master cluster get m z1 = Some (m', z2, p)"
    and "manages V w2 z2" "direct_Reconcile V key (w2, z2) = Some (Ret ((w3, Some z3), None))"
  shows "\<not> master \<and> p = None \<and> z_Spec z3 = z_Spec z \<and>
    abs_model m' = (abs_model m)(ZoneKeyFromObject cluster (z_Meta z) \<mapsto> object_decl D z) \<and>
    (\<exists>u1 u2 v e dataplane runtime.
       mode_Prepare (rc_Mode (ev_rc V)) (ev_E V) (ev_A V) (rc_Options (ev_rc V)) (request_context V key w2) w2 = (u1, None) \<and>
       request_Values V key False u1 = (u2, v, e) \<and>
       Render (ev_en V) (ev_ro V) (rc_Manifests (ev_rc V)) v = Some (Ret (Inr (dataplane, runtime))) \<and>
       (if e \<noteq> None then zt_State (z_Status z3) = zt_State (z_Status z1)
        else zt_NameServers (z_Status z3) \<noteq> [] \<and>
          (\<exists>d. a_GetDeployment (ev_A V) w3 (deployment_of (ev_A V) ([], []) (data_of V runtime)) = Inr d \<and>
            (zt_State (z_Status z3) = STATE_READY \<longleftrightarrow> dp_ReadyReplicas d > 0))))"
proof -
  note flow = zone_flow [OF assms(1-4,10-20)]
  have z1: "z_Spec z1 = z_Spec z" "z_Meta z1 = (z_Meta z)\<lparr>om_Finalizers := finalizers z1\<rparr>"
    using flow(3) by (simp_all add: touched_def)
  then have same: "zone_namespace z1 = zone_namespace z" "object_decl D z1 = object_decl D z"
    "ZoneKeyFromObject cluster (z_Meta z1) = ZoneKeyFromObject cluster (z_Meta z)"
    by (simp_all add: object_decl_def ZoneKeyFromObject_def)
  have "abs_model m' = (abs_model m)(ZoneKeyFromObject cluster (z_Meta z) \<mapsto> object_decl D z)"
    using zone_Reconcile_model [OF assms(6,5,2) _ assms(8,9,18)] assms(7) flow(2,5) by (simp add: same)
  with flow(1,2,4) flow(6) [unfolded deployed_state_def] show ?thesis by blast
qed

lemma case_ended:
  "(case r of Some (Ret ((s, z), None)) \<Rightarrow> f s z | _ \<Rightarrow> False) \<longleftrightarrow> (\<exists>s z. r = Some (Ret ((s, z), None)) \<and> f s z)"
  "(case r' of Some (Ret ((s, Some z), None)) \<Rightarrow> f s z | _ \<Rightarrow> False) \<longleftrightarrow> (\<exists>s z. r' = Some (Ret ((s, Some z), None)) \<and> f s z)"
  "(case t of Some (m, z, None) \<Rightarrow> g m z | _ \<Rightarrow> False) \<longleftrightarrow> (\<exists>m z. t = Some (m, z, None) \<and> g m z)"
  "(case x of Inr q \<Rightarrow> h q | _ \<Rightarrow> False) \<longleftrightarrow> (\<exists>q. x = Inr q \<and> h q)"
  by (auto split: option.splits go.splits prod.splits sum.splits)

theorem zone_becomes_ready_witness:
  "\<exists>w1 z1 m z2 w3 z3.
     direct_Reconcile (test_env DnsLoadbalancer) (''default'', ''a'') (running_store, ZoneA_full) = Some (Ret ((w1, Some z1), None)) \<and>
     zone_CreateRequest \<lparr>so_Class = None, so_Slave = True\<rparr> (Some z1) = Ret False \<and>
     zone_Reconcile ref_dns ref_ext (\<lambda>xs. xs) \<lparr>so_Class = None, so_Slave = True\<rparr> False test_Source (store_get [ZoneA_full]) New z1
       = Some (m, z2, None) \<and>
     direct_Reconcile (test_env DnsLoadbalancer) (''default'', ''a'') (w1, z2) = Some (Ret ((w3, Some z3), None)) \<and>
     zt_State (z_Status z3) = STATE_READY \<and> zt_NameServers (z_Status z3) \<noteq> [] \<and>
     abs_model m (test_key ZoneA_full) = Some (object_decl ref_dns ZoneA_full)"
proof -
  let ?V = "test_env DnsLoadbalancer" and ?so = "\<lparr>so_Class = None, so_Slave = True\<rparr>" and ?k = "(''default'', ''a'')"
  let ?t = "\<lambda>z. zone_Reconcile ref_dns ref_ext (\<lambda>xs. xs) ?so False test_Source (store_get [ZoneA_full]) New z"
  have "case direct_Reconcile ?V ?k (running_store, ZoneA_full) of
      Some (Ret ((w1, Some z1), None)) \<Rightarrow> zone_CreateRequest ?so (Some z1) = Ret False \<and>
        (case ?t z1 of
           Some (m, z2, None) \<Rightarrow> alnum z2 \<and> fin_of ?V \<in> set (finalizers z2) \<and> \<not> ChangedResponsibility ?V (Some z2) \<and>
             (case direct_Reconcile ?V ?k (w1, z2) of
                Some (Ret ((w3, Some z3), None)) \<Rightarrow> zt_State (z_Status z3) = STATE_READY | _ \<Rightarrow> False)
         | _ \<Rightarrow> False)
    | _ \<Rightarrow> False" by code_simp
  then obtain w1 z1 m z2 w3 z3 where
    d1: "direct_Reconcile ?V ?k (running_store, ZoneA_full) = Some (Ret ((w1, Some z1), None))"
    and cr: "zone_CreateRequest ?so (Some z1) = Ret False" and r: "?t z1 = Some (m, z2, None)"
    and m2: "alnum z2" "fin_of ?V \<in> set (finalizers z2)" "\<not> ChangedResponsibility ?V (Some z2)"
    and d2: "direct_Reconcile ?V ?k (w1, z2) = Some (Ret ((w3, Some z3), None))" and st: "zt_State (z_Status z3) = STATE_READY"
    unfolding case_ended by blast
  have f: "zone_parent ZoneA_full = []" "zs_Class (z_Spec ZoneA_full) = None"
    and v: "snd (ValidateZone (ev_E ?V) ZoneA_full) = None" by code_simp+
  have man: "manages ?V running_store ZoneA_full"
  proof -
    have "alnum ZoneA_full" "fin_of ?V \<notin> set (finalizers ZoneA_full)" "takes ?V ZoneA_full" by code_simp+
    then show ?thesis by (simp add: manages_def ref_api_def)
  qed
  have man2: "manages ?V w1 z2" using m2 by (simp add: manages_def)
  have e: "snd (snd (request_Values ?V ?k False x)) = None" for x
    by (simp add: request_Values_def test_env_def Values_def request_context_def ref_api_def Let_def)
  have l: "apply_laws (ev_A ?V)" "problem_laws (ev_E ?V)" "condition_laws (ev_E ?V)" "finalizer_laws (ev_E ?V)" "refkey_law (ev_E ?V)"
    by (simp_all add: ref_apply_laws ref_problem_laws ref_condition_laws ref_finalizer_laws ref_refkey_law)
  have r': "zone_Reconcile ref_dns (ev_E ?V) (\<lambda>xs. xs) ?so False test_Source (store_get [ZoneA_full]) New z1 = Some (m, z2, None)"
    using r by simp
  from zone_becomes_ready [OF l store_get_honest store_get_finite New_wf iteration_order_id f v _ _ man d1 cr r' man2 d2] e
  have "zt_NameServers (z_Status z3) \<noteq> [] \<and> abs_model m (test_key ZoneA_full) = Some (object_decl ref_dns ZoneA_full)"
    by (auto simp: test_key_def split: if_splits) (metis option.discI prod.sel(2))+
  with d1 cr r d2 st show ?thesis by blast
qed

end
