(* ===== verification/Replication.thy ===== *)
theory Replication
  imports Direct_Zone
begin

text \<open>
  The replication of zones and entries to another cluster (internal/controller/replicate): the
  generic logic (common/generic/logic.go, def.go) over the resource type, its options
  (common/options.go), and the handlers that decide the responsibility for entries
  (entry/def.go) and zones (hostedzone/logic.go). The type parameter of the Go code is the
  record \<open>resource\<close>. The source and the target cluster, the mapping of originals and the owner
  handler are the parameter \<open>replica_api\<close> on an abstract state.
\<close>

section \<open>Options and names\<close>

definition REPLICATED_ANNOTATION :: string where
  "REPLICATED_ANNOTATION = ''coredns.mandelsoft.org/replication''"

record replicate_options =
  ro_Class :: str_ptr
  ro_Runtime :: str_ptr
  ro_TargetClass :: string
  ro_TargetNamespace :: string

definition replicate_New :: replicate_options where
  "replicate_New = \<lparr>ro_Class = None, ro_Runtime = None, ro_TargetClass = [], ro_TargetNamespace = []\<rparr>"

definition ModifyFinalizer :: "replicate_options \<Rightarrow> string \<Rightarrow> string" where
  "ModifyFinalizer opts f =
     (let f = (case ro_Class opts of Some c \<Rightarrow> if c \<noteq> [] then f @ ''.'' @ c else f | None \<Rightarrow> f)
      in case ro_Runtime opts of Some r \<Rightarrow> if r \<noteq> [] then f @ ''.'' @ r else f | None \<Rightarrow> f)"

text \<open>\<open>com\<close> are the validated common options or the error of their validation.\<close>

definition replicate_Validate :: "(go_error + options) \<Rightarrow> replicate_options \<Rightarrow> go_error + replicate_options" where
  "replicate_Validate com opts =
     (case com of Inl err \<Rightarrow> Inl err | Inr c \<Rightarrow> Inr (opts\<lparr>ro_Class := op_Class c, ro_Runtime := op_Runtime c\<rparr>))"

definition MapKey :: "'p ext \<Rightarrow> object_key \<Rightarrow> string \<Rightarrow> string \<Rightarrow> object_key" where
  "MapKey E key cid tgtns =
     (if tgtns \<noteq> [] then (tgtns, x_GenerateUniqueName E ''replica'' cid (ok_Name key) (ok_Namespace key) (x_MAX_NAMELEN E))
      else (x_GenerateUniqueName E ''replica'' cid [] (ok_Namespace key) (x_MAX_NAMESPACELEN E), ok_Name key))"

section \<open>Parameters\<close>

record ('o, 'st) resource =
  re_Meta :: "'o \<Rightarrow> object_meta"
  re_SetMeta :: "object_meta \<Rightarrow> 'o \<Rightarrow> 'o"
  re_GetStatus :: "'o \<Rightarrow> go_error + 'st"
  re_SetStatus :: "'o \<Rightarrow> 'st \<Rightarrow> go_error + 'o"

text \<open>
  \<open>rx_Patch\<close> is the patch by the request's own cluster, the source. The mapping relates a key in
  the target to its original, and the owner handler adds the original as owner to a replica.
\<close>

record ('o, 'w, 'p) replica_api =
  rx_Id :: string
  rx_Patch :: "'w \<Rightarrow> object_meta \<Rightarrow> object_meta \<Rightarrow> 'w \<times> go_error option"
  rx_Get :: "'w \<Rightarrow> object_key \<Rightarrow> go_error + 'o"
  rx_Create :: "'w \<Rightarrow> 'o \<Rightarrow> 'w \<times> go_error option"
  rx_Apply :: "'w \<Rightarrow> 'o \<Rightarrow> 'o \<Rightarrow> 'w \<times> go_error option"
  rx_Delete :: "'w \<Rightarrow> 'o \<Rightarrow> 'w \<times> go_error option"
  rx_SetOriginal :: "'w \<Rightarrow> object_key \<Rightarrow> object_key \<Rightarrow> 'w \<times> 'p option"
  rx_RemoveOriginal :: "'w \<Rightarrow> object_key \<Rightarrow> 'w \<times> 'p option"
  rx_CleanupMeta :: "object_meta \<Rightarrow> object_meta"
  rx_SetOwner :: "'o \<Rightarrow> 'o \<Rightarrow> go_error + 'o"

text \<open>The state of a replication controller: the world, the decisions of a handler, and the queue.\<close>

record 'w replica_state =
  rp_World :: 'w
  rp_Resp :: "(object_key, bool) go_map"
  rp_Queue :: "queued list"

text \<open>The interface \<open>ResponsibilityHandler\<close>; a decision may not return and may panic.\<close>

record ('o, 'w, 'p) handler =
  hd_Delete :: "object_key \<Rightarrow> 'w replica_state \<Rightarrow> 'w replica_state"
  hd_IsResponsible :: "object_key \<Rightarrow> 'w replica_state \<times> 'o \<Rightarrow> (('w replica_state \<times> 'o) \<times> bool \<times> 'p option) go option"
  hd_SetResponsibility :: "'o \<Rightarrow> 'o"

record ('o, 'st, 'w, 'p) logic =
  lg_E :: "'p ext"
  lg_Res :: "('o, 'st) resource"
  lg_Api :: "('o, 'w, 'p) replica_api"
  lg_Resp :: "('o, 'w, 'p) handler option"
  lg_Options :: replicate_options
  lg_Finalizer :: string

text \<open>\<open>CreateSettings\<close>: both clusters must be there, then the handler is created.\<close>

definition CreateSettings :: "string option \<Rightarrow> string option \<Rightarrow> (go_error + 'h) option \<Rightarrow> go_error + 'h option" where
  "CreateSettings source target resp =
     (if source = None then Inl (Errorf ''source cluster is required'')
      else if target = None then Inl (Errorf ''target cluster is required'')
      else case resp of
             None \<Rightarrow> Inr None
           | Some (Inl err) \<Rightarrow> Inl err
           | Some (Inr h) \<Rightarrow> Inr (Some h))"

section \<open>The generic logic\<close>

type_synonym ('o, 'w, 'p) step_result = "('w replica_state \<times> 'o) \<times> 'p option"

definition on_world :: "('w \<Rightarrow> 'w \<times> 'a) \<Rightarrow> 'w replica_state \<Rightarrow> 'w replica_state \<times> 'a" where
  "on_world f s = (case f (rp_World s) of (w, r) \<Rightarrow> (s\<lparr>rp_World := w\<rparr>, r))"

definition meta_of :: "('o, 'st, 'w, 'p) logic \<Rightarrow> 'o \<Rightarrow> object_meta" where
  "meta_of L obj = re_Meta (lg_Res L) obj"

definition with_meta :: "('o, 'st, 'w, 'p) logic \<Rightarrow> object_meta \<Rightarrow> 'o \<Rightarrow> 'o" where
  "with_meta L m obj = re_SetMeta (lg_Res L) m obj"

definition replica_key :: "('o, 'st, 'w, 'p) logic \<Rightarrow> object_key \<Rightarrow> object_key" where
  "replica_key L key = MapKey (lg_E L) key (rx_Id (lg_Api L)) (ro_TargetNamespace (lg_Options L))"

text \<open>
  The replica is asked to be deleted first; when it is gone the finalizer of the original is
  removed. The patch of the replica goes to the source cluster. The deferred call of the
  handler's \<open>Delete\<close> comes after the deletion.
\<close>

definition rep_ReconcileDeleting ::
    "('o, 'st, 'w, 'p) logic \<Rightarrow> object_key \<Rightarrow> 'w replica_state \<times> 'o \<Rightarrow> ('o, 'w, 'p) step_result" where
  "rep_ReconcileDeleting L key = (\<lambda>(s, obj).
     (case rx_Get (lg_Api L) (rp_World s) (replica_key L key) of
        Inl err \<Rightarrow>
          if \<not> IsNotFound err then ((s, obj), x_TemporaryProblem (lg_E L) (Some err))
          else
            (case x_RemoveFinalizer (lg_E L) (meta_of L obj) (lg_Finalizer L) of
               (m, True) \<Rightarrow>
                 (case on_world (\<lambda>w. rx_Patch (lg_Api L) w (meta_of L obj) m) s of
                    (s, Some err) \<Rightarrow> ((s, with_meta L m obj), x_TemporaryProblem (lg_E L) (IgnoreNotFound (Some err)))
                  | (s, None) \<Rightarrow>
                      (case on_world (\<lambda>w. rx_RemoveOriginal (lg_Api L) w (replica_key L key)) s of
                         (s, p) \<Rightarrow> ((s, with_meta L m obj), p)))
             | (m, False) \<Rightarrow>
                 (case on_world (\<lambda>w. rx_RemoveOriginal (lg_Api L) w (replica_key L key)) s of
                    (s, p) \<Rightarrow> ((s, obj), p)))
      | Inr tgt \<Rightarrow>
          (let delete = (\<lambda>tgt s.
             (case (if om_DeletionTimestamp (meta_of L tgt) \<noteq> None then (s, x_Succeeded (lg_E L))
                    else (case on_world (\<lambda>w. rx_Delete (lg_Api L) w tgt) s of
                            (s, err) \<Rightarrow> (s, x_TemporaryProblem (lg_E L) err))) of
                (s, p) \<Rightarrow> ((case lg_Resp L of None \<Rightarrow> s | Some h \<Rightarrow> hd_Delete h key s, obj), p)))
           in case x_RemoveFinalizer (lg_E L) (meta_of L tgt) (lg_Finalizer L) of
                (m, True) \<Rightarrow>
                  (case on_world (\<lambda>w. rx_Patch (lg_Api L) w (meta_of L tgt) m) s of
                     (s, Some err) \<Rightarrow> ((s, obj), x_TemporaryProblem (lg_E L) (IgnoreNotFound (Some err)))
                   | (s, None) \<Rightarrow> delete (with_meta L m tgt) s)
              | (m, False) \<Rightarrow> delete tgt s)))"

text \<open>The replica of an object.\<close>

definition replica_of :: "('o, 'st, 'w, 'p) logic \<Rightarrow> object_key \<Rightarrow> 'o \<Rightarrow> 'o" where
  "replica_of L key obj =
     (let m = (meta_of L obj)\<lparr>om_Namespace := ok_Namespace (replica_key L key), om_Name := ok_Name (replica_key L key)\<rparr>;
          m = set_annotation REPLICATED_ANNOTATION (rx_Id (lg_Api L)) (rx_CleanupMeta (lg_Api L) m);
          newp = with_meta L (fst (x_RemoveFinalizer (lg_E L) m (lg_Finalizer L))) obj
      in case lg_Resp L of None \<Rightarrow> newp | Some h \<Rightarrow> hd_SetResponsibility h newp)"

text \<open>
  The creation or update of the replica; the status of an existing one is copied back. The error
  of the apply goes to the variable \<open>err\<close> that is declared inside the else branch, while the
  final return reads the outer one, which is nil there.
\<close>

definition update_replica ::
    "('o, 'st, 'w, 'p) logic \<Rightarrow> object_key \<Rightarrow> 'o \<Rightarrow> 'w replica_state \<times> 'o \<Rightarrow> ('o, 'w, 'p) step_result" where
  "update_replica L key newp = (\<lambda>(s, obj).
     (case rx_Get (lg_Api L) (rp_World s) (replica_key L key) of
        Inl err \<Rightarrow>
          if \<not> IsNotFound err then ((s, obj), x_TemporaryProblem (lg_E L) (Some err))
          else (case on_world (\<lambda>w. rx_Create (lg_Api L) w newp) s of
                  (s, err) \<Rightarrow> ((s, obj), x_TemporaryProblem (lg_E L) (IgnoreNotFound err)))
      | Inr tgt \<Rightarrow>
          if om_DeletionTimestamp (meta_of L tgt) \<noteq> None then ((s, obj), None)
          else
            (let newp = with_meta L ((meta_of L newp)\<lparr>om_Finalizers := om_Finalizers (meta_of L tgt)\<rparr>) newp
             in case re_GetStatus (lg_Res L) tgt of
                  Inl _ \<Rightarrow> ((s, obj), None)
                | Inr status \<Rightarrow>
                    (case re_SetStatus (lg_Res L) obj status of
                       Inl _ \<Rightarrow> ((s, obj), None)
                     | Inr obj \<Rightarrow>
                         (case on_world (\<lambda>w. rx_Apply (lg_Api L) w newp tgt) s of
                            (s, _) \<Rightarrow> ((s, obj), x_TemporaryProblem (lg_E L) (IgnoreNotFound None)))))))"

definition rep_replicate ::
    "('o, 'st, 'w, 'p) logic \<Rightarrow> object_key \<Rightarrow> 'w replica_state \<times> 'o \<Rightarrow> ('o, 'w, 'p) step_result" where
  "rep_replicate L key = (\<lambda>(s, obj).
     (case on_world (\<lambda>w. rx_SetOriginal (lg_Api L) w (replica_key L key) key) s of
        (s, Some p) \<Rightarrow> ((s, obj), Some p)
      | (s, None) \<Rightarrow>
          (case rx_SetOwner (lg_Api L) obj (replica_of L key obj) of
             Inl err \<Rightarrow> ((s, obj), x_TemporaryProblem (lg_E L) (Some err))
           | Inr newp \<Rightarrow> update_replica L key newp (s, obj))))"

text \<open>Taking responsibility comes before the replication.\<close>

definition rep_responsible ::
    "('o, 'st, 'w, 'p) logic \<Rightarrow> object_key \<Rightarrow> 'w replica_state \<times> 'o \<Rightarrow> ('o, 'w, 'p) step_result" where
  "rep_responsible L key = (\<lambda>(s, obj).
     (case x_AddFinalizer (lg_E L) (meta_of L obj) (lg_Finalizer L) of
        (m, True) \<Rightarrow>
          (case on_world (\<lambda>w. rx_Patch (lg_Api L) w (meta_of L obj) m) s of
             (s, Some err) \<Rightarrow> ((s, with_meta L m obj), x_TemporaryProblem (lg_E L) (IgnoreNotFound (Some err)))
           | (s, None) \<Rightarrow> rep_replicate L key (s, with_meta L m obj))
      | (m, False) \<Rightarrow> rep_replicate L key (s, obj)))"

definition rep_Reconcile ::
    "('o, 'st, 'w, 'p) logic \<Rightarrow> object_key \<Rightarrow> 'w replica_state \<times> 'o \<Rightarrow> ('o, 'w, 'p) step_result go option" where
  "rep_Reconcile L key = (\<lambda>(s, obj).
     (if get_annotation REPLICATED_ANNOTATION (meta_of L obj) \<noteq> [] then Some (Ret ((s, obj), None))
      else case lg_Resp L of
             None \<Rightarrow> Some (Ret (rep_responsible L key (s, obj)))
           | Some h \<Rightarrow>
               map_option (\<lambda>r. go_bind r (\<lambda>((s, obj), ok, prob).
                 Ret (if \<not> ok then
                        (case rep_ReconcileDeleting L key (s, obj) of
                           (so, Some p) \<Rightarrow> (so, Some p)
                         | (so, None) \<Rightarrow> (so, prob))
                      else if prob \<noteq> None then ((s, obj), prob)
                      else rep_responsible L key (s, obj))))
                 (hd_IsResponsible h key (s, obj))))"

definition rep_ReconcileDeleted :: "'p ext \<Rightarrow> 'w replica_state \<Rightarrow> 'w replica_state \<times> 'p option" where
  "rep_ReconcileDeleted E s = (s, x_Succeeded E)"

section \<open>Entries\<close>

text \<open>
  The comparison of the classes compares the pointers: one comes from the root zone, the other
  from the options, so that they are equal only if both are nil. \<open>set_status\<close> is the method
  \<open>SetStatusCondition\<close> of the framework's request.
\<close>

definition ptr_same :: "str_ptr \<Rightarrow> str_ptr \<Rightarrow> bool" where
  "ptr_same p q \<longleftrightarrow> p = None \<and> q = None"

definition entry_problem :: "(condition \<Rightarrow> coredns_entry \<Rightarrow> coredns_entry) \<Rightarrow> string \<Rightarrow> coredns_entry \<Rightarrow> coredns_entry" where
  "entry_problem set_status msg obj =
     (let obj = set_status (cond ValidationConditionType ConditionFalse ReasonConfigurarationInvalid msg) obj
      in obj\<lparr>e_Status := (e_Status obj)\<lparr>et_State := ''Problem'', et_Message := msg\<rparr>\<rparr>)"

definition entry_IsResponsible ::
    "dns_lib \<Rightarrow> 'p ext \<Rightarrow> (condition \<Rightarrow> coredns_entry \<Rightarrow> coredns_entry) \<Rightarrow> ('w \<Rightarrow> zone_getter) \<Rightarrow> replicate_options
     \<Rightarrow> object_key \<Rightarrow> 'w replica_state \<times> coredns_entry \<Rightarrow> (('w replica_state \<times> coredns_entry) \<times> bool \<times> 'p option) go option" where
  "entry_IsResponsible D E set_status get opts key = (\<lambda>(s, obj).
     map_option (\<lambda>r. go_bind r (\<lambda>(info, err, prob).
       Ret (if prob \<noteq> None then ((s, obj), True, prob)
            else case info of
                   Some i \<Rightarrow> if \<not> ptr_same (rs_Class i) (ro_Class opts) then ((s, obj), False, None) else ((s, obj), True, None)
                 | None \<Rightarrow>
                     (case err of
                        Some e \<Rightarrow> ((s, entry_problem set_status e obj), False, Some (x_Failed E (Errorf e)))
                      | None \<Rightarrow> ((s, obj), True, None)))))
       (ValidateEntry D E (get (rp_World s)) obj))"

definition entry_handler_of ::
    "dns_lib \<Rightarrow> 'p ext \<Rightarrow> (condition \<Rightarrow> coredns_entry \<Rightarrow> coredns_entry) \<Rightarrow> ('w \<Rightarrow> zone_getter) \<Rightarrow> replicate_options \<Rightarrow> (coredns_entry, 'w, 'p) handler" where
  "entry_handler_of D E set_status get opts = \<lparr>hd_Delete = \<lambda>_ s. s, hd_IsResponsible = entry_IsResponsible D E set_status get opts,
     hd_SetResponsibility = \<lambda>obj. obj\<rparr>"

section \<open>Zones\<close>

text \<open>The handler is created with the two indices and no decision; its triggers are the same code as those of the data plane controller.\<close>

definition Responsibility ::
    "(go_error + (string \<Rightarrow> string \<Rightarrow> go_error + hosted_zone list)) \<Rightarrow> (go_error + (string \<Rightarrow> string \<Rightarrow> go_error + coredns_entry list))
     \<Rightarrow> go_error + (object_key, bool) go_map \<times> direct_indices" where
  "Responsibility pidx eidx =
     (case pidx of
        Inl err \<Rightarrow> Inl err
      | Inr p \<Rightarrow> (case eidx of Inl err \<Rightarrow> Inl err | Inr e \<Rightarrow> Inr ([], \<lparr>di_ParentIndex = p, di_EntryIndex = e\<rparr>)))"

definition rep_GetNestedZones :: "direct_indices \<Rightarrow> string \<Rightarrow> string \<Rightarrow> go_error + hosted_zone list" where
  "rep_GetNestedZones r ns n = di_ParentIndex r ns n"

definition rep_GetEntriesForZone :: "direct_indices \<Rightarrow> string \<Rightarrow> string \<Rightarrow> go_error + coredns_entry list" where
  "rep_GetEntriesForZone r ns n = di_EntryIndex r ns n"

definition rep_TriggerChildren :: "direct_indices \<Rightarrow> object_key \<Rightarrow> queued list \<Rightarrow> queued list \<times> go_error option" where
  "rep_TriggerChildren r obj q =
     (case rep_GetNestedZones r (ok_Namespace obj) (ok_Name obj) of
        Inl err \<Rightarrow> (q, Some err)
      | Inr children \<Rightarrow> (foldl (\<lambda>q c. q @ [QZone (zone_namespace c, zone_name c)]) q children, None))"

definition rep_TriggerEntries :: "direct_indices \<Rightarrow> object_key \<Rightarrow> queued list \<Rightarrow> queued list \<times> go_error option" where
  "rep_TriggerEntries r obj q =
     (case rep_GetEntriesForZone r (ok_Namespace obj) (ok_Name obj) of
        Inl err \<Rightarrow> (q, Some err)
      | Inr entries \<Rightarrow> (foldl (\<lambda>q c. q @ [QEntry (entry_namespace c, entry_name c)]) q entries, None))"

definition rep_trigger :: "direct_indices \<Rightarrow> object_key \<Rightarrow> 'w replica_state \<Rightarrow> 'w replica_state" where
  "rep_trigger r key s = s\<lparr>rp_Queue := fst (rep_TriggerEntries r key (fst (rep_TriggerChildren r key (rp_Queue s))))\<rparr>"

definition SetResponsibility :: "replicate_options \<Rightarrow> hosted_zone \<Rightarrow> hosted_zone" where
  "SetResponsibility opts obj =
     (if zone_parent obj = [] then
        obj\<lparr>z_Spec := (z_Spec obj)\<lparr>zs_Class := (if ro_TargetClass opts \<noteq> [] then Some (ro_TargetClass opts) else None)\<rparr>\<rparr>
      else obj)"

definition handler_Delete :: "direct_indices \<Rightarrow> object_key \<Rightarrow> 'w replica_state \<Rightarrow> 'w replica_state" where
  "handler_Delete r key s = rep_trigger r key (s\<lparr>rp_Resp := AList.delete key (rp_Resp s)\<rparr>)"

definition handler_Handle :: "direct_indices \<Rightarrow> object_key \<Rightarrow> bool \<Rightarrow> 'w replica_state \<Rightarrow> 'w replica_state" where
  "handler_Handle r key resp s =
     (if map_of (rp_Resp s) key = Some resp then s
      else rep_trigger r key (s\<lparr>rp_Resp := AList.update key resp (rp_Resp s)\<rparr>))"

definition zone_problem :: "(condition \<Rightarrow> hosted_zone \<Rightarrow> hosted_zone) \<Rightarrow> string \<Rightarrow> hosted_zone \<Rightarrow> hosted_zone" where
  "zone_problem set_status msg obj =
     (let obj = set_status (cond ValidationConditionType ConditionFalse ReasonInvalidParent msg) obj
      in obj\<lparr>z_Status := (z_Status obj)\<lparr>zt_Message := msg, zt_State := ''Problem''\<rparr>\<rparr>)"

definition handler_IsResponsible ::
    "dns_lib \<Rightarrow> 'p ext \<Rightarrow> (condition \<Rightarrow> hosted_zone \<Rightarrow> hosted_zone) \<Rightarrow> ('w \<Rightarrow> zone_getter) \<Rightarrow> replicate_options
     \<Rightarrow> direct_indices \<Rightarrow> object_key \<Rightarrow> 'w replica_state \<times> hosted_zone \<Rightarrow> (('w replica_state \<times> hosted_zone) \<times> bool \<times> 'p option) go option" where
  "handler_IsResponsible D E set_status get opts r key = (\<lambda>(s, obj).
     map_option (\<lambda>((info, ok, prob), _).
       (case prob of
          Some p \<Rightarrow>
            if \<not> ok then Ret ((s, obj), True, prob)
            else (case x_ErrorOf E p of
                    None \<Rightarrow> Panic
                  | Some e \<Rightarrow> Ret ((handler_Handle r key True s, zone_problem set_status (Error e) obj), True, None))
        | None \<Rightarrow>
            (case info of
               None \<Rightarrow> Panic
             | Some i \<Rightarrow>
                 if ptr_same (rs_Class i) (ro_Class opts) then Ret ((handler_Handle r key True s, obj), True, None)
                 else Ret ((handler_Handle r key False s, obj), False, None))))
       (GetRootInfo D E (get (rp_World s)) obj None))"

definition zone_handler_of ::
    "dns_lib \<Rightarrow> 'p ext \<Rightarrow> (condition \<Rightarrow> hosted_zone \<Rightarrow> hosted_zone) \<Rightarrow> ('w \<Rightarrow> zone_getter) \<Rightarrow> replicate_options \<Rightarrow> direct_indices \<Rightarrow> (hosted_zone, 'w, 'p) handler" where
  "zone_handler_of D E set_status get opts r = \<lparr>hd_Delete = handler_Delete r, hd_IsResponsible = handler_IsResponsible D E set_status get opts r,
     hd_SetResponsibility = SetResponsibility opts\<rparr>"

section \<open>The two resources\<close>

definition zone_resource :: "(hosted_zone, hosted_zone_status) resource" where
  "zone_resource = \<lparr>re_Meta = z_Meta, re_SetMeta = \<lambda>m z. z\<lparr>z_Meta := m\<rparr>, re_GetStatus = \<lambda>z. Inr (z_Status z),
     re_SetStatus = \<lambda>z st. Inr (z\<lparr>z_Status := st\<rparr>)\<rparr>"

definition entry_resource :: "(coredns_entry, coredns_status) resource" where
  "entry_resource = \<lparr>re_Meta = e_Meta, re_SetMeta = \<lambda>m e. e\<lparr>e_Meta := m\<rparr>, re_GetStatus = \<lambda>e. Inr (e_Status e),
     re_SetStatus = \<lambda>e st. Inr (e\<lparr>e_Status := st\<rparr>)\<rparr>"

section \<open>What a replica is\<close>

text \<open>A resource whose metadata can be read and written.\<close>

definition resource_laws :: "('o, 'st) resource \<Rightarrow> bool" where
  "resource_laws R \<longleftrightarrow> (\<forall>m obj. re_Meta R (re_SetMeta R m obj) = m)"

definition cleanup_laws :: "('o, 'w, 'p) replica_api \<Rightarrow> bool" where
  "cleanup_laws A \<longleftrightarrow> (\<forall>m. om_Name (rx_CleanupMeta A m) = om_Name m \<and> om_Namespace (rx_CleanupMeta A m) = om_Namespace m)"

lemma zone_resource_laws: "resource_laws zone_resource"
  by (simp add: resource_laws_def zone_resource_def)

lemma entry_resource_laws: "resource_laws entry_resource"
  by (simp add: resource_laws_def entry_resource_def)

lemma get_set_annotation [simp]: "get_annotation k (set_annotation k v m) = v"
  by (simp add: get_annotation_def set_annotation_def update_conv')

lemma get_annotation_finalizers [simp]: "get_annotation k (m\<lparr>om_Finalizers := f\<rparr>) = get_annotation k m"
  by (simp add: get_annotation_def)

lemma set_annotation_sel [simp]: "om_Name (set_annotation k v m) = om_Name m" "om_Namespace (set_annotation k v m) = om_Namespace m"
    "om_Finalizers (set_annotation k v m) = om_Finalizers m"
  by (simp_all add: set_annotation_def)

lemma RemoveFin_frame:
  assumes "finalizer_laws E"
  shows "fst (x_RemoveFinalizer E m f) = m\<lparr>om_Finalizers := filter (\<lambda>g. g \<noteq> f) (om_Finalizers m)\<rparr>"
proof -
  have "filter (\<lambda>g. g \<noteq> f) xs = xs" if "f \<notin> set xs" for xs using that by (induction xs) auto
  then show ?thesis by (simp add: RemoveFin_eq [OF assms])
qed

lemma SetResponsibility_meta [simp]: "z_Meta (SetResponsibility opts z) = z_Meta z"
  by (simp add: SetResponsibility_def)

text \<open>What a handler does to a replica keeps its metadata.\<close>

definition keeps_meta :: "('o, 'st, 'w, 'p) logic \<Rightarrow> bool" where
  "keeps_meta L \<longleftrightarrow> (case lg_Resp L of None \<Rightarrow> True
     | Some h \<Rightarrow> \<forall>obj. re_Meta (lg_Res L) (hd_SetResponsibility h obj) = re_Meta (lg_Res L) obj)"

lemma replica_meta:
  assumes R: "resource_laws (lg_Res L)" and C: "cleanup_laws (lg_Api L)" and F: "finalizer_laws (lg_E L)" and K: "keeps_meta L"
  shows "(om_Namespace (meta_of L (replica_of L key obj)), om_Name (meta_of L (replica_of L key obj))) = replica_key L key"
    and "get_annotation REPLICATED_ANNOTATION (meta_of L (replica_of L key obj)) = rx_Id (lg_Api L)"
    and "lg_Finalizer L \<notin> set (om_Finalizers (meta_of L (replica_of L key obj)))"
proof -
  have m: "re_Meta (lg_Res L) (re_SetMeta (lg_Res L) m ob) = m" for m ob using R by (simp add: resource_laws_def)
  have c: "om_Name (rx_CleanupMeta (lg_Api L) m) = om_Name m" "om_Namespace (rx_CleanupMeta (lg_Api L) m) = om_Namespace m" for m
    using C by (auto simp: cleanup_laws_def)
  let ?m = "set_annotation REPLICATED_ANNOTATION (rx_Id (lg_Api L)) (rx_CleanupMeta (lg_Api L)
    ((meta_of L obj)\<lparr>om_Namespace := ok_Namespace (replica_key L key), om_Name := ok_Name (replica_key L key)\<rparr>))"
  have "meta_of L (replica_of L key obj) = ?m\<lparr>om_Finalizers := filter (\<lambda>g. g \<noteq> lg_Finalizer L) (om_Finalizers ?m)\<rparr>"
    using K by (auto simp: replica_of_def Let_def meta_of_def with_meta_def m RemoveFin_frame [OF F] keeps_meta_def split: option.splits)
  then show "(om_Namespace (meta_of L (replica_of L key obj)), om_Name (meta_of L (replica_of L key obj))) = replica_key L key"
    and "get_annotation REPLICATED_ANNOTATION (meta_of L (replica_of L key obj)) = rx_Id (lg_Api L)"
    and "lg_Finalizer L \<notin> set (om_Finalizers (meta_of L (replica_of L key obj)))"
    by (simp_all add: c)
qed

lemma MapKey_inj:
  assumes U: "unique_names E" and eq: "MapKey E k cid ns = MapKey E k' cid ns"
  shows "k = k'"
proof (cases "ns = []")
  case True
  with eq have "ok_Name k = ok_Name k'"
    "x_GenerateUniqueName E ''replica'' cid [] (ok_Namespace k) (x_MAX_NAMESPACELEN E) =
     x_GenerateUniqueName E ''replica'' cid [] (ok_Namespace k') (x_MAX_NAMESPACELEN E)"
    by (simp_all add: MapKey_def)
  with unique_namesD [OF U this(2)] show ?thesis by (simp add: prod_eq_iff)
next
  case False
  with eq have "x_GenerateUniqueName E ''replica'' cid (ok_Name k) (ok_Namespace k) (x_MAX_NAMELEN E) =
     x_GenerateUniqueName E ''replica'' cid (ok_Name k') (ok_Namespace k') (x_MAX_NAMELEN E)"
    by (simp add: MapKey_def)
  from unique_namesD [OF U this] show ?thesis by (simp add: prod_eq_iff)
qed

text \<open>The key a reference of a replica leads to, and the key of the replica of what the original refers to.\<close>

lemma MapKey_reference:
  "(ok_Namespace (MapKey E (ns, n) cid tgt), ref) = MapKey E (ns, ref) cid tgt \<longleftrightarrow>
     tgt = [] \<or> x_GenerateUniqueName E ''replica'' cid ref ns (x_MAX_NAMELEN E) = ref"
  by (auto simp: MapKey_def)

section \<open>Deleting a replica\<close>

lemma on_world_eq: "on_world f s = (s\<lparr>rp_World := fst (f (rp_World s))\<rparr>, snd (f (rp_World s)))"
  by (simp add: on_world_def split: prod.splits)

lemma deleting_present:
  assumes "rx_Get (lg_Api L) (rp_World s) (replica_key L key) = Inr tgt"
  shows "snd (fst (rep_ReconcileDeleting L key (s, obj))) = obj"
  using assms by (simp add: rep_ReconcileDeleting_def Let_def on_world_eq split: prod.splits bool.splits option.splits)

lemma deleting_unreadable:
  assumes "rx_Get (lg_Api L) (rp_World s) (replica_key L key) = Inl err" "\<not> IsNotFound err"
  shows "rep_ReconcileDeleting L key (s, obj) = ((s, obj), x_TemporaryProblem (lg_E L) (Some err))"
  using assms by (simp add: rep_ReconcileDeleting_def)

lemma deleting_gone:
  assumes F: "finalizer_laws (lg_E L)" and R: "resource_laws (lg_Res L)"
    and g: "rx_Get (lg_Api L) (rp_World s) (replica_key L key) = Inl err" "IsNotFound err"
    and y: "lg_Finalizer L \<in> set (om_Finalizers (meta_of L obj))"
    and r: "rep_ReconcileDeleting L key (s, obj) = ((s', obj'), p)"
  shows "meta_of L obj' = (meta_of L obj)\<lparr>om_Finalizers := filter (\<lambda>g. g \<noteq> lg_Finalizer L) (om_Finalizers (meta_of L obj))\<rparr>"
proof -
  let ?m = "(meta_of L obj)\<lparr>om_Finalizers := filter (\<lambda>g. g \<noteq> lg_Finalizer L) (om_Finalizers (meta_of L obj))\<rparr>"
  have m: "x_RemoveFinalizer (lg_E L) (meta_of L obj) (lg_Finalizer L) = (?m, True)"
    using y by (simp add: RemoveFin_eq [OF F])
  have "obj' = with_meta L ?m obj"
    using r g m by (auto simp: rep_ReconcileDeleting_def on_world_eq split: option.splits)
  then show ?thesis using R by (simp add: meta_of_def with_meta_def resource_laws_def)
qed

section \<open>The decision for a zone\<close>

lemma handler_IsResponsible_chain:
  assumes get: "honest (get (rp_World s))" and E: "refkey_law E"
    and ch: "zone_chain (get (rp_World s)) (zone_namespace z) (zone_parent z) zs" "zone_name z \<notin> set (chain_names (zone_parent z) zs)"
  shows "handler_IsResponsible D E set_status get opts r key (s, z) =
    (let ok = zs_Class (z_Spec (last (z # zs))) = None \<and> ro_Class opts = None
     in Some (Ret ((handler_Handle r key ok s, z), ok, None)))"
proof -
  have "\<exists>names'. GetRootInfo D E (get (rp_World s)) z None =
      Some ((Some (chain_resp (if zs = [] then None else Some (hd zs)) (last (z # zs))), True, None), names')"
    using zone_root_iff [OF get E, of D z None] ch by blast
  then obtain names' where "GetRootInfo D E (get (rp_World s)) z None =
      Some ((Some (chain_resp (if zs = [] then None else Some (hd zs)) (last (z # zs))), True, None), names')" ..
  then show ?thesis
    by (auto simp: handler_IsResponsible_def chain_resp_def ptr_same_def Let_def)
qed

section \<open>The memory of the decisions\<close>

text \<open>The decisions and deletions the handler sees, and what is remembered of a zone.\<close>

datatype resp_event = Decided object_key bool | Dropped object_key

fun resp_step :: "direct_indices \<Rightarrow> 'w replica_state \<Rightarrow> resp_event \<Rightarrow> 'w replica_state" where
  "resp_step r s (Decided k b) = handler_Handle r k b s"
| "resp_step r s (Dropped k) = handler_Delete r k s"

fun remembered :: "object_key \<Rightarrow> bool option \<Rightarrow> resp_event list \<Rightarrow> bool option" where
  "remembered k b [] = b"
| "remembered k b (Decided k' b' # es) = remembered k (if k' = k then Some b' else b) es"
| "remembered k b (Dropped k' # es) = remembered k (if k' = k then None else b) es"

lemma rep_trigger_sel [simp]: "rp_Resp (rep_trigger r k s) = rp_Resp s" "rp_World (rep_trigger r k s) = rp_World s"
  by (simp_all add: rep_trigger_def)

lemma Handle_resp: "map_of (rp_Resp (handler_Handle r k' b s)) k = (if k' = k then Some b else map_of (rp_Resp s) k)"
  by (simp add: handler_Handle_def update_conv')

lemma Delete_resp: "map_of (rp_Resp (handler_Delete r k' s)) k = (if k' = k then None else map_of (rp_Resp s) k)"
  by (simp add: handler_Delete_def delete_conv')

lemma remembered_run: "map_of (rp_Resp (foldl (resp_step r) s es)) k = remembered k (map_of (rp_Resp s) k) es"
proof (induction es arbitrary: s)
  case (Cons e es)
  then show ?case by (cases e) (simp_all add: Handle_resp Delete_resp)
qed simp

lemma rep_trigger_queue:
  "rp_Queue (rep_trigger r key s) = rp_Queue s @
     map (\<lambda>c. QZone (zone_namespace c, zone_name c)) (listed (di_ParentIndex r (ok_Namespace key) (ok_Name key))) @
     map (\<lambda>c. QEntry (entry_namespace c, entry_name c)) (listed (di_EntryIndex r (ok_Namespace key) (ok_Name key)))"
  by (auto simp: rep_trigger_def rep_TriggerEntries_def rep_TriggerChildren_def rep_GetNestedZones_def
      rep_GetEntriesForZone_def listed_def foldl_snoc split: sum.splits)

section \<open>An instance\<close>

text \<open>A target cluster that is a list of objects; a deletion removes the object at once.\<close>

definition object_key_of :: "object_meta \<Rightarrow> object_key" where
  "object_key_of m = (om_Namespace m, om_Name m)"

definition ref_replica :: "('o \<Rightarrow> object_meta) \<Rightarrow> ('o, (object_key \<times> 'o) list, ref_problem) replica_api" where
  "ref_replica meta = \<lparr>rx_Id = ''source'', rx_Patch = \<lambda>w _ _. (w, None), rx_Get = lookup,
     rx_Create = \<lambda>w ob. (AList.update (object_key_of (meta ob)) ob w, None),
     rx_Apply = \<lambda>w new old. (AList.update (object_key_of (meta new)) new w, None),
     rx_Delete = \<lambda>w ob. (AList.delete (object_key_of (meta ob)) w, gone w (object_key_of (meta ob))),
     rx_SetOriginal = \<lambda>w _ _. (w, None), rx_RemoveOriginal = \<lambda>w _. (w, None),
     rx_CleanupMeta = \<lambda>m. m\<lparr>om_ResourceVersion := [], om_Generation := 0, om_DeletionTimestamp := None\<rparr>,
     rx_SetOwner = \<lambda>old new. Inr new\<rparr>"

lemma ref_cleanup_laws: "cleanup_laws (ref_replica f)"
  by (simp add: cleanup_laws_def ref_replica_def)

definition no_indices :: direct_indices where
  "no_indices = \<lparr>di_ParentIndex = \<lambda>_ _. Inr [], di_EntryIndex = \<lambda>_ _. Inr []\<rparr>"

definition zone_logic ::
    "replicate_options \<Rightarrow> (hosted_zone, hosted_zone_status, (object_key \<times> hosted_zone) list, ref_problem) logic" where
  "zone_logic opts = \<lparr>lg_E = uniq_ext, lg_Res = zone_resource, lg_Api = ref_replica z_Meta,
     lg_Resp = Some (zone_handler_of ref_dns uniq_ext (zone_SetStatusCondition uniq_ext) (\<lambda>w. store_get (map snd w)) opts no_indices),
     lg_Options = opts, lg_Finalizer = ModifyFinalizer opts ''replication.hostedzone''\<rparr>"

definition entry_logic ::
    "replicate_options \<Rightarrow> (coredns_entry, coredns_status, (object_key \<times> coredns_entry) list, ref_problem) logic" where
  "entry_logic opts = \<lparr>lg_E = uniq_ext, lg_Res = entry_resource, lg_Api = ref_replica e_Meta,
     lg_Resp = Some (entry_handler_of ref_dns uniq_ext (\<lambda>_ e. e) (\<lambda>w. store_get []) opts),
     lg_Options = opts, lg_Finalizer = ModifyFinalizer opts ''replication.corednsentry''\<rparr>"

lemma uniq_laws: "finalizer_laws uniq_ext" "problem_laws uniq_ext" "refkey_law uniq_ext"
  using ref_finalizer_laws ref_problem_laws ref_refkey_law
  by (simp_all add: uniq_ext_def finalizer_laws_def problem_laws_def refkey_law_def)

definition start_state :: "'w \<Rightarrow> 'w replica_state" where
  "start_state w = \<lparr>rp_World = w, rp_Resp = [], rp_Queue = []\<rparr>"

section \<open>Properties\<close>

text \<open>C32: different objects of a source have different replicas, if generated names are unique: the
  key of the replica determines the namespace and the name of the original, with and without
  a target namespace.\<close>

theorem replicas_separate:
  assumes "unique_names (lg_E L)" "replica_key L k = replica_key L k'"
  shows "k = k'"
  using MapKey_inj [OF assms(1)] assms(2) by (simp add: replica_key_def)

theorem replicas_separate_witness:
  "replica_key (zone_logic (replicate_New\<lparr>ro_TargetNamespace := ''t''\<rparr>)) (''a-b'', ''c'') \<noteq>
   replica_key (zone_logic (replicate_New\<lparr>ro_TargetNamespace := ''t''\<rparr>)) (''a'', ''b-c'')"
proof
  let ?L = "zone_logic (replicate_New\<lparr>ro_TargetNamespace := ''t''\<rparr>)"
  assume eq: "replica_key ?L (''a-b'', ''c'') = replica_key ?L (''a'', ''b-c'')"
  have "unique_names (lg_E ?L)" by (simp add: zone_logic_def uniq_unique)
  from replicas_separate [OF this eq] show False by simp
qed

text \<open>Replication does not cascade: the replica of an object carries the mark of its source, so
  that no replication controller ever replicates it further, whatever its options.\<close>

theorem replica_not_replicated:
  assumes "resource_laws (lg_Res L)" "cleanup_laws (lg_Api L)" "finalizer_laws (lg_E L)" "keeps_meta L"
    and "rx_Id (lg_Api L) \<noteq> []" "lg_Res L' = lg_Res L"
  shows "rep_Reconcile L' key' (s, replica_of L key obj) = Some (Ret ((s, replica_of L key obj), None))"
  using replica_meta(2) [OF assms(1-4), of key obj] assms(5,6) by (simp add: rep_Reconcile_def meta_of_def)

theorem replica_not_replicated_witness:
  "rep_Reconcile (zone_logic (replicate_New\<lparr>ro_TargetNamespace := ''t''\<rparr>)) (''x'', ''y'')
     (start_state [], replica_of (zone_logic replicate_New) (''default'', ''a'') ZoneA) =
   Some (Ret ((start_state [], replica_of (zone_logic replicate_New) (''default'', ''a'') ZoneA), None))"
proof (rule replica_not_replicated)
  show "keeps_meta (zone_logic replicate_New)"
    by (simp add: keeps_meta_def zone_logic_def zone_handler_of_def zone_resource_def)
qed (simp_all add: zone_logic_def zone_resource_laws ref_cleanup_laws uniq_laws, simp add: ref_replica_def)

text \<open>The reference of a replicated entry reaches the replica of its zone exactly if no target
  namespace is configured or the generated name happens to be the original one: the names of
  the replicas are mapped, the references in their specs are not.\<close>

theorem replica_reference:
  assumes "resource_laws (lg_Res L)" "cleanup_laws (lg_Api L)" "finalizer_laws (lg_E L)" "keeps_meta L" "refkey_law (lg_E L)"
    and "lg_Res L = entry_resource" "lg_Resp L = Some (entry_handler_of D (lg_E L) st get opts)"
  shows "x_RefObjectKeyFor (lg_E L) (entry_namespace (replica_of L (ns, n) e)) (es_ZoneRef (e_Spec (replica_of L (ns, n) e))) =
      replica_key L (ns, es_ZoneRef (e_Spec e)) \<longleftrightarrow>
    ro_TargetNamespace (lg_Options L) = [] \<or>
    x_GenerateUniqueName (lg_E L) ''replica'' (rx_Id (lg_Api L)) (es_ZoneRef (e_Spec e)) ns (x_MAX_NAMELEN (lg_E L)) = es_ZoneRef (e_Spec e)"
proof -
  have sp: "e_Spec (replica_of L (ns, n) e) = e_Spec e"
    by (simp add: replica_of_def Let_def assms(6,7) with_meta_def entry_resource_def entry_handler_of_def)
  have "entry_namespace (replica_of L (ns, n) e) = ok_Namespace (replica_key L (ns, n))"
    using replica_meta(1) [OF assms(1-4), of "(ns, n)" e] by (simp add: meta_of_def assms(6) entry_resource_def prod_eq_iff)
  then show ?thesis
    using MapKey_reference [of "lg_E L" ns n "rx_Id (lg_Api L)" "ro_TargetNamespace (lg_Options L)" "es_ZoneRef (e_Spec e)"]
    by (simp add: sp refkey_lawD [OF assms(5)] replica_key_def)
qed

theorem replica_reference_witness:
  "let L = entry_logic (replicate_New\<lparr>ro_TargetNamespace := ''t''\<rparr>); r = replica_of L (''default'', ''demo'') EntryA_demo in
   x_RefObjectKeyFor uniq_ext (entry_namespace r) (es_ZoneRef (e_Spec r)) \<noteq> replica_key L (''default'', ''a'')"
proof -
  let ?o = "replicate_New\<lparr>ro_TargetNamespace := ''t''\<rparr>"
  let ?L = "entry_logic ?o"
  have k: "keeps_meta ?L" by (simp add: keeps_meta_def entry_logic_def entry_handler_of_def)
  have sel: "lg_E ?L = uniq_ext" "lg_Res ?L = entry_resource" "lg_Options ?L = ?o" "lg_Api ?L = ref_replica e_Meta"
    "lg_Resp ?L = Some (entry_handler_of ref_dns (lg_E ?L) (\<lambda>_ e. e) (\<lambda>w. store_get []) ?o)" by (simp_all add: entry_logic_def)
  have n: "x_GenerateUniqueName uniq_ext ''replica'' (rx_Id (ref_replica e_Meta)) ''a'' ''default'' (x_MAX_NAMELEN uniq_ext) \<noteq> ''a''"
    by code_simp
  have z: "es_ZoneRef (e_Spec EntryA_demo) = ''a''" by (simp add: EntryA_demo_def)
  have t: "ro_TargetNamespace ?o \<noteq> []" by (simp add: replicate_New_def)
  have r: "resource_laws (lg_Res ?L)" "cleanup_laws (lg_Api ?L)" "finalizer_laws (lg_E ?L)" "refkey_law (lg_E ?L)"
    using entry_resource_laws ref_cleanup_laws uniq_laws by (simp_all add: sel)
  show ?thesis
    using replica_reference [OF r(1-3) k r(4) sel(2) sel(5), of "''default''" "''demo''" EntryA_demo] n t
    by (simp only: Let_def z sel) simp
qed

text \<open>A failed update of a replica is never reported: for a replica that exists and is not being
  deleted the reconciliation ends without problem, whatever error the apply returned.\<close>

theorem update_error_lost:
  assumes "problem_laws (lg_E L)" "rx_Get (lg_Api L) (rp_World s) (replica_key L key) = Inr tgt"
  shows "snd (update_replica L key newp (s, obj)) = None"
  using assms(2) Temp_None [OF assms(1)]
  by (simp add: update_replica_def Let_def on_world_eq IgnoreNotFound_def split: sum.splits)

definition failing_logic ::
    "(hosted_zone, hosted_zone_status, (object_key \<times> hosted_zone) list, ref_problem) logic" where
  "failing_logic = (zone_logic replicate_New)\<lparr>lg_Api := (ref_replica z_Meta)\<lparr>rx_Apply := \<lambda>w _ _. (w, Some (Errorf ''forbidden''))\<rparr>\<rparr>"

theorem update_error_lost_witness:
  "let s = start_state [(replica_key failing_logic (''default'', ''a''), ZoneAA)] in
   snd (update_replica failing_logic (''default'', ''a'') ZoneA (s, ZoneA)) = None \<and>
   snd (rx_Apply (lg_Api failing_logic) (rp_World s) ZoneA ZoneAA) = Some (Errorf ''forbidden'')"
proof -
  let ?s = "start_state [(replica_key failing_logic (''default'', ''a''), ZoneAA)]"
  have "rx_Get (lg_Api failing_logic) (rp_World ?s) (replica_key failing_logic (''default'', ''a'')) = Inr ZoneAA"
    by (simp add: failing_logic_def zone_logic_def ref_replica_def lookup_def start_state_def)
  from update_error_lost [OF _ this] show ?thesis
    by (simp add: Let_def failing_logic_def zone_logic_def uniq_laws ref_replica_def)
qed

text \<open>C33: an original is released only when its replica is gone: a deletion that removes the
  finalizer of the original found no replica in the target cluster, and otherwise leaves the
  original as it was.\<close>

theorem release_after_replica:
  assumes "finalizer_laws (lg_E L)" "resource_laws (lg_Res L)" "rep_ReconcileDeleting L key (s, obj) = ((s', obj'), p)"
    and "lg_Finalizer L \<in> set (om_Finalizers (meta_of L obj))"
  shows "if lg_Finalizer L \<in> set (om_Finalizers (meta_of L obj')) then obj' = obj
    else (\<exists>err. rx_Get (lg_Api L) (rp_World s) (replica_key L key) = Inl err \<and> IsNotFound err) \<and>
      meta_of L obj' = (meta_of L obj)\<lparr>om_Finalizers := filter (\<lambda>g. g \<noteq> lg_Finalizer L) (om_Finalizers (meta_of L obj))\<rparr>"
proof (cases "rx_Get (lg_Api L) (rp_World s) (replica_key L key)")
  case (Inl err)
  show ?thesis
  proof (cases "IsNotFound err")
    case True
    from deleting_gone [OF assms(1,2) Inl True assms(4,3)] Inl True show ?thesis by simp
  next
    case False
    from deleting_unreadable [OF Inl False] assms(3,4) show ?thesis by simp
  qed
next
  case (Inr tgt)
  from deleting_present [OF Inr, of obj] assms(3,4) show ?thesis by simp
qed

theorem release_after_replica_witness:
  "let L = zone_logic replicate_New; obj = ZoneA\<lparr>z_Meta := (z_Meta ZoneA)\<lparr>om_Finalizers := [lg_Finalizer L]\<rparr>\<rparr>;
       s = start_state [(replica_key L (''default'', ''a''), ZoneAA)]
   in snd (fst (rep_ReconcileDeleting L (''default'', ''a'') (s, obj))) = obj \<and>
      om_Finalizers (z_Meta (snd (fst (rep_ReconcileDeleting L (''default'', ''a'') (start_state [], obj))))) = []"
proof -
  let ?L = "zone_logic replicate_New"
  let ?o = "ZoneA\<lparr>z_Meta := (z_Meta ZoneA)\<lparr>om_Finalizers := [lg_Finalizer ?L]\<rparr>\<rparr>"
  let ?s = "start_state [(replica_key ?L (''default'', ''a''), ZoneAA)]"
  have l: "finalizer_laws (lg_E ?L)" "resource_laws (lg_Res ?L)"
    using uniq_laws zone_resource_laws by (simp_all add: zone_logic_def)
  have y: "lg_Finalizer ?L \<in> set (om_Finalizers (meta_of ?L ?o))" by (simp add: meta_of_def zone_logic_def zone_resource_def)
  have g: "\<not> (\<exists>err. rx_Get (lg_Api ?L) (rp_World ?s) (replica_key ?L (''default'', ''a'')) = Inl err \<and> IsNotFound err)"
    by (simp add: zone_logic_def ref_replica_def lookup_def start_state_def)
  have r: "rep_ReconcileDeleting ?L (''default'', ''a'') x = ((fst (fst (rep_ReconcileDeleting ?L (''default'', ''a'') x)),
      snd (fst (rep_ReconcileDeleting ?L (''default'', ''a'') x))), snd (rep_ReconcileDeleting ?L (''default'', ''a'') x))" for x by simp
  have n: "lg_Finalizer ?L \<notin> set (om_Finalizers (meta_of ?L (snd (fst (rep_ReconcileDeleting ?L (''default'', ''a'') (start_state [], ?o))))))"
    by code_simp
  from release_after_replica [OF l r [of "(?s, ?o)"] y] g
  have 1: "snd (fst (rep_ReconcileDeleting ?L (''default'', ''a'') (?s, ?o))) = ?o" by (auto split: if_split_asm)
  from release_after_replica [OF l r [of "(start_state [], ?o)"] y] n
  have 2: "om_Finalizers (z_Meta (snd (fst (rep_ReconcileDeleting ?L (''default'', ''a'') (start_state [], ?o))))) = []"
    by (simp add: meta_of_def zone_logic_def zone_resource_def)
  from 1 2 show ?thesis by (simp only: Let_def)
qed

text \<open>A zone replicator with a class is responsible for no zone: along a chain of existing zones
  the decision is positive only if neither the root zone nor the controller has a class, since
  the classes are compared as pointers; the decision is remembered and reported without problem.\<close>

theorem replication_classless:
  assumes "honest (get (rp_World s))" "refkey_law E"
    and "zone_chain (get (rp_World s)) (zone_namespace z) (zone_parent z) zs" "zone_name z \<notin> set (chain_names (zone_parent z) zs)"
  shows "handler_IsResponsible D E set_status get opts r key (s, z) =
    (let ok = zs_Class (z_Spec (last (z # zs))) = None \<and> ro_Class opts = None
     in Some (Ret ((handler_Handle r key ok s, z), ok, None)))"
  using assms by (rule handler_IsResponsible_chain)

theorem replication_classless_witness:
  "handler_IsResponsible ref_dns ref_ext (zone_SetStatusCondition ref_ext) (\<lambda>w. store_get w) (replicate_New\<lparr>ro_Class := Some ''a''\<rparr>) no_indices
     (''default'', ''a'') (start_state [], zone_with (Some ''a'') None []) =
   Some (Ret ((handler_Handle no_indices (''default'', ''a'') False (start_state []), zone_with (Some ''a'') None []), False, None))"
proof -
  let ?z = "zone_with (Some ''a'') None []"
  have c: "zone_chain (store_get (rp_World (start_state []))) (zone_namespace ?z) (zone_parent ?z) []"
    "zone_name ?z \<notin> set (chain_names (zone_parent ?z) [])" "zs_Class (z_Spec ?z) = Some ''a''" by code_simp+
  show ?thesis
    by (subst replication_classless [where zs = "[]"]) (use c in \<open>simp_all add: store_get_honest ref_refkey_law\<close>)
qed

text \<open>The handler remembers the last decision on every zone since its deletion, whatever happened
  to others, and notifies the children and entries of a zone exactly when a decision differs
  from the one remembered.\<close>

theorem decisions_remembered:
  "map_of (rp_Resp (foldl (resp_step r) s es)) k = remembered k (map_of (rp_Resp s) k) es \<and>
   rp_Queue (handler_Handle r k b s) = rp_Queue s @
     (if map_of (rp_Resp s) k = Some b then []
      else map (\<lambda>c. QZone (zone_namespace c, zone_name c)) (listed (di_ParentIndex r (ok_Namespace k) (ok_Name k))) @
        map (\<lambda>c. QEntry (entry_namespace c, entry_name c)) (listed (di_EntryIndex r (ok_Namespace k) (ok_Name k))))"
  by (simp add: remembered_run handler_Handle_def rep_trigger_queue)

end
