(* ===== verification/Replica_Flow.thy ===== *)
theory Replica_Flow
  imports Replication
begin

text \<open>
  The outcome of the replication of a zone while both clusters work: one reconciliation of a zone
  the replicator is responsible for brings the replica up to date and fetches its status.
\<close>

section \<open>Working clusters\<close>

text \<open>What the specification of a zone becomes in its replica.\<close>

lemma replica_spec:
  assumes "lg_Res L = zone_resource" "lg_Resp L = Some (zone_handler_of D E st get opts r)"
  shows "z_Spec (replica_of L key z) = z_Spec (SetResponsibility opts z)" "z_Status (replica_of L key z) = z_Status z"
  using assms by (simp_all add: replica_of_def Let_def with_meta_def zone_resource_def zone_handler_of_def SetResponsibility_def)

definition zone_stored :: "(hosted_zone, 'w, 'p) replica_api \<Rightarrow> 'w \<Rightarrow> hosted_zone \<Rightarrow> bool" where
  "zone_stored A w z \<longleftrightarrow> (\<exists>r. rx_Get A w (object_key_of (z_Meta z)) = Inr r \<and> z_Spec r = z_Spec z)"

definition same_object :: "hosted_zone \<Rightarrow> hosted_zone \<Rightarrow> bool" where
  "same_object z z' \<longleftrightarrow> z_Spec z' = z_Spec z \<and> object_key_of (z_Meta z') = object_key_of (z_Meta z)"

text \<open>
  Clusters in which nothing fails: patches and the mapping of originals succeed and change no
  object of the target, an object that is not found can be created, one that exists can be
  updated, and both can be read afterwards with the specification given.
\<close>

definition clusters_up :: "(hosted_zone, 'w, 'p) replica_api \<Rightarrow> bool" where
  "clusters_up A \<longleftrightarrow>
     (\<forall>w m m'. \<exists>w'. rx_Patch A w m m' = (w', None) \<and> rx_Get A w' = rx_Get A w) \<and>
     (\<forall>w k k'. \<exists>w'. rx_SetOriginal A w k k' = (w', None) \<and> rx_Get A w' = rx_Get A w) \<and>
     (\<forall>old z. \<exists>z'. rx_SetOwner A old z = Inr z' \<and> same_object z z') \<and>
     (\<forall>w k err. rx_Get A w k = Inl err \<longrightarrow> IsNotFound err) \<and>
     (\<forall>w z err. rx_Get A w (object_key_of (z_Meta z)) = Inl err \<longrightarrow> (\<exists>w'. rx_Create A w z = (w', None) \<and> zone_stored A w' z)) \<and>
     (\<forall>w z old. rx_Get A w (object_key_of (z_Meta z)) = Inr old \<longrightarrow> (\<exists>w'. rx_Apply A w z old = (w', None) \<and> zone_stored A w' z))"

lemma clusters_upD:
  assumes "clusters_up A"
  shows up_Patch: "\<exists>w'. rx_Patch A w m m' = (w', None) \<and> rx_Get A w' = rx_Get A w"
    and up_SetOriginal: "\<exists>w'. rx_SetOriginal A w k k' = (w', None) \<and> rx_Get A w' = rx_Get A w"
    and up_SetOwner: "\<exists>z'. rx_SetOwner A old z = Inr z' \<and> same_object z z'"
    and up_Get: "rx_Get A w k = Inl err \<Longrightarrow> IsNotFound err"
    and up_Create: "rx_Get A w (object_key_of (z_Meta z)) = Inl err \<Longrightarrow> \<exists>w'. rx_Create A w z = (w', None) \<and> zone_stored A w' z"
    and up_Apply: "rx_Get A w (object_key_of (z_Meta z)) = Inr old \<Longrightarrow> \<exists>w'. rx_Apply A w z old = (w', None) \<and> zone_stored A w' z"
  using assms unfolding clusters_up_def by blast+

section \<open>The steps\<close>

text \<open>The status the original gets: that of an existing replica.\<close>

definition fetched :: "(hosted_zone, 'w, 'p) replica_api \<Rightarrow> 'w \<Rightarrow> object_key \<Rightarrow> hosted_zone \<Rightarrow> hosted_zone" where
  "fetched A w k z = (case rx_Get A w k of Inl _ \<Rightarrow> z | Inr tgt \<Rightarrow> z\<lparr>z_Status := z_Status tgt\<rparr>)"

definition replica_living :: "(hosted_zone, 'w, 'p) replica_api \<Rightarrow> 'w \<Rightarrow> object_key \<Rightarrow> bool" where
  "replica_living A w k \<longleftrightarrow> (\<forall>tgt. rx_Get A w k = Inr tgt \<longrightarrow> \<not> deleted (z_Meta tgt))"

lemma update_replica_up:
  assumes L: "lg_Res L = zone_resource" and A: "clusters_up (lg_Api L)" and P: "problem_laws (lg_E L)"
    and k: "object_key_of (z_Meta new) = replica_key L key" and live: "replica_living (lg_Api L) (rp_World s) (replica_key L key)"
  shows "\<exists>w'. update_replica L key new (s, z) =
      ((s\<lparr>rp_World := w'\<rparr>, fetched (lg_Api L) (rp_World s) (replica_key L key) z), None) \<and>
    (\<exists>r. rx_Get (lg_Api L) w' (replica_key L key) = Inr r \<and> z_Spec r = z_Spec new)"
proof (cases "rx_Get (lg_Api L) (rp_World s) (replica_key L key)")
  case (Inl err)
  from up_Create [OF A, of "rp_World s" new err] Inl k obtain w' where
    "rx_Create (lg_Api L) (rp_World s) new = (w', None)" "zone_stored (lg_Api L) w' new" by auto
  with Inl up_Get [OF A Inl] k show ?thesis
    by (intro exI [of _ w']) (simp add: update_replica_def on_world_eq fetched_def zone_stored_def IgnoreNotFound_def Temp_None [OF P])
next
  case (Inr tgt)
  let ?new = "new\<lparr>z_Meta := (z_Meta new)\<lparr>om_Finalizers := om_Finalizers (z_Meta tgt)\<rparr>\<rparr>"
  have k': "object_key_of (z_Meta ?new) = replica_key L key" using k by (simp add: object_key_of_def)
  with up_Apply [OF A, of "rp_World s" ?new tgt] Inr obtain w' where
    ap: "rx_Apply (lg_Api L) (rp_World s) ?new tgt = (w', None)" "zone_stored (lg_Api L) w' ?new" by auto
  have "om_DeletionTimestamp (z_Meta tgt) = None" using live Inr by (simp add: replica_living_def deleted_def)
  with Inr ap k' show ?thesis
    by (intro exI [of _ w']) (simp add: update_replica_def Let_def on_world_eq fetched_def zone_stored_def IgnoreNotFound_def Temp_None [OF P]
        L zone_resource_def meta_of_def with_meta_def)
qed

lemma rep_replicate_up:
  assumes L: "lg_Res L = zone_resource" "lg_Resp L = Some (zone_handler_of D E st get opts r)"
    and A: "clusters_up (lg_Api L)" "cleanup_laws (lg_Api L)" and P: "problem_laws (lg_E L)" "finalizer_laws (lg_E L)"
    and live: "replica_living (lg_Api L) (rp_World s) (replica_key L key)"
  shows "\<exists>w'. rep_replicate L key (s, z) =
      ((s\<lparr>rp_World := w'\<rparr>, fetched (lg_Api L) (rp_World s) (replica_key L key) z), None) \<and>
    (\<exists>q. rx_Get (lg_Api L) w' (replica_key L key) = Inr q \<and> z_Spec q = z_Spec (SetResponsibility opts z))"
proof -
  obtain w1 where w1: "rx_SetOriginal (lg_Api L) (rp_World s) (replica_key L key) key = (w1, None)"
    "rx_Get (lg_Api L) w1 = rx_Get (lg_Api L) (rp_World s)" using up_SetOriginal [OF A(1)] by blast
  obtain new where new: "rx_SetOwner (lg_Api L) z (replica_of L key z) = Inr new" "same_object (replica_of L key z) new"
    using up_SetOwner [OF A(1)] by blast
  have R: "resource_laws (lg_Res L)" using L(1) zone_resource_laws by simp
  have K: "keeps_meta L" by (simp add: keeps_meta_def L zone_handler_of_def zone_resource_def)
  have k: "object_key_of (z_Meta new) = replica_key L key"
    using replica_meta(1) [OF R A(2) P(2) K, of key z] new(2)
    by (simp add: same_object_def object_key_of_def meta_of_def L(1) zone_resource_def)
  have sp: "z_Spec new = z_Spec (SetResponsibility opts z)"
    using new(2) replica_spec [OF L, of key z] by (simp add: same_object_def)
  let ?s = "s\<lparr>rp_World := w1\<rparr>"
  have live': "replica_living (lg_Api L) (rp_World ?s) (replica_key L key)" using live w1(2) by (simp add: replica_living_def)
  have f: "fetched (lg_Api L) w1 (replica_key L key) z = fetched (lg_Api L) (rp_World s) (replica_key L key) z"
    using w1(2) by (simp add: fetched_def)
  have "rep_replicate L key (s, z) = update_replica L key new (?s, z)"
    using w1(1) new(1) by (simp add: rep_replicate_def on_world_eq)
  with update_replica_up [OF L(1) A(1) P(1) k live', of z] show ?thesis by (simp add: f sp)
qed

text \<open>The zone with the finalizer of the replicator.\<close>

definition claimed :: "string \<Rightarrow> hosted_zone \<Rightarrow> hosted_zone" where
  "claimed f z = (if f \<in> set (om_Finalizers (z_Meta z)) then z
     else z\<lparr>z_Meta := (z_Meta z)\<lparr>om_Finalizers := om_Finalizers (z_Meta z) @ [f]\<rparr>\<rparr>)"

lemma claimed_sel [simp]: "z_Spec (claimed f z) = z_Spec z" "z_Status (claimed f z) = z_Status z"
    "f \<in> set (om_Finalizers (z_Meta (claimed f z)))"
  by (simp_all add: claimed_def)

lemma rep_responsible_up:
  assumes L: "lg_Res L = zone_resource" "lg_Resp L = Some (zone_handler_of D E st get opts r)"
    and A: "clusters_up (lg_Api L)" "cleanup_laws (lg_Api L)" and P: "problem_laws (lg_E L)" "finalizer_laws (lg_E L)"
    and live: "replica_living (lg_Api L) (rp_World s) (replica_key L key)"
  shows "\<exists>w'. rep_responsible L key (s, z) = ((s\<lparr>rp_World := w'\<rparr>,
      fetched (lg_Api L) (rp_World s) (replica_key L key) (claimed (lg_Finalizer L) z)), None) \<and>
    (\<exists>q. rx_Get (lg_Api L) w' (replica_key L key) = Inr q \<and> z_Spec q = z_Spec (SetResponsibility opts z))"
proof (cases "lg_Finalizer L \<in> set (om_Finalizers (z_Meta z))")
  case True
  then have "rep_responsible L key (s, z) = rep_replicate L key (s, z)"
    by (simp add: rep_responsible_def Add_eq [OF P(2)] L(1) zone_resource_def meta_of_def)
  with rep_replicate_up [OF assms, of z] True show ?thesis by (simp add: claimed_def)
next
  case False
  let ?m = "(z_Meta z)\<lparr>om_Finalizers := om_Finalizers (z_Meta z) @ [lg_Finalizer L]\<rparr>"
  obtain w1 where w1: "rx_Patch (lg_Api L) (rp_World s) (z_Meta z) ?m = (w1, None)"
    "rx_Get (lg_Api L) w1 = rx_Get (lg_Api L) (rp_World s)" using up_Patch [OF A(1)] by blast
  let ?s = "s\<lparr>rp_World := w1\<rparr>" and ?z = "z\<lparr>z_Meta := ?m\<rparr>"
  have live': "replica_living (lg_Api L) (rp_World ?s) (replica_key L key)" using live w1(2) by (simp add: replica_living_def)
  have "rep_responsible L key (s, z) = rep_replicate L key (?s, ?z)"
    using False w1(1) by (simp add: rep_responsible_def Add_eq [OF P(2)] L(1) zone_resource_def meta_of_def with_meta_def on_world_eq)
  moreover have "z_Spec (SetResponsibility opts ?z) = z_Spec (SetResponsibility opts z)" by (simp add: SetResponsibility_def)
  ultimately show ?thesis
    using rep_replicate_up [OF L A P live', of ?z] False w1(2) by (simp add: claimed_def fetched_def)
qed

text \<open>A whole reconciliation of a zone the replicator is responsible for.\<close>

lemma rep_Reconcile_up:
  assumes L: "lg_Res L = zone_resource" "lg_Resp L = Some (zone_handler_of D (lg_E L) st get (lg_Options L) r)"
    and A: "clusters_up (lg_Api L)" "cleanup_laws (lg_Api L)" and P: "problem_laws (lg_E L)" "finalizer_laws (lg_E L)" "refkey_law (lg_E L)"
    and c: "honest (get (rp_World s))" "zone_chain (get (rp_World s)) (zone_namespace z) (zone_parent z) zs"
      "zone_name z \<notin> set (chain_names (zone_parent z) zs)"
    and cls: "zs_Class (z_Spec (last (z # zs))) = None" "ro_Class (lg_Options L) = None"
    and own: "get_annotation REPLICATED_ANNOTATION (z_Meta z) = []"
    and live: "replica_living (lg_Api L) (rp_World s) (replica_key L key)"
  shows "\<exists>w'. rep_Reconcile L key (s, z) = Some (Ret (((handler_Handle r key True s)\<lparr>rp_World := w'\<rparr>,
      fetched (lg_Api L) (rp_World s) (replica_key L key) (claimed (lg_Finalizer L) z)), None)) \<and>
    (\<exists>q. rx_Get (lg_Api L) w' (replica_key L key) = Inr q \<and> z_Spec q = z_Spec (SetResponsibility (lg_Options L) z))"
proof -
  let ?s = "handler_Handle r key True s"
  have w: "rp_World ?s = rp_World s" by (simp add: handler_Handle_def)
  have d: "handler_IsResponsible D (lg_E L) st get (lg_Options L) r key (s, z) = Some (Ret ((?s, z), True, None))"
    using handler_IsResponsible_chain [where get = get and s = s, OF c(1) P(3) c(2,3)] cls by (simp add: Let_def)
  have live: "replica_living (lg_Api L) (rp_World ?s) (replica_key L key)" using live w by simp
  have "rep_Reconcile L key (s, z) = Some (Ret (rep_responsible L key (?s, z)))"
    using own d by (simp add: rep_Reconcile_def meta_of_def L zone_resource_def zone_handler_of_def)
  with rep_responsible_up [OF L A P(1,2) live, of z] show ?thesis unfolding w by auto
qed

text \<open>A creation that fails because something is not found, as the namespace, ends without problem.\<close>

lemma create_not_found_lost:
  assumes "problem_laws (lg_E L)" "rx_Get (lg_Api L) (rp_World s) (replica_key L key) = Inl err" "IsNotFound err"
    and "rx_Create (lg_Api L) (rp_World s) new = (w', Some err')" "IsNotFound err'"
  shows "update_replica L key new (s, z) = ((s\<lparr>rp_World := w'\<rparr>, z), None)"
  using assms(2-) by (simp add: update_replica_def on_world_eq IgnoreNotFound_def Temp_None [OF assms(1)])

section \<open>Properties\<close>

text \<open>C10: while both clusters work, one reconciliation of a zone below a root zone without class, by a
  replicator without class, ends without problem and brings the target up to date: the replica
  is there with the specification of the zone, the class of a root zone replaced by the target
  class; the zone has the finalizer, and the status of the replica if there was one already.\<close>

theorem zone_replicated:
  assumes "lg_Res L = zone_resource" "lg_Resp L = Some (zone_handler_of D (lg_E L) st get (lg_Options L) r)"
    and "clusters_up (lg_Api L)" "cleanup_laws (lg_Api L)" "problem_laws (lg_E L)" "finalizer_laws (lg_E L)" "refkey_law (lg_E L)"
    and "honest (get (rp_World s))" "zone_chain (get (rp_World s)) (zone_namespace z) (zone_parent z) zs"
      "zone_name z \<notin> set (chain_names (zone_parent z) zs)"
    and "zs_Class (z_Spec (last (z # zs))) = None" "ro_Class (lg_Options L) = None"
    and "get_annotation REPLICATED_ANNOTATION (z_Meta z) = []"
    and "replica_living (lg_Api L) (rp_World s) (replica_key L key)"
  shows "\<exists>s' z'. rep_Reconcile L key (s, z) = Some (Ret ((s', z'), None)) \<and>
    (\<exists>q. rx_Get (lg_Api L) (rp_World s') (replica_key L key) = Inr q \<and> z_Spec q = z_Spec (SetResponsibility (lg_Options L) z)) \<and>
    z_Spec z' = z_Spec z \<and> lg_Finalizer L \<in> set (om_Finalizers (z_Meta z')) \<and>
    z_Status z' = (case rx_Get (lg_Api L) (rp_World s) (replica_key L key) of Inl _ \<Rightarrow> z_Status z | Inr q \<Rightarrow> z_Status q)"
proof -
  from rep_Reconcile_up [OF assms] obtain w' where
    "rep_Reconcile L key (s, z) = Some (Ret (((handler_Handle r key True s)\<lparr>rp_World := w'\<rparr>,
      fetched (lg_Api L) (rp_World s) (replica_key L key) (claimed (lg_Finalizer L) z)), None))"
    "\<exists>q. rx_Get (lg_Api L) w' (replica_key L key) = Inr q \<and> z_Spec q = z_Spec (SetResponsibility (lg_Options L) z)" by blast
  then show ?thesis
    by (intro exI [of _ "(handler_Handle r key True s)\<lparr>rp_World := w'\<rparr>"]
        exI [of _ "fetched (lg_Api L) (rp_World s) (replica_key L key) (claimed (lg_Finalizer L) z)"])
      (auto simp: fetched_def split: sum.split)
qed

definition ready_replica :: hosted_zone where
  "ready_replica = ZoneA\<lparr>z_Status := zero_zone_status\<lparr>zt_State := STATE_READY\<rparr>\<rparr>"

lemma lookup_update: "lookup (AList.update k v xs) k' = (if k' = k then Inr v else lookup xs k')"
  by (simp add: lookup_def update_conv')

lemma lookup_missing: "lookup xs k = Inl err \<Longrightarrow> IsNotFound err"
  by (auto simp: lookup_def not_found_def split: option.splits)

lemma ref_clusters_up: "clusters_up (ref_replica z_Meta)"
  by (auto simp: clusters_up_def ref_replica_def zone_stored_def same_object_def lookup_update intro: lookup_missing)

theorem zone_replicated_witness:
  "let L = zone_logic (replicate_New\<lparr>ro_TargetClass := ''b''\<rparr>); r = ready_replica;
       s = start_state [(replica_key L (''default'', ''a''), r)]
   in \<exists>s' z'. rep_Reconcile L (''default'', ''a'') (s, ZoneA) = Some (Ret ((s', z'), None)) \<and> z_Status z' = z_Status r \<and>
        (\<exists>q. lookup (rp_World s') (replica_key L (''default'', ''a'')) = Inr q \<and> zs_Class (z_Spec q) = Some ''b'')"
proof -
  let ?o = "replicate_New\<lparr>ro_TargetClass := ''b''\<rparr>" and ?k = "(''default'', ''a'')"
  let ?L = "zone_logic ?o" and ?get = "\<lambda>w. store_get (map snd w)"
  let ?s = "start_state [(replica_key ?L ?k, ready_replica)]"
  have sel: "lg_Res ?L = zone_resource" "lg_E ?L = uniq_ext" "lg_Api ?L = ref_replica z_Meta" "lg_Options ?L = ?o"
    "lg_Resp ?L = Some (zone_handler_of ref_dns (lg_E ?L) (zone_SetStatusCondition uniq_ext) ?get (lg_Options ?L) no_indices)"
    by (simp_all add: zone_logic_def)
  have l: "clusters_up (lg_Api ?L)" "cleanup_laws (lg_Api ?L)" "problem_laws (lg_E ?L)" "finalizer_laws (lg_E ?L)" "refkey_law (lg_E ?L)"
    by (simp_all add: sel ref_clusters_up ref_cleanup_laws uniq_laws)
  have c: "zone_chain (?get (rp_World ?s)) (zone_namespace ZoneA) (zone_parent ZoneA) []"
    "zone_name ZoneA \<notin> set (chain_names (zone_parent ZoneA) [])" "zs_Class (z_Spec (last [ZoneA])) = None"
    "ro_Class (lg_Options ?L) = None" "get_annotation REPLICATED_ANNOTATION (z_Meta ZoneA) = []" by code_simp+
  have g: "rx_Get (lg_Api ?L) (rp_World ?s) (replica_key ?L ?k) = Inr (ready_replica)"
    by (simp add: sel ref_replica_def lookup_def start_state_def)
  have "\<not> deleted (z_Meta ready_replica)" by code_simp
  then have live: "replica_living (lg_Api ?L) (rp_World ?s) (replica_key ?L ?k)"
    unfolding replica_living_def g by simp
  have cl: "zs_Class (z_Spec (SetResponsibility ?o ZoneA)) = Some ''b''" by code_simp
  from zone_replicated [OF sel(1,5) l store_get_honest c live] g cl
  show ?thesis unfolding Let_def by (auto simp: sel(3,4) ref_replica_def)
qed

end
