(* ===== verification/System_Flow.thy ===== *)
theory System_Flow
  imports Zone_Flow Replica_Flow
begin

text \<open>
  The whole way of a root zone: the replicator copies it to the target cluster, there the server
  and the data plane bring it up, and the replicator takes the outcome back.
\<close>

section \<open>The replicator\<close>

text \<open>A replicator of zones, without class and target class, in two clusters in which nothing fails.\<close>

definition plain_replicator :: "dns_lib \<Rightarrow> ('w \<Rightarrow> zone_getter) \<Rightarrow> direct_indices \<Rightarrow> (hosted_zone, hosted_zone_status, 'w, 'p) logic \<Rightarrow> bool" where
  "plain_replicator D get r L \<longleftrightarrow>
     lg_Res L = zone_resource \<and>
     (\<exists>st. lg_Resp L = Some (zone_handler_of D (lg_E L) st get (lg_Options L) r)) \<and>
     clusters_up (lg_Api L) \<and> cleanup_laws (lg_Api L) \<and>
     problem_laws (lg_E L) \<and> finalizer_laws (lg_E L) \<and> refkey_law (lg_E L) \<and>
     ro_Class (lg_Options L) = None \<and> ro_TargetClass (lg_Options L) = [] \<and> (\<forall>w. honest (get w))"

text \<open>A root zone without class which is no replica itself.\<close>

definition plain_root :: "hosted_zone \<Rightarrow> bool" where
  "plain_root z \<longleftrightarrow> zone_parent z = [] \<and> zs_Class (z_Spec z) = None \<and> get_annotation REPLICATED_ANNOTATION (z_Meta z) = []"

lemma SetResponsibility_plain:
  "zs_Class (z_Spec z) = None \<Longrightarrow> ro_TargetClass opts = [] \<Longrightarrow> z_Spec (SetResponsibility opts z) = z_Spec z"
  by (simp add: SetResponsibility_def)

lemma claimed_annotation: "get_annotation a (z_Meta (claimed f z)) = get_annotation a (z_Meta z)"
  by (simp add: claimed_def get_annotation_def)

lemma fetched_keeps: "z_Spec (fetched A w k z) = z_Spec z" "z_Meta (fetched A w k z) = z_Meta z"
  by (simp_all add: fetched_def split: sum.split)

lemma plain_rep_Reconcile:
  assumes L: "plain_replicator D get r L" and z: "plain_root z"
    and live: "replica_living (lg_Api L) (rp_World s) (replica_key L key)"
    and run: "rep_Reconcile L key (s, z) = res"
  obtains s' z' q where "res = Some (Ret ((s', z'), None))" "plain_root z'" "z_Spec z' = z_Spec z"
    "z_Status z' = z_Status (fetched (lg_Api L) (rp_World s) (replica_key L key) z)"
    "rx_Get (lg_Api L) (rp_World s') (replica_key L key) = Inr q" "z_Spec q = z_Spec z"
proof -
  from L obtain st where l: "lg_Res L = zone_resource" "lg_Resp L = Some (zone_handler_of D (lg_E L) st get (lg_Options L) r)"
    "clusters_up (lg_Api L)" "cleanup_laws (lg_Api L)" "problem_laws (lg_E L)" "finalizer_laws (lg_E L)" "refkey_law (lg_E L)"
    "honest (get (rp_World s))" and o: "ro_Class (lg_Options L) = None" "ro_TargetClass (lg_Options L) = []"
    by (auto simp: plain_replicator_def)
  from z have c: "zone_chain (get (rp_World s)) (zone_namespace z) (zone_parent z) []"
    "zone_name z \<notin> set (chain_names (zone_parent z) [])" "zs_Class (z_Spec (last [z])) = None"
    and a: "get_annotation REPLICATED_ANNOTATION (z_Meta z) = []" by (simp_all add: plain_root_def)
  let ?z = "fetched (lg_Api L) (rp_World s) (replica_key L key) (claimed (lg_Finalizer L) z)"
  have "plain_root ?z" using z by (simp add: plain_root_def fetched_keeps claimed_annotation)
  moreover have "z_Status ?z = z_Status (fetched (lg_Api L) (rp_World s) (replica_key L key) z)"
    by (simp add: fetched_def split: sum.split)
  moreover have "z_Spec (SetResponsibility (lg_Options L) z) = z_Spec z"
    using z o(2) by (simp add: SetResponsibility_plain plain_root_def)
  ultimately show ?thesis
    using rep_Reconcile_up [OF l c o(1) a live] run that by (auto simp: fetched_keeps)
qed

section \<open>Properties\<close>

text \<open>C11: a root zone in the source cluster becomes Ready by way of its replica: the replicator creates
  the replica; a turn of the target's data plane makes the server there, which runs in slave
  mode, a slave for the replica; the server loads it without problem; the data plane's next
  turn deploys it; and the next reconciliation of the original brings the outcome back, so that
  the original is Ready exactly if the replica's own deployment, the one described by the runtime
  manifests rendered for the replica's key, has ready replicas, or keeps the state of the replica
  while the access values are missing. The server's mode is the one its factory computes.\<close>

theorem replicated_zone_becomes_ready:
  assumes "plain_replicator D get r L" "plain_root z" "snd (ValidateZone (ev_E V) z) = None"
    and "apply_laws (ev_A V)" "problem_laws (ev_E V)" "condition_laws (ev_E V)" "finalizer_laws (ev_E V)"
    and "so_Class sopts = None" "so_Slave sopts"
    and "replica_living (lg_Api L) (rp_World s) (replica_key L key)"
    and "rep_Reconcile L key (s, z) = Some (Ret ((s1, z1), p1))"
    and "rx_Get (lg_Api L) (rp_World s1) (replica_key L key) = Inr q"
    and "manages V w q" "direct_Reconcile V (replica_key L key) (w, q) = Some (Ret ((w1, Some q1), None))"
    and "zone_CreateRequest sopts (Some q1) = Ret master"
    and "zone_Reconcile D (ev_E V) ord sopts master cluster tget m q1 = Some (m', q2, p2)"
    and "manages V w2 q2" "direct_Reconcile V (replica_key L key) (w2, q2) = Some (Ret ((w3, Some q3), None))"
    and "rx_Get (lg_Api L) (rp_World s2) (replica_key L key) = Inr q3" "\<not> deleted (z_Meta q3)"
  shows "p1 = None \<and> p2 = None \<and> \<not> master \<and> z_Spec q = z_Spec z \<and>
    (\<exists>s3 z3. rep_Reconcile L key (s2, z1) = Some (Ret ((s3, z3), None)) \<and>
       z_Spec z3 = z_Spec z \<and> z_Status z3 = z_Status q3 \<and>
       (\<exists>u1 u2 v e dataplane runtime.
          mode_Prepare (rc_Mode (ev_rc V)) (ev_E V) (ev_A V) (rc_Options (ev_rc V))
            (request_context V (replica_key L key) w2) w2 = (u1, None) \<and>
          request_Values V (replica_key L key) False u1 = (u2, v, e) \<and>
          Render (ev_en V) (ev_ro V) (rc_Manifests (ev_rc V)) v = Some (Ret (Inr (dataplane, runtime))) \<and>
          (if e \<noteq> None then zt_State (z_Status z3) = zt_State (z_Status q1)
           else zt_NameServers (z_Status z3) \<noteq> [] \<and>
             (\<exists>d. a_GetDeployment (ev_A V) w3 (deployment_of (ev_A V) ([], []) (data_of V runtime)) = Inr d \<and>
               (zt_State (z_Status z3) = STATE_READY \<longleftrightarrow> dp_ReadyReplicas d > 0)))))"
proof -
  have first: "p1 = None" "plain_root z1" "z_Spec z1 = z_Spec z" "z_Spec q = z_Spec z"
    using plain_rep_Reconcile [OF assms(1,2,10,11)] assms(12) by (metis Inr_inject Pair_inject go.inject option.inject)+
  have q: "zone_parent q = []" "zs_Class (z_Spec q) = None" "snd (ValidateZone (ev_E V) q) = None"
    using first(4) assms(2,3) ValidateZone_spec [of q z "ev_E V"] by (simp_all add: plain_root_def)
  note target = zone_flow [OF assms(4-7) q assms(8,9,13-18)]
  have live: "replica_living (lg_Api L) (rp_World s2) (replica_key L key)" using assms(19,20) by (simp add: replica_living_def)
  obtain s3 z3 where z3: "rep_Reconcile L key (s2, z1) = Some (Ret ((s3, z3), None))" "z_Spec z3 = z_Spec z" "z_Status z3 = z_Status q3"
    by (rule plain_rep_Reconcile [OF assms(1) first(2) live refl]) (use assms(19) first(3) in \<open>auto simp: fetched_def\<close>)
  from target(6) have "deployed_state V (replica_key L key) w2 (z_Status q1) w3 (z_Status z3)" unfolding z3(3) .
  then show ?thesis using first target(1,2) z3 unfolding deployed_state_def by blast
qed

lemma plain_zone_logic: "plain_replicator ref_dns (\<lambda>w. store_get (map snd w)) no_indices (zone_logic replicate_New)"
  unfolding plain_replicator_def
  by (auto simp: zone_logic_def ref_clusters_up ref_cleanup_laws uniq_laws store_get_honest replicate_New_def)

lemma test_env_laws:
  "apply_laws (ev_A (test_env h))" "problem_laws (ev_E (test_env h))" "condition_laws (ev_E (test_env h))" "finalizer_laws (ev_E (test_env h))"
  by (simp_all add: ref_apply_laws ref_problem_laws ref_condition_laws ref_finalizer_laws)

theorem replicated_zone_becomes_ready_witness:
  "let L = zone_logic replicate_New; k = (''default'', ''a''); V = test_env DnsLoadbalancer; so = \<lparr>so_Class = None, so_Slave = True\<rparr>
   in \<exists>s1 z1 q w1 q1 m q2 w3 q3 s3 z3. rep_Reconcile L k (start_state [], ZoneA_full) = Some (Ret ((s1, z1), None)) \<and>
        lookup (rp_World s1) (replica_key L k) = Inr q \<and>
        direct_Reconcile V (replica_key L k) (running_store, q) = Some (Ret ((w1, Some q1), None)) \<and>
        zone_CreateRequest so (Some q1) = Ret False \<and>
        zone_Reconcile ref_dns ref_ext (\<lambda>xs. xs) so False test_Source (store_get []) New q1 = Some (m, q2, None) \<and>
        direct_Reconcile V (replica_key L k) (w1, q2) = Some (Ret ((w3, Some q3), None)) \<and>
        rep_Reconcile L k (start_state [(replica_key L k, q3)], z1) = Some (Ret ((s3, z3), None)) \<and>
        zt_State (z_Status z3) = STATE_READY \<and> zt_NameServers (z_Status z3) \<noteq> []"
proof -
  let ?L = "zone_logic replicate_New" and ?k = "(''default'', ''a'')" and ?V = "test_env DnsLoadbalancer"
  let ?so = "\<lparr>so_Class = None, so_Slave = True\<rparr>" and ?rk = "replica_key ?L ?k"
  let ?t = "\<lambda>q. zone_Reconcile ref_dns ref_ext (\<lambda>xs. xs) ?so False test_Source (store_get []) New q"
  have "case rep_Reconcile ?L ?k (start_state [], ZoneA_full) of
      Some (Ret ((s1, z1), None)) \<Rightarrow>
        (case lookup (rp_World s1) ?rk of
           Inr q \<Rightarrow> alnum q \<and> fin_of ?V \<notin> set (finalizers q) \<and> takes ?V q \<and>
             (case direct_Reconcile ?V ?rk (running_store, q) of
                Some (Ret ((w1, Some q1), None)) \<Rightarrow> zone_CreateRequest ?so (Some q1) = Ret False \<and>
                  (case ?t q1 of
                     Some (m, q2, None) \<Rightarrow> alnum q2 \<and> fin_of ?V \<in> set (finalizers q2) \<and> \<not> ChangedResponsibility ?V (Some q2) \<and>
                       (case direct_Reconcile ?V ?rk (w1, q2) of
                          Some (Ret ((w3, Some q3), None)) \<Rightarrow> \<not> deleted (z_Meta q3) \<and> zt_State (z_Status q3) = STATE_READY
                        | _ \<Rightarrow> False)
                   | _ \<Rightarrow> False)
              | _ \<Rightarrow> False)
         | _ \<Rightarrow> False)
    | _ \<Rightarrow> False" by code_simp
  then obtain s1 z1 q w1 q1 m q2 w3 q3 where
    r: "rep_Reconcile ?L ?k (start_state [], ZoneA_full) = Some (Ret ((s1, z1), None))" "lookup (rp_World s1) ?rk = Inr q"
    and m: "alnum q" "fin_of ?V \<notin> set (finalizers q)" "takes ?V q"
    and d1: "direct_Reconcile ?V ?rk (running_store, q) = Some (Ret ((w1, Some q1), None))"
    and cr: "zone_CreateRequest ?so (Some q1) = Ret False" and t: "?t q1 = Some (m, q2, None)"
    and m2: "alnum q2" "fin_of ?V \<in> set (finalizers q2)" "\<not> ChangedResponsibility ?V (Some q2)"
    and d2: "direct_Reconcile ?V ?rk (w1, q2) = Some (Ret ((w3, Some q3), None))" "\<not> deleted (z_Meta q3)"
      "zt_State (z_Status q3) = STATE_READY"
    unfolding case_ended by blast
  have man: "manages ?V running_store q" "manages ?V w1 q2" using m m2 by (simp_all add: manages_def ref_api_def)
  have v: "plain_root ZoneA_full" "snd (ValidateZone (ev_E ?V) ZoneA_full) = None" by code_simp+
  have g: "rx_Get (lg_Api ?L) = lookup" by (simp add: zone_logic_def ref_replica_def)
  have e: "snd (snd (request_Values ?V ?rk False x)) = None" for x
    by (simp add: request_Values_def test_env_def Values_def request_context_def ref_api_def Let_def)
  have live: "replica_living (lg_Api ?L) (rp_World (start_state [])) ?rk"
    by (simp add: replica_living_def g lookup_def start_state_def)
  have q3: "lookup (rp_World (start_state [(?rk, q3)])) ?rk = Inr q3" by (simp add: start_state_def lookup_def)
  have t': "zone_Reconcile ref_dns (ev_E ?V) (\<lambda>xs. xs) ?so False test_Source (store_get []) New q1 = Some (m, q2, None)" using t by simp
  from replicated_zone_becomes_ready [OF plain_zone_logic v test_env_laws _ _ live r(1) _ man(1) d1 cr t' man(2) d2(1) _ d2(2),
      unfolded g, OF _ _ r(2) q3] e
  obtain s3 z3 where "rep_Reconcile ?L ?k (start_state [(?rk, q3)], z1) = Some (Ret ((s3, z3), None))"
    "z_Status z3 = z_Status q3" "zt_NameServers (z_Status z3) \<noteq> []"
    by (auto split: if_splits) (metis option.discI prod.sel(2))+
  note outcome = this
  from d2(3) outcome(2) have "zt_State (z_Status z3) = STATE_READY" by simp
  with r d1 cr t d2(1) outcome(1,3) show ?thesis unfolding Let_def by (intro exI conjI) assumption+
qed

end
