(* ===== verification/Direct_SelfCheck.thy ===== *)
theory Direct_SelfCheck
  imports Direct_Resources
begin

text \<open>
  The checks the program makes of its embedded manifests before it starts (cmd/main.go; the
  functions in internal/controller/direct/hostedzone/assets.go and assets_kubedns.go): all
  manifests are rendered with simulated values for three deployments, and the last results are
  printed. The output is a text; \<open>ord\<close> gives the order of the range over a map.
\<close>

section \<open>Output\<close>

definition NL :: string where "NL = [CHR 0x0A]"

definition indent_lines :: "string \<Rightarrow> string" where
  "indent_lines s = concat (map (\<lambda>c. if c = CHR 0x0A then NL @ ''    '' else [c]) s)"

definition print_manifests :: "(manifests \<Rightarrow> manifests) \<Rightarrow> manifests \<Rightarrow> string" where
  "print_manifests ord ms =
     concat (map (\<lambda>(k, v). ''- '' @ k @ '':'' @ NL @ ''    '' @ indent_lines v @ NL) (ord ms))"

definition PrintManifests :: "embed_fs \<Rightarrow> (manifests \<Rightarrow> manifests) \<Rightarrow> string go" where
  "PrintManifests fs ord =
     (case GetManifests fs of
        Inl err \<Rightarrow> Panic
      | Inr ms \<Rightarrow>
          Ret ((if length ms = 0 then ''No manifests found'' @ NL else []) @
               concat (map (\<lambda>(name, _). ''- '' @ name @ NL) (ord ms))))"

text \<open>
  \<open>json.Marshal\<close> of generic values: keys in the order of their bytes, texts with the escapes of
  HTML-safe JSON. Texts are valid UTF-8 without the line separators U+2028 and U+2029.
\<close>

definition json_char :: "char \<Rightarrow> string" where
  "json_char c =
     (let n = (of_char c :: nat)
      in if n = 34 \<or> n = 92 then [CHR 0x5C, c]
         else if n = 8 then [CHR 0x5C, CHR ''b''] else if n = 12 then [CHR 0x5C, CHR ''f'']
         else if n = 10 then [CHR 0x5C, CHR ''n''] else if n = 13 then [CHR 0x5C, CHR ''r'']
         else if n = 9 then [CHR 0x5C, CHR ''t'']
         else if n < 32 \<or> n = 60 \<or> n = 62 \<or> n = 38 then [CHR 0x5C] @ ''u00'' @ [hex_digit (n div 16), hex_digit (n mod 16)]
         else [c])"

definition json_text :: "string \<Rightarrow> string" where
  "json_text s = [CHR 0x22] @ concat (map json_char s) @ [CHR 0x22]"

fun bytes_less :: "string \<Rightarrow> string \<Rightarrow> bool" where
  "bytes_less s [] = False"
| "bytes_less [] (d # t) = True"
| "bytes_less (c # s) (d # t) \<longleftrightarrow> (of_char c :: nat) < of_char d \<or> c = d \<and> bytes_less s t"

fun insert_key :: "string \<times> 'a \<Rightarrow> (string \<times> 'a) list \<Rightarrow> (string \<times> 'a) list" where
  "insert_key x [] = [x]"
| "insert_key x (y # ys) = (if bytes_less (fst y) (fst x) then y # insert_key x ys else x # y # ys)"

definition show_int :: "int \<Rightarrow> string" where
  "show_int i = (if i < 0 then ''-'' @ show_nat (nat (- i)) else show_nat (nat i))"

primrec json_Marshal :: "json \<Rightarrow> string" where
  "json_Marshal (JStr s) = json_text s"
| "json_Marshal (JInt i) = show_int i"
| "json_Marshal (JList xs) = ''['' @ str_join '','' (map json_Marshal xs) @ '']''"
| "json_Marshal (JMap m) = ''{'' @ str_join '','' (map (\<lambda>(k, v). json_text k @ '':'' @ v)
     (foldr insert_key (map (map_prod (\<lambda>k. k) json_Marshal) m) [])) @ ''}''"

section \<open>Simulated rendering\<close>

definition test_context :: context_data where
  "test_context = (NewReconcileContext ''http://api.server'' ''testcluster'' ''aws'' (''default'', ''myzone''))\<lparr>cd_Simulate := True\<rparr>"

text \<open>The values of a mode for the test zone; the world is that of a cluster the context has not.\<close>

definition test_Values ::
    "'p ext \<Rightarrow> 'w api \<Rightarrow> (string \<Rightarrow> go_error + string) \<Rightarrow> 'w \<Rightarrow> direct_options \<Rightarrow> mode \<Rightarrow> 'w \<times> json_map option \<times> go_error option" where
  "test_Values E A parse w opts m = Values E A opts m (as_context A parse w test_context) False w"

text \<open>\<open>add\<close> completes the values; \<open>None\<close> is a write to a nil map.\<close>

definition test_render ::
    "'p ext \<Rightarrow> 'w api \<Rightarrow> (string \<Rightarrow> go_error + string) \<Rightarrow> 'w \<Rightarrow> 'c engine \<Rightarrow> render_order \<Rightarrow> manifests
     \<Rightarrow> (json_map option \<Rightarrow> json_map option option) \<Rightarrow> direct_options \<Rightarrow> mode \<Rightarrow> string \<Rightarrow> string
     \<Rightarrow> (go_error + json_map option \<times> manifests \<times> manifests) go option" where
  "test_render E A parse w en ro ms add opts m what_values what =
     (case test_Values E A parse w opts m of
        (_, _, Some err) \<Rightarrow> Some (Ret (Inl (wrap what_values err)))
      | (_, values, None) \<Rightarrow>
          (case add values of
             None \<Rightarrow> Some Panic
           | Some values \<Rightarrow>
               map_option (\<lambda>r. go_bind r (\<lambda>r. Ret (case r of
                   Inl err \<Rightarrow> Inl (wrap what err)
                 | Inr (dataplane, runtime) \<Rightarrow> Inr (values, dataplane, runtime))))
                 (Render en ro ms values)))"

text \<open>The output so far, and the error that ends the check.\<close>

type_synonym check_result = "(string \<times> go_error option) go option"

definition check_step :: "(go_error + 'a) go option \<Rightarrow> string \<Rightarrow> ('a \<Rightarrow> check_result) \<Rightarrow> check_result" where
  "check_step r out f =
     (case r of
        None \<Rightarrow> None
      | Some Panic \<Rightarrow> Some Panic
      | Some (Ret (Inl err)) \<Rightarrow> Some (Ret (out, Some err))
      | Some (Ret (Inr x)) \<Rightarrow> f x)"

definition in_namespace :: "string \<Rightarrow> direct_options" where
  "in_namespace ns = NewOptions\<lparr>do_RuntimeNamespace := ns\<rparr>"

definition TestRenderManifests ::
    "'p ext \<Rightarrow> 'w api \<Rightarrow> (string \<Rightarrow> go_error + string) \<Rightarrow> 'w \<Rightarrow> 'c engine \<Rightarrow> (nat \<Rightarrow> render_order) \<Rightarrow> embed_fs
     \<Rightarrow> (nat \<Rightarrow> manifests \<Rightarrow> manifests) \<Rightarrow> check_result" where
  "TestRenderManifests E A parse w en ro fs ord =
     (case GetManifests fs of
        Inl err \<Rightarrow> Some (Ret ([], Some err))
      | Inr ms \<Rightarrow>
          check_step (test_render E A parse w en (ro 0) ms Some NewOptions LocalMode
            ''get local mode values'' ''local mode rendering'') [] (\<lambda>(values, dataplane, runtime).
          (let out = ''*** local mode:'' @ NL @
                 ''values: '' @ (case values of None \<Rightarrow> ''null'' | Some v \<Rightarrow> json_Marshal (JMap v)) @ NL @
                 ''dataplane manifests:'' @ NL @ print_manifests (ord 0) dataplane @
                 ''runtime manifests:'' @ NL @ print_manifests (ord 1) runtime
           in check_step (test_render E A parse w en (ro 1) ms Some (in_namespace []) RuntimeMode
                ''get runtime mode values'' ''runtime mode rendering'') out (\<lambda>_.
              check_step (test_render E A parse w en (ro 2) ms Some (in_namespace ''dns-runtime'') RuntimeMode
                ''get central runtime mode values'' ''cenbtral runtime mode rendering'') out (\<lambda>(_, dataplane, runtime).
              Some (Ret (out @ ''*** remote mode:'' @ NL @
                ''dataplane manifests:'' @ NL @ print_manifests (ord 2) dataplane @
                ''runtime manifests:'' @ NL @ print_manifests (ord 3) runtime, None)))))))"

definition addDNSValues :: "json_map option \<Rightarrow> json_map option option" where
  "addDNSValues values =
     map_option (\<lambda>v. Some (AList.update ''dns'' (JMap
       [(''name'', JStr ''dns''), (''namespace'', JStr ''dns-system''), (''class'', JStr ''dns-class''),
        (''ips'', JList [JStr ''1.2.3.4'']), (''cnames'', JList [JStr ''alice.bob'']),
        (''dnsnames'', JList [JStr ''dns.nameserver.bob''])]) v)) values"

definition TestRenderKubeDNSManifests ::
    "'p ext \<Rightarrow> 'w api \<Rightarrow> (string \<Rightarrow> go_error + string) \<Rightarrow> 'w \<Rightarrow> 'c engine \<Rightarrow> (nat \<Rightarrow> render_order) \<Rightarrow> embed_fs
     \<Rightarrow> (nat \<Rightarrow> manifests \<Rightarrow> manifests) \<Rightarrow> check_result" where
  "TestRenderKubeDNSManifests E A parse w en ro fs ord =
     (case GetKubeDNSManifests fs of
        Inl err \<Rightarrow> Some (Ret ([], Some err))
      | Inr ms \<Rightarrow>
          check_step (test_render E A parse w en (ro 3) ms addDNSValues NewOptions LocalMode
            ''get local mode values'' ''local mode rendering'') [] (\<lambda>_.
          check_step (test_render E A parse w en (ro 4) ms addDNSValues (in_namespace []) RuntimeMode
            ''get runtime mode values'' ''runtime mode rendering'') [] (\<lambda>_.
          check_step (test_render E A parse w en (ro 5) ms addDNSValues (in_namespace ''dns-runtime'') RuntimeMode
            ''get central runtime mode values'' ''central runtime mode rendering'') [] (\<lambda>(_, dataplane, runtime).
          Some (Ret ((if length dataplane > 0
              then ''dns dataplane manifests:'' @ NL @ print_manifests (ord 4) dataplane else []) @
            (if length runtime > 0
              then ''dns runtime manifests:'' @ NL @ print_manifests (ord 5) runtime else []), None))))))"

text \<open>The first two statements of \<open>main\<close>: the message of the first failure, with which the program exits.\<close>

definition main_checks ::
    "'p ext \<Rightarrow> 'w api \<Rightarrow> (string \<Rightarrow> go_error + string) \<Rightarrow> 'w \<Rightarrow> 'c engine \<Rightarrow> (nat \<Rightarrow> render_order) \<Rightarrow> embed_fs
     \<Rightarrow> (nat \<Rightarrow> manifests \<Rightarrow> manifests) \<Rightarrow> (string \<times> (string \<times> go_error) option) go option" where
  "main_checks E A parse w en ro fs ord =
     (case TestRenderManifests E A parse w en ro fs ord of
        None \<Rightarrow> None
      | Some Panic \<Rightarrow> Some Panic
      | Some (Ret (out, Some err)) \<Rightarrow> Some (Ret (out, Some (''problems with included manifests'', err)))
      | Some (Ret (out, None)) \<Rightarrow>
          (case TestRenderKubeDNSManifests E A parse w en ro fs ord of
             None \<Rightarrow> None
           | Some Panic \<Rightarrow> Some Panic
           | Some (Ret (out', err)) \<Rightarrow>
               Some (Ret (out @ out', map_option (Pair ''problems with included dns manifests'') err))))"

section \<open>The checks without a cluster\<close>

text \<open>In the simulation the values are complete, and no cluster is asked or changed.\<close>

definition simulated_values :: "'p ext \<Rightarrow> string \<Rightarrow> direct_options \<Rightarrow> mode \<Rightarrow> json_map" where
  "simulated_values E url opts m =
     [(''dataplane'', JMap
        [(''namespace'', JStr ''default''), (''server'', JStr url), (''name'', JStr BASE), (''label'', JStr BASE),
         (''access'', JMap (case m of
            LocalMode \<Rightarrow> [(''token'', JStr []), (''cadata'', JStr []), (''serviceaccount'', JStr BASE)]
          | RuntimeMode \<Rightarrow> [(''token'', JStr ''YWNjZXNzLXRva2Vu''), (''cadata'', JStr ''c2VydmVyLWNhLWNlcnQ='')])),
         (''zone'', JStr ''myzone'')]),
      (''runtime'', JMap
        [(''platform'', JStr ''aws''),
         (''namespace'', JStr (mode_RuntimeNamespace m E opts ''testcluster'' (''default'', ''myzone''))),
         (''secret'', JMap [(''name'', JStr (mode_RuntimeSecretName m E opts ''testcluster'' (''default'', ''myzone'')))]),
         (''name'', JStr (mode_RuntimeDeploymentName m E opts ''testcluster'' (''default'', ''myzone''))),
         (''label'', JStr (mode_RuntimeDeploymentName m E opts ''testcluster'' (''default'', ''myzone''))),
         (''replicas'', JInt 1)])]"

lemma test_context_sel:
  "cx_Id (as_context A parse w test_context) = ''testcluster''" "cx_URL (as_context A parse w test_context) = parse ''http://api.server''"
  "cx_Platform (as_context A parse w test_context) = ''aws''" "cx_Key (as_context A parse w test_context) = (''default'', ''myzone'')"
  "cx_Simulate (as_context A parse w test_context)"
  by (simp_all add: as_context_def test_context_def NewReconcileContext_def ctx_GetId_def ctx_GetAPIServerURL_def)

lemma test_Values_eq:
  "test_Values E A parse w opts m = (case parse ''http://api.server'' of
     Inl err \<Rightarrow> (w, None, Some err) | Inr url \<Rightarrow> (w, Some (simulated_values E url opts m), None))"
proof (cases "parse ''http://api.server''")
  case (Inr url)
  then show ?thesis
    by (cases m) (simp_all add: test_Values_def Values_def test_context_sel simulated_values_def Let_def access_data_def mergeValues_def BASE_def)
qed (simp add: test_Values_def Values_def test_context_sel)

lemma test_render_eq:
  assumes "parse ''http://api.server'' = Inr url"
  shows "test_render E A parse w en ro ms add opts m wv wr =
    (case add (Some (simulated_values E url opts m)) of
       None \<Rightarrow> Some Panic
     | Some values \<Rightarrow>
         map_option (\<lambda>r. go_bind r (\<lambda>r. Ret (case r of
             Inl err \<Rightarrow> Inl (wrap wr err) | Inr (dataplane, runtime) \<Rightarrow> Inr (values, dataplane, runtime))))
           (Render en ro ms values))"
  by (simp add: test_render_def test_Values_eq assms)

text \<open>A rendering that succeeds.\<close>

definition renders :: "'c engine \<Rightarrow> render_order \<Rightarrow> manifests \<Rightarrow> json_map option \<Rightarrow> bool" where
  "renders en ro ms values \<longleftrightarrow> (\<exists>r. Render en ro ms values = Some (Ret (Inr r)))"

lemma check_step_ok:
  "check_step r out f = Some (Ret (out', None)) \<longleftrightarrow> (\<exists>x. r = Some (Ret (Inr x)) \<and> f x = Some (Ret (out', None)))"
  by (auto simp: check_step_def split: option.splits go.splits sum.splits)

lemma test_render_ok:
  assumes "parse ''http://api.server'' = Inr url" "add (Some (simulated_values E url opts m)) = Some values"
  shows "(\<exists>x. test_render E A parse w en ro ms add opts m wv wr = Some (Ret (Inr x))) \<longleftrightarrow> renders en ro ms values"
proof (cases "Render en ro ms values")
  case None
  then show ?thesis by (simp add: test_render_eq [where parse = parse, OF assms(1)] assms(2) renders_def)
next
  case (Some g)
  then show ?thesis
    unfolding test_render_eq [where parse = parse, OF assms(1)] assms(2) renders_def
    by (cases g rule: go.exhaust) (auto split: sum.splits)
qed

lemma check_step_ex:
  assumes "\<And>x. (\<exists>out. f x = Some (Ret (out, None))) \<longleftrightarrow> P"
  shows "(\<exists>out. check_step r o' f = Some (Ret (out, None))) \<longleftrightarrow> (\<exists>x. r = Some (Ret (Inr x))) \<and> P"
  unfolding check_step_ok using assms by blast

definition with_dns :: "json_map \<Rightarrow> json_map" where
  "with_dns v = the (the (addDNSValues (Some v)))"

lemma addDNSValues_Some: "addDNSValues (Some v) = Some (Some (with_dns v))"
  by (simp add: with_dns_def addDNSValues_def)

text \<open>The three deployments of the checks.\<close>

definition test_modes :: "(nat \<times> direct_options \<times> mode) list" where
  "test_modes = [(0, NewOptions, LocalMode), (1, in_namespace [], RuntimeMode), (2, in_namespace ''dns-runtime'', RuntimeMode)]"

lemma TestRenderManifests_ok:
  assumes p: "parse ''http://api.server'' = Inr url"
  shows "(\<exists>out. TestRenderManifests E A parse w en ro fs ord = Some (Ret (out, None))) \<longleftrightarrow>
    (\<exists>ms. GetManifests fs = Inr ms \<and>
      (\<forall>(i, opts, m) \<in> set test_modes. renders en (ro i) ms (Some (simulated_values E url opts m))))"
proof (cases "GetManifests fs")
  case (Inr ms)
  note ok = test_render_ok [where parse = parse and add = Some, OF p refl]
  have "(\<exists>out. TestRenderManifests E A parse w en ro fs ord = Some (Ret (out, None))) \<longleftrightarrow>
    (\<exists>x. test_render E A parse w en (ro 0) ms Some NewOptions LocalMode ''get local mode values'' ''local mode rendering'' = Some (Ret (Inr x))) \<and>
    (\<exists>x. test_render E A parse w en (ro 1) ms Some (in_namespace []) RuntimeMode ''get runtime mode values'' ''runtime mode rendering'' = Some (Ret (Inr x))) \<and>
    (\<exists>x. test_render E A parse w en (ro 2) ms Some (in_namespace ''dns-runtime'') RuntimeMode
       ''get central runtime mode values'' ''cenbtral runtime mode rendering'' = Some (Ret (Inr x))) \<and> True"
    unfolding TestRenderManifests_def Inr sum.case Let_def split_def by (intro check_step_ex) blast
  then show ?thesis unfolding ok by (simp add: Inr test_modes_def)
qed (simp add: TestRenderManifests_def)

lemma TestRenderKubeDNSManifests_ok:
  assumes p: "parse ''http://api.server'' = Inr url"
  shows "(\<exists>out. TestRenderKubeDNSManifests E A parse w en ro fs ord = Some (Ret (out, None))) \<longleftrightarrow>
    (\<exists>ms. GetKubeDNSManifests fs = Inr ms \<and>
      (\<forall>(i, opts, m) \<in> set test_modes. renders en (ro (3 + i)) ms (Some (with_dns (simulated_values E url opts m)))))"
proof (cases "GetKubeDNSManifests fs")
  case (Inr ms)
  note ok = test_render_ok [where parse = parse and add = addDNSValues, OF p addDNSValues_Some]
  have "(\<exists>out. TestRenderKubeDNSManifests E A parse w en ro fs ord = Some (Ret (out, None))) \<longleftrightarrow>
    (\<exists>x. test_render E A parse w en (ro 3) ms addDNSValues NewOptions LocalMode ''get local mode values'' ''local mode rendering'' = Some (Ret (Inr x))) \<and>
    (\<exists>x. test_render E A parse w en (ro 4) ms addDNSValues (in_namespace []) RuntimeMode ''get runtime mode values'' ''runtime mode rendering'' = Some (Ret (Inr x))) \<and>
    (\<exists>x. test_render E A parse w en (ro 5) ms addDNSValues (in_namespace ''dns-runtime'') RuntimeMode
       ''get central runtime mode values'' ''central runtime mode rendering'' = Some (Ret (Inr x))) \<and> True"
    unfolding TestRenderKubeDNSManifests_def Inr sum.case split_def by (intro check_step_ex) blast
  then show ?thesis unfolding ok by (simp add: Inr test_modes_def)
qed (simp add: TestRenderKubeDNSManifests_def)

lemma main_checks_ok:
  "(\<exists>out. main_checks E A parse w en ro fs ord = Some (Ret (out, None))) \<longleftrightarrow>
     (\<exists>out. TestRenderManifests E A parse w en ro fs ord = Some (Ret (out, None))) \<and>
     (\<exists>out. TestRenderKubeDNSManifests E A parse w en ro fs ord = Some (Ret (out, None)))"
  by (auto simp: main_checks_def split: option.splits go.splits prod.splits)

lemma test_render_cluster: "test_render E A parse w = test_render E A' parse w'"
  by (intro ext) (simp add: test_render_def test_Values_eq split: sum.split)

lemma main_checks_cluster: "main_checks E A parse w en ro fs ord = main_checks E A' parse w' en ro fs ord"
  unfolding main_checks_def TestRenderManifests_def TestRenderKubeDNSManifests_def test_render_cluster [of E A parse w A' w'] ..

section \<open>Properties\<close>

text \<open>C37: the program starts only with manifests that render: its checks pass exactly if both sets of
  embedded manifests can be read and every set is rendered without error or panic for the
  simulated values of the local mode, the runtime mode and the runtime mode with one namespace
  (with the test values for the name server in the second set); and they ask no cluster.\<close>

theorem startup_checks:
  assumes "parse ''http://api.server'' = Inr url"
  shows "((\<exists>out. main_checks E A parse w en ro fs ord = Some (Ret (out, None))) \<longleftrightarrow>
      (\<exists>ms dms. GetManifests fs = Inr ms \<and> GetKubeDNSManifests fs = Inr dms \<and>
        (\<forall>(i, opts, m) \<in> set test_modes. renders en (ro i) ms (Some (simulated_values E url opts m)) \<and>
           renders en (ro (3 + i)) dms (Some (with_dns (simulated_values E url opts m)))))) \<and>
    main_checks E A parse w en ro fs ord = main_checks E A' parse w' en ro fs ord"
proof
  show "(\<exists>out. main_checks E A parse w en ro fs ord = Some (Ret (out, None))) \<longleftrightarrow>
      (\<exists>ms dms. GetManifests fs = Inr ms \<and> GetKubeDNSManifests fs = Inr dms \<and>
        (\<forall>(i, opts, m) \<in> set test_modes. renders en (ro i) ms (Some (simulated_values E url opts m)) \<and>
           renders en (ro (3 + i)) dms (Some (with_dns (simulated_values E url opts m)))))"
    unfolding main_checks_ok TestRenderManifests_ok [where parse = parse, OF assms]
      TestRenderKubeDNSManifests_ok [where parse = parse, OF assms]
    by (simp add: split_def ball_conj_distrib) blast
qed (rule main_checks_cluster)

theorem startup_checks_witness:
  "(\<exists>out. main_checks ref_ext ref_api Inr running_store test_engine (\<lambda>_. id_orders) test_fs (\<lambda>_ ms. ms) = Some (Ret (out, None))) \<and>
   main_checks ref_ext ref_api Inr running_store test_engine (\<lambda>_. id_orders) (test_fs\<lparr>fs_ReadFile := \<lambda>_. Inl (Errorf ''no file'')\<rparr>) (\<lambda>_ ms. ms)
     = Some (Ret ([], Some (''problems with included manifests'', Errorf ''no file'')))"
proof
  have m: "GetManifests test_fs = Inr [(''entry.yaml'', ''entry'')]" "GetKubeDNSManifests test_fs = Inr [(''entry.yaml'', ''entry'')]"
    by code_simp+
  have "Render test_engine id_orders [(''entry.yaml'', ''entry'')] v = Some (Ret (Inr ([], [(''entry.yaml'', ''entry'')])))" for v
    by code_simp
  then have r: "renders test_engine id_orders [(''entry.yaml'', ''entry'')] v" for v by (simp add: renders_def)
  show "\<exists>out. main_checks ref_ext ref_api Inr running_store test_engine (\<lambda>_. id_orders) test_fs (\<lambda>_ ms. ms) = Some (Ret (out, None))"
    using startup_checks [where parse = Inr and url = "''http://api.server''" and E = ref_ext and A = ref_api and w = running_store
      and en = test_engine and ro = "\<lambda>_. id_orders" and fs = test_fs and ord = "\<lambda>_ ms. ms" and A' = ref_api and w' = running_store]
    by (simp add: m r split_def)
  show "main_checks ref_ext ref_api Inr running_store test_engine (\<lambda>_. id_orders) (test_fs\<lparr>fs_ReadFile := \<lambda>_. Inl (Errorf ''no file'')\<rparr>) (\<lambda>_ ms. ms)
     = Some (Ret ([], Some (''problems with included manifests'', Errorf ''no file'')))"
    by code_simp
qed

end
