(* ===== verification/Direct_Factory.thy ===== *)
theory Direct_Factory
  imports Direct_SelfCheck Replication
begin

text \<open>
  The creation of the reconcilers of the data plane (internal/controller/direct/hostedzone/factory.go
  and internal/controller/direct/entry/reconciler.go), from validated options and what the
  controller manager provides, and when the finalizers of several controllers differ.
\<close>

section \<open>Creation\<close>

text \<open>
  What the manager provides for a controller: its field manager, the two indices or the error
  of their lookup, and whether the runtime cluster is the data plane's.
\<close>

record controller =
  co_FieldManager :: string
  co_ParentIndex :: "go_error + (string \<Rightarrow> string \<Rightarrow> go_error + hosted_zone list)"
  co_EntryIndex :: "go_error + (string \<Rightarrow> string \<Rightarrow> go_error + coredns_entry list)"
  co_SameCluster :: bool

text \<open>The handler is the one the validation of the options has put into them.\<close>

definition CreateReconciler ::
    "embed_fs \<Rightarrow> controller \<Rightarrow> direct_options \<Rightarrow> dns_handler \<Rightarrow> go_error + reconciler \<times> direct_indices" where
  "CreateReconciler fs c opts h =
     (case NewReconciler (co_ParentIndex c) (co_EntryIndex c) of
        Inl err \<Rightarrow> Inl err
      | Inr base \<Rightarrow>
          (case GetManifests fs of
             Inl err \<Rightarrow> Inl err
           | Inr m \<Rightarrow>
               (case choose_mode opts (co_SameCluster c) of
                  Inl err \<Rightarrow> Inl err
                | Inr mode \<Rightarrow>
                    Inr (\<lparr>rc_Options = opts, rc_Handler = h, rc_Mode = mode,
                          rc_Finalizer = field_manager (co_FieldManager c) opts, rc_Manifests = m, rc_Files = fs\<rparr>, base))))"

text \<open>
  The controller for entries takes the options of the one for zones; \<open>zones\<close> is its definition's
  factory, and \<open>None\<close> if it is not defined, when the conversion panics.
\<close>

definition entry_CreateReconciler :: "controller \<Rightarrow> direct_options option \<Rightarrow> (go_error + direct_options \<times> direct_indices) go" where
  "entry_CreateReconciler c zones =
     (case NewReconciler (co_ParentIndex c) (co_EntryIndex c) of
        Inl err \<Rightarrow> Ret (Inl err)
      | Inr base \<Rightarrow> (case zones of None \<Rightarrow> Panic | Some opts \<Rightarrow> Ret (Inr (opts, base))))"

text \<open>The creation does not fail for the mode: the validation accepts the mode that was chosen.\<close>

lemma CreateReconciler_Inr:
  "CreateReconciler fs c opts h = Inr (rc, base) \<longleftrightarrow>
     co_ParentIndex c = Inr (di_ParentIndex base) \<and> co_EntryIndex c = Inr (di_EntryIndex base) \<and>
     GetManifests fs = Inr (rc_Manifests rc) \<and> rc_Options rc = opts \<and> rc_Handler rc = h \<and> rc_Files rc = fs \<and>
     rc_Mode rc = (if IsSeparateRuntime opts (co_SameCluster c) then RuntimeMode else LocalMode) \<and>
     rc_Finalizer rc = field_manager (co_FieldManager c) opts"
  by (cases rc, cases base)
    (auto simp: CreateReconciler_def NewReconciler_def choose_mode_def IsSeparateRuntime_def split: sum.splits)

section \<open>Finalizers\<close>

text \<open>The finalizer is the name of the controller with class and runtime appended, if not empty.\<close>

definition suffix_of :: "string \<Rightarrow> string \<Rightarrow> string" where
  "suffix_of c r = (if c = [] then [] else ''-'' @ c) @ (if r = [] then [] else ''--'' @ r)"

lemma field_manager_eq:
  "field_manager base opts = base @ suffix_of (hz_String (do_Class opts) []) (hz_String (do_Runtime opts) [])"
  by (simp add: field_manager_def suffix_of_def hz_String_def split: option.splits)

text \<open>A class the separator cannot be mixed up with: no dash at the ends and no two in a row.\<close>

fun single_dashes :: "string \<Rightarrow> bool" where
  "single_dashes (a # b # s) \<longleftrightarrow> \<not> (a = CHR ''-'' \<and> b = CHR ''-'') \<and> single_dashes (b # s)"
| "single_dashes _ = True"

definition plain_class :: "string \<Rightarrow> bool" where
  "plain_class c \<longleftrightarrow> c = [] \<or> single_dashes (''-'' @ c @ ''-'')"

lemma single_dashes_append: "single_dashes (p @ q) \<Longrightarrow> single_dashes p \<and> single_dashes q"
  by (induction p rule: single_dashes.induct) (auto simp: neq_Nil_conv split: list.splits elim: single_dashes.elims)

lemma no_double_dash: "\<not> single_dashes (p @ ''--'' @ q)"
  using single_dashes_append [of p "''--'' @ q"] by auto

text \<open>What follows the class begins at the first place with two dashes.\<close>

definition tail :: "string \<Rightarrow> bool" where
  "tail u \<longleftrightarrow> u = [] \<or> (\<exists>r. u = ''--'' @ r)"

lemma tail_prefix: "tail (us @ u) \<Longrightarrow> us \<noteq> [] \<Longrightarrow> us = ''-'' \<or> (\<exists>q. us = ''--'' @ q)"
  by (cases us; cases "tl us") (auto simp: tail_def)

lemma dashes_split:
  assumes c: "single_dashes (d @ us @ ''-'')" and "tail (us @ u)"
  shows "us = []"
proof (rule ccontr)
  assume "us \<noteq> []"
  with tail_prefix [OF assms(2)] consider "us = ''-''" | q where "us = ''--'' @ q" by blast
  then show False
  proof cases
    case 1 with c no_double_dash [of d "[]"] show False by simp
  next
    case 2 with c no_double_dash [of d "q @ ''-''"] show False by simp
  qed
qed

lemma class_split:
  assumes "single_dashes (c @ ''-'')" "single_dashes (d @ ''-'')" "tail u" "tail v" "c @ u = d @ v"
  shows "c = d \<and> u = v"
proof -
  from assms(5) obtain us where "c = d @ us \<and> us @ u = v \<or> c @ us = d \<and> u = us @ v"
    unfolding append_eq_append_conv2 by blast
  then show ?thesis
  proof (elim disjE conjE)
    assume a: "c = d @ us" "us @ u = v"
    have "us = []" by (rule dashes_split [of d us u]) (use a assms(1,4) in simp_all)
    with a show ?thesis by simp
  next
    assume a: "c @ us = d" "u = us @ v"
    have "us = []" by (rule dashes_split [of c us v]) (use a assms(2,3) in auto)
    with a show ?thesis by simp
  qed
qed

lemma suffix_injective:
  assumes "plain_class c" "plain_class d" "suffix_of c r = suffix_of d q"
  shows "c = d \<and> r = q"
proof -
  have cs: "c = [] \<or> (c \<noteq> [] \<and> hd c \<noteq> CHR ''-'' \<and> single_dashes (c @ ''-''))" if "plain_class c" for c
    using that by (cases c) (auto simp: plain_class_def)
  have t: "tail (if r = [] then [] else ''--'' @ r)" for r by (auto simp: tail_def)
  show ?thesis
  proof (cases "c = [] \<or> d = []")
    case True
    with assms(3) cs [OF assms(1)] cs [OF assms(2)] show ?thesis
      by (cases c; cases d) (auto simp: suffix_of_def split: if_splits)
  next
    case False
    with assms(3) have "c @ (if r = [] then [] else ''--'' @ r) = d @ (if q = [] then [] else ''--'' @ q)"
      by (simp add: suffix_of_def)
    from class_split [OF _ _ t t this] cs [OF assms(1)] cs [OF assms(2)] False show ?thesis
      by (auto split: if_splits)
  qed
qed

text \<open>With two dashes in a class a controller has the finalizer of another one.\<close>

lemma field_manager_shared:
  assumes "c \<noteq> []" "r \<noteq> []"
  shows "field_manager base (opts\<lparr>do_Class := Some (c @ ''--'' @ r), do_Runtime := None\<rparr>) =
    field_manager base (opts\<lparr>do_Class := Some c, do_Runtime := Some r\<rparr>)"
  using assms by (simp add: field_manager_def)

text \<open>
  The replication separates class and runtime by a dot, and both from the name: a replicator for
  a class has the finalizer of the one for the runtime of that name.
\<close>

lemma ModifyFinalizer_shared:
  "ModifyFinalizer (opts\<lparr>ro_Class := Some x, ro_Runtime := None\<rparr>) f = ModifyFinalizer (opts\<lparr>ro_Class := None, ro_Runtime := Some x\<rparr>) f"
  by (simp add: ModifyFinalizer_def)

text \<open>
  The identities for the leader election of different controllers can coincide, and those of
  controllers of the same configuration can differ (an empty class and none).
\<close>

lemma Configure_shared:
  assumes "c \<noteq> []" "r \<noteq> []"
  shows "options_Configure (opts\<lparr>do_Class := Some (c @ ''-'' @ r), do_Runtime := None\<rparr>) i =
    options_Configure (opts\<lparr>do_Class := Some c, do_Runtime := Some r\<rparr>) i"
  using assms by (simp add: options_Configure_def)

lemma Configure_empty_class:
  "options_Configure (opts\<lparr>do_Class := Some [], do_Runtime := None\<rparr>) i \<noteq> options_Configure (opts\<lparr>do_Class := None, do_Runtime := None\<rparr>) i"
  "options_Configure (opts\<lparr>do_Class := Some [], do_Runtime := None\<rparr>) i =
    options_Configure (opts\<lparr>do_Class := Some ''default'', do_Runtime := None\<rparr>) i"
  by (simp_all add: options_Configure_def)

section \<open>The controllers of one program\<close>

text \<open>An environment whose reconciler was created for controllers of one name.\<close>

definition created :: "string \<Rightarrow> ('p, 'w, 'c) env \<Rightarrow> bool" where
  "created base V \<longleftrightarrow> (\<exists>fs c opts h idx. co_FieldManager c = base \<and> CreateReconciler fs c opts h = Inr (ev_rc V, idx))"

lemma created_fin: "created base V \<Longrightarrow> fin_of V = base @ suffix_of (ob_Class (config V)) (ob_Runtime (config V))"
  by (auto simp: created_def CreateReconciler_Inr fin_of_def config_def field_manager_eq)

lemma created_separate:
  assumes "\<And>V. V \<in> Vs \<Longrightarrow> finalizer_laws (ev_E V) \<and> created base V \<and> plain_class (ob_Class (config V))"
  shows "separate Vs"
  unfolding separate_def
proof (intro conjI ballI impI)
  fix V V' assume V: "V \<in> Vs" "V' \<in> Vs" "fin_of V = fin_of V'"
  then have "suffix_of (ob_Class (config V)) (ob_Runtime (config V)) = suffix_of (ob_Class (config V')) (ob_Runtime (config V'))"
    using assms created_fin by (metis append_same_eq same_append_eq)
  with suffix_injective assms V show "config V = config V'" by (metis observed.equality unit.exhaust)
qed (use assms in blast)

section \<open>Properties\<close>

text \<open>C14: the controllers of the data plane that the factory creates keep their zones apart: among
  controllers created under one name, with classes without a dash at the ends or two in a row,
  two have the same finalizer exactly if they have the same class and runtime; so a zone
  registered for one configuration never gets the finalizer of another, whatever happens to it.\<close>

theorem created_controllers_apart:
  assumes "\<forall>V \<in> Vs. finalizer_laws (ev_E V) \<and> created base V \<and> plain_class (ob_Class (config V))"
  shows "(\<forall>V \<in> Vs. \<forall>V' \<in> Vs. fin_of V = fin_of V' \<longleftrightarrow> config V = config V') \<and>
    (\<forall>key s t ob. zone_run Vs key s t \<longrightarrow> kept_by Vs ob (snd s) \<longrightarrow> kept_by Vs ob (snd t))"
proof (intro conjI allI impI)
  have s: "separate Vs" using assms created_separate by blast
  show "\<forall>V \<in> Vs. \<forall>V' \<in> Vs. fin_of V = fin_of V' \<longleftrightarrow> config V = config V'"
    using assms created_fin separate_config [OF s] by metis
  show "kept_by Vs ob (snd t)" if "zone_run Vs key s t" "kept_by Vs ob (snd s)" for key s t ob
    by (rule zone_run_kept [OF s that])
qed

text \<open>The controllers of two classes, and a zone registered for the first of them.\<close>

definition factory_env :: "string \<Rightarrow> (ref_problem, store, unit) env" where
  "factory_env c = (test_env DnsLoadbalancer)\<lparr>ev_rc := \<lparr>rc_Options = NewOptions\<lparr>do_Class := Some c\<rparr>, rc_Handler = DnsLoadbalancer,
     rc_Mode = LocalMode, rc_Finalizer = field_manager ''kubedns'' (NewOptions\<lparr>do_Class := Some c\<rparr>),
     rc_Manifests = [(''entry.yaml'', ''entry'')], rc_Files = test_fs\<rparr>\<rparr>"

lemma factory_env_created: "created ''kubedns'' (factory_env c)"
proof -
  have "GetManifests test_fs = Inr [(''entry.yaml'', ''entry'')]" "do_RuntimeNamespace NewOptions = []" by code_simp+
  then have "CreateReconciler test_fs \<lparr>co_FieldManager = ''kubedns'', co_ParentIndex = Inr (\<lambda>_ _. Inr []), co_EntryIndex = Inr (\<lambda>_ _. Inr []),
      co_SameCluster = True\<rparr> (NewOptions\<lparr>do_Class := Some c\<rparr>) DnsLoadbalancer =
    Inr (ev_rc (factory_env c), \<lparr>di_ParentIndex = \<lambda>_ _. Inr [], di_EntryIndex = \<lambda>_ _. Inr []\<rparr>)"
    unfolding CreateReconciler_Inr by (simp add: factory_env_def IsSeparateRuntime_def)
  then show ?thesis unfolding created_def by (intro exI conjI [rotated]) auto
qed

theorem created_controllers_apart_witness:
  "fin_of (factory_env ''a'') \<noteq> fin_of (factory_env ''b'') \<and>
   kept_by {factory_env ''a'', factory_env ''b''} \<lparr>ob_Class = ''a'', ob_Runtime = []\<rparr> (zone_with (Some ''b'') registered_a [])"
proof -
  let ?Vs = "{factory_env ''a'', factory_env ''b''}" and ?z = "zone_with (Some ''a'') registered_a []"
  have c: "config (factory_env c) = \<lparr>ob_Class = c, ob_Runtime = []\<rparr>" for c
    by (simp add: config_def factory_env_def hz_String_def NewOptions_def)
  have p: "plain_class ''a''" "plain_class ''b''" by code_simp+
  have l: "finalizer_laws (ev_E (factory_env c))" for c
    using ref_finalizer_laws by (simp add: factory_env_def test_env_def)
  have a: "\<forall>V \<in> ?Vs. finalizer_laws (ev_E V) \<and> created ''kubedns'' V \<and> plain_class (ob_Class (config V))"
    using l factory_env_created p by (simp add: c)
  note apart = created_controllers_apart [OF a]
  have e: "?z\<lparr>z_Spec := z_Spec (zone_with (Some ''b'') registered_a []), z_Meta := (z_Meta ?z)\<lparr>om_Generation := om_Generation (z_Meta ?z),
      om_DeletionTimestamp := om_DeletionTimestamp (z_Meta ?z)\<rparr>\<rparr> = zone_with (Some ''b'') registered_a []"
    by (simp add: zone_with_def)
  have run: "zone_run ?Vs key_a (running_store, ?z) (running_store, zone_with (Some ''b'') registered_a [])"
    by (rule zone_run.step [OF zone_run.start]) (use zone_step.user [of ?Vs key_a running_store ?z running_store] e in metis)
  have "kept_by ?Vs \<lparr>ob_Class = ''a'', ob_Runtime = []\<rparr> ?z"
    by (simp add: kept_by_def zone_with_def registered_a_def finalizers_def)
  with run apart have "kept_by ?Vs \<lparr>ob_Class = ''a'', ob_Runtime = []\<rparr> (zone_with (Some ''b'') registered_a [])" by (metis snd_conv)
  moreover have "fin_of (factory_env ''a'') \<noteq> fin_of (factory_env ''b'')" using apart by (simp add: c)
  ultimately show ?thesis by simp
qed

end
