(* ===== verification/Go_Memory.thy ===== *)
theory Go_Memory
  imports API_Types
begin

text \<open>
  Memory with pointers and slices, and what it means to copy a value in it: the copy denotes the
  same value, in memory of its own. The interface \<open>copyable\<close> states that contract; values
  without pointers, pointers, slices and structs have it if their parts have it.
\<close>

section \<open>Memory\<close>

record 'cell mem =
  mm_Next :: nat
  mm_Cell :: "nat \<Rightarrow> 'cell option"

definition alloc :: "'cell \<Rightarrow> 'cell mem \<Rightarrow> nat \<times> 'cell mem" where
  "alloc c m = (mm_Next m, m\<lparr>mm_Next := mm_Next m + 1, mm_Cell := (mm_Cell m)(mm_Next m \<mapsto> c)\<rparr>)"

definition put_cell :: "nat \<Rightarrow> 'cell \<Rightarrow> 'cell mem \<Rightarrow> 'cell mem" where
  "put_cell a c m = m\<lparr>mm_Cell := (mm_Cell m)(a \<mapsto> c)\<rparr>"

text \<open>A kind of cells: those that hold a value of one type.\<close>

record ('cell, 'e) kind =
  kd_In :: "'e \<Rightarrow> 'cell"
  kd_Out :: "'cell \<Rightarrow> 'e option"

definition kind_law :: "('cell, 'e) kind \<Rightarrow> bool" where
  "kind_law K \<longleftrightarrow> (\<forall>x. kd_Out K (kd_In K x) = Some x)"

definition load :: "('cell, 'e) kind \<Rightarrow> 'cell mem \<Rightarrow> nat \<Rightarrow> 'e option" where
  "load K m a = Option.bind (mm_Cell m a) (kd_Out K)"

text \<open>Nothing lies above the cells handed out; a later memory keeps what an earlier one has.\<close>

definition sane :: "'cell mem \<Rightarrow> bool" where
  "sane m \<longleftrightarrow> (\<forall>a \<ge> mm_Next m. mm_Cell m a = None)"

definition grows :: "'cell mem \<Rightarrow> 'cell mem \<Rightarrow> bool" where
  "grows m m' \<longleftrightarrow> mm_Next m \<le> mm_Next m' \<and> (\<forall>a < mm_Next m. mm_Cell m' a = mm_Cell m a)"

lemma grows_refl [simp]: "grows m m"
  by (simp add: grows_def)

lemma grows_trans: "grows m m' \<Longrightarrow> grows m' m'' \<Longrightarrow> grows m m''"
  by (auto simp: grows_def)

lemma sane_load: "sane m \<Longrightarrow> load K m a = Some x \<Longrightarrow> a < mm_Next m"
  by (cases "a < mm_Next m") (auto simp: sane_def load_def)

lemma alloc_facts:
  assumes "alloc c m = (a, m')"
  shows "a = mm_Next m" "mm_Next m' = mm_Next m + 1" "mm_Cell m' = (mm_Cell m)(a \<mapsto> c)" "grows m m'" "sane m \<Longrightarrow> sane m'"
  using assms by (auto simp: alloc_def grows_def sane_def)

lemma put_sel [simp]: "mm_Next (put_cell a c m) = mm_Next m" "mm_Cell (put_cell a c m) = (mm_Cell m)(a \<mapsto> c)"
  by (simp_all add: put_cell_def)

lemma load_put: "load K (put_cell a c m) b = (if b = a then kd_Out K c else load K m b)"
  by (simp add: load_def)

lemma sane_put: "sane m \<Longrightarrow> a < mm_Next m \<Longrightarrow> sane (put_cell a c m)"
  by (auto simp: sane_def)

lemma grows_put: "grows m m' \<Longrightarrow> mm_Next m \<le> a \<Longrightarrow> grows m (put_cell a c m')"
  by (auto simp: grows_def)

lemma grows_load: "grows m m' \<Longrightarrow> a < mm_Next m \<Longrightarrow> load K m' a = load K m a"
  by (simp add: grows_def load_def)

section \<open>The contract of a copy\<close>

text \<open>
  \<open>rd\<close> is the value an object denotes (if its pointers lead to cells of the right kind), \<open>reach\<close>
  the cells it is read from, \<open>cp\<close> the copy.
\<close>

locale copyable =
  fixes rd :: "'cell mem \<Rightarrow> 'x \<Rightarrow> 'v option"
    and reach :: "'cell mem \<Rightarrow> 'x \<Rightarrow> nat set"
    and cp :: "'x \<Rightarrow> 'cell mem \<Rightarrow> 'x \<times> 'cell mem"
  assumes local_reads: "\<forall>a \<in> reach m x. mm_Cell m' a = mm_Cell m a \<Longrightarrow> rd m' x = rd m x \<and> reach m' x = reach m x"
    and reach_below: "sane m \<Longrightarrow> rd m x = Some v \<Longrightarrow> a \<in> reach m x \<Longrightarrow> a < mm_Next m"
    and copy_memory: "sane m \<Longrightarrow> rd m x = Some v \<Longrightarrow> cp x m = (y, m') \<Longrightarrow> sane m' \<and> grows m m'"
    and copy_value: "sane m \<Longrightarrow> rd m x = Some v \<Longrightarrow> cp x m = (y, m') \<Longrightarrow> rd m' y = Some v"
    and copy_fresh: "sane m \<Longrightarrow> rd m x = Some v \<Longrightarrow> cp x m = (y, m') \<Longrightarrow> a \<in> reach m' y \<Longrightarrow> mm_Next m \<le> a"
begin

lemma keeps:
  assumes "sane m" "rd m x = Some v" "grows m m'"
  shows "rd m' x = Some v" "reach m' x = reach m x"
  using local_reads [of m x m'] reach_below [OF assms(1,2)] assms(2,3) by (auto simp: grows_def)

lemma keeps_put:
  assumes "a \<notin> reach m x"
  shows "rd (put_cell a c m) x = rd m x" "reach (put_cell a c m) x = reach m x"
proof -
  have "\<forall>b \<in> reach m x. mm_Cell (put_cell a c m) b = mm_Cell m b" using assms by auto
  from local_reads [OF this] show "rd (put_cell a c m) x = rd m x" "reach (put_cell a c m) x = reach m x" by simp_all
qed

text \<open>The copy and the original are independent: what is changed through one is not seen by the other.\<close>

lemma independent:
  assumes "sane m" "rd m x = Some v" "cp x m = (y, m')"
  shows "(\<And>a. a \<notin> reach m' x \<Longrightarrow> mm_Cell m'' a = mm_Cell m' a) \<Longrightarrow> rd m'' y = Some v"
    and "(\<And>a. a \<notin> reach m' y \<Longrightarrow> mm_Cell m'' a = mm_Cell m' a) \<Longrightarrow> rd m'' x = Some v"
proof -
  note g = copy_memory [OF assms]
  note x = keeps [OF assms(1,2) conjunct2 [OF g]]
  have sep: "a \<notin> reach m' y" if "a \<in> reach m' x" for a
    using that reach_below [OF assms(1,2)] copy_fresh [OF assms] unfolding x(2) by (meson not_le)
  show "rd m'' y = Some v" if "\<And>a. a \<notin> reach m' x \<Longrightarrow> mm_Cell m'' a = mm_Cell m' a"
    using local_reads [of m' y m''] that sep copy_value [OF assms] by metis
  show "rd m'' x = Some v" if "\<And>a. a \<notin> reach m' y \<Longrightarrow> mm_Cell m'' a = mm_Cell m' a"
    using local_reads [of m' x m''] that sep x(1) by metis
qed

end

section \<open>Copies of composed values\<close>

text \<open>A value without pointers is copied by assignment.\<close>

abbreviation flat_reach :: "'cell mem \<Rightarrow> 'x \<Rightarrow> nat set" where
  "flat_reach m x \<equiv> {}"

abbreviation flat_read :: "'cell mem \<Rightarrow> 'x \<Rightarrow> 'x option" where
  "flat_read m x \<equiv> Some x"

lemma copyable_flat: "copyable flat_read flat_reach Pair"
  by unfold_locales auto

interpretation flat: copyable flat_read flat_reach Pair
  by (rule copyable_flat)

text \<open>A pair is copied part by part.\<close>

definition pair_read where
  "pair_read rA rB m = (\<lambda>(x, y). Option.bind (rA m x) (\<lambda>v. map_option (Pair v) (rB m y)))"

definition pair_reach :: "('m \<Rightarrow> 'x \<Rightarrow> nat set) \<Rightarrow> ('m \<Rightarrow> 'y \<Rightarrow> nat set) \<Rightarrow> 'm \<Rightarrow> 'x \<times> 'y \<Rightarrow> nat set" where
  "pair_reach rA rB m = (\<lambda>(x, y). rA m x \<union> rB m y)"

definition pair_copy where
  "pair_copy cA cB = (\<lambda>(x, y) m. let (x', m) = cA x m; (y', m) = cB y m in ((x', y'), m))"

lemma pair_read_Some: "pair_read rA rB m (x, y) = Some v \<longleftrightarrow> rA m x = Some (fst v) \<and> rB m y = Some (snd v)"
  by (cases v) (auto simp: pair_read_def split: Option.bind_splits)

lemma copyable_pair:
  assumes A: "copyable rA sA cA" and B: "copyable rB sB cB"
  shows "copyable (pair_read rA rB) (pair_reach sA sB) (pair_copy cA cB)"
proof
  fix m m' :: "'a mem" and x and v a y
  show "pair_read rA rB m' x = pair_read rA rB m x \<and> pair_reach sA sB m' x = pair_reach sA sB m x"
    if "\<forall>a \<in> pair_reach sA sB m x. mm_Cell m' a = mm_Cell m a"
    using that copyable.local_reads [OF A, of m "fst x" m'] copyable.local_reads [OF B, of m "snd x" m']
    by (cases x) (auto simp: pair_read_def pair_reach_def)
  assume m: "sane m" and r: "pair_read rA rB m x = Some v"
  from r have r: "rA m (fst x) = Some (fst v)" "rB m (snd x) = Some (snd v)" by (cases x; simp add: pair_read_Some)+
  show "a < mm_Next m" if "a \<in> pair_reach sA sB m x"
    using that copyable.reach_below [OF A m r(1)] copyable.reach_below [OF B m r(2)] by (auto simp: pair_reach_def split: prod.splits)
  assume "pair_copy cA cB x m = (y, m')"
  then obtain m1 where a: "cA (fst x) m = (fst y, m1)" and b: "cB (snd x) m1 = (snd y, m')"
    by (cases x) (auto simp: pair_copy_def Let_def split: prod.splits)
  note g1 = copyable.copy_memory [OF A m r(1) a]
  note r2 = copyable.keeps(1) [OF B m r(2) conjunct2 [OF g1]]
  note g2 = copyable.copy_memory [OF B conjunct1 [OF g1] r2 b]
  show "sane m' \<and> grows m m'" using g1 g2 grows_trans by blast
  note va = copyable.copy_value [OF A m r(1) a]
  note k = copyable.keeps [OF A conjunct1 [OF g1] va conjunct2 [OF g2]]
  show "pair_read rA rB m' y = Some v"
    using k(1) copyable.copy_value [OF B conjunct1 [OF g1] r2 b] by (cases y) (simp add: pair_read_Some)
  have "mm_Next m \<le> mm_Next m1" using g1 by (simp add: grows_def)
  then show "mm_Next m \<le> a" if "a \<in> pair_reach sA sB m' y"
    using that k(2) copyable.copy_fresh [OF A m r(1) a] copyable.copy_fresh [OF B conjunct1 [OF g1] r2 b]
    by (cases y) (fastforce simp: pair_reach_def)
qed

text \<open>A struct is copied by copying the parts with pointers into it: \<open>f\<close> selects them, \<open>g\<close> sets them.\<close>

definition struct_read where
  "struct_read f h r m x = map_option (h x) (r m (f x))"

definition struct_reach where
  "struct_reach f s m x = s m (f x)"

definition struct_copy where
  "struct_copy f g c x m = (let (t, m) = c (f x) m in (g x t, m))"

lemma copyable_struct:
  assumes C: "copyable r s c" and f: "\<And>x t. f (g x t) = t" and h: "\<And>x t v. h (g x t) v = h x v"
  shows "copyable (struct_read f h r) (struct_reach f s) (struct_copy f g c)"
proof
  fix m m' :: "'a mem" and x v a y
  show "struct_read f h r m' x = struct_read f h r m x \<and> struct_reach f s m' x = struct_reach f s m x"
    if "\<forall>a \<in> struct_reach f s m x. mm_Cell m' a = mm_Cell m a"
    using that copyable.local_reads [OF C, of m "f x" m'] by (simp add: struct_read_def struct_reach_def)
  assume m: "sane m" and "struct_read f h r m x = Some v"
  then obtain v' where v: "r m (f x) = Some v'" "v = h x v'" by (auto simp: struct_read_def)
  show "a < mm_Next m" if "a \<in> struct_reach f s m x"
    using that copyable.reach_below [OF C m v(1)] by (simp add: struct_reach_def)
  assume "struct_copy f g c x m = (y, m')"
  then obtain t where t: "c (f x) m = (t, m')" "y = g x t" by (auto simp: struct_copy_def split: prod.splits)
  show "sane m' \<and> grows m m'" by (rule copyable.copy_memory [OF C m v(1) t(1)])
  show "struct_read f h r m' y = Some v"
    using copyable.copy_value [OF C m v(1) t(1)] by (simp add: struct_read_def t(2) v(2) f h)
  show "mm_Next m \<le> a" if "a \<in> struct_reach f s m' y"
    using that copyable.copy_fresh [OF C m v(1) t(1)] by (simp add: struct_reach_def t(2) f)
qed

section \<open>Pointers\<close>

type_synonym pointer = "nat option"

text \<open>\<open>out := new(T)\<close> and the copy of what the original points to into it; nil stays nil.\<close>

definition copy_pointer :: "('cell, 'e) kind \<Rightarrow> 'e \<Rightarrow> ('e \<Rightarrow> 'cell mem \<Rightarrow> 'e \<times> 'cell mem) \<Rightarrow>
    pointer \<Rightarrow> 'cell mem \<Rightarrow> pointer \<times> 'cell mem" where
  "copy_pointer K zero cp p m =
     (case p of None \<Rightarrow> (None, m)
      | Some a \<Rightarrow>
          let (b, m) = alloc (kd_In K zero) m
          in case load K m a of None \<Rightarrow> (Some b, m)
             | Some x \<Rightarrow> (let (y, m) = cp x m in (Some b, put_cell b (kd_In K y) m)))"

definition pointer_read where
  "pointer_read K r m p = (case p of None \<Rightarrow> Some None | Some a \<Rightarrow> map_option Some (Option.bind (load K m a) (r m)))"

definition pointer_reach :: "('cell, 'e) kind \<Rightarrow> ('cell mem \<Rightarrow> 'e \<Rightarrow> nat set) \<Rightarrow> 'cell mem \<Rightarrow> pointer \<Rightarrow> nat set" where
  "pointer_reach K s m p = (case p of None \<Rightarrow> {} | Some a \<Rightarrow> insert a (case load K m a of None \<Rightarrow> {} | Some x \<Rightarrow> s m x))"

lemma load_same: "mm_Cell m' a = mm_Cell m a \<Longrightarrow> load K m' a = load K m a"
  by (simp add: load_def)

lemma pointer_local:
  assumes C: "copyable r s c" and "\<forall>a \<in> pointer_reach K s m p. mm_Cell m' a = mm_Cell m a"
  shows "pointer_read K r m' p = pointer_read K r m p \<and> pointer_reach K s m' p = pointer_reach K s m p"
proof (cases p)
  case (Some a)
  with assms(2) have l: "load K m' a = load K m a" by (intro load_same) (simp add: pointer_reach_def)
  show ?thesis
  proof (cases "load K m a")
    case (Some x)
    with assms(2) \<open>p = Some a\<close> show ?thesis
      using copyable.local_reads [OF C, of m x m'] l by (simp add: pointer_read_def pointer_reach_def)
  qed (simp add: l \<open>p = Some a\<close> pointer_read_def pointer_reach_def)
qed (simp add: pointer_read_def pointer_reach_def)

text \<open>What the new cell holds and what it reaches, after the content was copied.\<close>

lemma copy_pointer_Some:
  assumes C: "copyable r s c" and K: "kind_law K" and m: "sane m" and x: "load K m a = Some x" "r m x = Some v"
    and cp: "copy_pointer K zero c (Some a) m = (q, m')"
  shows "\<exists>y. q = Some (mm_Next m) \<and> load K m' (mm_Next m) = Some y \<and> r m' y = Some v \<and> (\<forall>a \<in> s m' y. mm_Next m < a) \<and> sane m' \<and> grows m m'"
proof -
  obtain m1 where al: "alloc (kd_In K zero) m = (mm_Next m, m1)" by (simp add: alloc_def)
  note m1 = alloc_facts [OF al]
  have x1: "load K m1 a = Some x" using grows_load [OF m1(4) sane_load [OF m x(1)]] x(1) by metis
  obtain y m2 where y: "c x m1 = (y, m2)" by (rule prod.exhaust)
  note r1 = copyable.keeps(1) [OF C m x(2) m1(4)]
  note g = copyable.copy_memory [OF C m1(5) [OF m] r1 y]
  have q: "q = Some (mm_Next m)" "m' = put_cell (mm_Next m) (kd_In K y) m2"
    using cp al x1 y by (auto simp: copy_pointer_def)
  have fresh: "\<forall>a \<in> s m2 y. mm_Next m < a"
    using copyable.copy_fresh [OF C m1(5) [OF m] r1 y] m1(2) by fastforce
  then have "mm_Next m \<notin> s m2 y" by blast
  note k = copyable.keeps_put [OF C this, of "kd_In K y"]
  have "mm_Next m < mm_Next m2" using g m1(2) by (auto simp: grows_def)
  then have "sane m'" "grows m m'"
    using g m1(4) unfolding q(2) by (auto intro: sane_put grows_put grows_trans)
  then show ?thesis
    using K fresh k copyable.copy_value [OF C m1(5) [OF m] r1 y] q by (auto simp: load_put kind_law_def)
qed

lemma copyable_pointer:
  assumes C: "copyable r s c" and K: "kind_law K"
  shows "copyable (pointer_read K r) (pointer_reach K s) (copy_pointer K zero c)"
proof
  fix m m' :: "'a mem" and p q :: pointer and v a
  show "pointer_read K r m' p = pointer_read K r m p \<and> pointer_reach K s m' p = pointer_reach K s m p"
    if "\<forall>a \<in> pointer_reach K s m p. mm_Cell m' a = mm_Cell m a" using pointer_local [OF C that] .
  assume m: "sane m" and r: "pointer_read K r m p = Some v"
  have ptr: "p = None \<and> v = None \<or> (\<exists>a x w. p = Some a \<and> load K m a = Some x \<and> r m x = Some w \<and> v = Some w)"
    using r by (auto simp: pointer_read_def bind_eq_Some_conv split: option.splits)
  then show "a < mm_Next m" if "a \<in> pointer_reach K s m p"
    using that sane_load [OF m] copyable.reach_below [OF C m] by (auto simp: pointer_reach_def)
  assume cp: "copy_pointer K zero c p m = (q, m')"
  from ptr consider "p = None" "v = None" "q = None" "m' = m"
    | y w where "v = Some w" "q = Some (mm_Next m)" "load K m' (mm_Next m) = Some y" "r m' y = Some w"
        "\<forall>a \<in> s m' y. mm_Next m < a" "sane m'" "grows m m'"
  proof (elim disjE exE conjE)
    fix b x w assume p: "p = Some b" "load K m b = Some x" "r m x = Some w" "v = Some w"
    from copy_pointer_Some [OF C K m p(2,3) cp [unfolded p(1)]] p(4) that(2) show thesis by blast
  qed (use cp that(1) in \<open>simp add: copy_pointer_def\<close>)
  then have "(sane m' \<and> grows m m') \<and> pointer_read K r m' q = Some v \<and> (\<forall>a \<in> pointer_reach K s m' q. mm_Next m \<le> a)"
  proof cases
    case 1
    with m show ?thesis by (simp add: pointer_read_def pointer_reach_def)
  next
    case 2
    then show ?thesis by (auto simp: pointer_read_def pointer_reach_def dest: less_imp_le)
  qed
  then show "sane m' \<and> grows m m'" "pointer_read K r m' q = Some v" "a \<in> pointer_reach K s m' q \<Longrightarrow> mm_Next m \<le> a"
    by auto
qed

section \<open>Slices\<close>

text \<open>A slice that is not nil: the array, the position it begins at and its length.\<close>

record slice =
  sl_Array :: nat
  sl_Offset :: nat
  sl_Length :: nat

definition elements :: "('cell, 'e list) kind \<Rightarrow> 'cell mem \<Rightarrow> slice \<Rightarrow> 'e list option" where
  "elements K m s = Option.bind (load K m (sl_Array s)) (\<lambda>xs.
     if sl_Offset s + sl_Length s \<le> length xs then Some (take (sl_Length s) (drop (sl_Offset s) xs)) else None)"

text \<open>\<open>make([]T, n)\<close>\<close>

definition make :: "('cell, 'e list) kind \<Rightarrow> 'e \<Rightarrow> nat \<Rightarrow> 'cell mem \<Rightarrow> slice \<times> 'cell mem" where
  "make K zero n m = (let (a, m) = alloc (kd_In K (replicate n zero)) m
     in (\<lparr>sl_Array = a, sl_Offset = 0, sl_Length = n\<rparr>, m))"

definition set_elements :: "('cell, 'e list) kind \<Rightarrow> slice \<Rightarrow> ('e list \<Rightarrow> 'e list) \<Rightarrow> 'cell mem \<Rightarrow> 'cell mem" where
  "set_elements K s f m = (case load K m (sl_Array s) of None \<Rightarrow> m
     | Some xs \<Rightarrow> put_cell (sl_Array s) (kd_In K (take (sl_Offset s) xs @ f (take (sl_Length s) (drop (sl_Offset s) xs)) @
         drop (sl_Offset s + sl_Length s) xs)) m)"

text \<open>\<open>(*in)[i].DeepCopyInto(&(*out)[i])\<close>\<close>

definition copy_element :: "('cell, 'e list) kind \<Rightarrow> ('e \<Rightarrow> 'cell mem \<Rightarrow> 'e \<times> 'cell mem) \<Rightarrow> slice \<Rightarrow> slice \<Rightarrow>
    'cell mem \<Rightarrow> nat \<Rightarrow> 'cell mem" where
  "copy_element K cp src dst m i =
     (case elements K m src of None \<Rightarrow> m
      | Some xs \<Rightarrow> let (y, m) = cp (xs ! i) m in set_elements K dst (\<lambda>ys. ys[i := y]) m)"

definition copy_slice :: "('cell, 'e list) kind \<Rightarrow> 'e \<Rightarrow> ('e \<Rightarrow> 'cell mem \<Rightarrow> 'e \<times> 'cell mem) \<Rightarrow>
    slice option \<Rightarrow> 'cell mem \<Rightarrow> slice option \<times> 'cell mem" where
  "copy_slice K zero cp p m =
     (case p of None \<Rightarrow> (None, m)
      | Some src \<Rightarrow>
          let (dst, m) = make K zero (sl_Length src) m
          in (Some dst, foldl (copy_element K cp src dst) m [0..<sl_Length src]))"

text \<open>The built-in \<open>copy\<close>, for elements without pointers.\<close>

definition go_copy :: "'e list \<Rightarrow> 'e list \<Rightarrow> 'e list" where
  "go_copy src dst = take (length dst) src @ drop (length src) dst"

definition copy_flat_slice :: "('cell, 'e list) kind \<Rightarrow> 'e \<Rightarrow> slice option \<Rightarrow> 'cell mem \<Rightarrow> slice option \<times> 'cell mem" where
  "copy_flat_slice K zero p m =
     (case p of None \<Rightarrow> (None, m)
      | Some src \<Rightarrow>
          let (dst, m) = make K zero (sl_Length src) m
          in (Some dst, case elements K m src of None \<Rightarrow> m | Some xs \<Rightarrow> set_elements K dst (go_copy xs) m))"

text \<open>A nil slice denotes the empty list, as an empty slice does.\<close>

definition slice_read where
  "slice_read K r m p = (case p of None \<Rightarrow> Some [] | Some sl \<Rightarrow> Option.bind (elements K m sl) (\<lambda>xs. those (map (r m) xs)))"

definition slice_reach :: "('cell, 'e list) kind \<Rightarrow> ('cell mem \<Rightarrow> 'e \<Rightarrow> nat set) \<Rightarrow> 'cell mem \<Rightarrow> slice option \<Rightarrow> nat set" where
  "slice_reach K s m p = (case p of None \<Rightarrow> {}
     | Some sl \<Rightarrow> insert (sl_Array sl) (case elements K m sl of None \<Rightarrow> {} | Some xs \<Rightarrow> \<Union> (s m ` set xs)))"

lemma those_Some: "those os = Some vs \<longleftrightarrow> os = map Some vs"
  by (induction os arbitrary: vs) (auto split: option.splits)

lemma elements_same: "mm_Cell m' (sl_Array s) = mm_Cell m (sl_Array s) \<Longrightarrow> elements K m' s = elements K m s"
  by (simp add: elements_def load_def)

lemma elements_Some: "elements K m s = Some xs \<Longrightarrow> (\<exists>ys. load K m (sl_Array s) = Some ys) \<and> length xs = sl_Length s"
  by (auto simp: elements_def bind_eq_Some_conv split: if_splits)

lemma elements_below: "sane m \<Longrightarrow> elements K m s = Some xs \<Longrightarrow> sl_Array s < mm_Next m"
  using elements_Some sane_load by metis

lemma elements_grows: "sane m \<Longrightarrow> elements K m s = Some xs \<Longrightarrow> grows m m' \<Longrightarrow> elements K m' s = Some xs"
  using elements_below [of m K s xs] elements_same [of m' s m K] by (simp add: grows_def)

lemma slice_local:
  assumes C: "copyable r s c" and same: "\<forall>a \<in> slice_reach K s m p. mm_Cell m' a = mm_Cell m a"
  shows "slice_read K r m' p = slice_read K r m p \<and> slice_reach K s m' p = slice_reach K s m p"
proof (cases p)
  case (Some sl)
  with same have l: "elements K m' sl = elements K m sl" by (intro elements_same) (simp add: slice_reach_def)
  show ?thesis
  proof (cases "elements K m sl")
    case (Some xs)
    have "r m' x = r m x \<and> s m' x = s m x" if "x \<in> set xs" for x
      using same Some \<open>p = Some sl\<close> that by (intro copyable.local_reads [OF C]) (auto simp: slice_reach_def)
    then have "map (r m') xs = map (r m) xs" and "(\<Union>x \<in> set xs. s m' x) = (\<Union>x \<in> set xs. s m x)" by (simp_all cong: map_cong)
    then show ?thesis using Some l by (simp del: map_eq_conv add: slice_read_def slice_reach_def \<open>p = Some sl\<close>)
  qed (simp add: l \<open>p = Some sl\<close> slice_read_def slice_reach_def)
qed (simp add: slice_read_def slice_reach_def)

lemma slice_readE:
  assumes "slice_read K r m p = Some vs"
  obtains "p = None" "vs = []" | sl xs where "p = Some sl" "elements K m sl = Some xs" "map (r m) xs = map Some vs" "length vs = sl_Length sl"
proof (cases p)
  case (Some sl)
  then obtain xs where xs: "elements K m sl = Some xs" "map (r m) xs = map Some vs"
    using assms by (auto simp: slice_read_def bind_eq_Some_conv those_Some)
  moreover have "length vs = sl_Length sl" using elements_Some [OF xs(1)] map_eq_imp_length_eq [OF xs(2)] by simp
  ultimately show ?thesis using Some that(2) by blast
qed (use assms that(1) in \<open>simp add: slice_read_def\<close>)

lemma slice_below:
  assumes "copyable r s c" "sane m" "slice_read K r m p = Some vs" "a \<in> slice_reach K s m p"
  shows "a < mm_Next m"
  using assms(3)
proof (cases rule: slice_readE)
  case (2 sl xs)
  from assms(4) 2 consider "a = sl_Array sl" | x where "x \<in> set xs" "a \<in> s m x" by (auto simp: slice_reach_def)
  then show ?thesis
  proof cases
    case 2
    with \<open>map (r m) xs = map Some vs\<close> obtain v where "r m x = Some v" by (metis (no_types, lifting) imageE image_eqI list.set_map)
    with 2 copyable.reach_below [OF assms(1,2)] show ?thesis by blast
  qed (use elements_below [OF assms(2) 2(2)] in simp)
qed (use assms(4) in \<open>simp add: slice_reach_def\<close>)

lemma make_facts:
  assumes "kind_law K" "make K zero n m = (d, m')"
  shows "d = \<lparr>sl_Array = mm_Next m, sl_Offset = 0, sl_Length = n\<rparr>" "load K m' (mm_Next m) = Some (replicate n zero)"
    "mm_Next m' = mm_Next m + 1" "grows m m'" "sane m \<Longrightarrow> sane m'"
proof -
  obtain a m1 where al: "alloc (kd_In K (replicate n zero)) m = (a, m1)" by (rule prod.exhaust)
  note f = alloc_facts [OF al]
  from assms(2) al have e: "d = \<lparr>sl_Array = a, sl_Offset = 0, sl_Length = n\<rparr>" "m' = m1" by (simp_all add: make_def)
  show "d = \<lparr>sl_Array = mm_Next m, sl_Offset = 0, sl_Length = n\<rparr>" "load K m' (mm_Next m) = Some (replicate n zero)"
    "mm_Next m' = mm_Next m + 1" "grows m m'" "sane m \<Longrightarrow> sane m'"
    using f assms(1) unfolding e by (simp_all add: load_def kind_law_def)
qed

lemma set_elements_whole:
  "load K m a = Some ys \<Longrightarrow> length ys = n \<Longrightarrow>
   set_elements K \<lparr>sl_Array = a, sl_Offset = 0, sl_Length = n\<rparr> f m = put_cell a (kd_In K (f ys)) m"
  by (simp add: set_elements_def)

lemma elements_whole:
  "load K m a = Some ys \<Longrightarrow> length ys = n \<Longrightarrow> elements K m \<lparr>sl_Array = a, sl_Offset = 0, sl_Length = n\<rparr> = Some ys"
  by (simp add: elements_def)

text \<open>
  The state of the loop after \<open>k\<close> elements: the new array holds their copies, and zero values
  behind them; the copies reach only cells allocated after the array.
\<close>

definition copied_upto where
  "copied_upto K r s zero n vs m a mk k \<longleftrightarrow> sane mk \<and> grows m mk \<and> a < mm_Next mk \<and>
     (\<exists>ys. load K mk a = Some (ys @ replicate (n - k) zero) \<and> map (r mk) ys = map Some (take k vs) \<and>
       (\<forall>y \<in> set ys. \<forall>b \<in> s mk y. a < b))"

lemma copy_element_step:
  assumes C: "copyable r s c" and K: "kind_law K" and m: "sane m" and x: "elements K m src = Some xs" "map (r m) xs = map Some vs"
    and n: "length vs = n" "k < n" and a: "a = mm_Next m"
    and I: "copied_upto K r s zero n vs m a mk k"
  shows "copied_upto K r s zero n vs m a (copy_element K c src \<lparr>sl_Array = a, sl_Offset = 0, sl_Length = n\<rparr> mk k) (Suc k)"
proof -
  from I obtain ys where mk: "sane mk" "grows m mk" "a < mm_Next mk"
    and ys: "load K mk a = Some (ys @ replicate (n - k) zero)" "map (r mk) ys = map Some (take k vs)" "\<forall>y \<in> set ys. \<forall>b \<in> s mk y. a < b"
    by (auto simp: copied_upto_def)
  have len: "length ys = k" "length xs = n"
    using map_eq_imp_length_eq [OF ys(2)] map_eq_imp_length_eq [OF x(2)] n by simp_all
  have "r m (xs ! k) = Some (vs ! k)" using x(2) len(2) n by (metis nth_map)
  note rk = copyable.keeps(1) [OF C m this mk(2)]
  obtain y m' where y: "c (xs ! k) mk = (y, m')" by (rule prod.exhaust)
  note g = copyable.copy_memory [OF C mk(1) rk y]
  note vy = copyable.copy_value [OF C mk(1) rk y]
  have fy: "a < b" if "b \<in> s m' y" for b using copyable.copy_fresh [OF C mk(1) rk y that] mk(3) by simp
  let ?zs = "ys @ replicate (n - k) zero"
  have l: "load K m' a = Some ?zs" using grows_load [OF conjunct2 [OF g] mk(3)] ys(1) by metis
  have cons: "?zs[k := y] = (ys @ [y]) @ replicate (n - Suc k) zero"
    using len(1) n(2) by (simp add: list_update_append Cons_replicate_eq Suc_diff_Suc [symmetric])
  let ?m = "put_cell a (kd_In K (?zs[k := y])) m'"
  have step: "copy_element K c src \<lparr>sl_Array = a, sl_Offset = 0, sl_Length = n\<rparr> mk k = ?m"
    using elements_grows [OF m x(1) mk(2)] y l len n by (simp add: copy_element_def set_elements_whole)
  have old: "r m' z = Some v \<and> s m' z = s mk z" if "z \<in> set ys" "r mk z = Some v" for z v
    using copyable.keeps [OF C mk(1) that(2) conjunct2 [OF g]] by blast
  have vals: "\<forall>z \<in> set ys. \<exists>v. r mk z = Some v"
    using ys(2) by (metis (no_types, lifting) imageE image_eqI list.set_map)
  have z: "r ?m z = r m' z \<and> s ?m z = s m' z" if "z \<in> set ys \<or> z = y" for z
  proof -
    have "a \<notin> s m' z" using that old vals ys(3) fy by (metis less_irrefl)
    from copyable.keeps_put [OF C this] show ?thesis by blast
  qed
  have "map (r ?m) (ys @ [y]) = map Some (take (Suc k) vs)"
  proof -
    have "map (r ?m) ys = map (r mk) ys" using z old vals by (intro map_cong) metis+
    then show ?thesis using z [of y] vy ys(2) n by (simp add: take_Suc_conv_app_nth)
  qed
  moreover have "\<forall>z \<in> set (ys @ [y]). \<forall>b \<in> s ?m z. a < b"
    using z old vals ys(3) fy by (metis Un_iff empty_iff insert_iff list.set(1,2) set_append)
  moreover have "load K ?m a = Some ((ys @ [y]) @ replicate (n - Suc k) zero)"
    using K unfolding cons by (simp add: load_put kind_law_def)
  moreover have "sane ?m" "grows m ?m" "a < mm_Next ?m"
    using g mk a by (auto intro: sane_put grows_put grows_trans simp: grows_def)
  ultimately show ?thesis unfolding step copied_upto_def by blast
qed

lemma copy_elements:
  assumes C: "copyable r s c" and K: "kind_law K" and m: "sane m" and x: "elements K m src = Some xs" "map (r m) xs = map Some vs"
    and n: "length vs = n" and I: "copied_upto K r s zero n vs m (mm_Next m) m1 0" and k: "k \<le> n"
  shows "copied_upto K r s zero n vs m (mm_Next m)
    (foldl (copy_element K c src \<lparr>sl_Array = mm_Next m, sl_Offset = 0, sl_Length = n\<rparr>) m1 [0..<k]) k" (is "?I k")
  using k
proof (induction k)
  case (Suc k)
  then have "?I k" by simp
  from copy_element_step [OF C K m x n _ refl this] Suc.prems show ?case by simp
qed (simp add: I)

text \<open>What a new slice has to satisfy to be the copy of one with the values \<open>vs\<close>.\<close>

lemma new_sliceI:
  assumes "load K m' a = Some ys" "length ys = n" "map (r m') ys = map Some vs" "\<forall>y \<in> set ys. \<forall>b \<in> s m' y. a < b"
    and p: "p = Some \<lparr>sl_Array = a, sl_Offset = 0, sl_Length = n\<rparr>"
  shows "slice_read K r m' p = Some vs \<and> (\<forall>b \<in> slice_reach K s m' p. a \<le> b)"
proof -
  have e: "elements K m' \<lparr>sl_Array = a, sl_Offset = 0, sl_Length = n\<rparr> = Some ys"
    using elements_whole [OF assms(1,2)] .
  have "slice_read K r m' p = Some vs" using e assms(3) by (simp add: slice_read_def p those_Some)
  moreover have "\<forall>b \<in> slice_reach K s m' p. a \<le> b" using e assms(4) by (auto simp: slice_reach_def p dest: less_imp_le)
  ultimately show ?thesis ..
qed

lemma copy_slice_Some:
  assumes C: "copyable r s c" and K: "kind_law K" and m: "sane m" and x: "elements K m src = Some xs" "map (r m) xs = map Some vs"
    and n: "length vs = sl_Length src" and cp: "copy_slice K zero c (Some src) m = (q, m')"
  shows "sane m' \<and> grows m m' \<and> slice_read K r m' q = Some vs \<and> (\<forall>b \<in> slice_reach K s m' q. mm_Next m \<le> b)"
proof -
  let ?n = "sl_Length src" and ?a = "mm_Next m"
  let ?dst = "\<lparr>sl_Array = ?a, sl_Offset = 0, sl_Length = ?n\<rparr>"
  obtain dst m1 where mk: "make K zero ?n m = (dst, m1)" by (rule prod.exhaust)
  note f = make_facts [OF K mk]
  have "copied_upto K r s zero ?n vs m ?a m1 0" using f m by (simp add: copied_upto_def)
  then have "copied_upto K r s zero ?n vs m ?a (foldl (copy_element K c src ?dst) m1 [0..<?n]) ?n"
    by (rule copy_elements [OF C K m x n]) simp
  moreover have q: "q = Some ?dst" "m' = foldl (copy_element K c src ?dst) m1 [0..<?n]"
    using cp mk f(1) by (simp_all add: copy_slice_def)
  ultimately obtain ys where r: "sane m'" "grows m m'" "load K m' ?a = Some ys" "map (r m') ys = map Some vs"
    "\<forall>y \<in> set ys. \<forall>b \<in> s m' y. ?a < b" using n by (auto simp: copied_upto_def)
  then have "length ys = ?n" using map_eq_imp_length_eq n by fastforce
  from new_sliceI [where r = r and s = s, OF r(3) this r(4,5) q(1)] r(1,2) show ?thesis by blast
qed

lemma copyable_slice:
  assumes C: "copyable r s c" and K: "kind_law K"
  shows "copyable (slice_read K r) (slice_reach K s) (copy_slice K zero c)"
proof
  fix m m' :: "'a mem" and p q :: "slice option" and v a
  show "slice_read K r m' p = slice_read K r m p \<and> slice_reach K s m' p = slice_reach K s m p"
    if "\<forall>a \<in> slice_reach K s m p. mm_Cell m' a = mm_Cell m a" using slice_local [OF C that] .
  assume m: "sane m" and rd: "slice_read K r m p = Some v"
  show "a < mm_Next m" if "a \<in> slice_reach K s m p" by (rule slice_below [OF C m rd that])
  assume cp: "copy_slice K zero c p m = (q, m')"
  from rd have "sane m' \<and> grows m m' \<and> slice_read K r m' q = Some v \<and> (\<forall>b \<in> slice_reach K s m' q. mm_Next m \<le> b)"
  proof (cases rule: slice_readE)
    case 1
    with cp m show ?thesis by (auto simp: copy_slice_def slice_read_def slice_reach_def)
  next
    case (2 sl xs)
    from copy_slice_Some [OF C K m 2(2,3,4) cp [unfolded 2(1)]] show ?thesis .
  qed
  then show "sane m' \<and> grows m m'" "slice_read K r m' q = Some v" "a \<in> slice_reach K s m' q \<Longrightarrow> mm_Next m \<le> a" by blast+
qed

lemma copy_flat_slice_Some:
  assumes K: "kind_law K" and m: "sane m" and x: "elements K m src = Some xs"
    and cp: "copy_flat_slice K zero (Some src) m = (q, m')"
  shows "sane m' \<and> grows m m' \<and> slice_read K flat_read m' q = Some xs \<and> (\<forall>b \<in> slice_reach K flat_reach m' q. mm_Next m \<le> b)"
proof -
  let ?n = "sl_Length src" and ?a = "mm_Next m"
  obtain dst m1 where mk: "make K zero ?n m = (dst, m1)" by (rule prod.exhaust)
  note f = make_facts [OF K mk]
  have len: "length xs = ?n" using elements_Some [OF x] by simp
  have q: "q = Some \<lparr>sl_Array = ?a, sl_Offset = 0, sl_Length = ?n\<rparr>" "m' = put_cell ?a (kd_In K xs) m1"
    using cp mk f(1,2) elements_grows [OF m x f(4)] len by (simp_all add: copy_flat_slice_def set_elements_whole go_copy_def)
  have "load K m' ?a = Some xs" using K by (simp add: q(2) load_put kind_law_def)
  from new_sliceI [OF this len _ _ q(1), where r = flat_read and s = flat_reach and vs = xs]
  have "slice_read K flat_read m' q = Some xs \<and> (\<forall>b \<in> slice_reach K flat_reach m' q. ?a \<le> b)" by simp
  moreover have "sane m'" "grows m m'" using f m unfolding q(2) by (simp_all add: sane_put grows_put)
  ultimately show ?thesis by blast
qed

lemma copyable_flat_slice:
  assumes K: "kind_law K"
  shows "copyable (slice_read K flat_read) (slice_reach K flat_reach) (copy_flat_slice K zero)"
proof
  fix m m' :: "'a mem" and p q :: "slice option" and v a
  show "slice_read K flat_read m' p = slice_read K flat_read m p \<and> slice_reach K flat_reach m' p = slice_reach K flat_reach m p"
    if "\<forall>a \<in> slice_reach K flat_reach m p. mm_Cell m' a = mm_Cell m a" using slice_local [OF copyable_flat that] .
  assume m: "sane m" and rd: "slice_read K flat_read m p = Some v"
  show "a < mm_Next m" if "a \<in> slice_reach K flat_reach m p" by (rule slice_below [OF copyable_flat m rd that])
  assume cp: "copy_flat_slice K zero p m = (q, m')"
  from rd have "sane m' \<and> grows m m' \<and> slice_read K flat_read m' q = Some v \<and> (\<forall>b \<in> slice_reach K flat_reach m' q. mm_Next m \<le> b)"
  proof (cases rule: slice_readE)
    case 1
    with cp m show ?thesis by (auto simp: copy_flat_slice_def slice_read_def slice_reach_def)
  next
    case (2 sl xs)
    then have "xs = v" by (metis inj_Some inj_map_eq_map)
    with copy_flat_slice_Some [OF K m 2(2) cp [unfolded 2(1)]] show ?thesis by simp
  qed
  then show "sane m' \<and> grows m m'" "slice_read K flat_read m' q = Some v" "a \<in> slice_reach K flat_reach m' q \<Longrightarrow> mm_Next m \<le> a" by blast+
qed

end
