(* ===== verification/Deep_Copies.thy ===== *)
theory Deep_Copies
  imports Go_Memory
begin

text \<open>
  The generated copy functions of the API types (api/coredns/v1alpha1/zz_generated.deepcopy.go),
  over a memory in which the optional fields are pointers and the lists are slices. Objects that
  come from a cache are copied before they are changed; the other theories take objects as
  values, which is justified here: a copy denotes the same value and shares no memory with
  the original. The copies of the Kubernetes metadata and conditions are parameters.
\<close>

section \<open>The types in memory\<close>

text \<open>
  The structs of \<open>API_Types\<close> with their pointers and slices; \<open>'m\<close>, \<open>'lm\<close> and \<open>'c\<close> are the
  metadata of objects, of lists, and the conditions. A type meta is its kind and its API version.
\<close>

record g_service =
  gv_Service :: string
  gv_Records :: "slice option"

record g_entry_spec =
  gs_ZoneRef :: string
  gs_DNSNames :: "slice option"
  gs_TTL :: int
  gs_A :: "slice option"
  gs_AAAA :: "slice option"
  gs_TXT :: "slice option"
  gs_SRV :: pointer
  gs_CNAME :: string
  gs_NS :: "slice option"

record g_entry_status =
  gt_Conditions :: "slice option"
  gt_State :: string
  gt_Message :: string
  gt_RootZone :: string
  gt_EffectiveDomainNames :: "slice option"

record 'm g_entry =
  ge_Type :: "string \<times> string"
  ge_Meta :: 'm
  ge_Spec :: g_entry_spec
  ge_Status :: g_entry_status

record g_zone_spec =
  gz_Class :: pointer
  gz_Runtime :: pointer
  gz_DomainNames :: "slice option"
  gz_EMail :: string
  gz_Refresh :: int
  gz_Retry :: int
  gz_Expire :: int
  gz_MinimumTTL :: int
  gz_ParentRef :: string

record g_zone_status =
  gu_Conditions :: "slice option"
  gu_State :: string
  gu_Message :: string
  gu_NameServers :: "slice option"
  gu_Observed :: pointer

record 'm g_zone =
  go_Type :: "string \<times> string"
  go_Meta :: 'm
  go_Spec :: g_zone_spec
  go_Status :: g_zone_status

text \<open>A list of objects, of entries or of zones.\<close>

record 'lm g_list =
  gl_Type :: "string \<times> string"
  gl_Meta :: 'lm
  gl_Items :: "slice option"

text \<open>What a cell holds; \<open>'l\<close> is what the metadata of the library point to.\<close>

datatype ('m, 'lm, 'c, 'l) cell =
    CString string
  | CStrings "string list"
  | CRecord srv_record
  | CRecords "srv_record list"
  | CService g_service
  | CConditions "'c list"
  | CEntrySpec g_entry_spec
  | CEntryStatus g_entry_status
  | CEntry "'m g_entry"
  | CEntries "'m g_entry list"
  | CEntryList "'lm g_list"
  | CObserved observed
  | CZoneSpec g_zone_spec
  | CZoneStatus g_zone_status
  | CZone "'m g_zone"
  | CZones "'m g_zone list"
  | CZoneList "'lm g_list"
  | CLibrary 'l

type_synonym ('m, 'lm, 'c, 'l) memory = "('m, 'lm, 'c, 'l) cell mem"

definition KString :: "(('m, 'lm, 'c, 'l) cell, string) kind" where
  "KString = \<lparr>kd_In = CString, kd_Out = (\<lambda>c. case c of CString x \<Rightarrow> Some x | _ \<Rightarrow> None)\<rparr>"

definition KStrings :: "(('m, 'lm, 'c, 'l) cell, string list) kind" where
  "KStrings = \<lparr>kd_In = CStrings, kd_Out = (\<lambda>c. case c of CStrings x \<Rightarrow> Some x | _ \<Rightarrow> None)\<rparr>"

definition KRecord :: "(('m, 'lm, 'c, 'l) cell, srv_record) kind" where
  "KRecord = \<lparr>kd_In = CRecord, kd_Out = (\<lambda>c. case c of CRecord x \<Rightarrow> Some x | _ \<Rightarrow> None)\<rparr>"

definition KRecords :: "(('m, 'lm, 'c, 'l) cell, srv_record list) kind" where
  "KRecords = \<lparr>kd_In = CRecords, kd_Out = (\<lambda>c. case c of CRecords x \<Rightarrow> Some x | _ \<Rightarrow> None)\<rparr>"

definition KService :: "(('m, 'lm, 'c, 'l) cell, g_service) kind" where
  "KService = \<lparr>kd_In = CService, kd_Out = (\<lambda>c. case c of CService x \<Rightarrow> Some x | _ \<Rightarrow> None)\<rparr>"

definition KConditions :: "(('m, 'lm, 'c, 'l) cell, 'c list) kind" where
  "KConditions = \<lparr>kd_In = CConditions, kd_Out = (\<lambda>c. case c of CConditions x \<Rightarrow> Some x | _ \<Rightarrow> None)\<rparr>"

definition KEntrySpec :: "(('m, 'lm, 'c, 'l) cell, g_entry_spec) kind" where
  "KEntrySpec = \<lparr>kd_In = CEntrySpec, kd_Out = (\<lambda>c. case c of CEntrySpec x \<Rightarrow> Some x | _ \<Rightarrow> None)\<rparr>"

definition KEntryStatus :: "(('m, 'lm, 'c, 'l) cell, g_entry_status) kind" where
  "KEntryStatus = \<lparr>kd_In = CEntryStatus, kd_Out = (\<lambda>c. case c of CEntryStatus x \<Rightarrow> Some x | _ \<Rightarrow> None)\<rparr>"

definition KEntry :: "(('m, 'lm, 'c, 'l) cell, 'm g_entry) kind" where
  "KEntry = \<lparr>kd_In = CEntry, kd_Out = (\<lambda>c. case c of CEntry x \<Rightarrow> Some x | _ \<Rightarrow> None)\<rparr>"

definition KEntries :: "(('m, 'lm, 'c, 'l) cell, 'm g_entry list) kind" where
  "KEntries = \<lparr>kd_In = CEntries, kd_Out = (\<lambda>c. case c of CEntries x \<Rightarrow> Some x | _ \<Rightarrow> None)\<rparr>"

definition KEntryList :: "(('m, 'lm, 'c, 'l) cell, 'lm g_list) kind" where
  "KEntryList = \<lparr>kd_In = CEntryList, kd_Out = (\<lambda>c. case c of CEntryList x \<Rightarrow> Some x | _ \<Rightarrow> None)\<rparr>"

definition KObserved :: "(('m, 'lm, 'c, 'l) cell, observed) kind" where
  "KObserved = \<lparr>kd_In = CObserved, kd_Out = (\<lambda>c. case c of CObserved x \<Rightarrow> Some x | _ \<Rightarrow> None)\<rparr>"

definition KZoneSpec :: "(('m, 'lm, 'c, 'l) cell, g_zone_spec) kind" where
  "KZoneSpec = \<lparr>kd_In = CZoneSpec, kd_Out = (\<lambda>c. case c of CZoneSpec x \<Rightarrow> Some x | _ \<Rightarrow> None)\<rparr>"

definition KZoneStatus :: "(('m, 'lm, 'c, 'l) cell, g_zone_status) kind" where
  "KZoneStatus = \<lparr>kd_In = CZoneStatus, kd_Out = (\<lambda>c. case c of CZoneStatus x \<Rightarrow> Some x | _ \<Rightarrow> None)\<rparr>"

definition KZone :: "(('m, 'lm, 'c, 'l) cell, 'm g_zone) kind" where
  "KZone = \<lparr>kd_In = CZone, kd_Out = (\<lambda>c. case c of CZone x \<Rightarrow> Some x | _ \<Rightarrow> None)\<rparr>"

definition KZones :: "(('m, 'lm, 'c, 'l) cell, 'm g_zone list) kind" where
  "KZones = \<lparr>kd_In = CZones, kd_Out = (\<lambda>c. case c of CZones x \<Rightarrow> Some x | _ \<Rightarrow> None)\<rparr>"

definition KZoneList :: "(('m, 'lm, 'c, 'l) cell, 'lm g_list) kind" where
  "KZoneList = \<lparr>kd_In = CZoneList, kd_Out = (\<lambda>c. case c of CZoneList x \<Rightarrow> Some x | _ \<Rightarrow> None)\<rparr>"

lemmas kind_defs = KString_def KStrings_def KRecord_def KRecords_def KService_def KConditions_def KEntrySpec_def KEntryStatus_def KEntry_def KEntries_def KEntryList_def KObserved_def KZoneSpec_def KZoneStatus_def KZone_def KZones_def KZoneList_def

lemma kind_laws [simp]:
  "kind_law KString" "kind_law KStrings" "kind_law KRecord" "kind_law KRecords" "kind_law KService"
      "kind_law KConditions" "kind_law KEntrySpec" "kind_law KEntryStatus" "kind_law KEntry"
      "kind_law KEntries" "kind_law KEntryList" "kind_law KObserved" "kind_law KZoneSpec"
      "kind_law KZoneStatus" "kind_law KZone" "kind_law KZones" "kind_law KZoneList"
  by (simp_all add: kind_law_def kind_defs)

section \<open>The copy functions\<close>

text \<open>The copies of the library, and its zero values.\<close>

record ('m, 'lm, 'c, 'l) copy_lib =
  cl_Meta :: "'m \<Rightarrow> ('m, 'lm, 'c, 'l) memory \<Rightarrow> 'm \<times> ('m, 'lm, 'c, 'l) memory"
  cl_List :: "'lm \<Rightarrow> ('m, 'lm, 'c, 'l) memory \<Rightarrow> 'lm \<times> ('m, 'lm, 'c, 'l) memory"
  cl_Condition :: "'c \<Rightarrow> ('m, 'lm, 'c, 'l) memory \<Rightarrow> 'c \<times> ('m, 'lm, 'c, 'l) memory"
  cl_ZeroMeta :: 'm
  cl_ZeroList :: 'lm
  cl_ZeroCondition :: 'c

text \<open>The zero values a new cell or array begins with.\<close>

definition zero_record :: srv_record where
  "zero_record = \<lparr>srv_Protocol = [], srv_Priority = 0, srv_Weight = 0, srv_Port = 0, srv_Host = []\<rparr>"

definition zero_g_service :: g_service where
  "zero_g_service = \<lparr>gv_Service = [], gv_Records = None\<rparr>"

definition zero_g_entry_spec :: g_entry_spec where
  "zero_g_entry_spec = \<lparr>gs_ZoneRef = [], gs_DNSNames = None, gs_TTL = 0, gs_A = None, gs_AAAA = None, gs_TXT = None,
     gs_SRV = None, gs_CNAME = [], gs_NS = None\<rparr>"

definition zero_g_entry_status :: g_entry_status where
  "zero_g_entry_status = \<lparr>gt_Conditions = None, gt_State = [], gt_Message = [], gt_RootZone = [], gt_EffectiveDomainNames = None\<rparr>"

definition zero_g_entry :: "('m, 'lm, 'c, 'l) copy_lib \<Rightarrow> 'm g_entry" where
  "zero_g_entry L = \<lparr>ge_Type = ([], []), ge_Meta = cl_ZeroMeta L, ge_Spec = zero_g_entry_spec, ge_Status = zero_g_entry_status\<rparr>"

definition zero_observed :: observed where
  "zero_observed = \<lparr>ob_Class = [], ob_Runtime = []\<rparr>"

definition zero_g_zone_spec :: g_zone_spec where
  "zero_g_zone_spec = \<lparr>gz_Class = None, gz_Runtime = None, gz_DomainNames = None, gz_EMail = [], gz_Refresh = 0,
     gz_Retry = 0, gz_Expire = 0, gz_MinimumTTL = 0, gz_ParentRef = []\<rparr>"

definition zero_g_zone_status :: g_zone_status where
  "zero_g_zone_status = \<lparr>gu_Conditions = None, gu_State = [], gu_Message = [], gu_NameServers = None, gu_Observed = None\<rparr>"

definition zero_g_zone :: "('m, 'lm, 'c, 'l) copy_lib \<Rightarrow> 'm g_zone" where
  "zero_g_zone L = \<lparr>go_Type = ([], []), go_Meta = cl_ZeroMeta L, go_Spec = zero_g_zone_spec, go_Status = zero_g_zone_status\<rparr>"

definition zero_g_list :: "('m, 'lm, 'c, 'l) copy_lib \<Rightarrow> 'lm g_list" where
  "zero_g_list L = \<lparr>gl_Type = ([], []), gl_Meta = cl_ZeroList L, gl_Items = None\<rparr>"

text \<open>
  \<open>DeepCopyInto\<close> of a struct takes the struct \<open>in\<close> and gives what \<open>out\<close> holds afterwards; it begins
  with the assignment \<open>*out = *in\<close>. \<open>DeepCopy\<close> takes and gives a pointer.
\<close>

definition SRVRecord_DeepCopyInto ::
    "srv_record \<Rightarrow> ('m, 'lm, 'c, 'l) memory \<Rightarrow> srv_record \<times> ('m, 'lm, 'c, 'l) memory" where
  "SRVRecord_DeepCopyInto x m = (let out = x in (out, m))"

definition SRVRecord_DeepCopy ::
    "pointer \<Rightarrow> ('m, 'lm, 'c, 'l) memory \<Rightarrow> pointer \<times> ('m, 'lm, 'c, 'l) memory" where
  "SRVRecord_DeepCopy = copy_pointer KRecord zero_record SRVRecord_DeepCopyInto"

definition ServiceSpec_DeepCopyInto ::
    "g_service \<Rightarrow> ('m, 'lm, 'c, 'l) memory \<Rightarrow> g_service \<times> ('m, 'lm, 'c, 'l) memory" where
  "ServiceSpec_DeepCopyInto x m =
     (let out = x;
          (c, m) = copy_flat_slice KRecords zero_record (gv_Records x) m;
          out = out\<lparr>gv_Records := c\<rparr>
      in (out, m))"

definition ServiceSpec_DeepCopy ::
    "pointer \<Rightarrow> ('m, 'lm, 'c, 'l) memory \<Rightarrow> pointer \<times> ('m, 'lm, 'c, 'l) memory" where
  "ServiceSpec_DeepCopy = copy_pointer KService zero_g_service ServiceSpec_DeepCopyInto"

definition CoreDNSSpec_DeepCopyInto ::
    "g_entry_spec \<Rightarrow> ('m, 'lm, 'c, 'l) memory \<Rightarrow> g_entry_spec \<times> ('m, 'lm, 'c, 'l) memory" where
  "CoreDNSSpec_DeepCopyInto x m =
     (let out = x;
          (c, m) = copy_flat_slice KStrings [] (gs_DNSNames x) m;
          out = out\<lparr>gs_DNSNames := c\<rparr>;
          (c, m) = copy_flat_slice KStrings [] (gs_A x) m;
          out = out\<lparr>gs_A := c\<rparr>;
          (c, m) = copy_flat_slice KStrings [] (gs_AAAA x) m;
          out = out\<lparr>gs_AAAA := c\<rparr>;
          (c, m) = copy_flat_slice KStrings [] (gs_TXT x) m;
          out = out\<lparr>gs_TXT := c\<rparr>;
          (c, m) = copy_pointer KService zero_g_service ServiceSpec_DeepCopyInto (gs_SRV x) m;
          out = out\<lparr>gs_SRV := c\<rparr>;
          (c, m) = copy_flat_slice KStrings [] (gs_NS x) m;
          out = out\<lparr>gs_NS := c\<rparr>
      in (out, m))"

definition CoreDNSSpec_DeepCopy ::
    "pointer \<Rightarrow> ('m, 'lm, 'c, 'l) memory \<Rightarrow> pointer \<times> ('m, 'lm, 'c, 'l) memory" where
  "CoreDNSSpec_DeepCopy = copy_pointer KEntrySpec zero_g_entry_spec CoreDNSSpec_DeepCopyInto"

definition CoreDNSStatus_DeepCopyInto ::
    "('m, 'lm, 'c, 'l) copy_lib \<Rightarrow> g_entry_status \<Rightarrow> ('m, 'lm, 'c, 'l) memory \<Rightarrow> g_entry_status
        \<times> ('m, 'lm, 'c, 'l) memory" where
  "CoreDNSStatus_DeepCopyInto L x m =
     (let out = x;
          (c, m) = copy_slice KConditions (cl_ZeroCondition L) (cl_Condition L) (gt_Conditions x) m;
          out = out\<lparr>gt_Conditions := c\<rparr>;
          (c, m) = copy_flat_slice KStrings [] (gt_EffectiveDomainNames x) m;
          out = out\<lparr>gt_EffectiveDomainNames := c\<rparr>
      in (out, m))"

definition CoreDNSStatus_DeepCopy ::
    "('m, 'lm, 'c, 'l) copy_lib \<Rightarrow> pointer \<Rightarrow> ('m, 'lm, 'c, 'l) memory \<Rightarrow>
     pointer \<times> ('m, 'lm, 'c, 'l) memory" where
  "CoreDNSStatus_DeepCopy L = copy_pointer KEntryStatus zero_g_entry_status (CoreDNSStatus_DeepCopyInto L)"

definition CoreDNSEntry_DeepCopyInto ::
    "('m, 'lm, 'c, 'l) copy_lib \<Rightarrow> 'm g_entry \<Rightarrow> ('m, 'lm, 'c, 'l) memory \<Rightarrow> 'm g_entry
        \<times> ('m, 'lm, 'c, 'l) memory" where
  "CoreDNSEntry_DeepCopyInto L x m =
     (let out = x;
          out = out\<lparr>ge_Type := ge_Type x\<rparr>;
          (c, m) = cl_Meta L (ge_Meta x) m;
          out = out\<lparr>ge_Meta := c\<rparr>;
          (c, m) = CoreDNSSpec_DeepCopyInto (ge_Spec x) m;
          out = out\<lparr>ge_Spec := c\<rparr>;
          (c, m) = CoreDNSStatus_DeepCopyInto L (ge_Status x) m;
          out = out\<lparr>ge_Status := c\<rparr>
      in (out, m))"

definition CoreDNSEntry_DeepCopy ::
    "('m, 'lm, 'c, 'l) copy_lib \<Rightarrow> pointer \<Rightarrow> ('m, 'lm, 'c, 'l) memory \<Rightarrow>
     pointer \<times> ('m, 'lm, 'c, 'l) memory" where
  "CoreDNSEntry_DeepCopy L = copy_pointer KEntry (zero_g_entry L) (CoreDNSEntry_DeepCopyInto L)"

definition CoreDNSEntryList_DeepCopyInto ::
    "('m, 'lm, 'c, 'l) copy_lib \<Rightarrow> 'lm g_list \<Rightarrow> ('m, 'lm, 'c, 'l) memory \<Rightarrow> 'lm g_list
        \<times> ('m, 'lm, 'c, 'l) memory" where
  "CoreDNSEntryList_DeepCopyInto L x m =
     (let out = x;
          out = out\<lparr>gl_Type := gl_Type x\<rparr>;
          (c, m) = cl_List L (gl_Meta x) m;
          out = out\<lparr>gl_Meta := c\<rparr>;
          (c, m) = copy_slice KEntries (zero_g_entry L) (CoreDNSEntry_DeepCopyInto L) (gl_Items x) m;
          out = out\<lparr>gl_Items := c\<rparr>
      in (out, m))"

definition CoreDNSEntryList_DeepCopy ::
    "('m, 'lm, 'c, 'l) copy_lib \<Rightarrow> pointer \<Rightarrow> ('m, 'lm, 'c, 'l) memory \<Rightarrow>
     pointer \<times> ('m, 'lm, 'c, 'l) memory" where
  "CoreDNSEntryList_DeepCopy L = copy_pointer KEntryList (zero_g_list L) (CoreDNSEntryList_DeepCopyInto L)"

definition Observed_DeepCopyInto ::
    "observed \<Rightarrow> ('m, 'lm, 'c, 'l) memory \<Rightarrow> observed \<times> ('m, 'lm, 'c, 'l) memory" where
  "Observed_DeepCopyInto x m = (let out = x in (out, m))"

definition Observed_DeepCopy ::
    "pointer \<Rightarrow> ('m, 'lm, 'c, 'l) memory \<Rightarrow> pointer \<times> ('m, 'lm, 'c, 'l) memory" where
  "Observed_DeepCopy = copy_pointer KObserved zero_observed Observed_DeepCopyInto"

definition HostedZoneSpec_DeepCopyInto ::
    "g_zone_spec \<Rightarrow> ('m, 'lm, 'c, 'l) memory \<Rightarrow> g_zone_spec \<times> ('m, 'lm, 'c, 'l) memory" where
  "HostedZoneSpec_DeepCopyInto x m =
     (let out = x;
          (c, m) = copy_pointer KString [] Pair (gz_Class x) m;
          out = out\<lparr>gz_Class := c\<rparr>;
          (c, m) = copy_pointer KString [] Pair (gz_Runtime x) m;
          out = out\<lparr>gz_Runtime := c\<rparr>;
          (c, m) = copy_flat_slice KStrings [] (gz_DomainNames x) m;
          out = out\<lparr>gz_DomainNames := c\<rparr>
      in (out, m))"

definition HostedZoneSpec_DeepCopy ::
    "pointer \<Rightarrow> ('m, 'lm, 'c, 'l) memory \<Rightarrow> pointer \<times> ('m, 'lm, 'c, 'l) memory" where
  "HostedZoneSpec_DeepCopy = copy_pointer KZoneSpec zero_g_zone_spec HostedZoneSpec_DeepCopyInto"

definition HostedZoneStatus_DeepCopyInto ::
    "('m, 'lm, 'c, 'l) copy_lib \<Rightarrow> g_zone_status \<Rightarrow> ('m, 'lm, 'c, 'l) memory \<Rightarrow> g_zone_status
        \<times> ('m, 'lm, 'c, 'l) memory" where
  "HostedZoneStatus_DeepCopyInto L x m =
     (let out = x;
          (c, m) = copy_slice KConditions (cl_ZeroCondition L) (cl_Condition L) (gu_Conditions x) m;
          out = out\<lparr>gu_Conditions := c\<rparr>;
          (c, m) = copy_flat_slice KStrings [] (gu_NameServers x) m;
          out = out\<lparr>gu_NameServers := c\<rparr>;
          (c, m) = copy_pointer KObserved zero_observed Pair (gu_Observed x) m;
          out = out\<lparr>gu_Observed := c\<rparr>
      in (out, m))"

definition HostedZoneStatus_DeepCopy ::
    "('m, 'lm, 'c, 'l) copy_lib \<Rightarrow> pointer \<Rightarrow> ('m, 'lm, 'c, 'l) memory \<Rightarrow>
     pointer \<times> ('m, 'lm, 'c, 'l) memory" where
  "HostedZoneStatus_DeepCopy L = copy_pointer KZoneStatus zero_g_zone_status (HostedZoneStatus_DeepCopyInto L)"

definition HostedZone_DeepCopyInto ::
    "('m, 'lm, 'c, 'l) copy_lib \<Rightarrow> 'm g_zone \<Rightarrow> ('m, 'lm, 'c, 'l) memory \<Rightarrow> 'm g_zone
        \<times> ('m, 'lm, 'c, 'l) memory" where
  "HostedZone_DeepCopyInto L x m =
     (let out = x;
          out = out\<lparr>go_Type := go_Type x\<rparr>;
          (c, m) = cl_Meta L (go_Meta x) m;
          out = out\<lparr>go_Meta := c\<rparr>;
          (c, m) = HostedZoneSpec_DeepCopyInto (go_Spec x) m;
          out = out\<lparr>go_Spec := c\<rparr>;
          (c, m) = HostedZoneStatus_DeepCopyInto L (go_Status x) m;
          out = out\<lparr>go_Status := c\<rparr>
      in (out, m))"

definition HostedZone_DeepCopy ::
    "('m, 'lm, 'c, 'l) copy_lib \<Rightarrow> pointer \<Rightarrow> ('m, 'lm, 'c, 'l) memory \<Rightarrow>
     pointer \<times> ('m, 'lm, 'c, 'l) memory" where
  "HostedZone_DeepCopy L = copy_pointer KZone (zero_g_zone L) (HostedZone_DeepCopyInto L)"

definition HostedZoneList_DeepCopyInto ::
    "('m, 'lm, 'c, 'l) copy_lib \<Rightarrow> 'lm g_list \<Rightarrow> ('m, 'lm, 'c, 'l) memory \<Rightarrow> 'lm g_list
        \<times> ('m, 'lm, 'c, 'l) memory" where
  "HostedZoneList_DeepCopyInto L x m =
     (let out = x;
          out = out\<lparr>gl_Type := gl_Type x\<rparr>;
          (c, m) = cl_List L (gl_Meta x) m;
          out = out\<lparr>gl_Meta := c\<rparr>;
          (c, m) = copy_slice KZones (zero_g_zone L) (HostedZone_DeepCopyInto L) (gl_Items x) m;
          out = out\<lparr>gl_Items := c\<rparr>
      in (out, m))"

definition HostedZoneList_DeepCopy ::
    "('m, 'lm, 'c, 'l) copy_lib \<Rightarrow> pointer \<Rightarrow> ('m, 'lm, 'c, 'l) memory \<Rightarrow>
     pointer \<times> ('m, 'lm, 'c, 'l) memory" where
  "HostedZoneList_DeepCopy L = copy_pointer KZoneList (zero_g_list L) (HostedZoneList_DeepCopyInto L)"

text \<open>A \<open>runtime.Object\<close> that is not the nil interface is a pointer, which may be nil, with its type.\<close>

datatype runtime_object = EntryObject pointer | EntryListObject pointer | ZoneObject pointer
    | ZoneListObject pointer

definition CoreDNSEntry_DeepCopyObject ::
    "('m, 'lm, 'c, 'l) copy_lib \<Rightarrow> pointer \<Rightarrow> ('m, 'lm, 'c, 'l) memory \<Rightarrow>
     runtime_object option \<times> ('m, 'lm, 'c, 'l) memory" where
  "CoreDNSEntry_DeepCopyObject L p m =
     (let (c, m) = CoreDNSEntry_DeepCopy L p m in if c \<noteq> None then (Some (EntryObject c), m) else (None, m))"

definition CoreDNSEntryList_DeepCopyObject ::
    "('m, 'lm, 'c, 'l) copy_lib \<Rightarrow> pointer \<Rightarrow> ('m, 'lm, 'c, 'l) memory \<Rightarrow>
     runtime_object option \<times> ('m, 'lm, 'c, 'l) memory" where
  "CoreDNSEntryList_DeepCopyObject L p m =
     (let (c, m) = CoreDNSEntryList_DeepCopy L p m in if c \<noteq> None then (Some (EntryListObject c), m) else (None, m))"

definition HostedZone_DeepCopyObject ::
    "('m, 'lm, 'c, 'l) copy_lib \<Rightarrow> pointer \<Rightarrow> ('m, 'lm, 'c, 'l) memory \<Rightarrow>
     runtime_object option \<times> ('m, 'lm, 'c, 'l) memory" where
  "HostedZone_DeepCopyObject L p m =
     (let (c, m) = HostedZone_DeepCopy L p m in if c \<noteq> None then (Some (ZoneObject c), m) else (None, m))"

definition HostedZoneList_DeepCopyObject ::
    "('m, 'lm, 'c, 'l) copy_lib \<Rightarrow> pointer \<Rightarrow> ('m, 'lm, 'c, 'l) memory \<Rightarrow>
     runtime_object option \<times> ('m, 'lm, 'c, 'l) memory" where
  "HostedZoneList_DeepCopyObject L p m =
     (let (c, m) = HostedZoneList_DeepCopy L p m in if c \<noteq> None then (Some (ZoneListObject c), m) else (None, m))"

fun DeepCopyObject :: "('m, 'lm, 'c, 'l) copy_lib \<Rightarrow> runtime_object \<Rightarrow> ('m, 'lm, 'c, 'l) memory \<Rightarrow>
    runtime_object option \<times> ('m, 'lm, 'c, 'l) memory" where
  "DeepCopyObject L (EntryObject p) m = CoreDNSEntry_DeepCopyObject L p m"
| "DeepCopyObject L (EntryListObject p) m = CoreDNSEntryList_DeepCopyObject L p m"
| "DeepCopyObject L (ZoneObject p) m = HostedZone_DeepCopyObject L p m"
| "DeepCopyObject L (ZoneListObject p) m = HostedZoneList_DeepCopyObject L p m"

section \<open>What the objects denote\<close>

text \<open>
  The values of \<open>API_Types\<close>, read along the pointers and slices, and the cells they are read
  from. The metadata and conditions are read by parameters.
\<close>

abbreviation read_strings where "read_strings \<equiv> slice_read KStrings flat_read"
abbreviation reach_strings where "reach_strings \<equiv> slice_reach KStrings flat_reach"
abbreviation read_string where "read_string \<equiv> pointer_read KString flat_read"
abbreviation reach_string where "reach_string \<equiv> pointer_reach KString flat_reach"

text \<open>For every struct the parts with pointers, and the struct with other such parts.\<close>

definition service_parts :: "g_service \<Rightarrow> slice option" where "service_parts x = gv_Records x"
definition service_put ::
    "g_service \<Rightarrow> slice option \<Rightarrow> g_service" where "service_put x rs = x\<lparr>gv_Records := rs\<rparr>"

definition service_value :: "g_service \<Rightarrow> srv_record list \<Rightarrow> service_spec" where
  "service_value x rs = \<lparr>svc_Service = gv_Service x, svc_Records = rs\<rparr>"

definition read_service where
  "read_service = struct_read service_parts service_value (slice_read KRecords flat_read)"
definition reach_service where
  "reach_service = struct_reach service_parts (slice_reach KRecords flat_reach)"

definition entry_spec_parts ::
    "g_entry_spec \<Rightarrow> slice option \<times> slice option \<times> slice option \<times> slice option \<times> pointer \<times> slice option" where
  "entry_spec_parts x = (gs_DNSNames x, gs_A x, gs_AAAA x, gs_TXT x, gs_SRV x, gs_NS x)"

definition entry_spec_put where
  "entry_spec_put x = (\<lambda>(n, a, aaaa, t, s, ns). x\<lparr>gs_DNSNames := n, gs_A := a, gs_AAAA := aaaa, gs_TXT := t, gs_SRV := s, gs_NS := ns\<rparr>)"

definition entry_spec_value ::
    "g_entry_spec \<Rightarrow> string list \<times> string list \<times> string list \<times> string list \<times> service_spec option \<times> string list
    \<Rightarrow> coredns_spec" where
  "entry_spec_value x = (\<lambda>(n, a, aaaa, t, s, ns). \<lparr>es_ZoneRef = gs_ZoneRef x, es_DNSNames = n, es_TTL = gs_TTL x, es_A = a, es_AAAA = aaaa,
     es_TXT = t, es_SRV = s, es_CNAME = gs_CNAME x, es_NS = ns\<rparr>)"

definition read_entry_spec where
  "read_entry_spec = struct_read entry_spec_parts entry_spec_value (pair_read read_strings
      (pair_read read_strings
  (pair_read read_strings (pair_read read_strings
      (pair_read (pointer_read KService read_service) read_strings)))))"
definition reach_entry_spec where
  "reach_entry_spec = struct_reach entry_spec_parts (pair_reach reach_strings (pair_reach reach_strings
  (pair_reach reach_strings (pair_reach reach_strings
      (pair_reach (pointer_reach KService reach_service) reach_strings)))))"

definition entry_status_parts :: "g_entry_status \<Rightarrow> slice option \<times> slice option" where
  "entry_status_parts x = (gt_Conditions x, gt_EffectiveDomainNames x)"

definition entry_status_put where
  "entry_status_put x = (\<lambda>(c, n). x\<lparr>gt_Conditions := c, gt_EffectiveDomainNames := n\<rparr>)"

definition entry_status_value ::
    "g_entry_status \<Rightarrow> condition list \<times> string list \<Rightarrow> coredns_status" where
  "entry_status_value x = (\<lambda>(c, n). \<lparr>et_Conditions = c, et_State = gt_State x, et_Message = gt_Message x,
     et_RootZone = gt_RootZone x, et_EffectiveDomainNames = n\<rparr>)"

definition read_entry_status where
  "read_entry_status rC = struct_read entry_status_parts entry_status_value
      (pair_read (slice_read KConditions rC) read_strings)"
definition reach_entry_status where
  "reach_entry_status sC = struct_reach entry_status_parts
      (pair_reach (slice_reach KConditions sC) reach_strings)"

definition entry_parts :: "'m g_entry \<Rightarrow> 'm \<times> g_entry_spec \<times> g_entry_status" where
  "entry_parts x = (ge_Meta x, ge_Spec x, ge_Status x)"

definition entry_put where
  "entry_put x = (\<lambda>(m, s, t). x\<lparr>ge_Meta := m, ge_Spec := s, ge_Status := t\<rparr>)"

definition entry_value ::
    "'m g_entry \<Rightarrow> object_meta \<times> coredns_spec \<times> coredns_status \<Rightarrow> (string \<times> string) \<times> coredns_entry" where
  "entry_value x = (\<lambda>(m, s, t). (ge_Type x, \<lparr>e_Meta = m, e_Spec = s, e_Status = t\<rparr>))"

definition read_entry where
  "read_entry rM rC = struct_read entry_parts entry_value (pair_read rM
      (pair_read read_entry_spec (read_entry_status rC)))"
definition reach_entry where
  "reach_entry sM sC = struct_reach entry_parts (pair_reach sM
      (pair_reach reach_entry_spec (reach_entry_status sC)))"

definition zone_spec_parts :: "g_zone_spec \<Rightarrow> pointer \<times> pointer \<times> slice option" where
  "zone_spec_parts x = (gz_Class x, gz_Runtime x, gz_DomainNames x)"

definition zone_spec_put where
  "zone_spec_put x = (\<lambda>(c, r, n). x\<lparr>gz_Class := c, gz_Runtime := r, gz_DomainNames := n\<rparr>)"

definition zone_spec_value ::
    "g_zone_spec \<Rightarrow> string option \<times> string option \<times> string list \<Rightarrow> hosted_zone_spec" where
  "zone_spec_value x = (\<lambda>(c, r, n). \<lparr>zs_Class = c, zs_Runtime = r, zs_DomainNames = n, zs_EMail = gz_EMail x, zs_Refresh = gz_Refresh x,
     zs_Retry = gz_Retry x, zs_Expire = gz_Expire x, zs_MinimumTTL = gz_MinimumTTL x, zs_ParentRef = gz_ParentRef x\<rparr>)"

definition read_zone_spec where
  "read_zone_spec = struct_read zone_spec_parts zone_spec_value (pair_read read_string
      (pair_read read_string read_strings))"
definition reach_zone_spec where
  "reach_zone_spec = struct_reach zone_spec_parts (pair_reach reach_string
      (pair_reach reach_string reach_strings))"

definition zone_status_parts :: "g_zone_status \<Rightarrow> slice option \<times> slice option \<times> pointer" where
  "zone_status_parts x = (gu_Conditions x, gu_NameServers x, gu_Observed x)"

definition zone_status_put where
  "zone_status_put x = (\<lambda>(c, n, ob). x\<lparr>gu_Conditions := c, gu_NameServers := n, gu_Observed := ob\<rparr>)"

definition zone_status_value ::
    "g_zone_status \<Rightarrow> condition list \<times> string list \<times> observed option \<Rightarrow> hosted_zone_status" where
  "zone_status_value x = (\<lambda>(c, n, ob). \<lparr>zt_Conditions = c, zt_State = gu_State x, zt_Message = gu_Message x, zt_NameServers = n, zt_Observed = ob\<rparr>)"

definition read_zone_status where
  "read_zone_status rC = struct_read zone_status_parts zone_status_value
  (pair_read (slice_read KConditions rC) (pair_read read_strings (pointer_read KObserved flat_read)))"
definition reach_zone_status where
  "reach_zone_status sC = struct_reach zone_status_parts
  (pair_reach (slice_reach KConditions sC) (pair_reach reach_strings (pointer_reach KObserved flat_reach)))"

definition zone_parts :: "'m g_zone \<Rightarrow> 'm \<times> g_zone_spec \<times> g_zone_status" where
  "zone_parts x = (go_Meta x, go_Spec x, go_Status x)"

definition zone_put where
  "zone_put x = (\<lambda>(m, s, t). x\<lparr>go_Meta := m, go_Spec := s, go_Status := t\<rparr>)"

definition zone_value ::
    "'m g_zone \<Rightarrow> object_meta \<times> hosted_zone_spec \<times> hosted_zone_status \<Rightarrow> (string \<times> string) \<times> hosted_zone" where
  "zone_value x = (\<lambda>(m, s, t). (go_Type x, \<lparr>z_Meta = m, z_Spec = s, z_Status = t\<rparr>))"

definition read_zone where
  "read_zone rM rC = struct_read zone_parts zone_value (pair_read rM
      (pair_read read_zone_spec (read_zone_status rC)))"
definition reach_zone where
  "reach_zone sM sC = struct_reach zone_parts (pair_reach sM
      (pair_reach reach_zone_spec (reach_zone_status sC)))"

definition list_parts ::
    "'lm g_list \<Rightarrow> 'lm \<times> slice option" where "list_parts x = (gl_Meta x, gl_Items x)"

definition list_put where "list_put x = (\<lambda>(m, is). x\<lparr>gl_Meta := m, gl_Items := is\<rparr>)"

definition list_value ::
    "'lm g_list \<Rightarrow> 'lv \<times> 'v list \<Rightarrow> (string \<times> string) \<times> 'lv \<times> 'v list" where
  "list_value x v = (gl_Type x, v)"

definition read_entries where
  "read_entries rM rL rC = struct_read list_parts list_value
      (pair_read rL (slice_read KEntries (read_entry rM rC)))"
definition reach_entries where
  "reach_entries sM sL sC = struct_reach list_parts (pair_reach sL (slice_reach KEntries (reach_entry sM sC)))"
definition read_zones where
  "read_zones rM rL rC = struct_read list_parts list_value (pair_read rL (slice_read KZones (read_zone rM rC)))"
definition reach_zones where
  "reach_zones sM sL sC = struct_reach list_parts (pair_reach sL (slice_reach KZones (reach_zone sM sC)))"

lemmas parts_defs = service_parts_def entry_spec_parts_def entry_status_parts_def entry_parts_def zone_spec_parts_def
  zone_status_parts_def zone_parts_def list_parts_def
lemmas with_defs = service_put_def entry_spec_put_def entry_status_put_def entry_put_def zone_spec_put_def
  zone_status_put_def zone_put_def list_put_def
lemmas value_defs = service_value_def entry_spec_value_def entry_status_value_def entry_value_def zone_spec_value_def
  zone_status_value_def zone_value_def list_value_def

section \<open>The copies keep the contract\<close>

text \<open>Every \<open>DeepCopyInto\<close> copies the parts with pointers one after the other.\<close>

lemmas into_simps = fun_eq_iff struct_copy_def pair_copy_def parts_defs with_defs Let_def split_beta

lemma service_into: "ServiceSpec_DeepCopyInto = struct_copy service_parts service_put
    (copy_flat_slice KRecords zero_record)"
  by (simp add: into_simps ServiceSpec_DeepCopyInto_def)

abbreviation copy_strings where "copy_strings \<equiv> copy_flat_slice KStrings []"

lemma entry_spec_into:
  "CoreDNSSpec_DeepCopyInto = struct_copy entry_spec_parts entry_spec_put (pair_copy copy_strings
      (pair_copy copy_strings
     (pair_copy copy_strings (pair_copy copy_strings (pair_copy
         (copy_pointer KService zero_g_service ServiceSpec_DeepCopyInto) copy_strings)))))"
  by (simp add: into_simps CoreDNSSpec_DeepCopyInto_def)

lemma entry_status_into:
  "CoreDNSStatus_DeepCopyInto L = struct_copy entry_status_parts entry_status_put
     (pair_copy (copy_slice KConditions (cl_ZeroCondition L) (cl_Condition L)) copy_strings)"
  by (simp add: into_simps CoreDNSStatus_DeepCopyInto_def)

lemma entry_into:
  "CoreDNSEntry_DeepCopyInto L = struct_copy entry_parts entry_put
     (pair_copy (cl_Meta L) (pair_copy CoreDNSSpec_DeepCopyInto (CoreDNSStatus_DeepCopyInto L)))"
  by (simp add: into_simps CoreDNSEntry_DeepCopyInto_def)

lemma zone_spec_into:
  "HostedZoneSpec_DeepCopyInto = struct_copy zone_spec_parts zone_spec_put
     (pair_copy (copy_pointer KString [] Pair) (pair_copy (copy_pointer KString [] Pair) copy_strings))"
  by (simp add: into_simps HostedZoneSpec_DeepCopyInto_def)

lemma zone_status_into:
  "HostedZoneStatus_DeepCopyInto L = struct_copy zone_status_parts zone_status_put
     (pair_copy (copy_slice KConditions (cl_ZeroCondition L) (cl_Condition L)) (pair_copy copy_strings
         (copy_pointer KObserved zero_observed Pair)))"
  by (simp add: into_simps HostedZoneStatus_DeepCopyInto_def)

lemma zone_into:
  "HostedZone_DeepCopyInto L = struct_copy zone_parts zone_put
     (pair_copy (cl_Meta L) (pair_copy HostedZoneSpec_DeepCopyInto (HostedZoneStatus_DeepCopyInto L)))"
  by (simp add: into_simps HostedZone_DeepCopyInto_def)

lemma entries_into:
  "CoreDNSEntryList_DeepCopyInto L = struct_copy list_parts list_put
     (pair_copy (cl_List L) (copy_slice KEntries (zero_g_entry L) (CoreDNSEntry_DeepCopyInto L)))"
  by (simp add: into_simps CoreDNSEntryList_DeepCopyInto_def)

lemma zones_into:
  "HostedZoneList_DeepCopyInto L = struct_copy list_parts list_put
     (pair_copy (cl_List L) (copy_slice KZones (zero_g_zone L) (HostedZone_DeepCopyInto L)))"
  by (simp add: into_simps HostedZoneList_DeepCopyInto_def)

lemmas copyable_intros = copyable_pair copyable_pointer copyable_slice copyable_flat_slice
    copyable_flat kind_laws
lemmas struct_simps = parts_defs with_defs value_defs split_beta

lemma copyable_service: "copyable read_service reach_service ServiceSpec_DeepCopyInto"
  unfolding read_service_def reach_service_def service_into
  by (rule copyable_struct) (simp_all add: struct_simps copyable_intros)

lemma copyable_entry_spec: "copyable read_entry_spec reach_entry_spec CoreDNSSpec_DeepCopyInto"
  unfolding read_entry_spec_def reach_entry_spec_def entry_spec_into
  by (rule copyable_struct) (simp_all add: struct_simps copyable_intros copyable_service)

lemma copyable_zone_spec: "copyable read_zone_spec reach_zone_spec HostedZoneSpec_DeepCopyInto"
  unfolding read_zone_spec_def reach_zone_spec_def zone_spec_into
  by (rule copyable_struct) (simp_all add: struct_simps copyable_intros)

text \<open>The specifications have no parts of the library, so that their copies keep the contract as they are.\<close>

interpretation entry_spec: copyable read_entry_spec reach_entry_spec CoreDNSSpec_DeepCopyInto
  by (rule copyable_entry_spec)

interpretation zone_spec: copyable read_zone_spec reach_zone_spec HostedZoneSpec_DeepCopyInto
  by (rule copyable_zone_spec)

text \<open>What the copies of the library have to do.\<close>

definition lib_copies where
  "lib_copies L rM sM rL sL rC sC \<longleftrightarrow> copyable rM sM (cl_Meta L) \<and> copyable rL sL (cl_List L) \<and> copyable rC sC (cl_Condition L)"

lemma copyable_entry_status: "copyable rC sC (cl_Condition L) \<Longrightarrow> copyable (read_entry_status rC) (reach_entry_status sC) (CoreDNSStatus_DeepCopyInto L)"
  unfolding read_entry_status_def reach_entry_status_def entry_status_into
  by (rule copyable_struct) (simp_all add: struct_simps copyable_intros)

lemma copyable_zone_status: "copyable rC sC (cl_Condition L) \<Longrightarrow> copyable (read_zone_status rC) (reach_zone_status sC) (HostedZoneStatus_DeepCopyInto L)"
  unfolding read_zone_status_def reach_zone_status_def zone_status_into
  by (rule copyable_struct) (simp_all add: struct_simps copyable_intros)

lemma copyable_entry:
  "copyable rM sM (cl_Meta L) \<Longrightarrow> copyable rC sC (cl_Condition L) \<Longrightarrow> copyable (read_entry rM rC) (reach_entry sM sC) (CoreDNSEntry_DeepCopyInto L)"
  unfolding read_entry_def reach_entry_def entry_into
  by (rule copyable_struct) (simp_all add: struct_simps copyable_pair copyable_entry_spec copyable_entry_status)

lemma copyable_zone:
  "copyable rM sM (cl_Meta L) \<Longrightarrow> copyable rC sC (cl_Condition L) \<Longrightarrow> copyable (read_zone rM rC) (reach_zone sM sC) (HostedZone_DeepCopyInto L)"
  unfolding read_zone_def reach_zone_def zone_into
  by (rule copyable_struct) (simp_all add: struct_simps copyable_pair copyable_zone_spec copyable_zone_status)

lemma copyable_entries:
  "lib_copies L rM sM rL sL rC sC \<Longrightarrow> copyable (read_entries rM rL rC) (reach_entries sM sL sC)
      (CoreDNSEntryList_DeepCopyInto L)"
  unfolding read_entries_def reach_entries_def entries_into
  by (rule copyable_struct) (simp_all add: struct_simps lib_copies_def copyable_pair copyable_slice
      copyable_entry)

lemma copyable_zones:
  "lib_copies L rM sM rL sL rC sC \<Longrightarrow> copyable (read_zones rM rL rC) (reach_zones sM sL sC)
      (HostedZoneList_DeepCopyInto L)"
  unfolding read_zones_def reach_zones_def zones_into
  by (rule copyable_struct) (simp_all add: struct_simps lib_copies_def copyable_pair copyable_slice
      copyable_zone)

section \<open>Objects\<close>

datatype 'lv object_value =
    EntryValue "((string \<times> string) \<times> coredns_entry) option"
  | EntryListValue "((string \<times> string) \<times> 'lv \<times> ((string \<times> string) \<times> coredns_entry) list) option"
  | ZoneValue "((string \<times> string) \<times> hosted_zone) option"
  | ZoneListValue "((string \<times> string) \<times> 'lv \<times> ((string \<times> string) \<times> hosted_zone) list) option"

text \<open>The value behind an object and the cells that belong to it; \<open>None\<close> in a value is a nil pointer.\<close>

fun object_read where
  "object_read rM rL rC m (EntryObject p) = map_option EntryValue (pointer_read KEntry (read_entry rM rC) m p)"
| "object_read rM rL rC m (EntryListObject p) = map_option EntryListValue (pointer_read KEntryList (read_entries rM rL rC) m p)"
| "object_read rM rL rC m (ZoneObject p) = map_option ZoneValue (pointer_read KZone (read_zone rM rC) m p)"
| "object_read rM rL rC m (ZoneListObject p) = map_option ZoneListValue (pointer_read KZoneList (read_zones rM rL rC) m p)"

fun object_reach where
  "object_reach sM sL sC m (EntryObject p) = pointer_reach KEntry (reach_entry sM sC) m p"
| "object_reach sM sL sC m (EntryListObject p) = pointer_reach KEntryList (reach_entries sM sL sC) m p"
| "object_reach sM sL sC m (ZoneObject p) = pointer_reach KZone (reach_zone sM sC) m p"
| "object_reach sM sL sC m (ZoneListObject p) = pointer_reach KZoneList (reach_zones sM sL sC) m p"

fun is_nil :: "runtime_object \<Rightarrow> bool" where
  "is_nil (EntryObject p) \<longleftrightarrow> p = None"
| "is_nil (EntryListObject p) \<longleftrightarrow> p = None"
| "is_nil (ZoneObject p) \<longleftrightarrow> p = None"
| "is_nil (ZoneListObject p) \<longleftrightarrow> p = None"

text \<open>Everything is as before except in the cells given.\<close>

definition changed_in :: "nat set \<Rightarrow> 'cell mem \<Rightarrow> 'cell mem \<Rightarrow> bool" where
  "changed_in A m m' \<longleftrightarrow> (\<forall>a. a \<notin> A \<longrightarrow> mm_Cell m' a = mm_Cell m a)"

lemma copy_outcome:
  assumes C: "copyable r s c" and K:
      "kind_law K" and "sane m" "pointer_read K r m p = Some v" "copy_pointer K zero c p m = (q, m')"
  shows "pointer_read K r m' q = Some v" "q = None \<longleftrightarrow> p = None" "grows m m'"
    "changed_in (pointer_reach K s m' p) m' m'' \<Longrightarrow> pointer_read K r m'' q = Some v"
    "changed_in (pointer_reach K s m' q) m' m'' \<Longrightarrow> pointer_read K r m'' p = Some v"
proof -
  note P = copyable_pointer [OF C K, of zero]
  show v: "pointer_read K r m' q = Some v" by (rule copyable.copy_value [OF P assms(3-5)])
  show "grows m m'" using copyable.copy_memory [OF P assms(3-5)] ..
  show "q = None \<longleftrightarrow> p = None" using v assms(4) by (auto simp: pointer_read_def split: option.splits)
  show "changed_in (pointer_reach K s m' p) m' m'' \<Longrightarrow> pointer_read K r m'' q = Some v"
    "changed_in (pointer_reach K s m' q) m' m'' \<Longrightarrow> pointer_read K r m'' p = Some v"
    using copyable.independent [OF P assms(3-5)] unfolding changed_in_def by blast+
qed

lemmas copy_methods = CoreDNSEntry_DeepCopyObject_def CoreDNSEntryList_DeepCopyObject_def HostedZone_DeepCopyObject_def
  HostedZoneList_DeepCopyObject_def CoreDNSEntry_DeepCopy_def CoreDNSEntryList_DeepCopy_def HostedZone_DeepCopy_def HostedZoneList_DeepCopy_def

text \<open>A nil pointer is copied to the nil interface, not to an interface that holds a nil pointer.\<close>

lemma copy_of_nil: "is_nil ob \<Longrightarrow> DeepCopyObject L ob m = (None, m)"
  by (cases ob) (simp_all add: copy_methods copy_pointer_def)

lemma copied_object:
  assumes "copyable r s c" "kind_law K" "sane m"
    and rd: "\<And>m p. object_read rM rL rC m (tag p) = map_option val (pointer_read K r m p)"
    and re: "\<And>m p. object_reach sM sL sC m (tag p) = pointer_reach K s m p"
    and v: "object_read rM rL rC m (tag p) = Some v"
    and cp: "DeepCopyObject L (tag p) m = (let (q, m) = copy_pointer K zero c p m in if q \<noteq> None then (Some (tag q), m) else (None, m))"
    and ob: "ob = tag p" "p \<noteq> None" "DeepCopyObject L ob m = (res, m')"
  shows "\<exists>ob'. res = Some ob' \<and> object_read rM rL rC m' ob' = Some v \<and> grows m m' \<and>
    (\<forall>m''. changed_in (object_reach sM sL sC m' ob) m' m'' \<longrightarrow> object_read rM rL rC m'' ob' = Some v) \<and>
    (\<forall>m''. changed_in (object_reach sM sL sC m' ob') m' m'' \<longrightarrow> object_read rM rL rC m'' ob = Some v)"
proof -
  obtain q m1 where q: "copy_pointer K zero c p m = (q, m1)" by (rule prod.exhaust)
  from v rd obtain w where w: "pointer_read K r m p = Some w" "v = val w" by auto
  note o = copy_outcome [OF assms(1-3) w(1) q]
  have "res = Some (tag q)" "m' = m1" using cp ob o(2) q by auto
  then show ?thesis using o w(2) by (simp add: rd re ob(1))
qed

section \<open>Properties\<close>

text \<open>C21: the copy of an object, an entry, a zone or a list of them, denotes the value of the
  original, which is left as it is; and from then on the two are independent: however the memory
  of one is changed, the other keeps its value.\<close>

theorem deep_copy_independent:
  assumes "lib_copies L rM sM rL sL rC sC" "sane m" "object_read rM rL rC m ob = Some v" "\<not> is_nil ob"
    and "DeepCopyObject L ob m = (res, m')"
  shows "\<exists>ob'. res = Some ob' \<and> object_read rM rL rC m' ob' = Some v \<and> grows m m' \<and>
    (\<forall>m''. changed_in (object_reach sM sL sC m' ob) m' m'' \<longrightarrow> object_read rM rL rC m'' ob' = Some v) \<and>
    (\<forall>m''. changed_in (object_reach sM sL sC m' ob') m' m'' \<longrightarrow> object_read rM rL rC m'' ob = Some v)"
proof (cases ob)
  case (EntryObject p)
  have C: "copyable (read_entry rM rC) (reach_entry sM sC) (CoreDNSEntry_DeepCopyInto L)"
    using assms(1) by (simp add: lib_copies_def copyable_entry)
  show ?thesis by (rule copied_object
      [where tag = EntryObject and zero = "zero_g_entry L" and val = EntryValue and rM = rM and rL = rL and rC = rC and sM = sM and sL = sL and sC = sC, OF C kind_laws(9) assms(2)])
      (use assms(3-5) EntryObject in \<open>simp_all add: copy_methods\<close>)
next
  case (EntryListObject p)
  show ?thesis by (rule copied_object
      [where tag = EntryListObject and zero = "zero_g_list L" and val = EntryListValue and rM = rM and rL = rL and rC = rC and sM = sM and sL = sL and sC = sC, OF copyable_entries [OF assms(1)] kind_laws(11) assms(2)])
      (use assms(3-5) EntryListObject in \<open>simp_all add: copy_methods\<close>)
next
  case (ZoneObject p)
  have C: "copyable (read_zone rM rC) (reach_zone sM sC) (HostedZone_DeepCopyInto L)"
    using assms(1) by (simp add: lib_copies_def copyable_zone)
  show ?thesis by (rule copied_object
      [where tag = ZoneObject and zero = "zero_g_zone L" and val = ZoneValue and rM = rM and rL = rL and rC = rC and sM = sM and sL = sL and sC = sC, OF C kind_laws(15) assms(2)])
      (use assms(3-5) ZoneObject in \<open>simp_all add: copy_methods\<close>)
next
  case (ZoneListObject p)
  show ?thesis by (rule copied_object
      [where tag = ZoneListObject and zero = "zero_g_list L" and val = ZoneListValue and rM = rM and rL = rL and rC = rC and sM = sM and sL = sL and sC = sC, OF copyable_zones [OF assms(1)] kind_laws(17) assms(2)])
      (use assms(3-5) ZoneListObject in \<open>simp_all add: copy_methods\<close>)
qed

text \<open>A zone with a class and a domain name, in a memory of three cells; metadata and conditions without pointers.\<close>

definition flat_lib :: "(object_meta, unit, condition, unit) copy_lib" where
  "flat_lib = \<lparr>cl_Meta = Pair, cl_List = Pair, cl_Condition = Pair, cl_ZeroMeta = zero_meta, cl_ZeroList = (),
     cl_ZeroCondition = \<lparr>c_Type = [], c_Status = ConditionUnknown, c_Reason = [], c_Message = [], c_ObservedGeneration = 0\<rparr>\<rparr>"

definition sample_zone :: "object_meta g_zone" where
  "sample_zone = \<lparr>go_Type = (''HostedZone'', ''coredns.mandelsoft.org/v1alpha1''), go_Meta = named ''default'' ''a'',
     go_Spec = zero_g_zone_spec\<lparr>gz_Class := Some 1, gz_DomainNames := Some \<lparr>sl_Array = 0, sl_Offset = 0, sl_Length = 1\<rparr>\<rparr>,
     go_Status = zero_g_zone_status\<rparr>"

definition sample_memory :: "(object_meta, unit, condition, unit) memory" where
  "sample_memory = \<lparr>mm_Next = 3, mm_Cell = (\<lambda>_. None)(0 \<mapsto> CStrings [''mandelsoft.de''], 1 \<mapsto> CString ''b'', 2 \<mapsto> CZone sample_zone)\<rparr>"

definition sample_value :: hosted_zone where
  "sample_value = zero_zone\<lparr>z_Meta := named ''default'' ''a'',
     z_Spec := zero_zone_spec\<lparr>zs_Class := Some ''b'', zs_DomainNames := [''mandelsoft.de'']\<rparr>\<rparr>"

theorem deep_copy_independent_witness:
  "\<exists>ob' m'. DeepCopyObject flat_lib (ZoneObject (Some 2)) sample_memory = (Some ob', m') \<and>
     object_read flat_read flat_read flat_read (put_cell 0 (CStrings [''other.org'']) m') ob' =
       Some (ZoneValue (Some (go_Type sample_zone, sample_value)))"
proof -
  let ?v = "ZoneValue (Some (go_Type sample_zone, sample_value)) :: unit object_value"
  let ?ob = "ZoneObject (Some 2)" and ?r = "DeepCopyObject flat_lib (ZoneObject (Some 2)) sample_memory"
  have l: "lib_copies flat_lib flat_read flat_reach flat_read flat_reach flat_read flat_reach"
    by (simp add: lib_copies_def flat_lib_def copyable_flat)
  have s: "sane sample_memory" by (simp add: sane_def sample_memory_def)
  have v: "object_read flat_read flat_read flat_read sample_memory ?ob = Some ?v" by code_simp
  have n: "\<not> is_nil ?ob" by simp
  have d: "?r = (fst ?r, snd ?r)" by simp
  have "load KZone (snd ?r) 2 = Some sample_zone" by code_simp
  then have "0 \<in> object_reach flat_reach flat_reach flat_reach (snd ?r) ?ob"
    by (simp add: pointer_reach_def reach_zone_def struct_reach_def zone_parts_def pair_reach_def reach_zone_spec_def zone_spec_parts_def
        slice_reach_def sample_zone_def)
  then have "changed_in (object_reach flat_reach flat_reach flat_reach (snd ?r) ?ob) (snd ?r) (put_cell 0 (CStrings [''other.org'']) (snd ?r))"
    by (auto simp: changed_in_def)
  with deep_copy_independent [OF l s v n d] d show ?thesis by (metis (no_types, lifting))
qed

end
