(* ===== verification/Spec2Isabelle.thy ===== *)
theory Spec2Isabelle
  imports Zone_Tests Server_Web Server_Addresses Entry_Flow System_Flow Direct_Factory Deep_Copies
begin

text \<open>
  kubedns: hosted zones and DNS entries as Kubernetes resources, and the programs that serve
  them. This development models the three groups of controllers of the repository and what
  they share, and proves what makes them correct. Where the code does not do what it means to,
  the theorem states what it does; these places are listed in the manifest.

  \<^bold>\<open>The program.\<close> A \<open>HostedZone\<close> is a root zone or refers to its parent zone; a \<open>CoreDNSEntry\<close>
  refers to its zone. Four parts of the program work on these objects.

  \<^item> The REST server (internal/controller/server). Its controller for zones keeps a model of
    the zones in memory (zonemodel), its controller for entries sets their state, and two
    request handlers answer name and address queries from the model and from a cache index.
  \<^item> The controllers of the data plane (internal/controller/direct). The one for root zones
    deploys a name server per zone, from manifests rendered by a template engine (pkg/render),
    in one of two deployment modes and with one of three ways to provide names for it; the one
    for entries summarises their state.
  \<^item> The replication (internal/controller/replicate), which copies zones and entries to another
    cluster and copies their status back.
  \<^item> Common code (internal/controller/common): the walk along the references to the root zone,
    which finds the responsible controller, and the validation.

  \<^bold>\<open>Theories and sources.\<close> A theory imports those it calls; every definition has the name of the
  Go function where the name is free, otherwise a prefix tells the component
  (\<open>entry_Reconcile\<close>, \<open>direct_Reconcile\<close>, \<open>rep_Reconcile\<close>).

  \<^item> \<open>Prelude\<close>: calls that may panic (\<open>go\<close>), Go strings, decimal numbers, maps as association
    lists, iteration orders; the collections \<open>go_str\<close> and \<open>go_map\<close>.
  \<^item> \<open>API_Types\<close>: api/coredns/v1alpha1, api/server/v1, and the object metadata.
  \<^item> \<open>Go_Memory\<close>, \<open>Deep_Copies\<close>: zz_generated.deepcopy.go, over a memory with pointers and slices.
    All other theories take objects as values, which these copies justify.
  \<^item> \<open>Externals\<close>: the parameters for packages outside the repository.
  \<^item> \<open>Zone_Names\<close>, \<open>Zone_Model\<close>, \<open>Zone_Fixture\<close>: zonemodel/util.go, model.go, and the objects
    of model_test.go. Zones are heap objects; \<open>AddZone\<close> and \<open>RemoveZone\<close> change the heap,
    \<open>ResolveFQDN\<close> and \<open>ResolveIP\<close> read it. \<open>Zone_Store\<close> and \<open>Zone_Resolve\<close> hold their theory,
    \<open>Zone_Tests\<close> the expectations of the test, evaluated on the model.
  \<^item> \<open>Responsibility\<close>, \<open>Validation\<close>: responsibility.go, indexer.go, options.go, and utils.go,
    validate.go of internal/controller/common.
  \<^item> \<open>Server_Comp\<close>, \<open>Server_Entry\<close>, \<open>Server_Zone\<close>: servercomp, and the requests of the server's
    controllers. A request for a zone works on the model, the queue and the object.
    \<open>Server_Web\<close>: servercomp/server.go and def.go, the endpoints and the dispatch of requests.
  \<^item> \<open>Direct_Entry\<close>: direct/entry/request.go.
  \<^item> \<open>Direct_Status\<close>: validation.go, conditions.go and the observers of request.go in
    direct/hostedzone.
  \<^item> \<open>Cluster_API\<close>: the clusters and the usage index as a parameter over an abstract state, and
    a small store that implements them.
  \<^item> \<open>Direct_Modes\<close>: modes.go, mode_local.go, mode_runtime.go, values.go, the choice of the mode
    in factory.go, the secret trigger of def.go. \<open>Direct_DNS\<close>: dns*.go, assets*.go, options.go.
    \<open>Direct_SelfCheck\<close>: the printing and the simulated rendering of assets.go and
    assets_kubedns.go, and the two checks at the start of cmd/main.go. \<open>Direct_Factory\<close>: the
    creation of the reconcilers in factory.go and entry/reconciler.go.
  \<^item> \<open>Render\<close>: pkg/render/spiff.go.
  \<^item> \<open>Direct_Resources\<close>: delete.go and the part of request.go that applies manifests and reports
    the status. \<open>Direct_Zone\<close>: the rest of request.go and the triggers of reconciler.go.
  \<^item> \<open>Replication\<close>: internal/controller/replicate.
  \<^item> Theories without a source of their own, on how the parts work together: \<open>Server_Answers\<close>,
    \<open>Server_Nested\<close> and \<open>Server_Addresses\<close> (from the object to the answer), \<open>Direct_Deploy\<close> (from
    the values to the objects in the clusters), \<open>Entry_Flow\<close> and \<open>Zone_Flow\<close> (the server and the
    data plane on one object), \<open>Replica_Flow\<close> (the two clusters of a replication), \<open>System_Flow\<close>
    (all controllers on one zone), and this theory.

  \<^bold>\<open>What the lemmas show.\<close>

  \<^item> Zone model: \<open>wf_model\<close> is an invariant of every operation and of everything the server can
    reach; \<open>abs_model\<close> shows the model to be a map from zone keys to declarations, which after
    each reconciliation is what the cluster says. The name query always ends, and it is the
    reference search in the zone the relation \<open>responsible\<close> gives a name to, which is stated
    without the code's descent; the address query answers exactly; the behaviour of the children map on nested
    zones, which differs from its purpose, is stated as it is (lost siblings, stale children,
    cycles on which \<open>AddZone\<close> and the address query do not end).
  \<^item> Copies: the generated copy of an object denotes the same value in memory of its own, so that
    a change of one is never seen by the other.
  \<^item> Walks and validation: they end on every cluster and succeed exactly on chains of existing
    zones; the accepted data are characterised.
  \<^item> REST server: lookups are exact, keys injective, entries of an answer belong to the zone,
    requests reach the handler of their interface. A zone that was reconciled answers for its
    entries by name and by address, from the object of the zone to the document of the answer,
    and a nested zone is found by the names of its root.
  \<^item> Data plane: which controller takes a zone and that this never moves, what a request may
    write, when the finalizer goes, what a deletion reaches and what not, when a zone and an
    entry become Ready, that zones do not share a deployment or lose a shared secret, where
    rendered documents go and what their texts are (over \<open>document\<close>, \<open>labelled_runtime\<close> and
    \<open>rehashed\<close>, which do not use the code's functions), and when the hash annotations are
    complete and their passes end. A
    deployment without problem is complete: all objects of the manifests exist. The program
    starts only with manifests that render. Controllers created for different plain classes and
    runtimes have different finalizers; where names with dashes make them coincide is shown.
  \<^item> The two writers of an object. A server in slave mode acts as the master of an object until
    this has a condition of another controller (\<open>IsMaster\<close>), so the flows compute its mode from
    the object at every turn, as the factories do. Once the data plane has had a turn, a turn of
    the server and a later one of the data plane reach a Ready entry, which both then leave
    alone, whatever turns come before, between and after; a root zone becomes Ready by a turn
    of the data plane, one of the server and one of the data plane.
  \<^item> Replication: replicas are distinct and are not replicated, originals are released after
    their replicas, which errors and references are lost; a replica is up to date after one
    reconciliation while both clusters work; and a zone becomes Ready by way of its replica, through
    replicator, server and data plane, exactly if its deployment in the target runs.

  \<^bold>\<open>Interfaces.\<close> The locale \<open>zone_index\<close> (Zone_Resolve) is the index the queries of the zone
  model call, interpreted by the index of the test and by the component of the server;
  \<open>dns_provider\<close> (Direct_DNS) is the contract of a mode that provides names, interpreted by the
  dispatch over the three modes; \<open>deployment_names\<close> (Direct_Modes) is the contract of a
  deployment mode, interpreted by both; \<open>two_writers\<close> (Entry_Flow) is what two controllers need
  that take turns on one object and of which the first goes by the mark the second leaves,
  interpreted by the server and the data plane on an entry;
  \<open>copyable\<close> (Go_Memory) is the contract of a copy function, interpreted by the copies of the
  specifications, and also what is assumed of the copies of the Kubernetes packages (\<open>lib_copies\<close>).

  \<^bold>\<open>Parameters and hypotheses.\<close> miekg/dns (\<open>dns_lib\<close>), the conditions, finalizers, problems and
  generated names of the Kubernetes packages (\<open>ext\<close>), the clusters (\<open>api\<close>, \<open>replica_api\<close>), the
  template engine with the YAML library and the hash (\<open>engine\<close>) are records of functions. What
  a theorem needs of them is a named predicate: \<open>condition_laws\<close>, \<open>finalizer_laws\<close>,
  \<open>problem_laws\<close>, \<open>refkey_law\<close>, \<open>unique_names\<close>, \<open>index_laws\<close>, \<open>index_frame\<close>, \<open>deletion_laws\<close>,
  \<open>deletion_frame\<close>, \<open>apply_laws\<close>, \<open>yaml_laws\<close>, \<open>cleanup_laws\<close>, and for caches and clusters that
  answer without error \<open>index_up\<close> and \<open>clusters_up\<close>. \<open>deletion_frame\<close> has a flag that tells whether
  the data plane and the runtime are one cluster, as the local mode demands. \<open>unique_names\<close> takes the hash in generated
  names to be free of collisions. \<open>ref_dns\<close>, \<open>ref_ext\<close>, \<open>uniq_ext\<close>, \<open>ref_api\<close>,
  \<open>ref_engine\<close> and \<open>ref_replica\<close> satisfy them and are what the witnesses run. \<open>honest\<close> and
  \<open>finite_zones\<close> say that a cluster returns the object asked for and has finitely many.

  \<^bold>\<open>Loops and bounds.\<close> Loops that may not end are partial functions with the result \<open>None\<close>
  (\<open>propagate\<close>, \<open>forward\<close>, \<open>zone_walk\<close>, \<open>entry_walk\<close>, \<open>responsible_walk\<close>, \<open>resolveIP\<close> by fuel,
  \<open>apply_hashes\<close>). The walks are shown to end on finite clusters, \<open>resolveIP\<close> with any fuel above
  the rank of the zone on acyclic children maps and with none on a cycle, \<open>apply_hashes\<close> on acyclic
  references. Serial numbers are 32 bit words; iteration orders of Go maps are
  parameters, of which only \<open>iteration_order\<close> is assumed.

  \<^bold>\<open>Not modelled.\<close> The programs cmd/main.go beyond its checks, other/main.go and
  other/jwt/main.go (wiring, experiments with HTTP and tokens): they only call libraries and do
  not compute. The controller definitions, which are data of a library outside the repository,
  kubebuilder markers, the registration of the API types, for the same reason. The HTTP listener
  and its shutdown, paths with percent escapes, and the JSON encoding of the answers belong to the
  standard library; the JSON text that a check prints is modelled for valid UTF-8 without line
  separators. The contents of the manifests are data of the template engine. Events, log output
  and the end-to-end tests have no effect on the state. Locks are not modelled: an operation
  under the lock of the zone model is one function.
\<close>

section \<open>A zone with a class, across the controllers\<close>

lemma server_drops_class:
  assumes "zone_parent z = []" "zs_Class (z_Spec z) \<noteq> None"
  shows "zone_Reconcile D E ord opts master cluster get m z =
    Some (RemoveZone m (ZoneKeyFromObject cluster (z_Meta z)), not_responsible opts master z, None)"
  using assms by (simp add: zone_Reconcile_def Let_def root_zone_info Check_eq chain_resp_def)

lemma replicator_drops_class:
  assumes "zone_parent z = []" "zs_Class (z_Spec z) \<noteq> None"
  shows "handler_IsResponsible D E st get ropts r key (s, z) = Some (Ret ((handler_Handle r key False s, z), False, None))"
  using assms by (auto simp: handler_IsResponsible_def root_zone_info chain_resp_def ptr_same_def)

lemma fresh_not_taken:
  assumes "zs_Class (z_Spec z) \<noteq> None" "zt_Observed (z_Status z) = None" "fin_of V \<notin> set (finalizers z)"
  shows "\<not> takes V z"
  using assms by (simp add: takes_def)

section \<open>Properties\<close>

text \<open>C22: no part of the system serves a new zone with a class: for an unregistered root zone with a
  class every controller of the data plane without a finalizer on it ends without a change,
  every reconciliation of a REST server removes it from the zone model whatever the options,
  and no zone replicator is responsible for it, also where the configured class is the zone's.\<close>

theorem classed_zone_unserved:
  assumes "finalizer_laws (ev_E V)" "zone_parent z = []" "zs_Class (z_Spec z) \<noteq> None"
    and "zt_Observed (z_Status z) = None" "fin_of V \<notin> set (finalizers z)" "alnum z"
  shows "direct_Reconcile V key (w, z) = Some (Ret ((w, Some z), None)) \<and>
    (\<exists>m' z'. zone_Reconcile D E ord opts master cluster get' m z = Some (m', z', None) \<and>
      abs_model m' = (abs_model m)(ZoneKeyFromObject cluster (z_Meta z) := None)) \<and>
    (\<exists>s'. handler_IsResponsible D E st get ropts r key (s, z) = Some (Ret ((s', z), False, None)))"
proof (intro conjI)
  show "direct_Reconcile V key (w, z) = Some (Ret ((w, Some z), None))"
    using Reconcile_not_taken [OF assms(1,2) fresh_not_taken [OF assms(3-5)]] assms(6) by metis
  show "\<exists>m' z'. zone_Reconcile D E ord opts master cluster get' m z = Some (m', z', None) \<and>
      abs_model m' = (abs_model m)(ZoneKeyFromObject cluster (z_Meta z) := None)"
    using server_drops_class [OF assms(2,3)] RemoveZone_abs by metis
  show "\<exists>s'. handler_IsResponsible D E st get ropts r key (s, z) = Some (Ret ((s', z), False, None))"
    using replicator_drops_class [OF assms(2,3)] by metis
qed

theorem classed_zone_unserved_witness:
  "direct_Reconcile (class_env ''a'') key_a (running_store, zone_with (Some ''a'') None []) =
      Some (Ret ((running_store, Some (zone_with (Some ''a'') None [])), None)) \<and>
   (\<exists>m'. abs_model m' = (abs_model model_A)(test_key ZoneA := None) \<and> abs_model model_A (test_key ZoneA) \<noteq> None)"
proof -
  let ?z = "zone_with (Some ''a'') None []"
  have z: "zone_parent ?z = []" "zs_Class (z_Spec ?z) \<noteq> None" "zt_Observed (z_Status ?z) = None"
    "fin_of (class_env ''a'') \<notin> set (finalizers ?z)" "alnum ?z" by code_simp+
  have k: "ZoneKeyFromObject test_Source (z_Meta ?z) = test_key ZoneA" "GetZone model_A (test_key ZoneA) \<noteq> None" by code_simp+
  have n: "abs_model model_A (test_key ZoneA) \<noteq> None" using k(2) by (simp add: abs_model_def)
  have f: "finalizer_laws (ev_E (class_env ''a''))" by (simp add: ref_finalizer_laws)
  show ?thesis
    using classed_zone_unserved [OF f z, of key_a running_store ref_dns ref_ext "\<lambda>xs. xs" "\<lparr>so_Class = Some ''a'', so_Slave = False\<rparr>" True
        test_Source "store_get []" model_A] n unfolding k(1) by blast
qed

text \<open>C34: a target class keeps the replicas of zones from being deployed: the replica of an
  unregistered root zone gets the target class, and no controller of the data plane in the
  target cluster that has no finalizer on it takes it, also one configured with that class;
  without a target class a controller without class takes it.\<close>

theorem replica_class_undeployed:
  assumes "finalizer_laws (ev_E V)" "lg_Res L = zone_resource" "lg_Resp L = Some (zone_handler_of D E st get opts r)"
    and "zone_parent z = []" "zt_Observed (z_Status z) = None" "alnum (replica_of L key z)"
    and "fin_of V \<notin> set (finalizers (replica_of L key z))"
  shows "(ro_TargetClass opts \<noteq> [] \<longrightarrow>
      zs_Class (z_Spec (replica_of L key z)) = Some (ro_TargetClass opts) \<and>
      direct_Reconcile V key' (w, replica_of L key z) = Some (Ret ((w, Some (replica_of L key z)), None))) \<and>
    (ro_TargetClass opts = [] \<longrightarrow> do_Class (rc_Options (ev_rc V)) = None \<longrightarrow>
      (\<exists>d. IsResponsibile V w (Some (replica_of L key z)) = Some (Ret ((True, Some d, None), Some (replica_of L key z)))))"
proof -
  note sp = replica_spec [OF assms(2,3), of key z]
  have p: "zone_parent (replica_of L key z) = []" using sp assms(4) by (simp add: SetResponsibility_def)
  have c: "zs_Class (z_Spec (replica_of L key z)) = (if ro_TargetClass opts \<noteq> [] then Some (ro_TargetClass opts) else None)"
    using sp assms(4) by (simp add: SetResponsibility_def)
  have o: "zt_Observed (z_Status (replica_of L key z)) = None" using sp assms(5) by simp
  have "direct_Reconcile V key' (w, replica_of L key z) = Some (Ret ((w, Some (replica_of L key z)), None))"
    if "ro_TargetClass opts \<noteq> []"
    using Reconcile_not_taken [OF assms(1) p fresh_not_taken [OF _ o assms(7)]] assms(6) c that by (metis option.distinct(1))
  moreover have "takes V (replica_of L key z)" if "ro_TargetClass opts = []" "do_Class (rc_Options (ev_rc V)) = None"
    using c o that by (simp add: takes_def)
  ultimately show ?thesis using c IsResponsibile_root [OF assms(1) p] by simp
qed

definition class_logic :: "(hosted_zone, hosted_zone_status, (object_key \<times> hosted_zone) list, ref_problem) logic" where
  "class_logic = zone_logic (replicate_New\<lparr>ro_TargetClass := ''b''\<rparr>)"

theorem replica_class_undeployed_witness:
  "let z = replica_of class_logic key_a (zone_with None None [])
   in zs_Class (z_Spec z) = Some ''b'' \<and>
     direct_Reconcile (class_env ''b'') key_a (running_store, z) = Some (Ret ((running_store, Some z), None))"
proof -
  let ?z = "zone_with None None []" and ?o = "replicate_New\<lparr>ro_TargetClass := ''b''\<rparr>"
  have z: "zone_parent ?z = []" "zt_Observed (z_Status ?z) = None" "alnum (replica_of class_logic key_a ?z)"
    "fin_of (class_env ''b'') \<notin> set (finalizers (replica_of class_logic key_a ?z))" by code_simp+
  have l: "lg_Res class_logic = zone_resource"
    "lg_Resp class_logic = Some (zone_handler_of ref_dns uniq_ext (zone_SetStatusCondition uniq_ext) (\<lambda>w. store_get (map snd w)) ?o no_indices)"
    by (simp_all add: class_logic_def zone_logic_def)
  have "finalizer_laws (ev_E (class_env ''b''))" by (simp add: ref_finalizer_laws)
  from replica_class_undeployed [OF this l z, of key_a running_store] show ?thesis by (simp add: Let_def)
qed

end
